(* ===== verification/Prelude.thy ===== *)
theory Prelude
  imports Main "HOL-Library.List_Lexorder" "HOL-Library.Char_ord" "HOL-Library.Multiset"
begin

text \<open>
  The vocabulary shared by every component: JavaScript objects as association lists in
  their enumeration order, the outcome of a function body with its early returns and
  exceptions, loops over such bodies, and the collections of facts the component proofs
  use.

  A JavaScript object is an association list. A property that is written for the first
  time is enumerated last (\<open>oset\<close>); an object whose keys are integers is enumerated in
  ascending order (\<open>iset\<close>). The absent property and the value \<open>undefined\<close> are both
  \<open>None\<close> of the lookup.
\<close>

named_theorems js_inv \<open>facts that an operation keeps an invariant\<close>
named_theorems js_frame \<open>facts that an operation leaves a part of the state alone\<close>

section \<open>Objects\<close>

type_synonym ('k, 'v) obj = "('k \<times> 'v) list"

abbreviation oget :: "('k, 'v) obj \<Rightarrow> 'k \<Rightarrow> 'v option" where
  "oget \<equiv> map_of"

fun oset :: "'k \<Rightarrow> 'v \<Rightarrow> ('k, 'v) obj \<Rightarrow> ('k, 'v) obj" where
  "oset k v [] = [(k, v)]"
| "oset k v ((a, b) # ps) = (if a = k then (a, v) # ps else (a, b) # oset k v ps)"

fun iset :: "'k::linorder \<Rightarrow> 'v \<Rightarrow> ('k, 'v) obj \<Rightarrow> ('k, 'v) obj" where
  "iset k v [] = [(k, v)]"
| "iset k v ((a, b) # ps) =
     (if k < a then (k, v) # (a, b) # ps
      else if a = k then (k, v) # ps
      else (a, b) # iset k v ps)"

fun odel :: "'k \<Rightarrow> ('k, 'v) obj \<Rightarrow> ('k, 'v) obj" where
  "odel k [] = []"
| "odel k ((a, b) # ps) = (if a = k then odel k ps else (a, b) # odel k ps)"

definition okeys :: "('k, 'v) obj \<Rightarrow> 'k list" where
  "okeys ps = map fst ps"

definition owf :: "('k, 'v) obj \<Rightarrow> bool" where
  "owf ps = distinct (okeys ps)"

definition iwf :: "('k::linorder, 'v) obj \<Rightarrow> bool" where
  "iwf ps = sorted_wrt (<) (okeys ps)"

definition has :: "('k, 'v) obj \<Rightarrow> 'k \<Rightarrow> bool" where
  "has ps k = (oget ps k \<noteq> None)"

lemma okeys_simps [simp]: "okeys [] = []" "okeys ((a, b) # ps) = a # okeys ps"
  by (simp_all add: okeys_def)

lemma has_iff: "has ps k \<longleftrightarrow> k \<in> set (okeys ps)"
  by (simp add: has_def okeys_def map_of_eq_None_iff)

lemma oget_oset [simp]: "oget (oset k v ps) j = (if j = k then Some v else oget ps j)"
  by (induction ps) auto

lemma oget_odel [simp]: "oget (odel k ps) j = (if j = k then None else oget ps j)"
  by (induction ps) auto

lemma set_okeys_oset [simp]: "set (okeys (oset k v ps)) = insert k (set (okeys ps))"
  by (induction k v ps rule: oset.induct) auto

lemma set_okeys_odel [simp]: "set (okeys (odel k ps)) = set (okeys ps) - {k}"
  by (induction k ps rule: odel.induct) auto

lemma owf_oset [simp]: "owf ps \<Longrightarrow> owf (oset k v ps)"
  by (induction ps) (auto simp: owf_def)

lemma owf_odel [simp]: "owf ps \<Longrightarrow> owf (odel k ps)"
  by (induction ps) (auto simp: owf_def)

lemma set_okeys_iset [simp]: "set (okeys (iset k v ps)) = insert k (set (okeys ps))"
  by (induction k v ps rule: iset.induct) auto

lemma iwf_Cons: "iwf ((a, b) # ps) \<longleftrightarrow> (\<forall>k \<in> set (okeys ps). a < k) \<and> iwf ps"
  by (simp add: iwf_def)

lemma iwf_iset [simp]: "iwf ps \<Longrightarrow> iwf (iset k v ps)"
proof (induction k v ps rule: iset.induct)
  case (2 k v a b ps)
  then show ?case by (auto simp: iwf_Cons dest: order.strict_trans)
qed (simp add: iwf_def)

lemma iwf_odel [simp]: "iwf ps \<Longrightarrow> iwf (odel k ps)"
  by (induction ps) (auto simp: iwf_def)

lemma oget_None_iff: "oget ps k = None \<longleftrightarrow> k \<notin> set (okeys ps)"
  by (simp add: okeys_def map_of_eq_None_iff)

lemma oget_in_okeys: "oget ps k = Some v \<Longrightarrow> k \<in> set (okeys ps)"
  by (metis oget_None_iff option.distinct(1))

lemma oget_iset [simp]: "iwf ps \<Longrightarrow> oget (iset k v ps) j = (if j = k then Some v else oget ps j)"
  by (induction ps) (auto simp: iwf_Cons oget_None_iff)

lemma iwf_distinct: "iwf ps \<Longrightarrow> distinct (okeys ps)"
  unfolding iwf_def by (metis strict_sorted_iff)

lemma oset_idem: "oget ps k = Some v \<Longrightarrow> owf ps \<Longrightarrow> oset k v ps = ps"
  by (induction ps) (auto simp: owf_def)

text \<open>
  The interface the components use of an object: a lookup, an assignment, a deletion and
  the enumeration of the keys. Both enumeration orders provide it.
\<close>

locale js_object =
  fixes look :: "'o \<Rightarrow> 'k \<Rightarrow> 'v option"
    and put :: "'k \<Rightarrow> 'v \<Rightarrow> 'o \<Rightarrow> 'o"
    and rem :: "'k \<Rightarrow> 'o \<Rightarrow> 'o"
    and enum :: "'o \<Rightarrow> 'k list"
    and wf :: "'o \<Rightarrow> bool"
  assumes look_put: "wf ob \<Longrightarrow> look (put k v ob) j = (if j = k then Some v else look ob j)"
    and look_rem: "wf ob \<Longrightarrow> look (rem k ob) j = (if j = k then None else look ob j)"
    and enum_look: "wf ob \<Longrightarrow> k \<in> set (enum ob) \<longleftrightarrow> look ob k \<noteq> None"
    and enum_distinct: "wf ob \<Longrightarrow> distinct (enum ob)"
    and wf_put: "wf ob \<Longrightarrow> wf (put k v ob)"
    and wf_rem: "wf ob \<Longrightarrow> wf (rem k ob)"
begin

lemma set_enum_put: "wf ob \<Longrightarrow> set (enum (put k v ob)) = insert k (set (enum ob))"
  by (auto simp: enum_look wf_put look_put split: if_splits)

lemma set_enum_rem: "wf ob \<Longrightarrow> set (enum (rem k ob)) = set (enum ob) - {k}"
  by (auto simp: enum_look wf_rem look_rem split: if_splits)

lemma size_put_fresh: "wf ob \<Longrightarrow> look ob k = None \<Longrightarrow> length (enum (put k v ob)) = Suc (length (enum ob))"
  using distinct_card [OF enum_distinct [OF wf_put, of ob k v]] distinct_card [OF enum_distinct, of ob]
  by (simp add: set_enum_put enum_look)

lemma size_put_old: "wf ob \<Longrightarrow> look ob k \<noteq> None \<Longrightarrow> length (enum (put k v ob)) = length (enum ob)"
  using distinct_card [OF enum_distinct [OF wf_put, of ob k v]] distinct_card [OF enum_distinct, of ob]
  by (simp add: set_enum_put enum_look insert_absorb)

lemma size_rem: "wf ob \<Longrightarrow> look ob k \<noteq> None \<Longrightarrow> Suc (length (enum (rem k ob))) = length (enum ob)"
  using distinct_card [OF enum_distinct [OF wf_rem, of ob k]] distinct_card [OF enum_distinct, of ob]
    card_Suc_Diff1 [of "set (enum ob)" k]
  by (simp add: set_enum_rem enum_look)

lemma enum_Nil: "wf ob \<Longrightarrow> enum ob = [] \<longleftrightarrow> (\<forall>k. look ob k = None)"
  using enum_look [of ob] by (metis list.set_intros(1) list.set_cases empty_iff empty_set neq_Nil_conv)

lemma rem_put_fresh: "wf ob \<Longrightarrow> look ob k = None \<Longrightarrow> look (rem k (put k v ob)) j = look ob j"
  by (simp add: look_rem wf_put look_put)

end

interpretation sobj: js_object map_of oset odel okeys owf
  by unfold_locales (simp_all add: oget_None_iff, simp add: owf_def)

interpretation iobj: js_object map_of iset odel okeys iwf
  by unfold_locales (simp_all add: oget_None_iff iwf_distinct)

section \<open>Outcomes\<close>

text \<open>
  What running a piece of a function body leaves: it ran to its end (\<open>Done\<close>), the
  function returned early (\<open>Halt\<close>), or an exception left it (\<open>Threw\<close>). All three
  carry the state, because what was assigned before stays assigned. The exceptions are
  the reads of a property of \<open>undefined\<close> or \<open>null\<close>; \<open>Hang\<close> stands for a loop that never ends.
\<close>

datatype exn = TypeError | Hang | URIError

datatype 's run = Done 's | Halt 's | Threw exn 's

fun run_state :: "'s run \<Rightarrow> 's" where
  "run_state (Done s) = s"
| "run_state (Halt s) = s"
| "run_state (Threw e s) = s"

fun seq :: "'s run \<Rightarrow> ('s \<Rightarrow> 's run) \<Rightarrow> 's run" where
  "seq (Done s) f = f s"
| "seq (Halt s) f = Halt s"
| "seq (Threw e s) f = Threw e s"

fun finished :: "'s run \<Rightarrow> bool" where
  "finished (Done s) = True"
| "finished r = False"

text \<open>The end of a called function: an early return is a normal end for the caller.\<close>

fun called :: "'s run \<Rightarrow> 's run" where
  "called (Halt s) = Done s"
| "called r = r"

fun each :: "('a \<Rightarrow> 's \<Rightarrow> 's run) \<Rightarrow> 'a list \<Rightarrow> 's \<Rightarrow> 's run" where
  "each f [] s = Done s"
| "each f (x # xs) s = seq (f x s) (each f xs)"

definition holds :: "('s \<Rightarrow> bool) \<Rightarrow> 's run \<Rightarrow> bool" where
  "holds I r = I (run_state r)"

lemma holds_simps [simp]: "holds I (Done s) = I s" "holds I (Halt s) = I s" "holds I (Threw e s) = I s"
  by (simp_all add: holds_def)

lemma holds_seq: "holds I r \<Longrightarrow> (\<And>s. I s \<Longrightarrow> holds I (f s)) \<Longrightarrow> holds I (seq r f)"
  by (cases r) (auto simp: holds_def)

lemma holds_each: "I s \<Longrightarrow> (\<And>x s. x \<in> set xs \<Longrightarrow> I s \<Longrightarrow> holds I (f x s)) \<Longrightarrow> holds I (each f xs s)"
  by (induction xs arbitrary: s) (auto intro!: holds_seq)

lemma holds_called: "holds I r \<Longrightarrow> holds I (called r)"
  by (cases r) auto

lemma seq_Done_right [simp]: "seq r Done = r"
  by (cases r) auto

lemma each_append: "each f (xs @ ys) s = seq (each f xs s) (each f ys)"
proof (induction xs arbitrary: s)
  case (Cons x xs)
  then show ?case by (cases "f x s") auto
qed simp

text \<open>
  A loop whose steps all run to their end: each step makes its own fact \<open>Q x\<close> true, and the
  relation \<open>R\<close> between the states before and after keeps the facts of the earlier steps.
\<close>

lemma each_Done:
  assumes refl: "\<And>s. R s s" and trans: "\<And>s s' s''. R s s' \<Longrightarrow> R s' s'' \<Longrightarrow> R s s''"
    and stable: "\<And>x s s'. R s s' \<Longrightarrow> Q x s \<Longrightarrow> Q x s'"
  shows "I s \<Longrightarrow> (\<And>x s. x \<in> set xs \<Longrightarrow> I s \<Longrightarrow> \<exists>s'. f x s = Done s' \<and> I s' \<and> R s s' \<and> Q x s') \<Longrightarrow>
    \<exists>s'. each f xs s = Done s' \<and> I s' \<and> R s s' \<and> (\<forall>x \<in> set xs. Q x s')"
proof (induction xs arbitrary: s)
  case Nil
  then show ?case by (simp add: refl)
next
  case (Cons x xs)
  have "\<exists>s1. f x s = Done s1 \<and> I s1 \<and> R s s1 \<and> Q x s1" by (rule Cons.prems(2)) (simp_all add: Cons.prems(1))
  then obtain s1 where s1: "f x s = Done s1" "I s1" "R s s1" "Q x s1" by blast
  have "\<exists>s'. each f xs s1 = Done s' \<and> I s' \<and> R s1 s' \<and> (\<forall>x \<in> set xs. Q x s')"
    by (rule Cons.IH [OF s1(2)]) (rule Cons.prems(2), simp_all)
  then obtain s' where s': "each f xs s1 = Done s'" "I s'" "R s1 s'" "\<forall>y \<in> set xs. Q y s'" by blast
  have "R s s'" using s1(3) s'(3) by (rule trans)
  moreover have "Q x s'" using s'(3) s1(4) by (rule stable)
  ultimately show ?case using s1 s' by simp
qed

text \<open>A part \<open>v\<close> of the state that no step of a loop or a sequence changes.\<close>

lemma each_view: "(\<And>x s. v (run_state (f x s)) = v s) \<Longrightarrow> v (run_state (each f xs s)) = v s"
proof (induction xs arbitrary: s)
  case (Cons x xs)
  then show ?case using Cons.prems [of x s] by (cases "f x s") simp_all
qed simp

lemma seq_view: "(\<And>s. v (run_state (f s)) = v s) \<Longrightarrow> v (run_state (seq r f)) = v (run_state r)"
  by (cases r) simp_all

lemma fold_skip [simp]: "fold (\<lambda>x s. s) xs s = s"
  by (induction xs) simp_all

lemma fold_view: "(\<And>x s. v (f x s) = v s) \<Longrightarrow> v (fold f xs s) = v s"
  by (induction xs arbitrary: s) simp_all

lemma run_state_called [simp]: "run_state (called r) = run_state r"
  by (cases r) simp_all

section \<open>Loops that gather results\<close>

text \<open>
  A loop that pushes what each step finds onto a list that starts empty; a step that throws
  ends the whole loop.
\<close>

fun gather :: "('a \<Rightarrow> exn + 'b list) \<Rightarrow> 'a list \<Rightarrow> exn + 'b list" where
  "gather f [] = Inr []"
| "gather f (x # xs) = (case f x of
      Inl e \<Rightarrow> Inl e
    | Inr ys \<Rightarrow> (case gather f xs of Inl e \<Rightarrow> Inl e | Inr zs \<Rightarrow> Inr (ys @ zs)))"

lemma gather_ok: "(\<And>x. x \<in> set xs \<Longrightarrow> f x = Inr (g x)) \<Longrightarrow> gather f xs = Inr (concat (map g xs))"
  by (induction xs) simp_all

lemma gather_cong [fundef_cong]:
  "xs = ys \<Longrightarrow> (\<And>x. x \<in> set ys \<Longrightarrow> f x = g x) \<Longrightarrow> gather f xs = gather g ys"
proof -
  assume "xs = ys" "\<And>x. x \<in> set ys \<Longrightarrow> f x = g x"
  then show "gather f xs = gather g ys" by (induction ys arbitrary: xs) (auto split: sum.splits)
qed

lemma gather_all:
  "(\<And>x. x \<in> set xs \<Longrightarrow> \<exists>zs. f x = Inr zs \<and> (\<forall>z \<in> set zs. P z)) \<Longrightarrow>
   \<exists>ys. gather f xs = Inr ys \<and> (\<forall>y \<in> set ys. P y)"
proof (induction xs)
  case (Cons x xs)
  obtain zs where "f x = Inr zs" "\<forall>z \<in> set zs. P z" using Cons.prems [of x] by auto
  moreover obtain ys where "gather f xs = Inr ys" "\<forall>y \<in> set ys. P y" using Cons by auto
  ultimately show ?case by auto
qed simp

lemma gather_set: "gather f xs = Inr ys \<Longrightarrow> set ys = (\<Union>x \<in> set xs. case f x of Inl e \<Rightarrow> {} | Inr zs \<Rightarrow> set zs)"
  by (induction xs arbitrary: ys) (auto split: sum.splits)

lemma gather_err: "gather f xs = Inl e \<Longrightarrow> \<exists>x \<in> set xs. f x = Inl e"
  by (induction xs) (auto split: sum.splits)

lemma gather_InrD: "gather f xs = Inr ys \<Longrightarrow> x \<in> set xs \<Longrightarrow> \<exists>zs. f x = Inr zs"
  by (induction xs arbitrary: ys) (auto split: sum.splits)

text \<open>Pieces one after another; the first that throws ends it.\<close>

fun pieces :: "(exn + 'a list) list \<Rightarrow> exn + 'a list" where
  "pieces [] = Inr []"
| "pieces (r # rs) = (case r of Inl e \<Rightarrow> Inl e | Inr xs \<Rightarrow> map_sum id ((@) xs) (pieces rs))"

lemma map_sum_Inr: "map_sum id f r = Inr y \<longleftrightarrow> (\<exists>x. r = Inr x \<and> y = f x)"
  by (cases r) auto

lemma pieces_Inl: "(\<exists>e. pieces rs = Inl e) \<longleftrightarrow> (\<exists>r \<in> set rs. \<exists>e. r = Inl e)"
proof (induction rs)
  case (Cons r rs)
  then show ?case by (cases r; cases "pieces rs") auto
qed simp

section \<open>Lists\<close>

text \<open>\<open>indexOf\<close> and \<open>splice(i, 1)\<close>: the first occurrence goes.\<close>

lemma card_above_Suc: "finite A \<Longrightarrow> n \<in> A \<Longrightarrow> card (A - {..<Suc n}) < card (A - {..<n})" for n :: nat
proof (rule psubset_card_mono)
  assume A: "finite A" "n \<in> A"
  show "finite (A - {..<n})" using A(1) by (rule finite_Diff)
  have "n \<in> A - {..<n}" "n \<notin> A - {..<Suc n}" using A by simp_all
  moreover have "A - {..<Suc n} \<subseteq> A - {..<n}"
    by (rule Diff_mono) (auto simp: lessThan_Suc)
  ultimately show "A - {..<Suc n} \<subset> A - {..<n}" by blast
qed

lemma nth_split3: "i < length xs \<Longrightarrow> xs = take i xs @ xs ! i # drop (Suc i) xs"
  by (simp add: id_take_nth_drop)

lemma distinct_remove1_set: "distinct xs \<Longrightarrow> set (remove1 x xs) = set xs - {x}"
  by (rule set_remove1_eq)

end
