(* ===== verification/JsText.thy ===== *)
theory JsText
  imports Prelude
begin

text \<open>
  The part of JavaScript's strings and regular expressions the sources use: decimal
  numerals, \<open>split\<close> on a one-character separator, \<open>join\<close>, case mapping, and a
  matcher by derivatives with its correctness against the language of the expression.
  A string is a list of UTF-16 code units; the type \<open>char\<close> has those below 256, for which blanks,
  line ends and the two cases of a letter are those of JavaScript. Text with other letters is
  outside the model, except where a theorem takes the language's own function as a parameter.
\<close>

section \<open>Characters\<close>

definition code :: "char \<Rightarrow> nat" where
  "code c = of_char c"

definition is_digit :: "char \<Rightarrow> bool" where
  "is_digit c \<longleftrightarrow> 48 \<le> code c \<and> code c \<le> 57"

definition is_hex :: "char \<Rightarrow> bool" where
  "is_hex c \<longleftrightarrow> is_digit c \<or> (65 \<le> code c \<and> code c \<le> 70) \<or> (97 \<le> code c \<and> code c \<le> 102)"

definition is_word :: "char \<Rightarrow> bool" where
  "is_word c \<longleftrightarrow> is_digit c \<or> (65 \<le> code c \<and> code c \<le> 90) \<or> (97 \<le> code c \<and> code c \<le> 122) \<or> code c = 95"

text \<open>What \<open>\s\<close> matches and \<open>trim\<close> takes off, and the blanks that separate the classes of an element.\<close>

definition is_space :: "char \<Rightarrow> bool" where
  "is_space c \<longleftrightarrow> (9 \<le> code c \<and> code c \<le> 13) \<or> code c = 32 \<or> code c = 160"

definition is_class_sep :: "char \<Rightarrow> bool" where
  "is_class_sep c \<longleftrightarrow> code c = 32 \<or> code c = 9 \<or> code c = 13 \<or> code c = 10 \<or> code c = 12"

definition is_newline :: "char \<Rightarrow> bool" where
  "is_newline c \<longleftrightarrow> code c = 10 \<or> code c = 13"

text \<open>
  The letters below 256 with both cases there. The capitals of \<open>00B5\<close> and \<open>00FF\<close> lie above, that of
  \<open>00DF\<close> is two letters: for a regular expression without regard to case, which compares the capitals
  of single letters, these three equal themselves only, as they do by \<open>lower\<close>.
\<close>

definition is_capital :: "char \<Rightarrow> bool" where
  "is_capital c \<longleftrightarrow> (65 \<le> code c \<and> code c \<le> 90) \<or> (192 \<le> code c \<and> code c \<le> 222 \<and> code c \<noteq> 215)"

definition lower :: "char \<Rightarrow> char" where
  "lower c = (if is_capital c then char_of (code c + 32) else c)"

definition upper :: "char \<Rightarrow> char" where
  "upper c = (if (97 \<le> code c \<and> code c \<le> 122) \<or> (224 \<le> code c \<and> code c \<le> 254 \<and> code c \<noteq> 247)
     then char_of (code c - 32) else c)"

definition toLower :: "string \<Rightarrow> string" where
  "toLower s = map lower s"

definition toUpper :: "string \<Rightarrow> string" where
  "toUpper s = map upper s"

lemma code_char_of [simp]: "n < 256 \<Longrightarrow> code (char_of n) = n"
  by (simp add: code_def)

lemma code_lt: "code c < 256"
  by (simp add: code_def)

lemma code_lower: "code (lower c) = (if is_capital c then code c + 32 else code c)"
  by (auto simp: lower_def is_capital_def)

lemma code_upper: "code (upper c) = (if (97 \<le> code c \<and> code c \<le> 122) \<or> (224 \<le> code c \<and> code c \<le> 254 \<and> code c \<noteq> 247)
    then code c - 32 else code c)"
  using code_lt [of c] by (simp add: upper_def)

lemma code_eq_iff: "code c = code d \<longleftrightarrow> c = d"
  by (simp add: code_def)

lemma lower_lower [simp]: "lower (lower c) = lower c"
  by (auto simp: code_eq_iff [symmetric] code_lower is_capital_def)

lemma lower_upper [simp]: "lower (upper c) = lower c"
  by (auto simp: code_eq_iff [symmetric] code_lower code_upper is_capital_def)

lemma upper_lower [simp]: "upper (lower c) = upper c"
  by (auto simp: code_eq_iff [symmetric] code_lower code_upper is_capital_def)

lemma is_hex_lower [simp]: "is_hex (lower c) = is_hex c"
  by (auto simp: is_hex_def is_digit_def code_lower is_capital_def)

lemma is_hex_upper [simp]: "is_hex (upper c) = is_hex c"
  by (auto simp: is_hex_def is_digit_def code_upper)

section \<open>Decimal numerals\<close>

definition digit_char :: "nat \<Rightarrow> char" where
  "digit_char d = char_of (48 + d)"

definition digit_val :: "char \<Rightarrow> nat" where
  "digit_val c = code c - 48"

fun nat_str :: "nat \<Rightarrow> string" where
  "nat_str n = (if n < 10 then [digit_char n] else nat_str (n div 10) @ [digit_char (n mod 10)])"

declare nat_str.simps [simp del]

definition str_nat :: "string \<Rightarrow> nat" where
  "str_nat s = foldl (\<lambda>a c. 10 * a + digit_val c) 0 s"

definition int_str :: "int \<Rightarrow> string" where
  "int_str i = (if i < 0 then ''-'' @ nat_str (nat (- i)) else nat_str (nat i))"

definition is_num :: "string \<Rightarrow> bool" where
  "is_num s \<longleftrightarrow> s \<noteq> [] \<and> list_all is_digit s"

lemma digit_val_char [simp]: "d < 10 \<Longrightarrow> digit_val (digit_char d) = d"
  by (simp add: digit_val_def digit_char_def)

lemma is_digit_char [simp]: "d < 10 \<Longrightarrow> is_digit (digit_char d)"
  by (simp add: is_digit_def digit_char_def)

lemma str_nat_Nil [simp]: "str_nat [] = 0"
  by (simp add: str_nat_def)

lemma str_nat_snoc [simp]: "str_nat (s @ [c]) = 10 * str_nat s + digit_val c"
  by (simp add: str_nat_def)

lemma str_nat_nat_str [simp]: "str_nat (nat_str n) = n"
proof (induction n rule: nat_str.induct)
  case (1 n)
  show ?case
  proof (cases "n < 10")
    case True
    then have "str_nat (nat_str n) = str_nat ([] @ [digit_char n])"
      by (simp add: nat_str.simps [of n])
    with True show ?thesis by (simp only: str_nat_snoc) simp
  next
    case False
    with 1 show ?thesis by (simp add: nat_str.simps [of n])
  qed
qed

lemma is_num_nat_str [simp]: "is_num (nat_str n)"
proof (induction n rule: nat_str.induct)
  case (1 n)
  then show ?case
    by (cases "n < 10") (simp_all add: nat_str.simps [of n] is_num_def)
qed

lemma nat_str_inject [simp]: "nat_str m = nat_str n \<longleftrightarrow> m = n"
  by (metis str_nat_nat_str)

lemma nat_str_nonempty [simp]: "nat_str n \<noteq> []"
  using is_num_nat_str [of n] by (simp add: is_num_def del: is_num_nat_str)

lemma length_nat_str: "n < 10 ^ k \<Longrightarrow> 0 < k \<Longrightarrow> length (nat_str n) \<le> k"
proof (induction n arbitrary: k rule: nat_str.induct)
  case (1 n)
  show ?case
  proof (cases "n < 10")
    case True
    with "1.prems" show ?thesis by (simp add: nat_str.simps [of n])
  next
    case False
    moreover obtain j where k: "k = Suc j"
      using "1.prems" by (cases k) auto
    moreover have "0 < j" using k False "1.prems" by (cases j) auto
    ultimately have j: "k = Suc j" "0 < j" by simp_all
    with "1.prems" have "n div 10 < 10 ^ j" by simp
    with False j "1.IH" [of j] show ?thesis by (simp add: nat_str.simps [of n])
  qed
qed

section \<open>split and join\<close>

fun split_on :: "char \<Rightarrow> string \<Rightarrow> string list" where
  "split_on d [] = [[]]"
| "split_on d (c # s) =
     (if c = d then [] # split_on d s
      else case split_on d s of [] \<Rightarrow> [[c]] | p # ps \<Rightarrow> (c # p) # ps)"

fun join :: "string \<Rightarrow> string list \<Rightarrow> string" where
  "join sep [] = []"
| "join sep [x] = x"
| "join sep (x # xs) = x @ sep @ join sep xs"

lemma split_on_nonempty [simp]: "split_on d s \<noteq> []"
  by (induction s) (auto split: list.splits)

lemma join_split_on [simp]: "join [d] (split_on d s) = s"
proof (induction s)
  case (Cons c s)
  obtain p ps where s: "split_on d s = p # ps" by (cases "split_on d s") auto
  show ?case
  proof (cases ps)
    case Nil
    with Cons s show ?thesis by auto
  next
    case (Cons q qs)
    with Cons.IH s show ?thesis by auto
  qed
qed simp

lemma split_on_free: "d \<notin> set x \<Longrightarrow> split_on d x = [x]"
  by (induction x) auto

lemma split_on_append: "d \<notin> set x \<Longrightarrow> split_on d (x @ d # s) = x # split_on d s"
  by (induction x) auto

lemma split_on_join: "xs \<noteq> [] \<Longrightarrow> \<forall>x \<in> set xs. d \<notin> set x \<Longrightarrow> split_on d (join [d] xs) = xs"
  by (induction "[d]" xs rule: join.induct) (auto simp: split_on_free split_on_append)

lemma split_on_elem_free: "p \<in> set (split_on d s) \<Longrightarrow> d \<notin> set p"
proof (induction s arbitrary: p)
  case (Cons c s)
  obtain q ps where s: "split_on d s = q # ps" by (cases "split_on d s") auto
  with Cons.prems Cons.IH show ?case by (auto split: if_splits)
qed simp

section \<open>Regular expressions\<close>

datatype re = REmpty | REps | RCls "char \<Rightarrow> bool" | RSeq re re | RAlt re re | RStar re

fun nullable :: "re \<Rightarrow> bool" where
  "nullable REmpty = False"
| "nullable REps = True"
| "nullable (RCls p) = False"
| "nullable (RSeq r q) = (nullable r \<and> nullable q)"
| "nullable (RAlt r q) = (nullable r \<or> nullable q)"
| "nullable (RStar r) = True"

fun mk_seq :: "re \<Rightarrow> re \<Rightarrow> re" where
  "mk_seq REmpty q = REmpty"
| "mk_seq REps q = q"
| "mk_seq r q = RSeq r q"

fun mk_alt :: "re \<Rightarrow> re \<Rightarrow> re" where
  "mk_alt REmpty q = q"
| "mk_alt r REmpty = r"
| "mk_alt r q = RAlt r q"

fun deriv :: "char \<Rightarrow> re \<Rightarrow> re" where
  "deriv c REmpty = REmpty"
| "deriv c REps = REmpty"
| "deriv c (RCls p) = (if p c then REps else REmpty)"
| "deriv c (RSeq r q) =
     (if nullable r then mk_alt (mk_seq (deriv c r) q) (deriv c q) else mk_seq (deriv c r) q)"
| "deriv c (RAlt r q) = mk_alt (deriv c r) (deriv c q)"
| "deriv c (RStar r) = mk_seq (deriv c r) (RStar r)"

fun re_full :: "re \<Rightarrow> string \<Rightarrow> bool" where
  "re_full r [] = nullable r"
| "re_full r (c # s) = re_full (deriv c r) s"

text \<open>\<open>/r/.test(s)\<close>, \<open>/^r/.test(s)\<close>; with both anchors it is \<open>re_full\<close>.\<close>

definition re_any :: re where "re_any = RStar (RCls (\<lambda>_. True))"
definition re_dots :: re where "re_dots = RStar (RCls (\<lambda>c. \<not> is_newline c))"

definition re_search :: "re \<Rightarrow> string \<Rightarrow> bool" where
  "re_search r = re_full (RSeq re_any (RSeq r re_any))"

definition re_prefix :: "re \<Rightarrow> string \<Rightarrow> bool" where
  "re_prefix r = re_full (RSeq r re_any)"

fun re_lit :: "string \<Rightarrow> re" where
  "re_lit [] = REps"
| "re_lit [c] = RCls (\<lambda>d. d = c)"
| "re_lit (c # s) = RSeq (RCls (\<lambda>d. d = c)) (re_lit s)"

fun re_liti :: "string \<Rightarrow> re" where
  "re_liti [] = REps"
| "re_liti [c] = RCls (\<lambda>d. lower d = lower c)"
| "re_liti (c # s) = RSeq (RCls (\<lambda>d. lower d = lower c)) (re_liti s)"

definition re_plus :: "re \<Rightarrow> re" where "re_plus r = RSeq r (RStar r)"
definition re_opt :: "re \<Rightarrow> re" where "re_opt r = RAlt REps r"

fun re_count :: "nat \<Rightarrow> nat \<Rightarrow> re \<Rightarrow> re" where
  "re_count 0 0 r = REps"
| "re_count 0 (Suc m) r = RAlt REps (RSeq r (re_count 0 m r))"
| "re_count (Suc n) m r = RSeq r (re_count n (m - 1) r)"

text \<open>
  \<open>s.replace(/r/, rep)\<close>: the leftmost match, and there the longest one. A greedy
  JavaScript match is the longest for the patterns of the sources (literals, and one
  \<open>.*\<close> between two literals).
\<close>

fun re_longest :: "re \<Rightarrow> string \<Rightarrow> nat option" where
  "re_longest r [] = (if nullable r then Some 0 else None)"
| "re_longest r (c # s) =
     (case re_longest (deriv c r) s of
        Some n \<Rightarrow> Some (Suc n)
      | None \<Rightarrow> if nullable r then Some 0 else None)"

fun re_replace :: "re \<Rightarrow> string \<Rightarrow> string \<Rightarrow> string" where
  "re_replace r rep [] = (case re_longest r [] of Some n \<Rightarrow> rep | None \<Rightarrow> [])"
| "re_replace r rep (c # s) =
     (case re_longest r (c # s) of
        Some n \<Rightarrow> rep @ drop n (c # s)
      | None \<Rightarrow> c # re_replace r rep s)"

inductive_set star :: "string set \<Rightarrow> string set" for A where
  star_Nil: "[] \<in> star A"
| star_app: "u \<in> A \<Longrightarrow> v \<in> star A \<Longrightarrow> u @ v \<in> star A"

fun lang :: "re \<Rightarrow> string set" where
  "lang REmpty = {}"
| "lang REps = {[]}"
| "lang (RCls p) = {[c] | c. p c}"
| "lang (RSeq r q) = {u @ v | u v. u \<in> lang r \<and> v \<in> lang q}"
| "lang (RAlt r q) = lang r \<union> lang q"
| "lang (RStar r) = star (lang r)"

lemma nullable_lang: "nullable r \<longleftrightarrow> [] \<in> lang r"
  by (induction r) (auto intro: star.intros)

lemma lang_mk_seq [simp]: "lang (mk_seq r q) = lang (RSeq r q)"
  by (cases r) auto

lemma lang_mk_alt [simp]: "lang (mk_alt r q) = lang (RAlt r q)"
  by (cases r; cases q) auto

lemma star_Cons: "c # s \<in> star A \<Longrightarrow> \<exists>u v. s = u @ v \<and> c # u \<in> A \<and> v \<in> star A"
proof (induction "c # s" rule: star.induct)
  case (star_app u v)
  then show ?case by (cases u) auto
qed

lemma lang_deriv: "s \<in> lang (deriv c r) \<longleftrightarrow> c # s \<in> lang r"
proof (induction r arbitrary: s)
  case (RSeq r q)
  have "c # s \<in> lang (RSeq r q) \<longleftrightarrow>
      (\<exists>u v. s = u @ v \<and> c # u \<in> lang r \<and> v \<in> lang q) \<or> ([] \<in> lang r \<and> c # s \<in> lang q)"
    by (auto simp: Cons_eq_append_conv)
  with RSeq show ?case by (auto simp: nullable_lang)
next
  case (RStar r)
  have "c # s \<in> star (lang r) \<longleftrightarrow> (\<exists>u v. s = u @ v \<and> c # u \<in> lang r \<and> v \<in> star (lang r))"
    by (auto dest: star_Cons) (metis append_Cons star.star_app)
  with RStar show ?case by auto
qed auto

lemma re_full_lang: "re_full r s \<longleftrightarrow> s \<in> lang r"
  by (induction s arbitrary: r) (simp_all add: nullable_lang lang_deriv)

lemma star_cls: "s \<in> star (lang (RCls P)) \<longleftrightarrow> list_all P s"
proof
  show "list_all P s" if "s \<in> star (lang (RCls P))" using that by (induction rule: star.induct) auto
  show "s \<in> star (lang (RCls P))" if "list_all P s"
    using that
  proof (induction s)
    case (Cons c s)
    then have "[c] @ s \<in> star (lang (RCls P))" by (intro star.intros) auto
    then show ?case by simp
  qed (simp add: star.intros)
qed

text \<open>A character of one class and any number of another.\<close>

lemma re_full_head: "re_full (RSeq (RCls P) (RStar (RCls Q))) n \<longleftrightarrow> (\<exists>c s. n = c # s \<and> P c \<and> list_all Q s)"
proof -
  have "re_full (RSeq (RCls P) (RStar (RCls Q))) n \<longleftrightarrow> (\<exists>u v. n = u @ v \<and> u \<in> lang (RCls P) \<and> v \<in> star (lang (RCls Q)))"
    unfolding re_full_lang lang.simps(4,6) by blast
  moreover have "(\<exists>u v. n = u @ v \<and> u \<in> lang (RCls P) \<and> list_all Q v) \<longleftrightarrow> (\<exists>c s. n = c # s \<and> P c \<and> list_all Q s)"
    by (force intro: exI [of _ "[c]" for c])
  ultimately show ?thesis by (simp only: star_cls)
qed

lemma lang_any [simp]: "lang re_any = UNIV"
proof -
  have "s \<in> star {[c] | c. True}" for s :: string
  proof (induction s)
    case (Cons c s)
    then have "[c] @ s \<in> star {[c] | c. True}" by (intro star.intros) auto
    then show ?case by simp
  qed (rule star.intros)
  then show ?thesis by (auto simp: re_any_def)
qed

lemma lang_lit [simp]: "lang (re_lit s) = {s}"
  by (induction s rule: re_lit.induct) auto

lemma re_search_lit: "re_search (re_lit p) s \<longleftrightarrow> (\<exists>u v. s = u @ p @ v)"
  by (auto simp: re_search_def re_full_lang)

lemma re_prefix_lit: "re_prefix (re_lit p) s \<longleftrightarrow> (\<exists>v. s = p @ v)"
  by (auto simp: re_prefix_def re_full_lang)

lemma re_longest_lang: "re_longest r s = Some n \<Longrightarrow> n \<le> length s \<and> take n s \<in> lang r"
proof (induction s arbitrary: r n)
  case (Cons c s)
  show ?case
  proof (cases "re_longest (deriv c r) s")
    case None
    with Cons.prems show ?thesis by (simp add: nullable_lang split: if_splits)
  next
    case (Some m)
    with Cons.IH [of "deriv c r" m] Cons.prems show ?thesis by (auto simp: lang_deriv)
  qed
qed (simp add: nullable_lang split: if_splits)

end
