(* ===== verification/Model.thy ===== *)
theory Model
  imports JsText
begin

text \<open>
  The data the front end works on, as \<open>mapper.js\<close> holds it in its globals: \<open>data\<close> (what
  the server sent: devices, interfaces, links), \<open>map_data\<close> (what the user arranged:
  positions and turnpoints), \<open>temp_data\<close> and \<open>connections\<close> (what drawing computes), the
  selection and save flags, and the page's elements, of which the code reads and writes
  the position and size. Optional JSON fields are options; \<open>null\<close> counts as absent.
\<close>

type_synonym dev_id = string
type_synonym if_name = string
type_synonym link_id = string
type_synonym tpi = nat

section \<open>What the server sends\<close>

record ip_entry =
  masklen :: nat
  net :: string

definition ip_entry0 :: ip_entry where
  "ip_entry0 = \<lparr>masklen = 24, net = ''''\<rparr>"

record iface =
  ifName :: if_name
  ifDescr :: "string option"
  ifAlias :: "string option"
  ifType :: "nat option"
  ifAdminStatus :: "nat option"
  ifOperStatus :: "nat option"
  ifSpeed :: "nat option"
  ifHighSpeed :: "nat option"
  ifPhysAddr :: "string option"
  ips :: "(string, ip_entry) obj option"
  if_l2_links :: "link_id list option"
  macs_count :: "nat option"
  arp_count :: "nat option"
  portMode :: "nat option"
  portPvid :: "nat option"
  portVvid :: "nat option"
  portTrunkVlans :: "string option"
  portHybridTag :: "string option"
  portHybridUntag :: "string option"
  stpBlockInstances :: "string option"
  eigrpIfPkts :: "nat option"
  eigrpIfPeerCount :: "nat option"
  routedVlan :: "nat option"
  routedVlanParent :: "string option"
  lldp_count :: "nat option"
  lldp_portIndex :: "string option"
  cdp_count :: "nat option"
  cdp_portIndex :: "string option"
  lag_parent :: "if_name option"
  lag_members :: "if_name list option"
  pagp_parent :: "if_name option"
  pagp_members :: "if_name list option"
  pagp_mode :: "string option"
  tunnelSrcIfName :: "if_name option"

definition iface0 :: iface where
  "iface0 = \<lparr>ifName = '''', ifDescr = None, ifAlias = None, ifType = None, ifAdminStatus = None,
     ifOperStatus = None, ifSpeed = None, ifHighSpeed = None, ifPhysAddr = None, ips = None,
     if_l2_links = None, macs_count = None, arp_count = None, portMode = None, portPvid = None,
     portVvid = None, portTrunkVlans = None, portHybridTag = None, portHybridUntag = None,
     stpBlockInstances = None, eigrpIfPkts = None, eigrpIfPeerCount = None, routedVlan = None,
     routedVlanParent = None, lldp_count = None, lldp_portIndex = None,
     cdp_count = None, cdp_portIndex = None, lag_parent = None,
     lag_members = None, pagp_parent = None, pagp_members = None, pagp_mode = None,
     tunnelSrcIfName = None\<rparr>"

text \<open>
  A neighbour entry: \<open>nei_text\<close> are its string fields, \<open>RemMgmtAddr\<close> maps an address family
  to the neighbour's management address.
\<close>

record neighbour =
  nei_text :: "(string, string) obj"
  RemMgmtAddr :: "(string, string) obj option"

record nei_port =
  port_ifName :: "if_name option"
  port_neighbours :: "(string, neighbour) obj option"

record device =
  dev_short_name :: "string option"
  dev_model_short :: string
  dev_data_ip :: "string option"
  dev_sysUpTimeStr :: "string option"
  dev_last_seen :: "int option"
  dev_sysLocation :: "string option"
  dev_powerState :: "nat option"
  dev_overall_status :: string
  dev_virtual :: bool
  dev_isGroup :: bool
  dev_macs_time :: "nat option"
  dev_vlans :: "string list option"
  dev_lldp_ports :: "(string, nei_port) obj option"
  dev_cdp_ports :: "(string, nei_port) obj option"
  interfaces :: "(if_name, iface) obj option"
  interfaces_sorted :: "if_name list"

definition device0 :: device where
  "device0 = \<lparr>dev_short_name = None, dev_model_short = '''', dev_data_ip = None,
     dev_sysUpTimeStr = None, dev_last_seen = None, dev_sysLocation = None,
     dev_powerState = None, dev_overall_status = ''ok'', dev_virtual = False,
     dev_isGroup = False, dev_macs_time = None, dev_vlans = None, dev_lldp_ports = None,
     dev_cdp_ports = None, interfaces = None,
     interfaces_sorted = []\<rparr>"

definition dev_ifs :: "device \<Rightarrow> (if_name, iface) obj" where
  "dev_ifs d = (case interfaces d of None \<Rightarrow> [] | Some o1 \<Rightarrow> o1)"

record l2_end =
  DevId :: dev_id
  l2_ifName :: if_name

record l2_link =
  end0 :: l2_end
  end1 :: l2_end
  l2_status :: nat
  l2_virtual :: bool

record l3_end =
  l3_dev_id :: dev_id
  l3_ifName :: if_name

section \<open>What the user arranged\<close>

text \<open>
  A turnpoint record has a \<open>type\<close> tag and the fields of that type: between two devices,
  between a device and another turnpoint, or between two turnpoints.
\<close>

datatype tp_ends =
    Devdev dev_id if_name dev_id if_name
  | Devtp dev_id if_name tpi
  | Tptp tpi tpi

record turnpoint =
  tp_x :: int
  tp_y :: int
  tp_ends :: tp_ends

type_synonym tps = "(tpi, turnpoint) obj"

record loc =
  loc_x :: int
  loc_y :: int

record map_data =
  map_loc :: "(dev_id, loc) obj"
  map_tps :: "(link_id, tps) obj"
  map_colors :: "(dev_id, string) obj"
  opt_cell_size :: "nat option"
  opt_name_size :: "string option"

definition map_data0 :: map_data where
  "map_data0 = \<lparr>map_loc = [], map_tps = [], map_colors = [], opt_cell_size = None,
     opt_name_size = None\<rparr>"

section \<open>What drawing computes\<close>

record temp_if =
  t_draw :: "nat option"
  t_col :: "nat option"
  t_row :: "nat option"
  t_l3_links :: "link_id list option"

definition temp_if0 :: temp_if where
  "temp_if0 = \<lparr>t_draw = None, t_col = None, t_row = None, t_l3_links = None\<rparr>"

record slot =
  s_col :: nat
  s_row :: nat
  s_occupied :: bool
  s_by :: if_name
  s_func :: string

record temp_dev =
  td_ifs :: "(if_name, temp_if) obj"
  td_draw :: bool
  td_cols :: nat
  td_rows :: nat
  td_inner_start_row :: nat
  td_inner_cols :: nat
  td_inner_rows :: nat
  td_slots :: "slot list"
  td_relocated :: "if_name list"

definition temp_dev0 :: temp_dev where
  "temp_dev0 = \<lparr>td_ifs = [], td_draw = False, td_cols = 0, td_rows = 0,
     td_inner_start_row = 0, td_inner_cols = 0, td_inner_rows = 0, td_slots = [],
     td_relocated = []\<rparr>"

datatype leg_ends =
    LDevdev dev_id if_name dev_id if_name
  | LDevtp dev_id if_name tpi
  | LTptp tpi tpi

record leg =
  leg_ends :: leg_ends
  leg_drawn :: "string option"

text \<open>
  A connection: its two ends, its legs (drawn straight lines) and, per turnpoint, the
  turnpoints already joined to it (the \<open>connected\<close> object of the code).
\<close>

record connection =
  legs :: "leg list"
  con_tps :: "(tpi, tpi list) obj"
  from_dev :: dev_id
  from_int :: if_name
  to_dev :: dev_id
  to_int :: if_name
  con_status :: nat

record p2p =
  p2p_from_dev :: dev_id
  p2p_from_int :: if_name
  p2p_to_dev :: dev_id
  p2p_to_int :: if_name
  p2p_status :: nat

section \<open>The page\<close>

text \<open>
  An element of the page by its id. Positions are content coordinates of the workspace,
  that is \<open>position().left + workspace.scrollLeft()\<close>; an interface's are relative to its
  device. \<open>e_text\<close> is the text the code puts into it, \<open>e_css\<close> the styles that depend on data.
\<close>

record elem =
  e_left :: int
  e_top :: int
  e_width :: int
  e_height :: int
  e_text :: string
  e_css :: "(string \<times> string) list"

section \<open>What is sent to be stored\<close>

text \<open>
  The queries of \<open>save_map\<close>: one object of a part of the map, a part, or the whole map, under the
  key of a layout file. \<open>SMap None\<close> is the empty object that clears a layout.
\<close>

datatype saved =
    SLoc loc
  | STps tps
  | SColor string
  | SAllLoc "(dev_id, loc) obj"
  | SAllTps "(link_id, tps) obj"
  | SAllColors "(dev_id, string) obj"
  | SMap "map_data option"

datatype query =
    SaveKeyId string string string saved
  | DelKeyId string string string
  | SaveKey string string saved
  | DelKey string string
  | SaveMap string saved

section \<open>The whole state\<close>

text \<open>
  \<open>alerts\<close> are the messages \<open>error_at\<close> and \<open>alert\<close> showed, \<open>sent\<close> the queries of \<open>save_map\<close>, both
  in order; \<open>dev_list\<close> are the devices of the side list with their names,
  \<open>bordered\<close> those on the page whose selection border is shown.
\<close>

record app =
  devs :: "(dev_id, device) obj"
  l2_links :: "(link_id, l2_link) obj"
  l3_links :: "(string, (string, l3_end) obj) obj"
  map_data :: map_data
  temp_devs :: "(dev_id, temp_dev) obj"
  p2p_links :: "(link_id, p2p) obj"
  connections :: "(link_id, connection) obj"
  site :: string
  int_size :: int
  dev_name_size :: string
  page :: "(string, elem) obj"
  dev_list :: "(dev_id \<times> string) list"
  rearranged :: "link_id list"
  arranged :: "dev_id list"
  dev_selected :: "dev_id list"
  bordered :: "dev_id list"
  allow_select :: bool
  movementLock :: bool
  tp_show :: bool
  file_key :: string
  default_map :: bool
  enable_save :: bool
  g_unsaved :: bool
  sent :: "query list"
  alerts :: "string list"

definition app0 :: app where
  "app0 = \<lparr>devs = [], l2_links = [], l3_links = [], map_data = map_data0, temp_devs = [],
     p2p_links = [], connections = [], site = [], int_size = 16, dev_name_size = ''14px'', page = [],
     dev_list = [], rearranged = [], arranged = [], dev_selected = [], bordered = [], allow_select = False,
     movementLock = False, tp_show = False, file_key = [], default_map = False,
     enable_save = True, g_unsaved = False, sent = [], alerts = []\<rparr>"

definition error_at :: "string \<Rightarrow> app \<Rightarrow> app" where
  "error_at msg s = s\<lparr>alerts := alerts s @ [msg]\<rparr>"

definition dev_of :: "app \<Rightarrow> dev_id \<Rightarrow> device" where
  "dev_of s d = (case oget (devs s) d of None \<Rightarrow> device0 | Some dv \<Rightarrow> dv)"

definition if_of :: "device \<Rightarrow> if_name \<Rightarrow> iface" where
  "if_of d i = (case oget (dev_ifs d) i of None \<Rightarrow> iface0 | Some f \<Rightarrow> f)"

definition temp_of :: "app \<Rightarrow> dev_id \<Rightarrow> temp_dev" where
  "temp_of s d = (case oget (temp_devs s) d of None \<Rightarrow> temp_dev0 | Some t \<Rightarrow> t)"

definition tif_of :: "temp_dev \<Rightarrow> if_name \<Rightarrow> temp_if" where
  "tif_of t i = (case oget (td_ifs t) i of None \<Rightarrow> temp_if0 | Some f \<Rightarrow> f)"

text \<open>The ids of the elements the code makes.\<close>

definition int_elm :: "if_name \<Rightarrow> dev_id \<Rightarrow> string" where
  "int_elm i d = i @ ''@'' @ d"

end
