(* ===== verification/TurnPoints.thy ===== *)
theory TurnPoints
  imports Model
begin

text \<open>
  The turnpoints of one link. A link between two devices is drawn as a broken line whose
  corners are the turnpoints the user placed; each turnpoint record names its two
  neighbours. The theory models the three pieces of \<open>mapper.js\<close> that read or write these
  records: \<open>new_tp\<close> (a corner is inserted into a leg), \<open>remove_tp\<close> (a corner is taken
  out) and the loop of \<open>build_connections\<close> that turns the records into legs. The
  invariant is that the records form one simple path between the two interfaces
  (\<open>chain\<close>).
\<close>

section \<open>Inserting a turnpoint: \<open>new_tp\<close>\<close>

text \<open>\<open>while(map_data["tps"][link_id][new_tpi] != undefined) new_tpi++\<close>\<close>

function free_tpi :: "tps \<Rightarrow> tpi \<Rightarrow> tpi" where
  "free_tpi t n = (if n \<in> set (okeys t) then free_tpi t (Suc n) else n)"
  by pat_completeness auto
termination
proof (relation "measure (\<lambda>(t, n). card (set (okeys t) - {..<n}))", rule wf_measure)
  fix t :: tps and n :: nat
  assume "n \<in> set (okeys t)"
  then show "((t, Suc n), t, n) \<in> measure (\<lambda>(t, n). card (set (okeys t) - {..<n}))"
    unfolding in_measure split_conv by (rule card_above_Suc [rotated]) (rule finite_set)
qed

declare free_tpi.simps [simp del]

definition put_ends :: "tpi \<Rightarrow> tp_ends \<Rightarrow> tps \<Rightarrow> tps" where
  "put_ends k e t = (case oget t k of None \<Rightarrow> t | Some p \<Rightarrow> iset k (p\<lparr>tp_ends := e\<rparr>) t)"

text \<open>The neighbour of the new turnpoint on a leg between a device and a turnpoint.\<close>

fun retie_devtp :: "dev_id \<Rightarrow> tpi \<Rightarrow> tp_ends \<Rightarrow> tp_ends" where
  "retie_devtp d n (Devdev fd fi td ti) = (if fd = d then Devtp td ti n else Devtp fd fi n)"
| "retie_devtp d n (Devtp fd fi q) = Tptp n q"
| "retie_devtp d n (Tptp f q) = Tptp f q"

text \<open>The neighbours of the new turnpoint on a leg between two turnpoints.\<close>

fun retie_tptp :: "tpi \<Rightarrow> tpi \<Rightarrow> tp_ends \<Rightarrow> tp_ends" where
  "retie_tptp other n (Devdev fd fi td ti) = Devdev fd fi td ti"
| "retie_tptp other n (Devtp fd fi q) = Devtp fd fi n"
| "retie_tptp other n (Tptp f q) = (if f = other then Tptp n q else Tptp f n)"

definition retie :: "tpi \<Rightarrow> (tp_ends \<Rightarrow> tp_ends) \<Rightarrow> tps \<Rightarrow> tps run" where
  "retie k f t = (case oget t k of
      None \<Rightarrow> Threw TypeError t
    | Some p \<Rightarrow> Done (put_ends k (f (tp_ends p)) t))"

fun split_leg :: "int \<Rightarrow> int \<Rightarrow> tpi \<Rightarrow> leg_ends \<Rightarrow> tps \<Rightarrow> tps run" where
  "split_leg cx cy n (LDevdev fd fi td ti) t =
     Done (iset n \<lparr>tp_x = cx, tp_y = cy, tp_ends = Devdev fd fi td ti\<rparr> t)"
| "split_leg cx cy n (LDevtp fd fi old_tp1) t =
     retie old_tp1 (retie_devtp fd n)
       (iset n \<lparr>tp_x = cx, tp_y = cy, tp_ends = Devtp fd fi old_tp1\<rparr> t)"
| "split_leg cx cy n (LTptp old_tp1 old_tp2) t =
     seq (retie old_tp1 (retie_tptp old_tp2 n)
            (iset n \<lparr>tp_x = cx, tp_y = cy, tp_ends = Tptp old_tp1 old_tp2\<rparr> t))
         (retie old_tp2 (retie_tptp old_tp1 n))"

definition is_devdev :: "leg_ends \<Rightarrow> bool" where
  "is_devdev l = (case l of LDevdev _ _ _ _ \<Rightarrow> True | _ \<Rightarrow> False)"

text \<open>
  The guard and the update of \<open>map_data["tps"][link_id]\<close> in \<open>new_tp\<close>: a link without
  turnpoints has exactly the device-to-device leg. A failed guard shows an error and
  returns (\<open>Halt\<close>).
\<close>

definition new_tp_tps :: "int \<Rightarrow> int \<Rightarrow> leg_ends \<Rightarrow> tps option \<Rightarrow> tps option run" where
  "new_tp_tps cx cy l ot =
     (if (ot \<noteq> None \<and> is_devdev l) \<or> (ot = None \<and> \<not> is_devdev l) then Halt ot
      else let t = (case ot of None \<Rightarrow> [] | Some t \<Rightarrow> t)
           in case split_leg cx cy (free_tpi t 0) l t of
                Done t' \<Rightarrow> Done (Some t')
              | Halt t' \<Rightarrow> Halt (Some t')
              | Threw e t' \<Rightarrow> Threw e (Some t'))"

section \<open>Removing a turnpoint: \<open>remove_tp\<close>\<close>

text \<open>
  Each neighbour must point back to the removed turnpoint; otherwise the code shows
  "Corrupted turnpoints database" and returns.
\<close>

definition unhook_dev :: "tpi \<Rightarrow> dev_id \<Rightarrow> if_name \<Rightarrow> tpi \<Rightarrow> tps \<Rightarrow> tps run" where
  "unhook_dev k d i next_tp t = (case oget t next_tp of
      None \<Rightarrow> Threw TypeError t
    | Some p \<Rightarrow> (case tp_ends p of
        Devtp fd fi q \<Rightarrow>
          if q \<noteq> k then Halt t else Done (put_ends next_tp (Devdev fd fi d i) t)
      | Tptp f q \<Rightarrow>
          if f = k then Done (put_ends next_tp (Devtp d i q) t)
          else if q = k then Done (put_ends next_tp (Devtp d i f) t)
          else Halt t
      | Devdev _ _ _ _ \<Rightarrow> Halt t))"

definition unhook_tp :: "tpi \<Rightarrow> tpi \<Rightarrow> tpi \<Rightarrow> tps \<Rightarrow> tps run" where
  "unhook_tp k this other t = (case oget t this of
      None \<Rightarrow> Threw TypeError t
    | Some p \<Rightarrow> (case tp_ends p of
        Devtp fd fi q \<Rightarrow>
          if q \<noteq> k then Halt t else Done (put_ends this (Devtp fd fi other) t)
      | Tptp f q \<Rightarrow>
          if f = k then Done (put_ends this (Tptp other q) t)
          else if q = k then Done (put_ends this (Tptp f other) t)
          else Halt t
      | Devdev _ _ _ _ \<Rightarrow> Halt t))"

definition unhook :: "tpi \<Rightarrow> tps \<Rightarrow> tps run" where
  "unhook k t = (case oget t k of
      None \<Rightarrow> Threw TypeError t
    | Some p \<Rightarrow> (case tp_ends p of
        Devdev _ _ _ _ \<Rightarrow> Done t
      | Devtp d i next_tp \<Rightarrow> unhook_dev k d i next_tp t
      | Tptp prev_tp next_tp \<Rightarrow>
          seq (unhook_tp k prev_tp next_tp t) (unhook_tp k next_tp prev_tp)))"

definition remove_tp_tps :: "tpi \<Rightarrow> tps option \<Rightarrow> tps option run" where
  "remove_tp_tps k ot = (case ot of
      None \<Rightarrow> Threw TypeError ot
    | Some t \<Rightarrow> (case unhook k t of
        Done t' \<Rightarrow> Done (let u = odel k t' in if okeys u = [] then None else Some u)
      | Halt t' \<Rightarrow> Halt (Some t')
      | Threw e t' \<Rightarrow> Threw e (Some t')))"

text \<open>\<open>tp_moved\<close> writes the position only.\<close>

definition move_tp_tps :: "tpi \<Rightarrow> int \<Rightarrow> int \<Rightarrow> tps option \<Rightarrow> tps option run" where
  "move_tp_tps k x y ot = (case ot of
      None \<Rightarrow> Threw TypeError ot
    | Some t \<Rightarrow> (case oget t k of
        None \<Rightarrow> Threw TypeError ot
      | Some p \<Rightarrow> Done (Some (iset k (p\<lparr>tp_x := x, tp_y := y\<rparr>) t))))"

section \<open>From turnpoints to legs: the loop of \<open>build_connections\<close>\<close>

record wiring =
  w_legs :: "leg list"
  w_tps :: "(tpi, tpi list) obj"
  w_alerts :: "string list"

definition push_leg :: "leg_ends \<Rightarrow> wiring \<Rightarrow> wiring" where
  "push_leg l w = w\<lparr>w_legs := w_legs w @ [\<lparr>leg_ends = l, leg_drawn = None\<rparr>]\<rparr>"

definition touch :: "tpi \<Rightarrow> wiring \<Rightarrow> wiring" where
  "touch k w = (if oget (w_tps w) k = None then w\<lparr>w_tps := iset k [] (w_tps w)\<rparr> else w)"

definition connected :: "wiring \<Rightarrow> tpi \<Rightarrow> tpi \<Rightarrow> bool" where
  "connected w k j = (case oget (w_tps w) k of None \<Rightarrow> False | Some c \<Rightarrow> j \<in> set c)"

definition mark :: "tpi \<Rightarrow> tpi \<Rightarrow> wiring \<Rightarrow> wiring" where
  "mark k j w = (case oget (w_tps w) k of
      None \<Rightarrow> w\<lparr>w_tps := iset k [j] (w_tps w)\<rparr>
    | Some c \<Rightarrow> w\<lparr>w_tps := iset k (if j \<in> set c then c else c @ [j]) (w_tps w)\<rparr>)"

definition join_tps :: "tpi \<Rightarrow> tpi \<Rightarrow> wiring \<Rightarrow> wiring" where
  "join_tps k j w =
     (if connected w k j then w else mark k j (mark j k (push_leg (LTptp k j) w)))"

definition invalid_tp :: "link_id \<Rightarrow> tpi \<Rightarrow> wiring \<Rightarrow> wiring" where
  "invalid_tp lid k w =
     w\<lparr>w_alerts := w_alerts w @ [''invalid turnpoint '' @ nat_str k @ '' @ '' @ lid]\<rparr>"

definition wire_tp :: "link_id \<Rightarrow> dev_id \<Rightarrow> dev_id \<Rightarrow> tpi \<times> turnpoint \<Rightarrow> wiring \<Rightarrow> wiring" where
  "wire_tp lid dev nei kp w =
     (let k = fst kp; w = w\<lparr>w_tps := iset k [] (w_tps w)\<rparr>
      in case tp_ends (snd kp) of
           Devdev fd fi td ti \<Rightarrow>
             if (fd \<noteq> dev \<and> fd \<noteq> nei) \<or> (td \<noteq> dev \<and> td \<noteq> nei) then invalid_tp lid k w
             else push_leg (LDevtp td ti k) (push_leg (LDevtp fd fi k) w)
         | Devtp fd fi q \<Rightarrow>
             let w = touch q w
             in if fd \<noteq> dev \<and> fd \<noteq> nei then invalid_tp lid k w
                else join_tps k q (push_leg (LDevtp fd fi k) w)
         | Tptp f q \<Rightarrow> join_tps k q (join_tps k f (touch q (touch f w))))"

definition wire_tps :: "link_id \<Rightarrow> dev_id \<Rightarrow> dev_id \<Rightarrow> tps \<Rightarrow> wiring" where
  "wire_tps lid dev nei t =
     fold (wire_tp lid dev nei) t \<lparr>w_legs = [], w_tps = [], w_alerts = []\<rparr>"

definition build_connection ::
    "link_id \<Rightarrow> dev_id \<Rightarrow> if_name \<Rightarrow> dev_id \<Rightarrow> if_name \<Rightarrow> nat \<Rightarrow> tps option \<Rightarrow> connection \<times> string list" where
  "build_connection lid dev ifn nei_dev nei_int st ot =
     (let w = (case ot of
            None \<Rightarrow> push_leg (LDevdev dev ifn nei_dev nei_int) \<lparr>w_legs = [], w_tps = [], w_alerts = []\<rparr>
          | Some t \<Rightarrow> wire_tps lid dev nei_dev t)
      in (\<lparr>legs = w_legs w, con_tps = w_tps w, from_dev = dev, from_int = ifn,
           to_dev = nei_dev, to_int = nei_int, con_status = st\<rparr>, w_alerts w))"

section \<open>The path a link's turnpoints form\<close>

datatype node = End dev_id if_name | At tpi

fun ends_of :: "tp_ends \<Rightarrow> node \<times> node" where
  "ends_of (Devdev fd fi td ti) = (End fd fi, End td ti)"
| "ends_of (Devtp fd fi q) = (End fd fi, At q)"
| "ends_of (Tptp f q) = (At f, At q)"

fun leg_nodes :: "leg_ends \<Rightarrow> node \<times> node" where
  "leg_nodes (LDevdev fd fi td ti) = (End fd fi, End td ti)"
| "leg_nodes (LDevtp fd fi k) = (End fd fi, At k)"
| "leg_nodes (LTptp f q) = (At f, At q)"

definition pairs :: "node \<times> node \<Rightarrow> node \<Rightarrow> node \<Rightarrow> bool" where
  "pairs e u v \<longleftrightarrow> e = (u, v) \<or> e = (v, u)"

definition next_node :: "tpi list \<Rightarrow> node \<Rightarrow> node" where
  "next_node ks B = (case ks of [] \<Rightarrow> B | k # _ \<Rightarrow> At k)"

definition last_node :: "node \<Rightarrow> tpi list \<Rightarrow> node" where
  "last_node A ks = (if ks = [] then A else At (last ks))"

definition joins :: "tps \<Rightarrow> tpi \<Rightarrow> node \<Rightarrow> node \<Rightarrow> bool" where
  "joins t k u v = (case oget t k of None \<Rightarrow> False | Some p \<Rightarrow> pairs (ends_of (tp_ends p)) u v)"

fun wired :: "tps \<Rightarrow> node \<Rightarrow> tpi list \<Rightarrow> node \<Rightarrow> bool" where
  "wired t u [] v = True"
| "wired t u (k # ks) v \<longleftrightarrow> joins t k u (next_node ks v) \<and> wired t (At k) ks v"

fun node_dev :: "node \<Rightarrow> dev_id" where
  "node_dev (End d i) = d"
| "node_dev (At k) = ''''"

fun is_end :: "node \<Rightarrow> bool" where
  "is_end (End d i) = True"
| "is_end (At k) = False"

text \<open>
  The records \<open>t\<close> form the path \<open>A, ks, B\<close>: they are exactly the turnpoints of \<open>ks\<close>,
  each once, and each names its two neighbours on the path. \<open>A\<close> and \<open>B\<close> are the two
  interfaces of the link, on different devices.
\<close>

definition chain :: "node \<Rightarrow> node \<Rightarrow> tps \<Rightarrow> tpi list \<Rightarrow> bool" where
  "chain A B t ks \<longleftrightarrow>
     is_end A \<and> is_end B \<and> node_dev A \<noteq> node_dev B \<and> iwf t \<and> distinct ks \<and>
     set ks = set (okeys t) \<and> wired t A ks B"

section \<open>Facts about paths\<close>

lemma pairs_sym: "pairs e u v = pairs e v u"
  by (auto simp: pairs_def)

lemma joins_sym: "joins t k u v = joins t k v u"
  by (simp add: joins_def pairs_sym [of _ u v] split: option.splits)

lemma next_node_simps [simp]: "next_node [] B = B" "next_node (k # ks) B = At k"
  by (simp_all add: next_node_def)

lemma last_node_simps [simp]: "last_node A [] = A" "last_node A (ks @ [k]) = At k"
  by (simp_all add: last_node_def)

lemma last_node_Cons [simp]: "last_node A (k # ks) = last_node (At k) ks"
  by (simp add: last_node_def)

lemma wired_append:
  "wired t u (xs @ ys) v \<longleftrightarrow> wired t u xs (next_node ys v) \<and> wired t (last_node u xs) ys v"
proof (induction xs arbitrary: u)
  case (Cons x xs)
  have "next_node (xs @ ys) v = next_node xs (next_node ys v)"
    by (cases xs) simp_all
  with Cons show ?case by simp
qed simp

lemma wired_cong: "\<forall>k \<in> set ks. oget t' k = oget t k \<Longrightarrow> wired t' u ks v = wired t u ks v"
  by (induction ks arbitrary: u) (auto simp: joins_def)

lemma wired_snoc: "wired t u (xs @ [k]) v \<longleftrightarrow> wired t u xs (At k) \<and> joins t k (last_node u xs) v"
  by (simp add: wired_append)

lemma wired_rev: "wired t u ks v = wired t v (rev ks) u"
proof (induction ks arbitrary: u)
  case (Cons k ks)
  have "last_node v (rev ks) = next_node ks v"
    by (cases ks) simp_all
  with Cons show ?case by (auto simp: wired_snoc joins_sym [of t k u])
qed simp

lemma chain_rev: "chain A B t ks = chain B A t (rev ks)"
  using wired_rev [of t A ks B] by (auto simp: chain_def)

lemma chain_oget: "chain A B t ks \<Longrightarrow> oget t k = None \<longleftrightarrow> k \<notin> set ks"
  by (simp add: chain_def oget_None_iff)

lemma chain_split:
  "chain A B t (xs @ k # ys) \<Longrightarrow>
     wired t A xs (At k) \<and> joins t k (last_node A xs) (next_node ys B) \<and> wired t (At k) ys B \<and>
     k \<notin> set xs \<and> k \<notin> set ys \<and> distinct xs \<and> distinct ys \<and> set xs \<inter> set ys = {}"
  by (auto simp: chain_def wired_append)

lemma joinsE:
  assumes "joins t k u v"
  obtains p where "oget t k = Some p" "pairs (ends_of (tp_ends p)) u v"
  using assms by (auto simp: joins_def split: option.splits)

section \<open>Choosing the new number\<close>

lemma free_tpi_free: "free_tpi t n \<notin> set (okeys t)"
proof (induction t n rule: free_tpi.induct)
  case (1 t n)
  then show ?case by (subst free_tpi.simps) auto
qed

lemma free_tpi_least: "n \<le> k \<Longrightarrow> k < free_tpi t n \<Longrightarrow> k \<in> set (okeys t)"
proof (induction t n rule: free_tpi.induct)
  case (1 t n)
  have "n \<in> set (okeys t)"
    using "1.prems" by (subst (asm) free_tpi.simps) (simp split: if_splits)
  with 1 show ?case
    by (cases "n = k") (simp_all add: free_tpi.simps [of t n])
qed

section \<open>Insertion keeps the path\<close>

lemma iwf_put_ends [simp]: "iwf t \<Longrightarrow> iwf (put_ends k e t)"
  by (simp add: put_ends_def split: option.splits)

lemma okeys_put_ends [simp]: "set (okeys (put_ends k e t)) = set (okeys t)"
  using oget_None_iff [of t k] by (auto simp: put_ends_def split: option.splits)

lemma oget_put_ends [simp]:
  "iwf t \<Longrightarrow> oget (put_ends k e t) j =
     (if j = k then map_option (\<lambda>p. p\<lparr>tp_ends := e\<rparr>) (oget t k) else oget t j)"
  by (auto simp: put_ends_def split: option.splits)

lemma wired_frame:
  "wired t u ks v \<Longrightarrow> (\<And>k. k \<in> set ks \<Longrightarrow> oget t' k = oget t k) \<Longrightarrow> wired t' u ks v"
  using wired_cong [of ks t' t u v] by blast

lemma pairs_retie_devtp:
  "pairs (ends_of e) (End d i) w \<Longrightarrow> is_end w \<Longrightarrow> node_dev w \<noteq> d \<Longrightarrow>
     pairs (ends_of (retie_devtp d n e)) (At n) w"
  "pairs (ends_of e) (End d i) (At q) \<Longrightarrow> pairs (ends_of (retie_devtp d n e)) (At n) (At q)"
  by (cases e; cases w; auto simp: pairs_def) (cases e; auto simp: pairs_def)

lemma pairs_retie_tptp:
  "pairs (ends_of e) (At q) w \<Longrightarrow> w \<noteq> At q \<Longrightarrow> pairs (ends_of (retie_tptp q n e)) (At n) w"
  by (cases e) (auto simp: pairs_def)

lemma split_devtp_chain:
  assumes c: "chain (End d i) B t (k # ys)" and n: "n \<notin> set (okeys t)"
  shows "\<exists>t'. split_leg cx cy n (LDevtp d i k) t = Done t' \<and> chain (End d i) B t' (n # k # ys)"
proof -
  have wf: "iwf t" and kn: "k \<noteq> n" and nys: "n \<notin> set ys" and kys: "k \<notin> set ys"
    using c n by (auto simp: chain_def)
  have "joins t k (End d i) (next_node ys B)" using c by (simp add: chain_def)
  then obtain p where p: "oget t k = Some p" "pairs (ends_of (tp_ends p)) (End d i) (next_node ys B)"
    by (rule joinsE)
  define q where "q = \<lparr>tp_x = cx, tp_y = cy, tp_ends = Devtp d i k\<rparr>"
  define t' where "t' = put_ends k (retie_devtp d n (tp_ends p)) (iset n q t)"
  have run: "split_leg cx cy n (LDevtp d i k) t = Done t'"
    using p(1) wf kn by (simp add: retie_def t'_def q_def)
  have look: "oget t' j = (if j = k then Some (p\<lparr>tp_ends := retie_devtp d n (tp_ends p)\<rparr>)
      else if j = n then Some q else oget t j)" for j
    using wf p(1) kn by (simp add: t'_def)
  have "pairs (ends_of (retie_devtp d n (tp_ends p))) (At n) (next_node ys B)"
  proof (cases ys)
    case Nil
    with p(2) c show ?thesis by (auto simp: chain_def intro: pairs_retie_devtp)
  next
    case (Cons y zs)
    with p(2) show ?thesis by (auto intro: pairs_retie_devtp)
  qed
  then have "wired t' (At n) (k # ys) B"
    using c kys nys by (auto simp: joins_def look chain_def intro!: wired_frame [of t])
  moreover have "joins t' n (End d i) (At k)"
    using kn by (simp add: joins_def look q_def pairs_def)
  ultimately have "chain (End d i) B t' (n # k # ys)"
    using c nys kn wf n by (simp add: chain_def t'_def)
  with run show ?thesis by blast
qed

lemma split_tptp_chain:
  assumes c: "chain A B t (xs @ [k] @ j # ys)" and n: "n \<notin> set (okeys t)"
  shows "\<exists>t'. split_leg cx cy n (LTptp k j) t = Done t' \<and> chain A B t' (xs @ [k] @ n # j # ys)"
proof -
  have wf: "iwf t" and fresh: "n \<notin> set (xs @ [k] @ j # ys)"
    using c n by (simp_all add: chain_def)
  have sep: "k \<notin> set xs" "k \<notin> set ys" "j \<notin> set xs" "j \<notin> set ys" "k \<noteq> j" "distinct xs" "distinct ys"
    using c by (auto simp: chain_def)
  have w: "wired t A xs (At k)" "joins t k (last_node A xs) (At j)"
      "joins t j (At k) (next_node ys B)" "wired t (At j) ys B"
    using c by (auto simp: chain_def wired_append)
  from w(2) obtain p where p: "oget t k = Some p" "pairs (ends_of (tp_ends p)) (At j) (last_node A xs)"
    by (auto elim: joinsE simp: pairs_sym)
  from w(3) obtain r where r: "oget t j = Some r" "pairs (ends_of (tp_ends r)) (At k) (next_node ys B)"
    by (rule joinsE)
  define q where "q = \<lparr>tp_x = cx, tp_y = cy, tp_ends = Tptp k j\<rparr>"
  define t' where "t' = put_ends j (retie_tptp k n (tp_ends r)) (put_ends k (retie_tptp j n (tp_ends p)) (iset n q t))"
  have run: "split_leg cx cy n (LTptp k j) t = Done t'"
    using p(1) r(1) wf fresh sep by (simp add: retie_def t'_def q_def)
  have look: "oget t' l = (if l = j then Some (r\<lparr>tp_ends := retie_tptp k n (tp_ends r)\<rparr>)
      else if l = k then Some (p\<lparr>tp_ends := retie_tptp j n (tp_ends p)\<rparr>)
      else if l = n then Some q else oget t l)" for l
    using wf p(1) r(1) fresh sep by (simp add: t'_def)
  have "last_node A xs \<noteq> At j" and "next_node ys B \<noteq> At k"
    using c sep by (auto simp: last_node_def next_node_def chain_def split: list.splits)
  then have "pairs (ends_of (retie_tptp j n (tp_ends p))) (At n) (last_node A xs)"
    and "pairs (ends_of (retie_tptp k n (tp_ends r))) (At n) (next_node ys B)"
    using p(2) r(2) by (auto intro: pairs_retie_tptp)
  then have j1: "joins t' k (last_node A xs) (At n)" and j2: "joins t' j (At n) (next_node ys B)"
    using sep by (simp_all add: joins_def look pairs_sym [of _ "last_node A xs"])
  have j3: "joins t' n (At k) (At j)"
    using fresh by (simp add: joins_def look q_def pairs_def)
  have "wired t' A xs (At k)" "wired t' (At j) ys B"
    using w fresh sep by (auto simp: look intro!: wired_frame [of t])
  with j1 j2 j3 have "wired t' A (xs @ [k] @ n # j # ys) B"
    by (simp add: wired_append)
  then have "chain A B t' (xs @ [k] @ n # j # ys)"
    using c fresh wf by (auto simp: chain_def t'_def)
  with run show ?thesis by blast
qed

text \<open>
  The general insertion: the leg's two ends are neighbours on the path, in either order.
  The case of the last leg is the first leg of the reversed path.
\<close>

lemma split_leg_chain:
  assumes c: "chain A B t (xs @ ys)" and ne: "xs @ ys \<noteq> []" and n: "n \<notin> set (okeys t)"
    and l: "pairs (leg_nodes l) (last_node A xs) (next_node ys B)"
  shows "\<exists>t'. split_leg cx cy n l t = Done t' \<and> chain A B t' (xs @ n # ys)"
proof -
  have ends: "is_end A" "is_end B" using c by (simp_all add: chain_def)
  consider (first) k ys' where "xs = []" "ys = k # ys'"
    | (last) k xs' where "xs = xs' @ [k]" "ys = []"
    | (mid) k xs' j ys' where "xs = xs' @ [k]" "ys = j # ys'"
    using ne by (cases xs rule: rev_cases; cases ys) auto
  then show ?thesis
  proof cases
    case first
    with l ends obtain d i where "A = End d i" "l = LDevtp d i k"
      by (cases l; cases A) (auto simp: pairs_def)
    with first c n show ?thesis using split_devtp_chain [of d i B t k ys' n cx cy] by simp
  next
    case last
    with l ends obtain d i where B: "B = End d i" "l = LDevtp d i k"
      by (cases l; cases B) (auto simp: pairs_def)
    with last c have "chain (End d i) A t (k # rev xs')"
      using chain_rev [of A B t "xs @ ys"] by simp
    then obtain t' where t': "split_leg cx cy n l t = Done t'" "chain (End d i) A t' (n # k # rev xs')"
      using split_devtp_chain [OF _ n] B by blast
    moreover have "chain A B t' (xs @ n # ys)"
      using t'(2) chain_rev [of A B t' "xs @ n # ys"] last B by simp
    ultimately show ?thesis by blast
  next
    case mid
    with l consider "l = LTptp k j" | "l = LTptp j k" by (cases l) (auto simp: pairs_def)
    then show ?thesis
    proof cases
      case 1
      with mid c n show ?thesis using split_tptp_chain [of A B t xs' k j ys' n] by simp
    next
      case 2
      have "chain B A t (rev ys' @ [j] @ k # rev xs')"
        using c mid chain_rev [of A B t "xs @ ys"] by simp
      then obtain t' where t': "split_leg cx cy n l t = Done t'"
          "chain B A t' (rev ys' @ [j] @ n # k # rev xs')"
        using split_tptp_chain [OF _ n] 2 by blast
      moreover have "chain A B t' (xs @ n # ys)"
        using t'(2) chain_rev [of A B t' "xs @ n # ys"] mid by simp
      ultimately show ?thesis by blast
    qed
  qed
qed

section \<open>Removal keeps the path\<close>

lemma unhook_dev_pairs:
  assumes "oget t j = Some p" "pairs (ends_of (tp_ends p)) (At k) w" "w \<noteq> At k"
  shows "\<exists>e. unhook_dev k d i j t = Done (put_ends j e t) \<and> pairs (ends_of e) (End d i) w"
  using assms by (cases "tp_ends p") (auto simp: unhook_dev_def pairs_def)

lemma unhook_tp_pairs:
  assumes "oget t j = Some p" "pairs (ends_of (tp_ends p)) (At k) w" "w \<noteq> At k"
  shows "\<exists>e. unhook_tp k j q t = Done (put_ends j e t) \<and> pairs (ends_of e) (At q) w"
  using assms by (cases "tp_ends p") (auto simp: unhook_tp_def pairs_def)

lemma next_node_neq: "k \<notin> set ys \<Longrightarrow> is_end B \<Longrightarrow> next_node ys B \<noteq> At k"
  by (auto simp: next_node_def split: list.splits)

lemma last_node_neq: "k \<notin> set xs \<Longrightarrow> is_end A \<Longrightarrow> last_node A xs \<noteq> At k"
  by (auto simp: last_node_def)

lemma unhook_first_chain:
  assumes c: "chain (End d i) B t (k # j # ys)"
  shows "\<exists>t'. unhook k t = Done t' \<and> chain (End d i) B (odel k t') (j # ys)"
proof -
  have wf: "iwf t" and sep: "k \<noteq> j" "k \<notin> set ys" "j \<notin> set ys" and B: "is_end B"
    using c by (auto simp: chain_def)
  have w: "joins t k (End d i) (At j)" "joins t j (At k) (next_node ys B)" "wired t (At j) ys B"
    using c by (simp_all add: chain_def)
  from w(1) obtain p where p0: "oget t k = Some p" "pairs (ends_of (tp_ends p)) (End d i) (At j)"
    by (rule joinsE)
  then have p: "oget t k = Some p" "tp_ends p = Devtp d i j"
    by (cases "tp_ends p"; auto simp: pairs_def)+
  from w(2) obtain r where r: "oget t j = Some r" "pairs (ends_of (tp_ends r)) (At k) (next_node ys B)"
    by (rule joinsE)
  obtain e where e: "unhook_dev k d i j t = Done (put_ends j e t)"
      "pairs (ends_of e) (End d i) (next_node ys B)"
    using unhook_dev_pairs [OF r next_node_neq [OF sep(2) B]] by blast
  have "wired (odel k (put_ends j e t)) (End d i) (j # ys) B"
    using w(3) e(2) r(1) sep wf by (auto simp: joins_def intro!: wired_frame [of t])
  then have "chain (End d i) B (odel k (put_ends j e t)) (j # ys)"
    using c sep by (auto simp: chain_def)
  moreover have "unhook k t = Done (put_ends j e t)"
    using p e(1) by (simp add: unhook_def)
  ultimately show ?thesis by blast
qed

lemma unhook_mid_chain:
  assumes c: "chain A B t (xs @ [p] @ k # q # ys)"
  shows "\<exists>t'. unhook k t = Done t' \<and> chain A B (odel k t') (xs @ [p] @ q # ys)"
proof -
  have wf: "iwf t" and ends: "is_end A" "is_end B"
    and sep: "k \<notin> set xs" "k \<notin> set ys" "k \<noteq> p" "k \<noteq> q" "p \<noteq> q" "p \<notin> set xs" "p \<notin> set ys"
      "q \<notin> set xs" "q \<notin> set ys"
    using c by (auto simp: chain_def)
  have w: "wired t A xs (At p)" "joins t p (At k) (last_node A xs)"
      "joins t k (At p) (At q)" "joins t q (At k) (next_node ys B)" "wired t (At q) ys B"
    using c by (auto simp: chain_def wired_append joins_sym [of t p])
  from w(2) obtain a where a: "oget t p = Some a" "pairs (ends_of (tp_ends a)) (At k) (last_node A xs)"
    by (rule joinsE)
  from w(4) obtain b where b: "oget t q = Some b" "pairs (ends_of (tp_ends b)) (At k) (next_node ys B)"
    by (rule joinsE)
  have key: "\<exists>t' e f. unhook k t = Done t' \<and> pairs (ends_of e) (At q) (last_node A xs) \<and>
      pairs (ends_of f) (At p) (next_node ys B) \<and>
      (\<forall>l. oget t' l = (if l = p then Some (a\<lparr>tp_ends := e\<rparr>) else if l = q then Some (b\<lparr>tp_ends := f\<rparr>)
        else oget t l)) \<and> iwf t' \<and> set (okeys t') = set (okeys t)"
  proof -
    from w(3) obtain m where m0: "oget t k = Some m" "pairs (ends_of (tp_ends m)) (At p) (At q)"
      by (rule joinsE)
    then have m: "oget t k = Some m" "tp_ends m = Tptp p q \<or> tp_ends m = Tptp q p"
      by (cases "tp_ends m"; auto simp: pairs_def)+
    have step: "\<exists>e. unhook_tp k j o1 u = Done (put_ends j e u) \<and> pairs (ends_of e) (At o1) v"
      if "oget u j = Some r" "pairs (ends_of (tp_ends r)) (At k) v" "v \<noteq> At k" for u j o1 r v
      using unhook_tp_pairs [OF that] by blast
    obtain e where e: "unhook_tp k p q t = Done (put_ends p e t)" "pairs (ends_of e) (At q) (last_node A xs)"
      using step [OF a last_node_neq [OF sep(1) ends(1)]] by blast
    obtain f where f: "unhook_tp k q p t = Done (put_ends q f t)" "pairs (ends_of f) (At p) (next_node ys B)"
      using step [OF b next_node_neq [OF sep(2) ends(2)]] by blast
    have "oget (put_ends p e t) q = Some b" "oget (put_ends q f t) p = Some a"
      using a b sep wf by simp_all
    then obtain f' e' where f': "unhook_tp k q p (put_ends p e t) = Done (put_ends q f' (put_ends p e t))"
        "pairs (ends_of f') (At p) (next_node ys B)"
      and e': "unhook_tp k p q (put_ends q f t) = Done (put_ends p e' (put_ends q f t))"
        "pairs (ends_of e') (At q) (last_node A xs)"
      using step [OF _ b(2) next_node_neq [OF sep(2) ends(2)]]
        step [OF _ a(2) last_node_neq [OF sep(1) ends(1)]] by meson
    from m(2) show ?thesis
    proof
      assume "tp_ends m = Tptp p q"
      with m e f' have "unhook k t = Done (put_ends q f' (put_ends p e t))"
        by (simp add: unhook_def)
      with e(2) f'(2) a b wf sep show ?thesis
        by (intro exI [of _ "put_ends q f' (put_ends p e t)"] exI [of _ e] exI [of _ f']) auto
    next
      assume "tp_ends m = Tptp q p"
      with m f e' have "unhook k t = Done (put_ends p e' (put_ends q f t))"
        by (simp add: unhook_def)
      with f(2) e'(2) a b wf sep show ?thesis
        by (intro exI [of _ "put_ends p e' (put_ends q f t)"] exI [of _ e'] exI [of _ f]) auto
    qed
  qed
  then obtain t' e f where t': "unhook k t = Done t'" "pairs (ends_of e) (At q) (last_node A xs)"
      "pairs (ends_of f) (At p) (next_node ys B)"
    and look: "\<And>l. oget t' l = (if l = p then Some (a\<lparr>tp_ends := e\<rparr>)
        else if l = q then Some (b\<lparr>tp_ends := f\<rparr>) else oget t l)"
    and t'wf: "iwf t'" "set (okeys t') = set (okeys t)" by blast
  have "joins (odel k t') p (last_node A xs) (At q)" "joins (odel k t') q (At p) (next_node ys B)"
    using t'(2,3) sep by (simp_all add: joins_def look pairs_sym [of _ "last_node A xs"])
  moreover have "wired (odel k t') A xs (At p)" "wired (odel k t') (At q) ys B"
    using w sep by (auto simp: look intro!: wired_frame [of t])
  ultimately have "wired (odel k t') A (xs @ [p] @ q # ys) B"
    by (simp add: wired_append)
  then have "chain A B (odel k t') (xs @ [p] @ q # ys)"
    using c t'wf sep by (auto simp: chain_def)
  with t'(1) show ?thesis by blast
qed

lemma unhook_chain:
  assumes c: "chain A B t (xs @ k # ys)" and ne: "xs @ ys \<noteq> []"
  shows "\<exists>t'. unhook k t = Done t' \<and> chain A B (odel k t') (xs @ ys)"
proof -
  have ends: "is_end A" "is_end B" using c by (simp_all add: chain_def)
  then obtain d i e j where A: "A = End d i" and B: "B = End e j" by (cases A; cases B) auto
  consider (first) q ys' where "xs = []" "ys = q # ys'"
    | (last) p xs' where "xs = xs' @ [p]" "ys = []"
    | (mid) p xs' q ys' where "xs = xs' @ [p]" "ys = q # ys'"
    using ne by (cases xs rule: rev_cases; cases ys) auto
  then show ?thesis
  proof cases
    case first
    with c A show ?thesis using unhook_first_chain [of d i B t k q ys'] by simp
  next
    case last
    with c B chain_rev [of A B t "xs @ k # ys"] have "chain (End e j) A t (k # p # rev xs')" by simp
    then obtain t' where "unhook k t = Done t'" "chain (End e j) A (odel k t') (p # rev xs')"
      using unhook_first_chain by blast
    with last B chain_rev [of A B _ "xs @ ys"] show ?thesis by auto
  next
    case mid
    with c show ?thesis using unhook_mid_chain [of A B t xs' p k q ys'] by simp
  qed
qed

lemma unhook_single:
  assumes c: "chain A B t [k]"
  shows "unhook k t = Done t" and "okeys (odel k t) = []"
proof -
  have "joins t k A B" "is_end A" "is_end B" using c by (simp_all add: chain_def)
  then obtain p where "oget t k = Some p" "pairs (ends_of (tp_ends p)) A B" by (auto elim: joinsE)
  with \<open>is_end A\<close> \<open>is_end B\<close> show "unhook k t = Done t"
    by (cases "tp_ends p"; cases A; cases B) (auto simp: unhook_def pairs_def)
  have "set (okeys (odel k t)) = {}" using c by (simp add: chain_def)
  then show "okeys (odel k t) = []" by (simp only: set_empty)
qed

section \<open>The operations on a link's turnpoints\<close>

text \<open>
  The state of one link: no turnpoints (\<open>undefined\<close> in \<open>map_data\<close>), or the records of a
  path with at least one turnpoint.
\<close>

definition link_ok :: "node \<Rightarrow> node \<Rightarrow> tps option \<Rightarrow> tpi list \<Rightarrow> bool" where
  "link_ok A B ot ks = (case ot of
      None \<Rightarrow> ks = [] \<and> is_end A \<and> is_end B \<and> node_dev A \<noteq> node_dev B
    | Some t \<Rightarrow> ks \<noteq> [] \<and> chain A B t ks)"

definition new_number :: "tps option \<Rightarrow> tpi" where
  "new_number ot = free_tpi (case ot of None \<Rightarrow> [] | Some t \<Rightarrow> t) 0"

lemma new_tp_link_ok:
  assumes ok: "link_ok A B ot (xs @ ys)"
    and l: "pairs (leg_nodes l) (last_node A xs) (next_node ys B)"
  shows "\<exists>t'. new_tp_tps cx cy l ot = Done (Some t') \<and> link_ok A B (Some t') (xs @ new_number ot # ys)"
proof (cases ot)
  case None
  with ok have e: "xs = []" "ys = []" "is_end A" "is_end B" "node_dev A \<noteq> node_dev B"
    by (simp_all add: link_ok_def)
  with l obtain fd fi td ti where "l = LDevdev fd fi td ti"
    by (cases l; cases A; cases B) (auto simp: pairs_def)
  moreover have "free_tpi [] 0 = 0" by (simp add: free_tpi.simps)
  ultimately show ?thesis
    using None e l
    by (auto simp: new_tp_tps_def is_devdev_def link_ok_def chain_def new_number_def joins_def
        pairs_def iwf_def)
next
  case (Some t)
  with ok have c: "chain A B t (xs @ ys)" "xs @ ys \<noteq> []" by (simp_all add: link_ok_def)
  have "\<not> is_devdev l"
    using l c by (cases l; cases xs rule: rev_cases; cases ys)
      (auto simp: is_devdev_def pairs_def chain_def)
  moreover obtain t' where "split_leg cx cy (free_tpi t 0) l t = Done t'"
      "chain A B t' (xs @ free_tpi t 0 # ys)"
    using split_leg_chain [OF c free_tpi_free l] by blast
  ultimately show ?thesis using Some c
    by (auto simp: new_tp_tps_def link_ok_def new_number_def)
qed

lemma remove_tp_link_ok:
  assumes ok: "link_ok A B ot (xs @ k # ys)"
  shows "\<exists>ot'. remove_tp_tps k ot = Done ot' \<and> link_ok A B ot' (xs @ ys)"
proof -
  obtain t where t: "ot = Some t" "chain A B t (xs @ k # ys)"
    using ok by (auto simp: link_ok_def split: option.splits)
  show ?thesis
  proof (cases "xs @ ys = []")
    case True
    with t have "chain A B t [k]" by simp
    with t True show ?thesis
      using unhook_single [of A B t k] by (auto simp: remove_tp_tps_def Let_def link_ok_def chain_def)
  next
    case False
    obtain t' where t': "unhook k t = Done t'" "chain A B (odel k t') (xs @ ys)"
      using unhook_chain [OF t(2) False] by blast
    moreover have "set (okeys (odel k t')) = set (xs @ ys)"
      using t'(2) unfolding chain_def by argo
    then have "okeys (odel k t') \<noteq> []"
      using False by (metis set_empty)
    ultimately show ?thesis using t(1) False
      by (auto simp: remove_tp_tps_def Let_def link_ok_def)
  qed
qed

lemma move_tp_link_ok:
  assumes ok: "link_ok A B ot ks" and k: "k \<in> set ks"
  shows "\<exists>ot'. move_tp_tps k x y ot = Done ot' \<and> link_ok A B ot' ks"
proof -
  obtain t where t: "ot = Some t" "chain A B t ks" "ks \<noteq> []"
    using ok k by (auto simp: link_ok_def split: option.splits)
  with k obtain p where p: "oget t k = Some p" by (metis chain_oget not_None_eq)
  have "joins (iset k (p\<lparr>tp_x := x, tp_y := y\<rparr>) t) j u v = joins t j u v" for j u v
    using t p by (simp add: joins_def chain_def)
  then have "wired (iset k (p\<lparr>tp_x := x, tp_y := y\<rparr>) t) u js v = wired t u js v" for u js v
    by (induction js arbitrary: u) auto
  with t p k show ?thesis
    by (auto simp: move_tp_tps_def link_ok_def chain_def)
qed

section \<open>The legs that are drawn\<close>

fun tp_legs :: "tpi \<Rightarrow> tp_ends \<Rightarrow> leg_ends list" where
  "tp_legs k (Devdev fd fi td ti) = [LDevtp fd fi k, LDevtp td ti k]"
| "tp_legs k (Devtp fd fi q) = [LDevtp fd fi k, LTptp k q]"
| "tp_legs k (Tptp f q) = [LTptp k f, LTptp k q]"

fun tp_valid :: "dev_id \<Rightarrow> dev_id \<Rightarrow> tpi \<Rightarrow> tp_ends \<Rightarrow> bool" where
  "tp_valid a b k (Devdev fd fi td ti) \<longleftrightarrow> fd \<in> {a, b} \<and> td \<in> {a, b}"
| "tp_valid a b k (Devtp fd fi q) \<longleftrightarrow> fd \<in> {a, b} \<and> q \<noteq> k"
| "tp_valid a b k (Tptp f q) \<longleftrightarrow> f \<noteq> k \<and> q \<noteq> k \<and> f \<noteq> q"

text \<open>A wiring object whose turnpoint table stays sorted.\<close>

definition w_ok :: "wiring \<Rightarrow> bool" where
  "w_ok w = iwf (w_tps w)"

lemma w_ok_simps [simp]:
  "w_ok w \<Longrightarrow> w_ok (push_leg l w)" "w_ok w \<Longrightarrow> w_ok (touch k w)" "w_ok w \<Longrightarrow> w_ok (mark k j w)"
  "w_ok w \<Longrightarrow> w_ok (w\<lparr>w_tps := iset k c (w_tps w)\<rparr>)" "w_ok w \<Longrightarrow> w_ok (invalid_tp lid k w)"
  by (simp_all add: w_ok_def push_leg_def touch_def mark_def invalid_tp_def split: option.splits)

lemma w_legs_simps [simp]:
  "w_legs (touch k w) = w_legs w" "w_legs (mark k j w) = w_legs w"
  "map leg_ends (w_legs (push_leg l w)) = map leg_ends (w_legs w) @ [l]"
  "w_alerts (touch k w) = w_alerts w" "w_alerts (mark k j w) = w_alerts w"
  "w_alerts (push_leg l w) = w_alerts w" "w_tps (push_leg l w) = w_tps w"
  by (simp_all add: push_leg_def touch_def mark_def split: option.splits)

lemma connected_touch [simp]: "w_ok w \<Longrightarrow> connected (touch j w) k i = connected w k i"
  by (auto simp: connected_def touch_def w_ok_def split: option.splits)

lemma connected_push [simp]: "connected (push_leg l w) k i = connected w k i"
  by (simp add: connected_def)

lemma connected_mark [simp]:
  "w_ok w \<Longrightarrow> connected (mark j l w) k i \<longleftrightarrow> (k = j \<and> i = l) \<or> connected w k i"
  by (auto simp: connected_def mark_def w_ok_def split: option.splits if_splits)

lemma connected_reset [simp]:
  "w_ok w \<Longrightarrow> connected (w\<lparr>w_tps := iset k [] (w_tps w)\<rparr>) k i = False"
  by (simp add: connected_def w_ok_def)

lemma wire_tp_valid:
  assumes "w_ok w" "tp_valid a b k (tp_ends p)"
  shows "w_ok (wire_tp lid a b (k, p) w) \<and> w_alerts (wire_tp lid a b (k, p) w) = w_alerts w \<and>
    map leg_ends (w_legs (wire_tp lid a b (k, p) w)) = map leg_ends (w_legs w) @ tp_legs k (tp_ends p)"
  using assms
  by (cases "tp_ends p") (auto simp: wire_tp_def join_tps_def Let_def)

lemma fold_wire_valid:
  assumes "w_ok w" "\<forall>(k, p) \<in> set t. tp_valid a b k (tp_ends p)"
  shows "w_alerts (fold (wire_tp lid a b) t w) = w_alerts w \<and>
    map leg_ends (w_legs (fold (wire_tp lid a b) t w)) =
      map leg_ends (w_legs w) @ concat (map (\<lambda>(k, p). tp_legs k (tp_ends p)) t)"
  using assms
proof (induction t arbitrary: w)
  case (Cons kp t)
  obtain k p where "kp = (k, p)" by (cases kp)
  with Cons.prems Cons.IH [of "wire_tp lid a b kp w"] wire_tp_valid [of w a b k p lid]
  show ?case by simp
qed simp

lemma chain_at:
  assumes c: "chain A B t ks" and k: "oget t k = Some p"
  obtains xs ys where "ks = xs @ k # ys" "pairs (ends_of (tp_ends p)) (last_node A xs) (next_node ys B)"
proof -
  have "k \<in> set ks" using c k by (metis chain_oget option.distinct(1))
  then obtain xs ys where ks: "ks = xs @ k # ys" by (meson split_list)
  with chain_split [of A B t xs k ys] c k have "pairs (ends_of (tp_ends p)) (last_node A xs) (next_node ys B)"
    by (simp add: joins_def)
  with ks that show ?thesis by blast
qed

lemma chain_tp_valid:
  assumes c: "chain (End a i) (End b j) t ks" and k: "oget t k = Some p"
  shows "tp_valid a b k (tp_ends p)"
proof -
  obtain xs ys where ks: "ks = xs @ k # ys"
    and p: "pairs (ends_of (tp_ends p)) (last_node (End a i) xs) (next_node ys (End b j))"
    using c k by (rule chain_at)
  have "k \<notin> set xs" "k \<notin> set ys" "set xs \<inter> set ys = {}"
    using c ks by (auto simp: chain_def)
  with p show ?thesis
    by (cases "tp_ends p"; cases xs rule: rev_cases; cases ys) (auto simp: pairs_def)
qed

lemma iwf_map_of_mem: "iwf t \<Longrightarrow> (k, p) \<in> set t \<longleftrightarrow> oget t k = Some p"
  using iwf_distinct [of t] by (auto simp: okeys_def dest: map_of_SomeD)

lemma chain_legs:
  assumes c: "chain (End a i) (End b j) t ks"
  shows "map leg_ends (legs (fst (build_connection lid a i b j st (Some t)))) =
      concat (map (\<lambda>(k, p). tp_legs k (tp_ends p)) t)"
    and "snd (build_connection lid a i b j st (Some t)) = []"
proof -
  have "\<forall>(k, p) \<in> set t. tp_valid a b k (tp_ends p)"
    using c chain_tp_valid [OF c] by (auto simp: chain_def iwf_map_of_mem)
  from fold_wire_valid [OF _ this, of "\<lparr>w_legs = [], w_tps = [], w_alerts = []\<rparr>" lid]
  show "map leg_ends (legs (fst (build_connection lid a i b j st (Some t)))) =
      concat (map (\<lambda>(k, p). tp_legs k (tp_ends p)) t)"
    and "snd (build_connection lid a i b j st (Some t)) = []"
    by (simp_all add: build_connection_def wire_tps_def Let_def w_ok_def iwf_def)
qed

lemma length_tp_legs: "length (concat (map (\<lambda>(k, p). tp_legs k (tp_ends p)) t)) = 2 * length t"
  by (induction t) (auto, case_tac "tp_ends b", auto)

text \<open>Every leg of a turnpoint lies between it and one of its neighbours, and both are there.\<close>

lemma tp_legs_pairs: "l \<in> set (tp_legs k e) \<Longrightarrow> \<exists>u. pairs (leg_nodes l) (At k) u \<and> (u = fst (ends_of e) \<or> u = snd (ends_of e))"
  by (cases e) (auto simp: pairs_def)

lemma pairs_tp_legs: "pairs (ends_of e) u v \<Longrightarrow> \<exists>l \<in> set (tp_legs k e). pairs (leg_nodes l) u (At k)"
  by (cases e) (auto simp: pairs_def)

lemma chain_leg_edge:
  assumes c: "chain A B t ks" and l: "(k, p) \<in> set t" "l \<in> set (tp_legs k (tp_ends p))"
  shows "\<exists>xs ys. ks = xs @ ys \<and> pairs (leg_nodes l) (last_node A xs) (next_node ys B)"
proof -
  have "oget t k = Some p" using c l by (simp add: chain_def iwf_map_of_mem)
  then obtain xs ys where ks: "ks = xs @ k # ys"
    and p: "pairs (ends_of (tp_ends p)) (last_node A xs) (next_node ys B)"
    using c by (elim chain_at)
  obtain u where u: "pairs (leg_nodes l) (At k) u" "u = fst (ends_of (tp_ends p)) \<or> u = snd (ends_of (tp_ends p))"
    using tp_legs_pairs [OF l(2)] by blast
  then have "u = last_node A xs \<or> u = next_node ys B"
    using p by (auto simp: pairs_def)
  then show ?thesis
  proof
    assume "u = last_node A xs"
    with u ks have "ks = xs @ (k # ys) \<and> pairs (leg_nodes l) (last_node A xs) (next_node (k # ys) B)"
      by (simp add: pairs_sym)
    then show ?thesis by blast
  next
    assume "u = next_node ys B"
    with u ks have "ks = (xs @ [k]) @ ys \<and> pairs (leg_nodes l) (last_node A (xs @ [k])) (next_node ys B)"
      by simp
    then show ?thesis by blast
  qed
qed

lemma chain_edge_leg:
  assumes c: "chain A B t (xs @ ys)" and ne: "xs @ ys \<noteq> []"
  shows "\<exists>k p l. (k, p) \<in> set t \<and> l \<in> set (tp_legs k (tp_ends p)) \<and>
    pairs (leg_nodes l) (last_node A xs) (next_node ys B)"
proof (cases ys)
  case (Cons k zs)
  with chain_split [of A B t xs k zs] c have "joins t k (last_node A xs) (next_node zs B)" by simp
  then obtain p where p: "oget t k = Some p" "pairs (ends_of (tp_ends p)) (last_node A xs) (next_node zs B)"
    by (rule joinsE)
  then obtain l where "l \<in> set (tp_legs k (tp_ends p))" "pairs (leg_nodes l) (last_node A xs) (At k)"
    using pairs_tp_legs by blast
  with p(1) c Cons show ?thesis by (auto simp: chain_def iwf_map_of_mem)
next
  case Nil
  with ne obtain k zs where xs: "xs = zs @ [k]" by (cases xs rule: rev_cases) auto
  with Nil chain_split [of A B t zs k "[]"] c have "joins t k (last_node A zs) B" by simp
  then obtain p where p: "oget t k = Some p" "pairs (ends_of (tp_ends p)) (last_node A zs) B"
    by (rule joinsE)
  then have "pairs (ends_of (tp_ends p)) B (last_node A zs)" by (simp add: pairs_sym)
  then obtain l where "l \<in> set (tp_legs k (tp_ends p))" "pairs (leg_nodes l) B (At k)"
    using pairs_tp_legs by blast
  with p(1) c Nil xs show ?thesis
    by (auto simp: chain_def iwf_map_of_mem pairs_sym [of _ B])
qed

section \<open>What the user can do with a link\<close>

text \<open>
  The legs a link is drawn with, and the three operations the page offers on them: the
  plus button of a drawn leg inserts a turnpoint, a double click on a turnpoint removes
  it, dragging one moves it. The positions are arbitrary.
\<close>

definition drawn_legs :: "dev_id \<Rightarrow> if_name \<Rightarrow> dev_id \<Rightarrow> if_name \<Rightarrow> tps option \<Rightarrow> leg_ends list" where
  "drawn_legs a i b j ot = map leg_ends (legs (fst (build_connection '''' a i b j 1 ot)))"

inductive link_op :: "dev_id \<Rightarrow> if_name \<Rightarrow> dev_id \<Rightarrow> if_name \<Rightarrow> tps option \<Rightarrow> tps option run \<Rightarrow> bool"
  for a i b j where
  insert_op: "l \<in> set (drawn_legs a i b j ot) \<Longrightarrow> link_op a i b j ot (new_tp_tps cx cy l ot)"
| remove_op: "ot = Some t \<Longrightarrow> k \<in> set (okeys t) \<Longrightarrow> link_op a i b j ot (remove_tp_tps k ot)"
| move_op: "ot = Some t \<Longrightarrow> k \<in> set (okeys t) \<Longrightarrow> link_op a i b j ot (move_tp_tps k x y ot)"

inductive_cases link_op_NoneE: "link_op a i b j None r"
inductive_simps link_op_None: "link_op a i b j None r"

inductive reachable_link :: "dev_id \<Rightarrow> if_name \<Rightarrow> dev_id \<Rightarrow> if_name \<Rightarrow> tps option \<Rightarrow> bool"
  for a i b j where
  fresh: "reachable_link a i b j None"
| after: "reachable_link a i b j ot \<Longrightarrow> link_op a i b j ot r \<Longrightarrow> reachable_link a i b j (run_state r)"

lemma drawn_legs_edge:
  assumes ok: "link_ok (End a i) (End b j) ot ks" and l: "l \<in> set (drawn_legs a i b j ot)"
  shows "\<exists>xs ys. ks = xs @ ys \<and> pairs (leg_nodes l) (last_node (End a i) xs) (next_node ys (End b j))"
proof (cases ot)
  case None
  with ok l show ?thesis
    by (auto simp: drawn_legs_def build_connection_def push_leg_def link_ok_def pairs_def)
next
  case (Some t)
  with ok have c: "chain (End a i) (End b j) t ks" by (simp add: link_ok_def)
  from l Some chain_legs(1) [OF c] obtain k p where "(k, p) \<in> set t" "l \<in> set (tp_legs k (tp_ends p))"
    by (auto simp: drawn_legs_def)
  with c show ?thesis by (rule chain_leg_edge)
qed

lemma edge_drawn_leg:
  assumes ok: "link_ok (End a i) (End b j) ot (xs @ ys)"
  shows "\<exists>l \<in> set (drawn_legs a i b j ot). pairs (leg_nodes l) (last_node (End a i) xs) (next_node ys (End b j))"
proof (cases ot)
  case None
  with ok show ?thesis
    by (auto simp: drawn_legs_def build_connection_def push_leg_def link_ok_def pairs_def)
next
  case (Some t)
  with ok have c: "chain (End a i) (End b j) t (xs @ ys)" "xs @ ys \<noteq> []" by (simp_all add: link_ok_def)
  from chain_edge_leg [OF c] Some chain_legs(1) [OF c(1)] show ?thesis
    by (force simp: drawn_legs_def)
qed

lemma link_op_ok:
  assumes ok: "link_ok (End a i) (End b j) ot ks" and st: "link_op a i b j ot r"
  shows "\<exists>ot' ks'. r = Done ot' \<and> link_ok (End a i) (End b j) ot' ks'"
  using st
proof cases
  case (insert_op l cx cy)
  obtain xs ys where xs: "ks = xs @ ys" "pairs (leg_nodes l) (last_node (End a i) xs) (next_node ys (End b j))"
    using drawn_legs_edge [OF ok insert_op(2)] by blast
  show ?thesis
    using new_tp_link_ok [OF ok [unfolded xs(1)] xs(2), of cx cy] insert_op by blast
next
  case (remove_op t k)
  with ok have "k \<in> set ks" by (auto simp: link_ok_def chain_def)
  then obtain xs ys where ks: "ks = xs @ k # ys" by (meson split_list)
  show ?thesis using remove_tp_link_ok [OF ok [unfolded ks]] remove_op by blast
next
  case (move_op t k x y)
  with ok have "k \<in> set ks" by (auto simp: link_ok_def chain_def)
  with move_tp_link_ok [OF ok] move_op show ?thesis by blast
qed

lemma reachable_link_ok:
  "reachable_link a i b j ot \<Longrightarrow> a \<noteq> b \<Longrightarrow> \<exists>ks. link_ok (End a i) (End b j) ot ks"
proof (induction rule: reachable_link.induct)
  case fresh
  then show ?case by (simp add: link_ok_def)
next
  case (after ot r)
  then obtain ks where ks: "link_ok (End a i) (End b j) ot ks" by blast
  from link_op_ok [OF ks after.hyps(2)] show ?case by auto
qed

section \<open>What holds of every link\<close>

lemma pairs_trans: "pairs e p q \<Longrightarrow> pairs e u v \<Longrightarrow> pairs (p, q) u v"
  by (auto simp: pairs_def)

lemma pairs_trans2: "pairs e p q \<Longrightarrow> pairs (p, q) u v \<Longrightarrow> pairs e u v"
  by (auto simp: pairs_def)

text \<open>
  C1: starting from a link without turnpoints, whatever the user inserts, removes and drags,
  the stored turnpoint records always form one path from one interface to the other that
  visits every turnpoint once.
\<close>

theorem turnpoints_form_path:
  "reachable_link a i b j ot \<Longrightarrow> a \<noteq> b \<Longrightarrow> \<exists>ks. link_ok (End a i) (End b j) ot ks"
  by (rule reachable_link_ok)

definition ex_two :: "tps option" where
  "ex_two = Some [(0, \<lparr>tp_x = 32, tp_y = 48, tp_ends = Devtp ''r2'' ''e7'' 1\<rparr>),
     (1, \<lparr>tp_x = 64, tp_y = 16, tp_ends = Devtp ''r1'' ''e1'' 0\<rparr>)]"

lemma ex_two_run: "run_state (new_tp_tps 64 16 (LDevtp ''r1'' ''e1'' 0)
    (run_state (new_tp_tps 32 48 (LDevdev ''r1'' ''e1'' ''r2'' ''e7'') None))) = ex_two"
  by code_simp

lemma ex_two_reachable: "reachable_link ''r1'' ''e1'' ''r2'' ''e7'' ex_two"
  unfolding ex_two_run [symmetric]
proof (rule reachable_link.after [OF reachable_link.after [OF reachable_link.fresh]])
  show "link_op ''r1'' ''e1'' ''r2'' ''e7'' None (new_tp_tps 32 48 (LDevdev ''r1'' ''e1'' ''r2'' ''e7'') None)"
    by (rule insert_op) code_simp
  show "link_op ''r1'' ''e1'' ''r2'' ''e7'' (run_state (new_tp_tps 32 48 (LDevdev ''r1'' ''e1'' ''r2'' ''e7'') None))
      (new_tp_tps 64 16 (LDevtp ''r1'' ''e1'' 0)
        (run_state (new_tp_tps 32 48 (LDevdev ''r1'' ''e1'' ''r2'' ''e7'') None)))"
    by (rule insert_op) code_simp
qed

lemma turnpoints_form_path_witness: "\<exists>ks. link_ok (End ''r1'' ''e1'') (End ''r2'' ''e7'') ex_two ks"
  by (rule turnpoints_form_path [OF ex_two_reachable]) simp

text \<open>
  C7: no operation the page offers on a reachable link fails: neither an exception nor one of
  the consistency errors of \<open>new_tp\<close> and \<open>remove_tp\<close> occurs.
\<close>

theorem turnpoint_ops_succeed:
  assumes "reachable_link a i b j ot" "a \<noteq> b" "link_op a i b j ot r"
  shows "\<exists>ot'. r = Done ot'"
  using reachable_link_ok [OF assms(1,2)] link_op_ok [OF _ assms(3)] by blast

lemma turnpoint_ops_succeed_witness: "\<exists>ot'. remove_tp_tps 0 ex_two = Done ot'"
  by (rule turnpoint_ops_succeed [OF ex_two_reachable])
    (simp, rule remove_op, simp add: ex_two_def, simp)

text \<open>
  C8: the legs drawn for a link are exactly the steps of its path: two ends are joined by a
  drawn leg if and only if they are neighbours on the path.
\<close>

theorem legs_are_path_steps:
  assumes "link_ok (End a i) (End b j) ot ks"
  shows "(\<exists>l \<in> set (drawn_legs a i b j ot). pairs (leg_nodes l) u v) \<longleftrightarrow>
    (\<exists>xs ys. ks = xs @ ys \<and> pairs (last_node (End a i) xs, next_node ys (End b j)) u v)"
proof
  assume "\<exists>l \<in> set (drawn_legs a i b j ot). pairs (leg_nodes l) u v"
  then obtain l where l: "l \<in> set (drawn_legs a i b j ot)" "pairs (leg_nodes l) u v" by blast
  from drawn_legs_edge [OF assms l(1)] l(2)
  show "\<exists>xs ys. ks = xs @ ys \<and> pairs (last_node (End a i) xs, next_node ys (End b j)) u v"
    using pairs_trans by blast
next
  assume "\<exists>xs ys. ks = xs @ ys \<and> pairs (last_node (End a i) xs, next_node ys (End b j)) u v"
  then obtain xs ys where xs: "ks = xs @ ys" "pairs (last_node (End a i) xs, next_node ys (End b j)) u v" by blast
  from edge_drawn_leg [OF assms [unfolded xs(1)]] xs(2)
  show "\<exists>l \<in> set (drawn_legs a i b j ot). pairs (leg_nodes l) u v"
    using pairs_trans2 by blast
qed

lemma ex_two_ok: "link_ok (End ''r1'' ''e1'') (End ''r2'' ''e7'') ex_two [1, 0]"
  by code_simp

lemma legs_are_path_steps_witness:
  "\<exists>l \<in> set (drawn_legs ''r1'' ''e1'' ''r2'' ''e7'' ex_two). pairs (leg_nodes l) (At 1) (At 0)"
  unfolding legs_are_path_steps [OF ex_two_ok]
  by (rule exI [of _ "[1]"], rule exI [of _ "[0]"]) (simp add: pairs_def last_node_def next_node_def)

text \<open>
  C9: inserting a turnpoint between two neighbours of the path puts it between exactly those
  two, with a number no other turnpoint has, and removing it again gives back the old path.
\<close>

theorem insert_remove_turnpoint:
  assumes ok: "link_ok (End a i) (End b j) ot (xs @ ys)"
    and l: "l \<in> set (drawn_legs a i b j ot)" "pairs (leg_nodes l) (last_node (End a i) xs) (next_node ys (End b j))"
  shows "\<exists>t ot'. new_tp_tps cx cy l ot = Done (Some t) \<and> new_number ot \<notin> set (xs @ ys) \<and>
    link_ok (End a i) (End b j) (Some t) (xs @ new_number ot # ys) \<and>
    remove_tp_tps (new_number ot) (Some t) = Done ot' \<and> link_ok (End a i) (End b j) ot' (xs @ ys)"
proof -
  obtain t where t: "new_tp_tps cx cy l ot = Done (Some t)"
    "link_ok (End a i) (End b j) (Some t) (xs @ new_number ot # ys)"
    using new_tp_link_ok [OF ok l(2)] by blast
  obtain ot' where "remove_tp_tps (new_number ot) (Some t) = Done ot'" "link_ok (End a i) (End b j) ot' (xs @ ys)"
    using remove_tp_link_ok [OF t(2)] by blast
  moreover have "new_number ot \<notin> set (xs @ ys)"
    using t(2) by (auto simp: link_ok_def chain_def)
  ultimately show ?thesis using t by blast
qed

lemma insert_remove_turnpoint_witness:
  "\<exists>t ot'. new_tp_tps 8 8 (LDevtp ''r1'' ''e1'' 1) ex_two = Done (Some t) \<and> new_number ex_two \<notin> set ([] @ [1, 0]) \<and>
    link_ok (End ''r1'' ''e1'') (End ''r2'' ''e7'') (Some t) ([] @ new_number ex_two # [1, 0]) \<and>
    remove_tp_tps (new_number ex_two) (Some t) = Done ot' \<and>
    link_ok (End ''r1'' ''e1'') (End ''r2'' ''e7'') ot' ([] @ [1, 0])"
  by (rule insert_remove_turnpoint) (code_simp, code_simp, code_simp)

text \<open>
  The loop resets \<open>tps[tpi]\<close> at every turnpoint, so its record of which turnpoints are
  joined never suppresses a leg: a path of \<open>n\<close> turnpoints is drawn with \<open>2 * n\<close> legs, although
  it has only \<open>n + 1\<close> steps.
\<close>

theorem legs_drawn_twice:
  assumes "link_ok (End a i) (End b j) ot ks" "ks \<noteq> []"
  shows "length (drawn_legs a i b j ot) = 2 * length ks"
proof -
  obtain t where t: "ot = Some t" "chain (End a i) (End b j) t ks"
    using assms by (auto simp: link_ok_def split: option.splits)
  then have "length t = length ks"
    by (metis chain_def distinct_card iwf_distinct length_map okeys_def)
  with t show ?thesis
    using chain_legs(1) [OF t(2)] by (simp add: drawn_legs_def length_tp_legs)
qed

lemma legs_drawn_twice_witness: "length (drawn_legs ''r1'' ''e1'' ''r2'' ''e7'' ex_two) = 2 * length [1 :: tpi, 0]"
  by (rule legs_drawn_twice [OF ex_two_ok]) simp

end
