(* ===== verification/JsNumber.thy ===== *)
theory JsNumber
  imports JsText
begin

text \<open>
  The two places where the sources print a quotient with one decimal,
  \<open>kmg\<close> of \<open>mapper.js\<close> and \<open>GMK\<close> of \<open>myjslib.js\<close>: the quotient is an IEEE double (53
  bits, ties to even), \<open>toFixed(1)\<close> rounds that double to tenths (ties up).
\<close>

text \<open>The binary exponent: the least \<open>e\<close> with \<open>2^52 \<le> (a / b) * 2^e\<close>.\<close>

function dbl_exp :: "nat \<Rightarrow> nat \<Rightarrow> nat \<Rightarrow> nat" where
  "dbl_exp a b e = (if 0 < a \<and> a * 2 ^ e < 2 ^ 52 * b then dbl_exp a b (Suc e) else e)"
  by pat_completeness auto
termination
proof (relation "measure (\<lambda>(a, b, e). 2 ^ 52 * b - a * 2 ^ e)", rule wf_measure)
  fix a b e :: nat
  assume "0 < a \<and> a * 2 ^ e < 2 ^ 52 * b"
  moreover from this have "a * 2 ^ e < a * 2 ^ Suc e" by simp
  ultimately show "((a, b, Suc e), a, b, e) \<in> measure (\<lambda>(a, b, e). 2 ^ 52 * b - a * 2 ^ e)"
    unfolding in_measure split_conv by (intro diff_less_mono2) simp_all
qed

declare dbl_exp.simps [simp del]

text \<open>Round half to even.\<close>

definition div_even :: "nat \<Rightarrow> nat \<Rightarrow> nat" where
  "div_even a b = (let q = a div b; r = a mod b
     in if b < 2 * r \<or> (2 * r = b \<and> odd q) then Suc q else q)"

text \<open>The tenths that \<open>(a / b).toFixed(1)\<close> shows, for \<open>a / b < 2^53\<close>.\<close>

definition tenths :: "nat \<Rightarrow> nat \<Rightarrow> nat" where
  "tenths a b = (let e = dbl_exp a b 0; m = div_even (a * 2 ^ e) b
     in (20 * m + 2 ^ e) div (2 * 2 ^ e))"

definition toFixed1 :: "nat \<Rightarrow> nat \<Rightarrow> string" where
  "toFixed1 a b = nat_str (tenths a b div 10) @ ''.'' @ nat_str (tenths a b mod 10)"

text \<open>\<open>toFixed(1).toString().replace(/\.0$/, "")\<close>\<close>

definition toFixed1_trim :: "nat \<Rightarrow> nat \<Rightarrow> string" where
  "toFixed1_trim a b =
     (if tenths a b mod 10 = 0 then nat_str (tenths a b div 10) else toFixed1 a b)"

definition kmg :: "string \<Rightarrow> string \<Rightarrow> string" where
  "kmg speed space =
     (if \<not> is_num speed then ''error''
      else let n = str_nat speed
           in if n < 1000 then nat_str n @ space
              else if n < 1000000 then toFixed1_trim n 1000 @ space @ ''K''
              else if n < 1000000000 then toFixed1_trim n 1000000 @ space @ ''M''
              else toFixed1_trim n 1000000000 @ space @ ''G'')"

definition GMK :: "nat \<Rightarrow> string" where
  "GMK bytes =
     (if 1000000000 \<le> bytes then toFixed1 bytes 1000000000 @ ''G''
      else if 1000000 \<le> bytes then toFixed1 bytes 1000000 @ ''M''
      else if 1000 \<le> bytes then toFixed1 bytes 1000 @ ''K''
      else nat_str bytes)"

lemma dbl_exp_ge: "0 < a \<Longrightarrow> 2 ^ 52 * b \<le> a * 2 ^ dbl_exp a b e"
proof (induction a b e rule: dbl_exp.induct)
  case (1 a b e)
  then show ?case by (cases "a * 2 ^ e < 2 ^ 52 * b") (simp_all add: dbl_exp.simps [of a b e])
qed

lemma div_even_bounds:
  assumes "0 < b"
  shows "2 * b * div_even a b \<le> 2 * a + b" and "2 * a \<le> 2 * b * div_even a b + b"
proof -
  define q r where "q = a div b" and "r = a mod b"
  have a: "a = b * q + r" "r < b" using assms by (simp_all add: q_def r_def)
  have "div_even a b = (if b < 2 * r \<or> (2 * r = b \<and> odd q) then Suc q else q)"
    by (simp add: div_even_def q_def r_def Let_def)
  with a show "2 * b * div_even a b \<le> 2 * a + b" and "2 * a \<le> 2 * b * div_even a b + b"
    by (auto simp: algebra_simps)
qed

text \<open>
  For the divisors of the code the detour over the double does not matter beyond ties:
  the shown tenths are within half a tenth of the exact quotient.
\<close>

lemma tenths_near:
  assumes b: "0 < b" and a: "0 < a" "a < 2 ^ 48"
  shows "2 * b * tenths a b \<le> 20 * a + b" and "20 * a \<le> 2 * b * tenths a b + b"
proof -
  define e where "e = dbl_exp a b 0"
  define E :: int where "E = 2 ^ e"
  define m where "m = div_even (a * 2 ^ e) b"
  define A B M T where "A = int a" and "B = int b" and "M = int m" and "T = int (tenths a b)"
  note defs = A_def B_def M_def T_def
  have E: "0 < E" by (simp add: E_def)
  define R where "R = (20 * M + E) mod (2 * E)"
  have "T = (20 * M + E) div (2 * E)"
    by (simp add: defs E_def tenths_def e_def m_def Let_def zdiv_int)
  then have "2 * E * T + R = 20 * M + E" by (simp only: R_def mult_div_mod_eq)
  moreover have "0 \<le> R" "R < 2 * E" using E by (simp_all add: R_def)
  ultimately have t: "2 * E * T \<le> 20 * M + E" "20 * M + E < 2 * E * T + 2 * E"
    by linarith+
  have "2 * b * m \<le> 2 * (a * 2 ^ e) + b" "2 * (a * 2 ^ e) \<le> 2 * b * m + b"
    using div_even_bounds [OF b, of "a * 2 ^ e"] by (simp_all add: m_def)
  then have "int (2 * b * m) \<le> int (2 * (a * 2 ^ e) + b)" "int (2 * (a * 2 ^ e)) \<le> int (2 * b * m + b)"
    by (simp_all only: of_nat_le_iff)
  then have m: "2 * B * M \<le> 2 * (A * E) + B" "2 * (A * E) \<le> 2 * B * M + B"
    by (simp_all add: defs E_def)
  have "int (2 ^ 52 * b) \<le> int (a * 2 ^ e)"
    using dbl_exp_ge [OF a(1), of b 0] by (simp only: of_nat_le_iff e_def)
  then have "2 ^ 52 * B \<le> A * E" by (simp add: defs E_def)
  also have "A * E \<le> 2 ^ 48 * E"
    using a(2) E by (intro mult_right_mono) (simp_all add: defs)
  finally have big: "10 * B < E" using b E by (simp add: defs)
  have B: "0 < B" using b by (simp add: defs)
  have "B * (2 * E * T) \<le> B * (20 * M + E)"
    using t(1) B by (intro mult_left_mono) simp_all
  then have "E * (2 * B * T - 20 * A - B) \<le> 10 * B"
    using m(1) by (simp add: algebra_simps)
  with big have "E * (2 * B * T - 20 * A - B) < E * 1" by linarith
  then have "2 * B * T - 20 * A - B < 1" using E by (simp only: mult_less_cancel_left_pos)
  then show "2 * b * tenths a b \<le> 20 * a + b"
    by (simp add: defs flip: of_nat_le_iff [where ?'a = int])
  have "B * (20 * M + E) \<le> B * (2 * E * T + 2 * E)"
    using t(2) B by (intro mult_left_mono) simp_all
  then have "E * (20 * A - 2 * B * T - B) \<le> 10 * B"
    using m(2) by (simp add: algebra_simps)
  with big have "E * (20 * A - 2 * B * T - B) < E * 1" by linarith
  then have "20 * A - 2 * B * T - B < 1" using E by (simp only: mult_less_cancel_left_pos)
  then show "20 * a \<le> 2 * b * tenths a b + b"
    by (simp add: defs flip: of_nat_le_iff [where ?'a = int])
qed

end
