(* ===== verification/IfStyle.thy ===== *)
theory IfStyle
  imports Model JsNumber
begin

text \<open>
  How an interface is shown: the colours and the short name of its square
  (\<open>int_style\<close>), the labels of its status line (\<open>int_metrics\<close>) and the HTML of that line
  (\<open>int_labels\<close>).
\<close>

section \<open>\<open>int_style\<close>\<close>

record if_style =
  label_bg_color :: string
  bullet_color :: string
  st_short_name :: string

definition short_if_name :: "string \<Rightarrow> string" where
  "short_if_name s =
     (let s = re_replace (RSeq (re_liti ''giga'') (RSeq re_dots (re_liti ''ethernet''))) ''Gi'' s;
          s = re_replace (re_liti ''fastethernet'') ''Fa'' s;
          s = re_replace (re_liti ''ethernet'') ''Eth'' s;
          s = re_replace (re_liti ''vlan'') ''Vl'' s;
          s = re_replace (re_liti ''loopback'') ''Lo'' s;
          s = re_replace (re_liti ''Port.'') ''Port'' s;
          s = re_replace (re_liti ''ip interface'') ''Ip'' s
      in s)"

definition eigrp_alone :: "iface \<Rightarrow> bool" where
  "eigrp_alone f = (case eigrpIfPkts f of None \<Rightarrow> False | Some n \<Rightarrow> 0 < n \<and> eigrpIfPeerCount f = Some 0)"

definition style_colors :: "iface \<Rightarrow> string \<times> string" where
  "style_colors f =
     (if ifOperStatus f \<noteq> None \<and> ifAdminStatus f \<noteq> None \<and> ifType f \<noteq> None then
        if ifAdminStatus f = Some 2 then (''gray'', ''darkgray'')
        else
          let c = (if ifOperStatus f = Some 1 then
                     (if stpBlockInstances f \<noteq> None then (''magenta'', ''darkmagenta'')
                      else (''lightgreen'', ''darkgreen''))
                   else if ifOperStatus f = Some 2 then (''red'', ''darkred'')
                   else (''orange'', ''saddlebrown''))
          in if eigrp_alone f then (''orange'', ''saddlebrown'') else c
      else (''red'', ''darkred''))"

text \<open>\<open>dev["interfaces"][int]["ifName"]\<close> is read before any check.\<close>

definition int_style :: "if_name \<Rightarrow> device \<Rightarrow> exn + if_style" where
  "int_style i d = (case oget (dev_ifs d) i of
      None \<Rightarrow> Inl TypeError
    | Some f \<Rightarrow> Inr \<lparr>label_bg_color = fst (style_colors f), bullet_color = snd (style_colors f),
        st_short_name = short_if_name (ifName f)\<rparr>)"

section \<open>\<open>int_metrics\<close>\<close>

record label =
  short_text :: string
  long_text :: string
  bg_color :: string

type_synonym labels = "(string, label) obj"

definition mk_label :: "string \<Rightarrow> string \<Rightarrow> string \<Rightarrow> label" where
  "mk_label s l c = \<lparr>short_text = s, long_text = l, bg_color = c\<rparr>"

text \<open>A number or a string in a concatenation, and \<open>if_undef(value, "")\<close>.\<close>

definition undef_str :: "string option \<Rightarrow> string" where
  "undef_str v = (case v of None \<Rightarrow> ''undefined'' | Some s \<Rightarrow> s)"

definition if_undef :: "string option \<Rightarrow> string \<Rightarrow> string" where
  "if_undef v def = (case v of None \<Rightarrow> def | Some s \<Rightarrow> if s = '''' then def else s)"

definition num_opt :: "nat option \<Rightarrow> string option" where
  "num_opt v = map_option nat_str v"

definition status_label :: "iface \<Rightarrow> label" where
  "status_label f =
     (if ifAdminStatus f = Some 2 then mk_label ''Sh'' ''Shutdown'' ''gray''
      else if ifOperStatus f = Some 2 then mk_label ''Dn'' ''Down'' ''red''
      else if ifOperStatus f = Some 1 then
        if eigrp_alone f then mk_label ''Ei'' ''No EIGRP neighbours'' ''orange''
        else if stpBlockInstances f = None then mk_label ''Up'' ''Up'' ''lightgreen''
        else mk_label ''Bl'' ''STP Blocked'' ''magenta''
      else mk_label ''Un'' ''Unknown status'' ''orange'')"

definition ips_labels :: "iface \<Rightarrow> labels \<Rightarrow> labels" where
  "ips_labels f ls = (case ips f of
      None \<Rightarrow> ls
    | Some a \<Rightarrow>
        let ips_keys = map (\<lambda>(ip, e). ip @ ''/'' @ nat_str (masklen e)) a;
            count = length a;
            ls = oset ''01_0ips''
              (if count = 0 then mk_label ''ERROR'' ''IPs object error!'' ''red''
               else mk_label (nat_str count @ ''&nbsp;IPs'') (join '', '' ips_keys) ''lightgreen'') ls
        in if ifType f \<noteq> Some 24 \<and> ifType f \<noteq> Some 1 \<and> ifType f \<noteq> Some 131 \<and> ifOperStatus f = Some 1
           then oset ''01_1arp''
             (case arp_count f of
                Some n \<Rightarrow> mk_label ''ARP'' (nat_str n @ '' ARP records'') ''white''
              | None \<Rightarrow> mk_label ''ARP'' ''No ARP records'' ''lightcoral'') ls
           else ls)"

definition speed_labels :: "iface \<Rightarrow> labels \<Rightarrow> labels" where
  "speed_labels f ls =
     (if ifSpeed f \<noteq> None \<and> ifSpeed f \<noteq> Some 4294967295 then
        let n = nat_str (the (ifSpeed f))
        in oset ''02_speed'' (mk_label (kmg n '' '' @ ''bps'') (''ifSpeed '' @ n) ''white'') ls
      else case ifHighSpeed f of
        None \<Rightarrow> ls
      | Some h \<Rightarrow>
          let n = nat_str (h * 1000000)
          in oset ''02_speed'' (mk_label (kmg n '' '' @ ''bps'') (''ifSpeed '' @ n) ''white'') ls)"

definition switchport_labels :: "iface \<Rightarrow> labels \<Rightarrow> labels" where
  "switchport_labels f ls =
     (let pvid = if_undef (num_opt (portPvid f)) '''';
          put = (\<lambda>l. oset ''03_switchport'' l ls)
      in case (portMode f, portPvid f) of
        (Some mode, Some pv) \<Rightarrow>
          if mode = 1 then
            let voice = (portVvid f \<noteq> None \<and> portVvid f \<noteq> Some 4096);
                vv = if_undef (num_opt (portVvid f)) ''''
            in put (mk_label (''A&nbsp;'' @ pvid @ (if voice then '', V '' @ vv else ''''))
                 (''Access VLAN:&nbsp;'' @ pvid @ (if voice then ''\<newline>Voice VLAN: '' @ vv else ''''))
                 ''#AAAAFF'')
          else if mode = 2 then
            put (mk_label (''T&nbsp;'' @ if_undef (portTrunkVlans f) '''' @ ''/'' @ pvid)
              (''Trunk PVID:&nbsp;'' @ pvid @ '',&nbsp;Allowed:&nbsp;'' @ if_undef (portTrunkVlans f) '''')
              ''#AAAAFF'')
          else if mode = 3 then
            put (mk_label (''H&nbsp;'' @ if_undef (portHybridUntag f) '''' @ ''/'' @
                if_undef (portHybridTag f) '''' @ ''/'' @ pvid)
              (''Hybrid PVID:&nbsp;'' @ pvid @ '',&nbsp;Untag:&nbsp;'' @ if_undef (portHybridUntag f) '''' @
                '',&nbsp;Tag:&nbsp;'' @ if_undef (portHybridTag f) '''')
              ''#AAAAFF'')
          else
            put (mk_label (''U&nbsp;'' @ nat_str pv) (''Unknown, PVID:&nbsp;'' @ pvid) ''#FFAAFF'')
      | _ \<Rightarrow>
          (case routedVlan f of
             None \<Rightarrow> ls
           | Some v \<Rightarrow> put (mk_label (''R '' @ nat_str v)
               (''Routed VLAN '' @ nat_str v @
                 (case routedVlanParent f of None \<Rightarrow> '''' | Some p \<Rightarrow> '', Parent: '' @ p))
               ''#BABAFF'')))"

text \<open>At most ten neighbours are listed, then dots; \<open>show\<close> is the line of one neighbour.\<close>

definition neigs_list :: "(neighbour \<Rightarrow> string) \<Rightarrow> (string, neighbour) obj \<Rightarrow> string list" where
  "neigs_list line ns =
     map (line \<circ> snd) (take 10 ns) @ (if 10 < length ns then [''...''] else [])"

definition lldp_line :: "neighbour \<Rightarrow> string" where
  "lldp_line n =
     (let ip = (case RemMgmtAddr n of
            None \<Rightarrow> ''NO IP''
          | Some a \<Rightarrow> (case oget a ''1'' of None \<Rightarrow> ''NO IP'' | Some ip \<Rightarrow> ip))
      in ip @ '' '' @ undef_str (oget (nei_text n) ''RemSysName'') @ '' : '' @
         undef_str (oget (nei_text n) ''RemPortId''))"

definition cdp_line :: "neighbour \<Rightarrow> string" where
  "cdp_line n = undef_str (oget (nei_text n) ''cdpRemAddrDecoded'') @ '' '' @
     undef_str (oget (nei_text n) ''cdpRemDevId'') @ '' : '' @ undef_str (oget (nei_text n) ''cdpRemIfName'')"

definition port_neigs :: "(string, nei_port) obj option \<Rightarrow> string option \<Rightarrow> (string, neighbour) obj option" where
  "port_neigs ports ix = (case (ports, ix) of
      (Some ps, Some k) \<Rightarrow> (case oget ps k of None \<Rightarrow> None | Some p \<Rightarrow> port_neighbours p)
    | _ \<Rightarrow> None)"

definition neig_labels ::
    "string \<Rightarrow> string \<Rightarrow> (neighbour \<Rightarrow> string) \<Rightarrow> nat option \<Rightarrow> (string, neighbour) obj option \<Rightarrow> labels \<Rightarrow> labels" where
  "neig_labels key proto line cnt ns ls = (case cnt of
      None \<Rightarrow> ls
    | Some n \<Rightarrow>
        oset key
          (mk_label (proto @ ''&nbsp;'' @ nat_str n)
            (case ns of
               None \<Rightarrow> nat_str n @ ''&nbsp;'' @ proto @ '' Neighbours&nbsp;''
             | Some l \<Rightarrow> nat_str n @ ''&nbsp;'' @ proto @ '' Neighbours\<newline>'' @ join ''\<newline>'' (neigs_list line l))
            ''#FFCCFF'') ls)"

definition macs_labels :: "device \<Rightarrow> iface \<Rightarrow> labels \<Rightarrow> labels" where
  "macs_labels d f ls = (case macs_count f of
      Some n \<Rightarrow>
        oset ''05_macs''
          (mk_label (nat_str n @ ''m'') (nat_str n @ '' MACs'')
            (if (portMode f = Some 1 \<and> 3 < n) \<or>
                (ifOperStatus f = Some 1 \<and> n = 0 \<and> dev_macs_time d \<noteq> None)
             then ''#FF8888'' else ''white'')) ls
    | None \<Rightarrow>
        if dev_macs_time d \<noteq> None \<and> ifOperStatus f = Some 1 \<and> lag_parent f = None \<and>
           pagp_parent f = None \<and> ifType f = Some 6
        then oset ''05_macs'' (mk_label ''0m'' ''No MACs'' ''#FF8888'') ls
        else ls)"

definition lag_labels :: "iface \<Rightarrow> labels \<Rightarrow> labels" where
  "lag_labels f ls =
     (if lag_parent f \<noteq> None \<and> lag_parent f \<noteq> Some (ifName f) then
        oset ''06_lag'' (mk_label ''LAG'' (''LAG member port of '' @ the (lag_parent f)) ''tan'') ls
      else if (case lag_members f of None \<Rightarrow> False
               | Some ms \<Rightarrow> 1 < length ms \<or> ms = [] \<or> hd ms \<noteq> ifName f) then
        oset ''06_lag'' (mk_label ''LAG'' (''LAG parent for '' @ join '', '' (the (lag_members f))) ''lime'') ls
      else if pagp_parent f \<noteq> None then
        oset ''07_pagp'' (mk_label ''PAGP'' (''PAGP member port of '' @ the (pagp_parent f) @ '' Mode: '' @
          undef_str (pagp_mode f)) ''tan'') ls
      else if pagp_members f \<noteq> None then
        oset ''07_pagp'' (mk_label ''PAGP'' (''PAGP parent for '' @ join '', '' (the (pagp_members f))) ''lime'') ls
      else ls)"

text \<open>
  The whole function. Where the device or the interface is missing, the code assigns to a
  field of \<open>labels["00_error"]\<close>, which does not exist: an exception.
\<close>

definition int_metrics :: "if_name \<Rightarrow> device option \<Rightarrow> exn + labels" where
  "int_metrics i od = (case od of
      None \<Rightarrow> Inl TypeError
    | Some d \<Rightarrow> (case oget (dev_ifs d) i of
        None \<Rightarrow> Inl TypeError
      | Some f \<Rightarrow> Inr (lag_labels f (macs_labels d f
          (neig_labels ''04_1cdp'' ''CDP'' cdp_line (cdp_count f) (port_neigs (dev_cdp_ports d) (cdp_portIndex f))
          (neig_labels ''04_0lldp'' ''LLDP'' lldp_line (lldp_count f) (port_neigs (dev_lldp_ports d) (lldp_portIndex f))
          (switchport_labels f (speed_labels f (ips_labels f [(''00_ifstatus'', status_label f)])))))))))"

definition label_html :: "label \<Rightarrow> string" where
  "label_html l = ''&nbsp;<LABEL style=\"padding: 0 0.2em; background-color: '' @ bg_color l @
     ''; border: 1px black solid\" title=\"'' @ long_text l @ ''\">'' @ short_text l @ ''</LABEL>''"

definition int_labels :: "if_name \<Rightarrow> device option \<Rightarrow> exn + string" where
  "int_labels i od = (case int_metrics i od of
      Inl e \<Rightarrow> Inl e
    | Inr ls \<Rightarrow> Inr (concat (map (\<lambda>k. case oget ls k of None \<Rightarrow> '''' | Some l \<Rightarrow> label_html l)
        (sort (okeys ls)))))"

end
