(* ===== verification/Layout.thy ===== *)
theory Layout
  imports IfStyle
begin

text \<open>
  \<open>add_device\<close>: which interfaces of a device are drawn and where. The device is a grid of
  \<open>_cols\<close> by \<open>_rows\<close> cells; the interfaces drawn outside walk its border, those drawn
  inside fill the rows below the device name, and the grid grows until both fit.
\<close>

section \<open>Which interfaces are drawn\<close>

definition re_digits :: re where "re_digits = re_plus (RCls is_digit)"

definition is_BD :: "string \<Rightarrow> bool" where "is_BD = re_prefix (re_lit ''BD'')"

definition is_BD_Vl_CPU :: "string \<Rightarrow> bool" where
  "is_BD_Vl_CPU = re_prefix (RAlt (re_lit ''BD'') (RAlt (re_lit ''Vl'') (re_lit ''CPU port'')))"

definition is_Po :: "string \<Rightarrow> bool" where "is_Po = re_full (RSeq (re_lit ''Po'') re_digits)"

definition is_EPON :: "string \<Rightarrow> bool" where
  "is_EPON = re_full (RSeq (re_lit ''EPON'') (RSeq re_digits (RSeq (re_lit ''/'') re_digits)))"

definition is_EPON_onu :: "string \<Rightarrow> bool" where
  "is_EPON_onu = re_prefix (RSeq (re_lit ''EPON'') (RSeq re_digits (RSeq (re_lit ''/'')
     (RSeq re_digits (RSeq (re_lit '':'') re_digits)))))"

definition alias_has :: "re \<Rightarrow> iface \<Rightarrow> bool" where
  "alias_has r f = (case ifAlias f of None \<Rightarrow> False | Some a \<Rightarrow> re_search r a)"

definition many_macs :: "iface \<Rightarrow> bool" where
  "many_macs f = (case macs_count f of None \<Rightarrow> False | Some n \<Rightarrow> 3 < n)"

definition draw_l3 :: "iface \<Rightarrow> nat option" where
  "draw_l3 f =
     (if ips f \<noteq> None \<and> ifType f \<noteq> Some 24 then Some 1
      else if ifType f = Some 24 then Some 2
      else Some 0)"

definition draw_l2 :: "device \<Rightarrow> if_name \<Rightarrow> iface \<Rightarrow> nat option" where
  "draw_l2 d i f =
     (if ifType f = Some 131 then Some 0
      else if if_l2_links f \<noteq> None \<or>
          alias_has (re_liti ''alert'') f \<or>
          (ifType f = Some 6 \<and> ips f \<noteq> None \<and> \<not> is_BD_Vl_CPU i) \<or>
          (many_macs f \<and> ifType f = Some 6) \<or>
          dev_virtual d
        then Some 1
      else if alias_has (re_lit ''hide'') f then Some 0
      else if (case dev_sysLocation d of None \<Rightarrow> False
               | Some l \<Rightarrow> re_search (RSeq (RCls (\<lambda>c. c = CHR '','' \<or> c = CHR '' '')) (re_liti ''show_all'')) l) \<and>
          (ifType f = Some 6 \<or> ifType f = Some 117) \<and> \<not> is_BD_Vl_CPU i
        then Some 1
      else if (ips f \<noteq> None \<and> ifAdminStatus f = Some 1 \<and> ifType f \<noteq> Some 23 \<and> ifType f \<noteq> Some 135 \<and>
            \<not> is_BD i \<and> \<not> dev_isGroup d) \<or>
          (is_Po i \<and> ifType f = Some 53 \<and> ifAdminStatus f = Some 1) \<or>
          (is_EPON i \<and> ifAdminStatus f = Some 1) \<or>
          many_macs f
        then Some 2
      else None)"

record scan =
  sc_ifs :: "(if_name, temp_if) obj"
  sc_draw1 :: nat
  sc_draw2 :: nat
  sc_power :: "nat option"
  sc_power_at :: "string option"

definition re_rps :: re where
  "re_rps = RSeq (RAlt REps (RSeq re_any (RCls (\<lambda>c. \<not> is_word c))))
     (RSeq (re_liti ''rps'') (RAlt REps (RSeq (RCls (\<lambda>c. \<not> is_word c)) re_any)))"

text \<open>The device's own power state decides first.\<close>

definition onboard_power :: "device \<Rightarrow> bool" where
  "onboard_power d \<longleftrightarrow> dev_powerState d \<noteq> None \<and> dev_powerState d \<noteq> Some 1 \<and>
     \<not> re_full re_rps (undef_str (dev_sysLocation d))"

definition scan_start :: "device \<Rightarrow> scan" where
  "scan_start d = (if onboard_power d
     then \<lparr>sc_ifs = [], sc_draw1 = 0, sc_draw2 = 0, sc_power = Some 0, sc_power_at = Some ''Onboard''\<rparr>
     else \<lparr>sc_ifs = [], sc_draw1 = 0, sc_draw2 = 0, sc_power = None, sc_power_at = None\<rparr>)"

definition is_power_sensor :: "iface \<Rightarrow> bool" where
  "is_power_sensor f = alias_has (RSeq (re_liti ''power'') (RSeq re_dots (re_liti ''sensor''))) f"

definition scan_power :: "if_name \<Rightarrow> iface \<Rightarrow> scan \<Rightarrow> scan" where
  "scan_power i f sc =
     (if is_power_sensor f \<and> sc_power sc = None \<and> ifAdminStatus f = Some 1 then
        sc\<lparr>sc_power_at := Some (case sc_power_at sc of None \<Rightarrow> i | Some a \<Rightarrow> a @ '', '' @ i),
           sc_power := Some (if ifOperStatus f = Some 1 then 1 else 0)\<rparr>
      else sc)"

definition scan_if :: "string \<Rightarrow> device \<Rightarrow> if_name \<Rightarrow> scan \<Rightarrow> scan run" where
  "scan_if st d i sc = (case oget (dev_ifs d) i of
      None \<Rightarrow> Threw TypeError sc
    | Some f \<Rightarrow>
        let sc = scan_power i f sc;
            dr = (if st = ''l3'' then draw_l3 f else draw_l2 d i f)
        in Done (sc\<lparr>sc_ifs := oset i (temp_if0\<lparr>t_draw := dr\<rparr>) (sc_ifs sc),
                    sc_draw1 := sc_draw1 sc + (if dr = Some 1 then 1 else 0),
                    sc_draw2 := sc_draw2 sc + (if dr = Some 2 then 1 else 0)\<rparr>))"

definition scan_ifs :: "string \<Rightarrow> device \<Rightarrow> scan run" where
  "scan_ifs st d = (if interfaces d = None then Done (scan_start d)
     else each (scan_if st d) (interfaces_sorted d) (scan_start d))"

section \<open>The size of the grid\<close>

definition ceil_div :: "int \<Rightarrow> int \<Rightarrow> int" where
  "ceil_div a b = - ((- a) div b)"

text \<open>How many cells the name needs, at least one in each direction.\<close>

definition name_cells :: "int \<Rightarrow> int \<Rightarrow> nat" where
  "name_cells len sz = (let n = nat (ceil_div len sz) in if n = 0 then 1 else n)"

definition outer_slots :: "nat \<Rightarrow> nat \<Rightarrow> nat \<Rightarrow> nat \<Rightarrow> nat" where
  "outer_slots ncx ncy add_rows add_cols = 4 + ncx * 2 + ncy * 2 + add_rows * 2 + add_cols * 2"

definition inner_slots :: "nat \<Rightarrow> nat \<Rightarrow> nat \<Rightarrow> nat" where
  "inner_slots ncx add_rows add_cols = add_rows * ncx + add_rows * add_cols"

function fit_outer :: "nat \<Rightarrow> nat \<Rightarrow> nat \<Rightarrow> nat \<Rightarrow> nat \<Rightarrow> nat \<times> nat" where
  "fit_outer ncx ncy need add_rows add_cols =
     (if outer_slots ncx ncy add_rows add_cols < need then
        if ncx + add_cols > ncy + add_rows then fit_outer ncx ncy need (add_rows + 1) add_cols
        else fit_outer ncx ncy need add_rows (add_cols + 1)
      else (add_rows, add_cols))"
  by pat_completeness auto
termination
  by (relation "measure (\<lambda>(ncx, ncy, need, ar, ac). need - outer_slots ncx ncy ar ac)")
    (auto simp: outer_slots_def)

function fit_inner :: "nat \<Rightarrow> nat \<Rightarrow> nat \<Rightarrow> nat \<Rightarrow> nat \<Rightarrow> nat \<times> nat" where
  "fit_inner ncx ncy need add_rows add_cols =
     (if inner_slots ncx add_rows add_cols < need then
        if ncx + add_cols > ncy + add_rows then fit_inner ncx ncy need (add_rows + 1) add_cols
        else fit_inner ncx ncy need add_rows (add_cols + 1)
      else (add_rows, add_cols))"
  by pat_completeness auto
termination
proof (relation "measures [\<lambda>(ncx, ncy, need, ar, ac). need - ar, \<lambda>(ncx, ncy, need, ar, ac). ncy + ar + 1 - (ncx + ac)]")
  fix ncx ncy need ar ac :: nat
  assume a: "inner_slots ncx ar ac < need" "ncy + ar < ncx + ac"
  then have "ar * 1 \<le> ar * (ncx + ac)" by (intro mult_le_mono) simp_all
  with a(1) have "ar < need" by (simp add: inner_slots_def algebra_simps)
  then have "need - (ar + 1) < need - ar" by arith
  then show "((ncx, ncy, need, ar + 1, ac), ncx, ncy, need, ar, ac) \<in> measures
      [\<lambda>(ncx, ncy, need, ar, ac). need - ar, \<lambda>(ncx, ncy, need, ar, ac). ncy + ar + 1 - (ncx + ac)]"
    by simp
qed auto

declare fit_outer.simps [simp del] fit_inner.simps [simp del]

definition fit :: "nat \<Rightarrow> nat \<Rightarrow> nat \<Rightarrow> nat \<Rightarrow> nat \<times> nat" where
  "fit ncx ncy draw1 draw2 =
     (let (ar, ac) = fit_outer ncx ncy draw1 0 0 in fit_inner ncx ncy draw2 ar ac)"

section \<open>Where the interfaces go\<close>

type_synonym cell = "nat \<times> nat" \<comment> \<open>column, row\<close>

text \<open>The next cell of the walk around the border, as \<open>cur_col\<close> and \<open>cur_row\<close> change.\<close>

definition next_outer :: "nat \<Rightarrow> nat \<Rightarrow> cell \<Rightarrow> cell" where
  "next_outer cols rows = (\<lambda>(c, r).
     let c' = (if 0 < r \<and> r < rows - 1 then (if c = 0 then cols - 1 else c + 1) else c + 1)
     in if c' = cols then (0, r + 1) else (c', r))"

definition next_inner :: "nat \<Rightarrow> cell \<Rightarrow> cell" where
  "next_inner cols = (\<lambda>(c, r). if cols - 1 \<le> c + 1 then (1, r + 1) else (c + 1, r))"

text \<open>
  The placing loop. Each drawn interface is given the current outer or inner cell;
  \<open>temp_data\<close> must have an entry for every name of \<open>interfaces_sorted\<close>.
\<close>

record placing =
  pl_ifs :: "(if_name, temp_if) obj"
  pl_out :: cell
  pl_in :: cell
  pl_placed :: "(if_name \<times> cell) list"

definition place_if :: "nat \<Rightarrow> nat \<Rightarrow> if_name \<Rightarrow> placing \<Rightarrow> placing run" where
  "place_if cols rows i p = (case oget (pl_ifs p) i of
      None \<Rightarrow> Threw TypeError p
    | Some t \<Rightarrow>
        if t_draw t = None \<or> t_draw t = Some 0 then Done p
        else if t_draw t = Some 1 then
          Done (p\<lparr>pl_ifs := oset i (t\<lparr>t_col := Some (fst (pl_out p)), t_row := Some (snd (pl_out p))\<rparr>) (pl_ifs p),
                  pl_out := next_outer cols rows (pl_out p),
                  pl_placed := pl_placed p @ [(i, pl_out p)]\<rparr>)
        else
          Done (p\<lparr>pl_ifs := oset i (t\<lparr>t_col := Some (fst (pl_in p)), t_row := Some (snd (pl_in p))\<rparr>) (pl_ifs p),
                  pl_in := next_inner cols (pl_in p),
                  pl_placed := pl_placed p @ [(i, pl_in p)]\<rparr>))"

definition place_ifs :: "nat \<Rightarrow> nat \<Rightarrow> nat \<Rightarrow> if_name list \<Rightarrow> (if_name, temp_if) obj \<Rightarrow> placing run" where
  "place_ifs cols rows start_row names ts =
     each (place_if cols rows) names
       \<lparr>pl_ifs = ts, pl_out = (0, 0), pl_in = (1, start_row), pl_placed = []\<rparr>"

section \<open>The grid is large enough\<close>

lemma fit_outer_props:
  "fit_outer ncx ncy need ar ac = (ar', ac') \<Longrightarrow>
     ar \<le> ar' \<and> ac \<le> ac' \<and> need \<le> outer_slots ncx ncy ar' ac' \<and>
     outer_slots ncx ncy ar' ac' \<le> max (outer_slots ncx ncy ar ac) (need + 1)"
proof (induction ncx ncy need ar ac rule: fit_outer.induct)
  case (1 ncx ncy need ar ac)
  show ?case
  proof (cases "outer_slots ncx ncy ar ac < need")
    case True
    have "outer_slots ncx ncy (ar + 1) ac = outer_slots ncx ncy ar ac + 2"
      "outer_slots ncx ncy ar (ac + 1) = outer_slots ncx ncy ar ac + 2"
      by (simp_all add: outer_slots_def)
    with True "1.IH" "1.prems" show ?thesis
      by (cases "ncy + ar < ncx + ac") (auto simp: fit_outer.simps [of ncx ncy need ar ac])
  next
    case False
    with "1.prems" show ?thesis by (simp add: fit_outer.simps [of ncx ncy need ar ac])
  qed
qed

lemma fit_inner_props:
  "fit_inner ncx ncy need ar ac = (ar', ac') \<Longrightarrow>
     ar \<le> ar' \<and> ac \<le> ac' \<and> need \<le> inner_slots ncx ar' ac'"
proof (induction ncx ncy need ar ac rule: fit_inner.induct)
  case (1 ncx ncy need ar ac)
  show ?case
  proof (cases "inner_slots ncx ar ac < need")
    case True
    with "1.IH" "1.prems" show ?thesis
      by (cases "ncy + ar < ncx + ac") (auto simp: fit_inner.simps [of ncx ncy need ar ac])
  next
    case False
    with "1.prems" show ?thesis by (simp add: fit_inner.simps [of ncx ncy need ar ac])
  qed
qed

lemma outer_slots_mono:
  "ar \<le> ar' \<Longrightarrow> ac \<le> ac' \<Longrightarrow> outer_slots ncx ncy ar ac \<le> outer_slots ncx ncy ar' ac'"
  by (simp add: outer_slots_def)

lemma fit_large:
  assumes "fit ncx ncy draw1 draw2 = (ar, ac)"
  shows "draw1 \<le> outer_slots ncx ncy ar ac" and "draw2 \<le> inner_slots ncx ar ac"
proof -
  obtain br bc where b: "fit_outer ncx ncy draw1 0 0 = (br, bc)" by fastforce
  with assms have i: "fit_inner ncx ncy draw2 br bc = (ar, ac)" by (simp add: fit_def)
  from fit_outer_props [OF b] fit_inner_props [OF i] outer_slots_mono [of br ar bc ac ncx ncy]
  show "draw1 \<le> outer_slots ncx ncy ar ac" and "draw2 \<le> inner_slots ncx ar ac" by auto
qed

section \<open>The walk visits the border once\<close>

text \<open>
  The border of the grid, row by row: the whole first and last row, and the two end cells
  of the rows between. \<open>walk f c xs e\<close>: starting at \<open>c\<close> and moving by \<open>f\<close>, the cells \<open>xs\<close>
  are visited and \<open>e\<close> comes next.
\<close>

definition border_row :: "nat \<Rightarrow> nat \<Rightarrow> nat \<Rightarrow> cell list" where
  "border_row cols rows r = (if 0 < r \<and> r < rows - 1 then [(0, r), (cols - 1, r)]
     else map (\<lambda>c. (c, r)) [0..<cols])"

definition border :: "nat \<Rightarrow> nat \<Rightarrow> cell list" where
  "border cols rows = concat (map (border_row cols rows) [0..<rows])"

fun walk :: "('a \<Rightarrow> 'a) \<Rightarrow> 'a \<Rightarrow> 'a list \<Rightarrow> 'a \<Rightarrow> bool" where
  "walk f c [] e \<longleftrightarrow> c = e"
| "walk f c (x # xs) e \<longleftrightarrow> x = c \<and> walk f (f c) xs e"

lemma walk_append: "walk f c (xs @ ys) e \<longleftrightarrow> (\<exists>d. walk f c xs d \<and> walk f d ys e)"
  by (induction xs arbitrary: c) auto

lemma walk_nth: "walk f c xs e \<Longrightarrow> k < length xs \<Longrightarrow> xs ! k = (f ^^ k) c"
  by (induction xs arbitrary: c k) (auto simp: nth_Cons funpow_swap1 split: nat.splits)

lemma walk_full_row:
  assumes "c < cols" and "\<not> (0 < r \<and> r < rows - 1)"
  shows "walk (next_outer cols rows) (c, r) (map (\<lambda>c. (c, r)) [c..<cols]) (0, r + 1)"
  using assms(1)
proof (induction "cols - c" arbitrary: c)
  case (Suc k)
  have nx: "next_outer cols rows (c, r) = (if c + 1 = cols then (0, r + 1) else (c + 1, r))"
    using assms(2) by (auto simp: next_outer_def Let_def)
  show ?case
  proof (cases "c + 1 = cols")
    case True
    with nx Suc.prems show ?thesis by (simp add: upt_rec [of c cols])
  next
    case False
    with Suc.hyps(1) [of "c + 1"] Suc.hyps(2) Suc.prems nx show ?thesis
      by (simp add: upt_rec [of c cols])
  qed
qed simp

lemma walk_border_row:
  assumes "2 \<le> cols"
  shows "walk (next_outer cols rows) (0, r) (border_row cols rows r) (0, r + 1)"
proof (cases "0 < r \<and> r < rows - 1")
  case True
  with assms show ?thesis by (simp add: border_row_def next_outer_def Let_def)
next
  case False
  with walk_full_row [of 0 cols r rows] assms show ?thesis by (auto simp: border_row_def)
qed

lemma walk_rows:
  assumes "2 \<le> cols"
  shows "walk (next_outer cols rows) (0, 0) (concat (map (border_row cols rows) [0..<n])) (0, n)"
  by (induction n) (use walk_border_row [OF assms] in \<open>auto simp: walk_append\<close>)

lemma walk_border: "2 \<le> cols \<Longrightarrow> walk (next_outer cols rows) (0, 0) (border cols rows) (0, rows)"
  unfolding border_def by (rule walk_rows)

lemma set_border_row: "2 \<le> cols \<Longrightarrow> set (border_row cols rows r) =
    {(c, r) | c. c < cols \<and> (r = 0 \<or> rows - 1 \<le> r \<or> c = 0 \<or> c = cols - 1)}"
  by (auto simp: border_row_def)

lemma set_border: "2 \<le> cols \<Longrightarrow> set (border cols rows) =
    {(c, r). c < cols \<and> r < rows \<and> (r = 0 \<or> r = rows - 1 \<or> c = 0 \<or> c = cols - 1)}"
  by (auto simp: border_def set_border_row)

lemma in_border_row: "2 \<le> cols \<Longrightarrow> x \<in> set (border_row cols rows r) \<Longrightarrow> snd x = r"
  by (auto simp: set_border_row)

lemma border_row_inject:
  assumes "2 \<le> cols" "border_row cols rows r = border_row cols rows q" shows "r = q"
proof -
  have "(0, r) \<in> set (border_row cols rows r)" using assms(1) by (simp add: set_border_row)
  with assms in_border_row [of cols "(0, r)" rows q] show ?thesis by simp
qed

lemma distinct_border:
  assumes c: "2 \<le> cols" shows "distinct (border cols rows)"
  unfolding border_def
proof (rule distinct_concat)
  show "distinct (map (border_row cols rows) [0..<rows])"
    using border_row_inject [OF c] by (simp add: distinct_map inj_on_def)
  show "distinct ys" if "ys \<in> set (map (border_row cols rows) [0..<rows])" for ys
    using that c by (auto simp: border_row_def distinct_map inj_on_def)
  show "set ys \<inter> set zs = {}" if y: "ys \<in> set (map (border_row cols rows) [0..<rows])"
    and z: "zs \<in> set (map (border_row cols rows) [0..<rows])" and "ys \<noteq> zs" for ys zs
  proof -
    obtain r q where r: "ys = border_row cols rows r" and q: "zs = border_row cols rows q"
      using y z by auto
    with \<open>ys \<noteq> zs\<close> have "r \<noteq> q" by blast
    with r q in_border_row [OF c] show ?thesis by blast
  qed
qed

lemma length_border_rows:
  "n \<le> rows - 1 \<Longrightarrow> 0 < n \<Longrightarrow> length (concat (map (border_row cols rows) [0..<n])) = cols + 2 * (n - 1)"
proof (induction n)
  case (Suc n)
  then show ?case by (cases "n = 0") (auto simp: border_row_def)
qed simp

lemma length_border: "2 \<le> cols \<Longrightarrow> 2 \<le> rows \<Longrightarrow> length (border cols rows) = 2 * cols + 2 * rows - 4"
proof -
  assume a: "2 \<le> cols" "2 \<le> rows"
  then obtain n where n: "rows = Suc n" "0 < n" by (cases rows) auto
  have "length (border cols rows) = length (concat (map (border_row cols rows) [0..<n])) + length (border_row cols rows n)"
    by (simp add: border_def n(1))
  also have "\<dots> = (cols + 2 * (n - 1)) + cols"
    using length_border_rows [of n rows cols] n by (simp add: border_row_def)
  finally show ?thesis using n a by simp
qed

lemma border_outer_slots:
  "1 \<le> ncx \<Longrightarrow> 1 \<le> ncy \<Longrightarrow>
     length (border (ncx + ac + 2) (ncy + ar + 2)) = outer_slots ncx ncy ar ac"
  by (simp add: length_border outer_slots_def)

section \<open>No two interfaces share a cell\<close>

fun place_cells :: "nat \<Rightarrow> nat \<Rightarrow> (if_name \<Rightarrow> nat option) \<Rightarrow> if_name list \<Rightarrow> cell \<Rightarrow> cell \<Rightarrow> (if_name \<times> cell) list" where
  "place_cells cols rows D [] co ci = []"
| "place_cells cols rows D (i # is) co ci =
     (if D i = None \<or> D i = Some 0 then place_cells cols rows D is co ci
      else if D i = Some 1 then (i, co) # place_cells cols rows D is (next_outer cols rows co) ci
      else (i, ci) # place_cells cols rows D is co (next_inner cols ci))"

definition draw_of :: "(if_name, temp_if) obj \<Rightarrow> if_name \<Rightarrow> nat option" where
  "draw_of ts i = (case oget ts i of None \<Rightarrow> None | Some t \<Rightarrow> t_draw t)"

lemma draw_of_oset [simp]: "draw_of (oset i t ts) j = (if j = i then t_draw t else draw_of ts j)"
  by (simp add: draw_of_def)

lemma each_place:
  assumes "set names \<subseteq> set (okeys (pl_ifs p))" and "D = draw_of (pl_ifs p)"
  shows "\<exists>p'. each (place_if cols rows) names p = Done p' \<and>
    pl_placed p' = pl_placed p @ place_cells cols rows D names (pl_out p) (pl_in p) \<and>
    set (okeys (pl_ifs p')) = set (okeys (pl_ifs p)) \<and> draw_of (pl_ifs p') = D"
  using assms
proof (induction names arbitrary: p)
  case (Cons i names)
  then obtain t where t: "oget (pl_ifs p) i = Some t"
    by (metis insert_subset list.simps(15) not_None_eq oget_None_iff)
  then have ik: "i \<in> set (okeys (pl_ifs p))" by (metis oget_None_iff option.distinct(1))
  have D: "D i = t_draw t" using Cons.prems(2) t by (simp add: draw_of_def)
  consider (skip) "t_draw t = None \<or> t_draw t = Some 0" | (out) "t_draw t = Some 1"
    | (inn) "t_draw t \<noteq> None" "t_draw t \<noteq> Some 0" "t_draw t \<noteq> Some 1" by blast
  then show ?case
  proof cases
    case skip
    with t have "place_if cols rows i p = Done p" by (simp add: place_if_def)
    with Cons.IH [of p] Cons.prems D skip show ?thesis by auto
  next
    case out
    define q where "q = p\<lparr>pl_ifs := oset i (t\<lparr>t_col := Some (fst (pl_out p)), t_row := Some (snd (pl_out p))\<rparr>) (pl_ifs p),
        pl_out := next_outer cols rows (pl_out p), pl_placed := pl_placed p @ [(i, pl_out p)]\<rparr>"
    have "place_if cols rows i p = Done q" using t out by (simp add: place_if_def q_def)
    moreover have "D = draw_of (pl_ifs q)" using Cons.prems(2) D by (auto simp: q_def fun_eq_iff)
    ultimately show ?thesis
      using Cons.IH [of q] Cons.prems(1) D out ik by (auto simp: q_def insert_absorb)
  next
    case inn
    define q where "q = p\<lparr>pl_ifs := oset i (t\<lparr>t_col := Some (fst (pl_in p)), t_row := Some (snd (pl_in p))\<rparr>) (pl_ifs p),
        pl_in := next_inner cols (pl_in p), pl_placed := pl_placed p @ [(i, pl_in p)]\<rparr>"
    have "place_if cols rows i p = Done q" using t inn by (simp add: place_if_def q_def del: not_None_eq)
    moreover have "D = draw_of (pl_ifs q)" using Cons.prems(2) D by (auto simp: q_def fun_eq_iff)
    ultimately show ?thesis
      using Cons.IH [of q] Cons.prems(1) D inn ik by (auto simp: q_def insert_absorb)
  qed
qed simp

definition outs :: "(if_name \<Rightarrow> nat option) \<Rightarrow> if_name list \<Rightarrow> if_name list" where
  "outs D names = filter (\<lambda>i. D i = Some 1) names"

definition ins :: "(if_name \<Rightarrow> nat option) \<Rightarrow> if_name list \<Rightarrow> if_name list" where
  "ins D names = filter (\<lambda>i. D i \<noteq> None \<and> D i \<noteq> Some 0 \<and> D i \<noteq> Some 1) names"

fun orbit :: "('a \<Rightarrow> 'a) \<Rightarrow> 'a \<Rightarrow> nat \<Rightarrow> 'a list" where
  "orbit f c 0 = []"
| "orbit f c (Suc n) = c # orbit f (f c) n"

lemma length_orbit [simp]: "length (orbit f c n) = n"
  by (induction n arbitrary: c) auto

lemma orbit_nth: "k < n \<Longrightarrow> orbit f c n ! k = (f ^^ k) c"
  by (induction n arbitrary: c k) (auto simp: nth_Cons funpow_swap1 split: nat.splits)

lemma orbit_map: "orbit f c n = map (\<lambda>k. (f ^^ k) c) [0..<n]"
  by (intro nth_equalityI) (simp_all add: orbit_nth)

lemma place_cells_outs:
  "filter (\<lambda>x. D (fst x) = Some 1) (place_cells cols rows D names co ci) =
     zip (outs D names) (orbit (next_outer cols rows) co (length (outs D names)))"
  by (induction names arbitrary: co ci) (auto simp: outs_def)

lemma place_cells_ins:
  "filter (\<lambda>x. D (fst x) \<noteq> Some 1) (place_cells cols rows D names co ci) =
     zip (ins D names) (orbit (next_inner cols) ci (length (ins D names)))"
  by (induction names arbitrary: co ci) (auto simp: ins_def)

lemma next_inner_pow:
  assumes "3 \<le> cols"
  shows "(next_inner cols ^^ k) (1, r) = (1 + k mod (cols - 2), r + k div (cols - 2))"
proof (induction k)
  case (Suc k)
  obtain w where w: "cols = Suc (Suc (Suc w))"
    using assms that [of "cols - 3"] by arith
  have k: "Suc k mod Suc w = (if k mod Suc w = w then 0 else Suc (k mod Suc w))"
    "Suc k div Suc w = (if k mod Suc w = w then Suc (k div Suc w) else k div Suc w)"
    by (simp_all only: mod_Suc div_Suc) simp_all
  have "k mod Suc w < Suc w" by simp
  then have le: "k mod Suc w \<le> w" by (rule less_Suc_eq_le [THEN iffD1])
  have e: "cols - 2 = Suc w" using w by simp
  have "(next_inner cols ^^ Suc k) (1, r) = next_inner cols (1 + k mod Suc w, r + k div Suc w)"
    using Suc unfolding e by simp
  also have "\<dots> = (1 + Suc k mod Suc w, r + Suc k div Suc w)"
  proof (cases "k mod Suc w = w")
    case True
    then show ?thesis unfolding k by (simp add: next_inner_def w)
  next
    case False
    then have "\<not> cols - 1 \<le> 1 + k mod Suc w + 1" using le w by arith
    then show ?thesis unfolding k using False by (simp only: next_inner_def case_prod_conv if_False add_Suc_right plus_1_eq_Suc Suc_eq_plus1 [symmetric])
  qed
  finally show ?case unfolding e .
qed simp

lemma div_mod_equal:
  fixes w k l :: nat
  assumes "k mod w = l mod w" "k div w = l div w" shows "k = l"
  using assms by (metis div_mult_mod_eq)

lemma inner_cell_bounds:
  fixes k h w :: nat
  assumes "k < h * w" "1 \<le> w"
  shows "1 + k mod w < w + 1" and "k div w < h"
proof -
  have "k mod w < w" using assms(2) by simp
  then show "1 + k mod w < w + 1" by arith
  show "k div w < h" using assms(1) by (rule less_mult_imp_div_less)
qed

lemma outer_cells:
  assumes "2 \<le> cols" "n \<le> length (border cols rows)"
  shows "orbit (next_outer cols rows) (0, 0) n = take n (border cols rows)"
  using walk_nth [OF walk_border [OF assms(1)], of _ rows] assms(2)
  by (intro nth_equalityI) (simp_all add: orbit_nth)

text \<open>
  The walk the code takes with its counters is the enumeration of the border, so as many
  interfaces as there are border cells get different cells; the inner ones get the cells
  of the rows below the name.
\<close>

lemma place_cells_ok:
  assumes ncx: "1 \<le> ncx" and ncy: "1 \<le> ncy"
    and cols: "cols = ncx + ac + 2" and rows: "rows = ncy + ar + 2"
    and o1: "length (outs D names) \<le> outer_slots ncx ncy ar ac"
    and i1: "length (ins D names) \<le> inner_slots ncx ar ac"
  defines "ps \<equiv> place_cells cols rows D names (0, 0) (1, 1 + ncy)"
  shows "distinct (map snd ps)"
    and "\<forall>(i, c) \<in> set ps. D i = Some 1 \<longrightarrow> c \<in> set (border cols rows)"
    and "\<forall>(i, c) \<in> set ps. D i \<noteq> Some 1 \<longrightarrow> 1 \<le> fst c \<and> fst c < cols - 1 \<and> ncy < snd c \<and> snd c < rows - 1"
proof -
  let ?P = "\<lambda>x :: if_name \<times> cell. D (fst x) = Some 1"
  have c2: "2 \<le> cols" and c3: "3 \<le> cols" using cols ncx by simp_all
  have lb: "length (outs D names) \<le> length (border cols rows)"
    using o1 border_outer_slots [OF ncx ncy, of ac ar] cols rows by simp
  define no ni where "no = length (outs D names)" and "ni = length (ins D names)"
  have so: "map snd (filter ?P ps) = take no (border cols rows)"
    using place_cells_outs [of D cols rows names "(0, 0)" "(1, 1 + ncy)"] outer_cells [OF c2 lb]
    by (simp add: ps_def no_def lb)
  have si: "map snd (filter (\<lambda>x. \<not> ?P x) ps) =
      map (\<lambda>k. (1 + k mod (cols - 2), 1 + ncy + k div (cols - 2))) [0..<ni]"
    using place_cells_ins [of D cols rows names "(0, 0)" "(1, 1 + ncy)"]
    by (simp add: ps_def ni_def orbit_map next_inner_pow [OF c3, simplified])
  have w: "cols - 2 = ncx + ac" "1 \<le> ncx + ac" using cols ncx by simp_all
  have ni: "ni \<le> ar * (ncx + ac)" using i1 by (simp add: ni_def inner_slots_def algebra_simps)
  have inn: "1 \<le> fst c \<and> fst c < cols - 1 \<and> ncy < snd c \<and> snd c < rows - 1"
    if m: "c \<in> set (map snd (filter (\<lambda>x. \<not> ?P x) ps))" for c
  proof -
    have "c \<in> (\<lambda>k. (1 + k mod (cols - 2), 1 + ncy + k div (cols - 2))) ` {0..<ni}"
      using m unfolding si by simp
    then obtain k where k: "k < ni" "c = (1 + k mod (cols - 2), 1 + ncy + k div (cols - 2))"
      by auto
    with ni have "k < ar * (ncx + ac)" by simp
    from inner_cell_bounds [OF this w(2)] k(2) w(1) cols rows show ?thesis by simp
  qed
  have di: "distinct (map snd (filter (\<lambda>x. \<not> ?P x) ps))"
    unfolding si distinct_map
    by (simp add: inj_on_def) (use div_mod_equal in blast)
  have do: "distinct (map snd (filter ?P ps))"
    unfolding so using distinct_border [OF c2] by (rule distinct_take)
  have disj: "set (map snd (filter ?P ps)) \<inter> set (map snd (filter (\<lambda>x. \<not> ?P x) ps)) = {}"
  proof (intro equals0I, elim IntE)
    fix c assume "c \<in> set (map snd (filter ?P ps))"
    then have "c \<in> set (border cols rows)" unfolding so by (rule in_set_takeD)
    then have b: "snd c = 0 \<or> snd c = rows - 1 \<or> fst c = 0 \<or> fst c = cols - 1"
      by (auto simp: set_border [OF c2])
    assume "c \<in> set (map snd (filter (\<lambda>x. \<not> ?P x) ps))"
    from inn [OF this] b show False by arith
  qed
  have "mset ps = mset (filter ?P ps) + mset (filter (\<lambda>x. \<not> ?P x) ps)"
    by simp
  then have "image_mset snd (mset ps) = mset (map snd (filter ?P ps)) + mset (map snd (filter (\<lambda>x. \<not> ?P x) ps))"
    by (simp only: image_mset_union mset_map)
  then have "mset (map snd ps) = mset (map snd (filter ?P ps) @ map snd (filter (\<lambda>x. \<not> ?P x) ps))"
    by (simp only: mset_map mset_append)
  then have "distinct (map snd ps) \<longleftrightarrow>
      distinct (map snd (filter ?P ps) @ map snd (filter (\<lambda>x. \<not> ?P x) ps))"
    by (rule mset_eq_imp_distinct_iff)
  then show "distinct (map snd ps)" using di do disj by (simp only: distinct_append)
  show "\<forall>(i, c) \<in> set ps. D i = Some 1 \<longrightarrow> c \<in> set (border cols rows)"
  proof clarify
    fix i c r assume "(i, c, r) \<in> set ps" "D i = Some 1"
    then have "(c, r) \<in> set (map snd (filter ?P ps))" by force
    with so show "(c, r) \<in> set (border cols rows)" by (metis in_set_takeD)
  qed
  show "\<forall>(i, c) \<in> set ps. D i \<noteq> Some 1 \<longrightarrow> 1 \<le> fst c \<and> fst c < cols - 1 \<and> ncy < snd c \<and> snd c < rows - 1"
    using inn by force
qed

end
