(* ===== verification/AddDevice.thy ===== *)
theory AddDevice
  imports Layout
begin

text \<open>
  The whole of \<open>add_device\<close>: the scan of the interfaces, the device box with its name, the
  power badge, the size of the grid and the placing of the interfaces with the text and
  colour of each. The page's elements are written to \<open>page\<close>; those the code gives no
  id (the name and the badge) are named after their device.
\<close>

section \<open>What is shown\<close>

definition snap :: "int \<Rightarrow> int \<Rightarrow> int" where
  "snap g v = v div g * g"

definition dev_place :: "app \<Rightarrow> dev_id \<Rightarrow> int \<times> int" where
  "dev_place s d = (case oget (map_loc (map_data s)) d of
      None \<Rightarrow> (0, 0)
    | Some l \<Rightarrow> (snap (int_size s) (max 0 (loc_x l)), snap (int_size s) (max 0 (loc_y l))))"

record name_look =
  name_color :: string
  name_bg :: string
  bcolor :: string

definition status_style :: "string \<Rightarrow> name_look" where
  "status_style st =
     (if st = ''warn'' then \<lparr>name_color = ''black'', name_bg = ''orange'', bcolor = ''orange''\<rparr>
      else if st = ''error'' then \<lparr>name_color = ''black'', name_bg = ''#FFE0E0'', bcolor = ''#800000''\<rparr>
      else if st = ''paused'' then \<lparr>name_color = ''black'', name_bg = ''#E0E0E0'', bcolor = ''#808080''\<rparr>
      else if st = ''ok'' then \<lparr>name_color = ''black'', name_bg = ''#F8FFF8'', bcolor = ''green''\<rparr>
      else \<lparr>name_color = ''darkorange'', name_bg = ''white'', bcolor = ''green''\<rparr>)"

definition name_style :: "device \<Rightarrow> name_look" where
  "name_style d = (let st = status_style (dev_overall_status d)
     in if dev_virtual d then st\<lparr>name_bg := ''#F0F0FF''\<rparr> else st)"

definition dev_name_text :: "device \<Rightarrow> string" where
  "dev_name_text d = (case dev_short_name d of None \<Rightarrow> ''no data'' | Some n \<Rightarrow> n)"

definition name_border :: "device \<Rightarrow> string" where
  "name_border d = ''1px '' @ bcolor (name_style d) @ (if dev_isGroup d then '' dashed'' else '' solid'')"

definition name_elem :: "app \<Rightarrow> device \<Rightarrow> elem" where
  "name_elem s d = \<lparr>e_left = int_size s, e_top = int_size s, e_width = 0, e_height = 0,
     e_text = dev_name_text d,
     e_css = [(''background'', name_bg (name_style d)), (''color'', name_color (name_style d)),
              (''border'', name_border d)]\<rparr>"

definition dev_elem :: "app \<Rightarrow> dev_id \<Rightarrow> elem" where
  "dev_elem s d = \<lparr>e_left = fst (dev_place s d), e_top = snd (dev_place s d), e_width = 0, e_height = 0,
     e_text = '''',
     e_css = [(''background-color'', case oget (map_colors (map_data s)) d of None \<Rightarrow> ''white'' | Some c \<Rightarrow> c),
              (''border'', ''1px lightgray dotted'')]\<rparr>"

text \<open>The badge of the power sensor: \<open>on_battery\<close> is set exactly with the on-board sensor.\<close>

definition power_badge :: "device \<Rightarrow> scan \<Rightarrow> elem option" where
  "power_badge d sc = (case sc_power sc of
      None \<Rightarrow> None
    | Some p \<Rightarrow>
        let (bg, html, title) = (if p \<noteq> 0 then (''green'', ''On'', ''220V Ok'')
              else if onboard_power d then (''orangered'', ''Batt'', ''On battery'')
              else (''red'', ''Off'', ''220V Off''))
        in Some \<lparr>e_left = -1, e_top = 0, e_width = 0, e_height = 0, e_text = html,
             e_css = [(''background-color'', bg),
                      (''title'', title @ ''; Sensor at: '' @ undef_str (sc_power_at sc))]\<rparr>)"

definition name_elm :: "dev_id \<Rightarrow> string" where "name_elm d = ''devname@'' @ d"
definition power_elm :: "dev_id \<Rightarrow> string" where "power_elm d = ''power@'' @ d"

section \<open>The text of an interface\<close>

definition is_BD_name :: "if_name \<Rightarrow> bool" where "is_BD_name = re_prefix (re_lit ''BD'')"
definition is_CPU_name :: "if_name \<Rightarrow> bool" where "is_CPU_name = re_prefix (re_lit ''CPU port'')"

definition type_text :: "if_name \<Rightarrow> nat option \<Rightarrow> string" where
  "type_text i t =
     (if t = Some 24 then ''Lo''
      else if t = Some 6 \<or> t = Some 117 then
        (if is_BD_name i then ''Bd'' else if is_CPU_name i then ''Cp'' else ''Et'')
      else if t = Some 136 \<or> t = Some 53 then (if is_Po i then ''Po'' else ''Vl'')
      else if t = Some 135 then ''Dt''
      else if t = Some 161 then ''Po''
      else if t = Some 131 then ''Tu''
      else if t = Some 23 then ''Pp''
      else if t = Some 1 \<and> is_EPON_onu i then ''On''
      else ''Un'')"

text \<open>\<open>/^(?:.*[^0-9]+)?([0-9]+)$/\<close>: the digits the name ends with.\<close>

definition re_portnum :: re where
  "re_portnum = RSeq (re_opt (RSeq re_dots (re_plus (RCls (\<lambda>c. \<not> is_digit c))))) re_digits"

definition portnum :: "if_name \<Rightarrow> string option" where
  "portnum i = (if re_full re_portnum i then Some (rev (takeWhile is_digit (rev i))) else None)"

definition if_text :: "string \<Rightarrow> if_name \<Rightarrow> nat option \<Rightarrow> string" where
  "if_text st i t =
     (if st \<noteq> ''l3'' \<and> (t = Some 6 \<or> t = Some 117) \<and> \<not> is_BD_name i \<and> \<not> is_CPU_name i
      then (case portnum i of None \<Rightarrow> type_text i t | Some p \<Rightarrow> p)
      else type_text i t)"

text \<open>A tunnel whose network has more than two hosts is a hub, shown bold.\<close>

definition is_hub :: "if_name \<Rightarrow> iface \<Rightarrow> bool" where
  "is_hub i f = (re_prefix (re_lit ''Tu'') i \<and>
     (case ips f of None \<Rightarrow> False | Some m \<Rightarrow> \<exists>e \<in> set m. masklen (snd e) < 30))"

definition if_elem :: "app \<Rightarrow> if_name \<Rightarrow> iface \<Rightarrow> cell \<Rightarrow> elem" where
  "if_elem s i f c = \<lparr>e_left = int (fst c) * int_size s, e_top = int (snd c) * int_size s,
     e_width = int_size s - 4, e_height = int_size s - 4, e_text = if_text (site s) i (ifType f),
     e_css = (if is_hub i f then [(''font-weight'', ''bold'')] else []) @
       [(''background-color'', fst (style_colors f))]\<rparr>"

section \<open>The function\<close>

definition put_temp :: "dev_id \<Rightarrow> temp_dev \<Rightarrow> app \<Rightarrow> app" where
  "put_temp d t s = s\<lparr>temp_devs := oset d t (temp_devs s)\<rparr>"

definition put_elem :: "string \<Rightarrow> elem \<Rightarrow> app \<Rightarrow> app" where
  "put_elem k e s = s\<lparr>page := oset k e (page s)\<rparr>"

text \<open>
  One turn of the placing loop on the whole state: the cell is stored and the square is
  drawn; reading \<open>ifType\<close> of an interface \<open>data\<close> does not have is an exception, after the
  cell was stored.
\<close>

definition place_draw :: "app \<Rightarrow> dev_id \<Rightarrow> device \<Rightarrow> nat \<Rightarrow> nat \<Rightarrow> if_name \<Rightarrow> placing \<times> (string, elem) obj \<Rightarrow> (placing \<times> (string, elem) obj) run" where
  "place_draw s d dv cols rows i st = (case place_if cols rows i (fst st) of
      Done p' \<Rightarrow>
        if length (pl_placed p') = length (pl_placed (fst st)) then Done (p', snd st)
        else (case oget (dev_ifs dv) i of
            None \<Rightarrow> Threw TypeError (p', snd st)
          | Some f \<Rightarrow> Done (p', oset (int_elm i d) (if_elem s i f (snd (last (pl_placed p')))) (snd st)))
    | Halt p' \<Rightarrow> Halt (p', snd st)
    | Threw e p' \<Rightarrow> Threw e (p', snd st))"

text \<open>The grid of a device: \<open>text_size\<close> is the outer width and height of the name label.\<close>

record grid =
  g_cols :: nat
  g_rows :: nat
  g_ncx :: nat
  g_ncy :: nat
  g_add_rows :: nat
  g_add_cols :: nat

definition dev_grid :: "int \<Rightarrow> int \<times> int \<Rightarrow> scan \<Rightarrow> grid" where
  "dev_grid sz wh sc =
     (let ncx = name_cells (fst wh) sz;
          ncy = name_cells (snd wh) sz;
          (ar, ac) = fit ncx ncy (sc_draw1 sc) (sc_draw2 sc)
      in \<lparr>g_cols = ncx + ac + 2, g_rows = ncy + ar + 2, g_ncx = ncx, g_ncy = ncy,
          g_add_rows = ar, g_add_cols = ac\<rparr>)"

definition grid_temp :: "grid \<Rightarrow> (if_name, temp_if) obj \<Rightarrow> temp_dev" where
  "grid_temp g ts = temp_dev0\<lparr>td_ifs := ts, td_draw := True, td_cols := g_cols g, td_rows := g_rows g,
     td_inner_start_row := 1 + g_ncy g, td_inner_cols := g_ncx g + g_add_cols g,
     td_inner_rows := g_add_rows g\<rparr>"

text \<open>The sizes given to the box and to the name once the grid is known.\<close>

definition size_elems :: "int \<Rightarrow> grid \<Rightarrow> elem \<times> elem \<Rightarrow> elem \<times> elem" where
  "size_elems sz g = (\<lambda>(dev, name).
     let nw = int (g_ncx g) * sz + int (g_add_cols g) * sz;
         nh = int (g_ncy g) * sz
     in (dev\<lparr>e_width := nw + sz * 2 - 2, e_height := nh + sz * 2 + int (g_add_rows g) * sz - 2\<rparr>,
         name\<lparr>e_width := nw - 3, e_height := nh - 3\<rparr>))"

definition add_device :: "(string \<Rightarrow> int \<times> int) \<Rightarrow> dev_id \<Rightarrow> app \<Rightarrow> app run" where
  "add_device text_size d s = (case oget (devs s) d of
      None \<Rightarrow> Threw TypeError (put_temp d temp_dev0 s)
    | Some dv \<Rightarrow> (case scan_ifs (site s) dv of
        Threw e sc \<Rightarrow> Threw e (put_temp d (temp_dev0\<lparr>td_ifs := sc_ifs sc\<rparr>) s)
      | Halt sc \<Rightarrow> Halt (put_temp d (temp_dev0\<lparr>td_ifs := sc_ifs sc\<rparr>) s)
      | Done sc \<Rightarrow>
          let g = dev_grid (int_size s) (text_size (dev_name_text dv)) sc;
              (de, ne) = size_elems (int_size s) g (dev_elem s d, name_elem s dv);
              pg = oset (name_elm d) ne (oset d de (page s));
              pg = (case power_badge dv sc of None \<Rightarrow> pg | Some b \<Rightarrow> oset (power_elm d) b pg);
              fin = (\<lambda>(p, pg). put_temp d (grid_temp g (pl_ifs p)) (s\<lparr>page := pg\<rparr>));
              p0 = \<lparr>pl_ifs = sc_ifs sc, pl_out = (0, 0), pl_in = (1, 1 + g_ncy g), pl_placed = []\<rparr>
          in (case each (place_draw s d dv (g_cols g) (g_rows g)) (interfaces_sorted dv) (p0, pg) of
              Done st \<Rightarrow> Done (fin st)
            | Halt st \<Rightarrow> Halt (fin st)
            | Threw e st \<Rightarrow> Threw e (fin st))))"

section \<open>The placing is right\<close>

definition if_draw :: "string \<Rightarrow> device \<Rightarrow> if_name \<Rightarrow> nat option" where
  "if_draw st d i = (case oget (dev_ifs d) i of None \<Rightarrow> None
     | Some f \<Rightarrow> if st = ''l3'' then draw_l3 f else draw_l2 d i f)"

lemma scan_power_frame [simp]:
  "sc_ifs (scan_power i f sc) = sc_ifs sc" "sc_draw1 (scan_power i f sc) = sc_draw1 sc"
  "sc_draw2 (scan_power i f sc) = sc_draw2 sc"
  by (simp_all add: scan_power_def)

lemma draw_cases:
  "if_draw st d i = None \<or> if_draw st d i = Some 0 \<or> if_draw st d i = Some 1 \<or> if_draw st d i = Some 2"
  by (auto simp: if_draw_def draw_l3_def draw_l2_def split: option.split)

lemma ins_two: "ins (if_draw st d) names = filter (\<lambda>i. if_draw st d i = Some 2) names"
  unfolding ins_def by (rule filter_cong [OF refl]) (metis draw_cases option.inject zero_neq_numeral one_eq_numeral_iff num.distinct(1) option.distinct(1))

lemma each_scan:
  assumes "set names \<subseteq> set (okeys (dev_ifs d))" "distinct names"
    "set (okeys (sc_ifs sc)) \<inter> set names = {}"
  shows "\<exists>sc'. each (scan_if st d) names sc = Done sc' \<and>
    sc_draw1 sc' = sc_draw1 sc + length (outs (if_draw st d) names) \<and>
    sc_draw2 sc' = sc_draw2 sc + length (ins (if_draw st d) names) \<and>
    set (okeys (sc_ifs sc')) = set (okeys (sc_ifs sc)) \<union> set names \<and>
    (\<forall>i. draw_of (sc_ifs sc') i = (if i \<in> set names then if_draw st d i else draw_of (sc_ifs sc) i))"
  using assms
proof (induction names arbitrary: sc)
  case (Cons i names)
  then obtain f where f: "oget (dev_ifs d) i = Some f"
    by (metis insert_subset list.simps(15) not_None_eq oget_None_iff)
  define q where "q = (let sc = scan_power i f sc; dr = if_draw st d i
      in sc\<lparr>sc_ifs := oset i (temp_if0\<lparr>t_draw := dr\<rparr>) (sc_ifs sc),
            sc_draw1 := sc_draw1 sc + (if dr = Some 1 then 1 else 0),
            sc_draw2 := sc_draw2 sc + (if dr = Some 2 then 1 else 0)\<rparr>)"
  have s: "scan_if st d i sc = Done q" by (simp add: scan_if_def q_def f if_draw_def Let_def)
  have q: "sc_ifs q = oset i (temp_if0\<lparr>t_draw := if_draw st d i\<rparr>) (sc_ifs sc)"
    "sc_draw1 q = sc_draw1 sc + (if if_draw st d i = Some 1 then 1 else 0)"
    "sc_draw2 q = sc_draw2 sc + (if if_draw st d i = Some 2 then 1 else 0)"
    by (simp_all add: q_def Let_def)
  have "set (okeys (sc_ifs q)) \<inter> set names = {}" using Cons.prems q by auto
  from Cons.IH [OF _ _ this] Cons.prems obtain sc' where sc': "each (scan_if st d) names q = Done sc'"
    "sc_draw1 sc' = sc_draw1 q + length (outs (if_draw st d) names)"
    "sc_draw2 sc' = sc_draw2 q + length (ins (if_draw st d) names)"
    "set (okeys (sc_ifs sc')) = set (okeys (sc_ifs q)) \<union> set names"
    "\<forall>j. draw_of (sc_ifs sc') j = (if j \<in> set names then if_draw st d j else draw_of (sc_ifs q) j)"
    by auto
  show ?case
    unfolding each.simps s seq.simps sc'(1)
    by (rule exI [of _ sc']) (use sc' q in \<open>auto simp: outs_def ins_two\<close>)
qed (simp add: outs_def ins_def)

definition at_cell :: "(if_name, temp_if) obj \<Rightarrow> if_name \<Rightarrow> cell \<Rightarrow> bool" where
  "at_cell ts i c = (\<exists>t. oget ts i = Some t \<and> t_col t = Some (fst c) \<and> t_row t = Some (snd c))"

lemma place_draw_Done:
  assumes p: "place_if cols rows i p = Done p'" and f: "oget (dev_ifs dv) i = Some f"
  shows "\<exists>pg'. place_draw s d dv cols rows i (p, pg) = Done (p', pg')"
  using p f by (auto simp: place_draw_def)

lemma each_place_draw:
  assumes "set names \<subseteq> set (okeys (pl_ifs p))" "set names \<subseteq> set (okeys (dev_ifs dv))"
    and "D = draw_of (pl_ifs p)" "distinct names"
  shows "\<exists>p' pg'. each (place_draw s d dv cols rows) names (p, pg) = Done (p', pg') \<and>
    (\<forall>(i, c) \<in> set (place_cells cols rows D names (pl_out p) (pl_in p)). at_cell (pl_ifs p') i c) \<and>
    draw_of (pl_ifs p') = D \<and> (\<forall>i. i \<notin> set names \<longrightarrow> oget (pl_ifs p') i = oget (pl_ifs p) i)"
  using assms
proof (induction names arbitrary: p pg)
  case (Cons i names)
  obtain t where t: "oget (pl_ifs p) i = Some t"
    using Cons.prems(1) by (metis insert_subset list.simps(15) not_None_eq oget_None_iff)
  obtain f where f: "oget (dev_ifs dv) i = Some f"
    using Cons.prems(2) by (metis insert_subset list.simps(15) not_None_eq oget_None_iff)
  have D: "D i = t_draw t" using Cons.prems(3) t by (simp add: draw_of_def)
  define co where "co = (if t_draw t = Some 1 then pl_out p else pl_in p)"
  define skip where "skip \<longleftrightarrow> t_draw t = None \<or> t_draw t = Some 0"
  define q where "q = (if skip then p else
    (if t_draw t = Some 1 then p\<lparr>pl_out := next_outer cols rows (pl_out p)\<rparr>
     else p\<lparr>pl_in := next_inner cols (pl_in p)\<rparr>)
      \<lparr>pl_ifs := oset i (t\<lparr>t_col := Some (fst co), t_row := Some (snd co)\<rparr>) (pl_ifs p),
        pl_placed := pl_placed p @ [(i, co)]\<rparr>)"
  have pq: "place_if cols rows i p = Done q"
    using t by (simp add: place_if_def q_def skip_def co_def del: not_None_eq)
  obtain pg1 where s: "place_draw s d dv cols rows i (p, pg) = Done (q, pg1)"
    using place_draw_Done [OF pq f] by blast
  have k: "set names \<subseteq> set (okeys (pl_ifs q))" using Cons.prems(1) by (auto simp: q_def)
  have Dq: "D = draw_of (pl_ifs q)" using Cons.prems(3) D by (auto simp: q_def fun_eq_iff)
  have d: "distinct names" and i: "i \<notin> set names" and n: "set names \<subseteq> set (okeys (dev_ifs dv))"
    using Cons.prems by simp_all
  obtain p' pg' where r: "each (place_draw s d dv cols rows) names (q, pg1) = Done (p', pg')"
    and c: "\<forall>(j, c) \<in> set (place_cells cols rows D names (pl_out q) (pl_in q)). at_cell (pl_ifs p') j c"
    and D': "draw_of (pl_ifs p') = D"
    and o': "\<forall>j. j \<notin> set names \<longrightarrow> oget (pl_ifs p') j = oget (pl_ifs q) j"
    using Cons.IH [OF k n Dq d, of pg1] by blast
  have pc: "place_cells cols rows D (i # names) (pl_out p) (pl_in p) =
      (if skip then [] else [(i, co)]) @ place_cells cols rows D names (pl_out q) (pl_in q)"
    using D by (simp add: skip_def co_def q_def)
  have ic: "at_cell (pl_ifs p') i co" if "\<not> skip"
    using that o' i by (simp add: at_cell_def q_def)
  have "\<forall>j. j \<notin> set (i # names) \<longrightarrow> oget (pl_ifs p') j = oget (pl_ifs p) j"
    using o' by (simp add: q_def)
  with r c D' ic show ?case
    unfolding each.simps s seq.simps pc by (intro exI [of _ p'] exI [of _ pg']) (auto split: if_splits)
qed simp

lemma name_cells_pos: "1 \<le> name_cells l z"
  unfolding name_cells_def Let_def by (cases "nat (ceil_div l z)") simp_all

text \<open>What drawing leaves in \<open>temp_data\<close> when every listed interface exists.\<close>

lemma add_device_places:
  assumes dv: "oget (devs s) d = Some dv" and ifs: "interfaces dv \<noteq> None"
    and names: "set (interfaces_sorted dv) \<subseteq> set (okeys (dev_ifs dv))" and dist: "distinct (interfaces_sorted dv)"
  defines "D \<equiv> if_draw (site s) dv"
  obtains s' t ncy where "add_device text_size d s = Done s'" "oget (temp_devs s') d = Some t"
    "td_draw t" "td_inner_start_row t = 1 + ncy"
    "\<forall>(i, c) \<in> set (place_cells (td_cols t) (td_rows t) D (interfaces_sorted dv) (0, 0) (1, 1 + ncy)).
       at_cell (td_ifs t) i c"
    "distinct (map snd (place_cells (td_cols t) (td_rows t) D (interfaces_sorted dv) (0, 0) (1, 1 + ncy)))"
    "\<forall>(i, c) \<in> set (place_cells (td_cols t) (td_rows t) D (interfaces_sorted dv) (0, 0) (1, 1 + ncy)).
       (D i = Some 1 \<longrightarrow> c \<in> set (border (td_cols t) (td_rows t))) \<and>
       (D i \<noteq> Some 1 \<longrightarrow> 1 \<le> fst c \<and> fst c < td_cols t - 1 \<and> ncy < snd c \<and> snd c < td_rows t - 1)"
    "2 \<le> td_cols t" "1 \<le> ncy" "ncy + 2 \<le> td_rows t"
proof -
  have st: "sc_ifs (scan_start dv) = []" "sc_draw1 (scan_start dv) = 0" "sc_draw2 (scan_start dv) = 0"
    by (simp_all add: scan_start_def)
  then have "set (okeys (sc_ifs (scan_start dv))) \<inter> set (interfaces_sorted dv) = {}" by simp
  from each_scan [OF names dist this, of "site s"] obtain sc where
    sc: "scan_ifs (site s) dv = Done sc" "sc_draw1 sc = length (outs D (interfaces_sorted dv))"
    "sc_draw2 sc = length (ins D (interfaces_sorted dv))"
    "set (okeys (sc_ifs sc)) = set (interfaces_sorted dv)"
    "\<forall>i. draw_of (sc_ifs sc) i = (if i \<in> set (interfaces_sorted dv) then D i else None)"
    using ifs st by (auto simp: scan_ifs_def D_def draw_of_def)
  define D' where "D' = draw_of (sc_ifs sc)"
  have DD: "D' i = D i" if "i \<in> set (interfaces_sorted dv)" for i using sc(5) that by (simp add: D'_def)
  have pcD: "place_cells c r D' ns co ci = place_cells c r D ns co ci" if "set ns \<subseteq> set (interfaces_sorted dv)" for c r ns co ci
    using that by (induction ns arbitrary: co ci) (auto simp: DD)
  define g where "g = dev_grid (int_size s) (text_size (dev_name_text dv)) sc"
  obtain ar ac where fit: "fit (g_ncx g) (g_ncy g) (sc_draw1 sc) (sc_draw2 sc) = (ar, ac)" by fastforce
  have g: "g_cols g = g_ncx g + ac + 2" "g_rows g = g_ncy g + ar + 2" "1 \<le> g_ncx g" "1 \<le> g_ncy g"
    using fit name_cells_pos by (simp_all add: g_def dev_grid_def Let_def split: prod.splits)
  note ok = place_cells_ok [OF g(3,4,1,2) fit_large [OF fit, unfolded sc(2,3)]]
  define p0 where "p0 = \<lparr>pl_ifs = sc_ifs sc, pl_out = (0, 0), pl_in = (1, 1 + g_ncy g), pl_placed = []\<rparr>"
  define pg where "pg = (let (de, ne) = size_elems (int_size s) g (dev_elem s d, name_elem s dv);
      pg = oset (name_elm d) ne (oset d de (page s))
    in case power_badge dv sc of None \<Rightarrow> pg | Some b \<Rightarrow> oset (power_elm d) b pg)"
  obtain p' pg' where each: "each (place_draw s d dv (g_cols g) (g_rows g)) (interfaces_sorted dv) (p0, pg) = Done (p', pg')"
    and c: "\<forall>(i, c) \<in> set (place_cells (g_cols g) (g_rows g) D' (interfaces_sorted dv) (0, 0) (1, 1 + g_ncy g)). at_cell (pl_ifs p') i c"
    using each_place_draw [of "interfaces_sorted dv" p0 dv D' s d "g_cols g" "g_rows g" pg] names dist sc(4)
    by (auto simp: p0_def D'_def)
  define t where "t = grid_temp g (pl_ifs p')"
  define s' where "s' = put_temp d t (s\<lparr>page := pg'\<rparr>)"
  have t: "td_cols t = g_cols g" "td_rows t = g_rows g" "td_ifs t = pl_ifs p'" "td_draw t" "td_inner_start_row t = 1 + g_ncy g"
    by (simp_all add: t_def grid_temp_def)
  show ?thesis
  proof (rule that [of s' t "g_ncy g"])
    show "add_device text_size d s = Done s'"
      using each by (simp add: add_device_def dv sc(1) g_def [symmetric] Let_def p0_def pg_def s'_def t_def split: prod.splits)
    show "oget (temp_devs s') d = Some t" by (simp add: s'_def put_temp_def)
    show "td_draw t" "td_inner_start_row t = 1 + g_ncy g" by (rule t)+
    show "2 \<le> td_cols t" "1 \<le> g_ncy g" "g_ncy g + 2 \<le> td_rows t" using t g by simp_all
    show "\<forall>(i, c) \<in> set (place_cells (td_cols t) (td_rows t) D (interfaces_sorted dv) (0, 0) (1, 1 + g_ncy g)). at_cell (td_ifs t) i c"
      using c pcD [OF subset_refl] t by simp
    show "distinct (map snd (place_cells (td_cols t) (td_rows t) D (interfaces_sorted dv) (0, 0) (1, 1 + g_ncy g)))"
      using ok(1) t by simp
    show "\<forall>(i, c) \<in> set (place_cells (td_cols t) (td_rows t) D (interfaces_sorted dv) (0, 0) (1, 1 + g_ncy g)).
       (D i = Some 1 \<longrightarrow> c \<in> set (border (td_cols t) (td_rows t))) \<and>
       (D i \<noteq> Some 1 \<longrightarrow> 1 \<le> fst c \<and> fst c < td_cols t - 1 \<and> g_ncy g < snd c \<and> snd c < td_rows t - 1)"
      using ok(2,3) t by fastforce
  qed
qed

definition is_drawn :: "nat option \<Rightarrow> bool" where
  "is_drawn D \<longleftrightarrow> D \<noteq> None \<and> D \<noteq> Some 0"

lemma place_cells_fst: "map fst (place_cells cols rows D names co ci) = filter (\<lambda>i. is_drawn (D i)) names"
  by (induction names arbitrary: co ci) (auto simp: is_drawn_def)

lemma place_cells_mem:
  assumes "i \<in> set names" "is_drawn (D i)"
  shows "\<exists>c. (i, c) \<in> set (place_cells cols rows D names co ci)"
proof -
  have "i \<in> set (map fst (place_cells cols rows D names co ci))" using assms by (simp add: place_cells_fst)
  then obtain x where "x \<in> set (place_cells cols rows D names co ci)" "fst x = i" by auto
  then show ?thesis by (metis prod.collapse)
qed

lemma place_cells_apart:
  assumes "distinct (map snd ps)" "(i, c) \<in> set ps" "(j, e) \<in> set ps" "i \<noteq> j" shows "c \<noteq> e"
proof
  assume "c = e"
  with assms(1) inj_onD [of snd "set ps" "(i, c)" "(j, e)"] assms(2-4) show False
    by (simp add: distinct_map)
qed

text \<open>
  C3: \<open>add_device\<close> returns without an exception for a device all of whose listed interfaces
  exist, and afterwards any two different interfaces that are drawn have different cells.
\<close>

theorem add_device_no_overlap:
  assumes "oget (devs s) d = Some dv" "interfaces dv \<noteq> None"
    and "set (interfaces_sorted dv) \<subseteq> set (okeys (dev_ifs dv))" "distinct (interfaces_sorted dv)"
    and i: "i \<in> set (interfaces_sorted dv)" "is_drawn (if_draw (site s) dv i)"
    and j: "j \<in> set (interfaces_sorted dv)" "is_drawn (if_draw (site s) dv j)" and ij: "i \<noteq> j"
  shows "\<exists>s' t c e. add_device text_size d s = Done s' \<and> oget (temp_devs s') d = Some t \<and>
    at_cell (td_ifs t) i c \<and> at_cell (td_ifs t) j e \<and> c \<noteq> e"
proof (rule add_device_places [OF assms(1-4), of text_size])
  fix s' and t :: temp_dev and ncy
  let ?ps = "place_cells (td_cols t) (td_rows t) (if_draw (site s) dv) (interfaces_sorted dv) (0, 0) (1, 1 + ncy)"
  assume r: "add_device text_size d s = Done s'" "oget (temp_devs s') d = Some t"
    and a: "\<forall>(i, c) \<in> set ?ps. at_cell (td_ifs t) i c" and dist: "distinct (map snd ?ps)"
  obtain c e where c: "(i, c) \<in> set ?ps" and e: "(j, e) \<in> set ?ps"
    using place_cells_mem i j by metis
  with place_cells_apart [OF dist c e ij] a r show ?thesis by blast
qed

definition ex_router :: device where
  "ex_router = device0\<lparr>dev_short_name := Some ''r1'',
     interfaces := Some [(''e1'', iface0\<lparr>ifType := Some 6, ips := Some []\<rparr>),
       (''e2'', iface0\<lparr>ifType := Some 6, ips := Some []\<rparr>), (''lo'', iface0\<lparr>ifType := Some 24\<rparr>)],
     interfaces_sorted := [''e1'', ''e2'', ''lo'']\<rparr>"

definition ex_page :: app where
  "ex_page = app0\<lparr>devs := [(''r1'', ex_router)], site := ''l3''\<rparr>"

lemmas ex_page_defs = ex_page_def ex_router_def app0_def device0_def iface0_def dev_ifs_def
  if_draw_def draw_l3_def is_drawn_def

lemma add_device_no_overlap_witness:
  "\<exists>s' t c e. add_device (\<lambda>_. (50, 16)) ''r1'' ex_page = Done s' \<and> oget (temp_devs s') ''r1'' = Some t \<and>
     at_cell (td_ifs t) ''e2'' c \<and> at_cell (td_ifs t) ''lo'' e \<and> c \<noteq> e"
  by (rule add_device_no_overlap [where dv = ex_router]) (simp_all add: ex_page_defs)

text \<open>
  C10: an interface drawn outside is on the border of the grid, an interface drawn inside lies
  strictly between the rows of the name and the last row, so no interface covers the name.
\<close>

theorem add_device_inside:
  assumes "oget (devs s) d = Some dv" "interfaces dv \<noteq> None"
    and "set (interfaces_sorted dv) \<subseteq> set (okeys (dev_ifs dv))" "distinct (interfaces_sorted dv)"
    and i: "i \<in> set (interfaces_sorted dv)" "is_drawn (if_draw (site s) dv i)"
  shows "\<exists>s' t col row. add_device text_size d s = Done s' \<and> oget (temp_devs s') d = Some t \<and>
    at_cell (td_ifs t) i (col, row) \<and> col < td_cols t \<and> row < td_rows t \<and>
    (if if_draw (site s) dv i = Some 1
     then row = 0 \<or> row = td_rows t - 1 \<or> col = 0 \<or> col = td_cols t - 1
     else 1 \<le> col \<and> col < td_cols t - 1 \<and> td_inner_start_row t \<le> row \<and> row < td_rows t - 1)"
proof (rule add_device_places [OF assms(1-4), of text_size])
  fix s' and t :: temp_dev and ncy
  let ?D = "if_draw (site s) dv"
  let ?ps = "place_cells (td_cols t) (td_rows t) ?D (interfaces_sorted dv) (0, 0) (1, 1 + ncy)"
  assume r: "add_device text_size d s = Done s'" "oget (temp_devs s') d = Some t"
    and n: "td_inner_start_row t = 1 + ncy" "2 \<le> td_cols t"
    and a: "\<forall>(i, c) \<in> set ?ps. at_cell (td_ifs t) i c"
    and w: "\<forall>(i, c) \<in> set ?ps. (?D i = Some 1 \<longrightarrow> c \<in> set (border (td_cols t) (td_rows t))) \<and>
       (?D i \<noteq> Some 1 \<longrightarrow> 1 \<le> fst c \<and> fst c < td_cols t - 1 \<and> ncy < snd c \<and> snd c < td_rows t - 1)"
  obtain col row where c: "(i, col, row) \<in> set ?ps" using place_cells_mem i by (metis surj_pair)
  with a have at: "at_cell (td_ifs t) i (col, row)" by blast
  show ?thesis
  proof (cases "?D i = Some 1")
    case True
    with w c have "(col, row) \<in> set (border (td_cols t) (td_rows t))" by blast
    then show ?thesis using r at True by (auto simp: set_border [OF n(2)])
  next
    case False
    with w c have "1 \<le> col" "col < td_cols t - 1" "ncy < row" "row < td_rows t - 1" by auto
    then show ?thesis using r at False n by (intro exI conjI) auto
  qed
qed

lemma add_device_inside_witness:
  "\<exists>s' t col row. add_device (\<lambda>_. (50, 16)) ''r1'' ex_page = Done s' \<and> oget (temp_devs s') ''r1'' = Some t \<and>
    at_cell (td_ifs t) ''lo'' (col, row) \<and> col < td_cols t \<and> row < td_rows t \<and>
    (if if_draw (site ex_page) ex_router ''lo'' = Some 1
     then row = 0 \<or> row = td_rows t - 1 \<or> col = 0 \<or> col = td_cols t - 1
     else 1 \<le> col \<and> col < td_cols t - 1 \<and> td_inner_start_row t \<le> row \<and> row < td_rows t - 1)"
  by (rule add_device_inside) (simp_all add: ex_page_defs)

end
