(* ===== verification/Sorting.thy ===== *)
theory Sorting
  imports JsNumber
begin

text \<open>
  Comparison functions and \<open>Array.prototype.sort\<close>: what a consistent comparator promises (the
  locale \<open>comparator\<close>), the stable sort a JavaScript engine performs with one, and the
  comparators of \<open>mapper.js\<close>: \<open>num_compare\<close>, \<open>sort_by_string_key\<close>, \<open>sort_by_number_key\<close> and the
  symmetric link id \<open>ip_link_id\<close>. \<open>localeCompare\<close> is a parameter \<open>lc\<close>; what is relied on is that
  it is a consistent comparator.
\<close>

section \<open>Comparators\<close>

locale comparator =
  fixes cmp :: "'a \<Rightarrow> 'a \<Rightarrow> int"
  assumes anti: "sgn (cmp y x) = - sgn (cmp x y)"
    and trans: "cmp x y \<le> 0 \<Longrightarrow> cmp y z \<le> 0 \<Longrightarrow> cmp x z \<le> 0"
begin

lemma refl [simp]: "cmp x x = 0"
  using anti [of x x] by (simp add: sgn_if split: if_splits)

lemma le_flip: "cmp x y \<le> 0 \<longleftrightarrow> 0 \<le> cmp y x"
  using anti [of x y] by (auto simp: sgn_if split: if_splits)

lemma zero_flip: "cmp x y = 0 \<longleftrightarrow> cmp y x = 0"
  using le_flip [of x y] le_flip [of y x] by linarith

lemma less_flip: "cmp x y < 0 \<longleftrightarrow> 0 < cmp y x"
  using le_flip [of y x] by linarith

lemma total: "cmp x y \<le> 0 \<or> cmp y x \<le> 0"
  using le_flip [of x y] by linarith

lemma zero_trans: "cmp x y = 0 \<Longrightarrow> cmp y z = 0 \<Longrightarrow> cmp x z = 0"
proof -
  assume h: "cmp x y = 0" "cmp y z = 0"
  then have "cmp y x = 0" "cmp z y = 0" using zero_flip by metis+
  then have "cmp x z \<le> 0" "cmp z x \<le> 0" using h trans [of x y z] trans [of z y x] by simp_all
  then show ?thesis using le_flip [of z x] by simp
qed

lemma zero_le: "cmp x y = 0 \<Longrightarrow> cmp x z \<le> 0 \<longleftrightarrow> cmp y z \<le> 0"
proof -
  assume h: "cmp x y = 0"
  then have "cmp y x = 0" using zero_flip by metis
  then show ?thesis using h trans [of x y z] trans [of y x z] by auto
qed

end

text \<open>
  The stable sort. With a consistent comparator the result of \<open>sort\<close> is determined, so any stable
  algorithm computes it; insertion from the right keeps equal elements in their order.
\<close>

fun ins_by :: "('a \<Rightarrow> 'a \<Rightarrow> int) \<Rightarrow> 'a \<Rightarrow> 'a list \<Rightarrow> 'a list" where
  "ins_by cmp x [] = [x]"
| "ins_by cmp x (y # ys) = (if cmp x y \<le> 0 then x # y # ys else y # ins_by cmp x ys)"

definition js_sort :: "('a \<Rightarrow> 'a \<Rightarrow> int) \<Rightarrow> 'a list \<Rightarrow> 'a list" where
  "js_sort cmp xs = foldr (ins_by cmp) xs []"

lemma js_sort_simps [simp]: "js_sort cmp [] = []" "js_sort cmp (x # xs) = ins_by cmp x (js_sort cmp xs)"
  by (simp_all add: js_sort_def)

lemma mset_ins_by [simp]: "mset (ins_by cmp x xs) = add_mset x (mset xs)"
  by (induction xs) auto

lemma mset_js_sort [simp]: "mset (js_sort cmp xs) = mset xs"
  by (induction xs) auto

lemma set_js_sort [simp]: "set (js_sort cmp xs) = set xs"
  using mset_eq_setD [OF mset_js_sort] .

lemma length_js_sort [simp]: "length (js_sort cmp xs) = length xs"
  using mset_eq_length [OF mset_js_sort] .

lemma distinct_js_sort [simp]: "distinct (js_sort cmp xs) = distinct xs"
  using mset_eq_imp_distinct_iff [OF mset_js_sort] .

lemma ins_by_map: "ins_by cmp (f x) (map f xs) = map f (ins_by (\<lambda>a b. cmp (f a) (f b)) x xs)"
  by (induction xs) simp_all

lemma js_sort_map: "js_sort cmp (map f xs) = map f (js_sort (\<lambda>a b. cmp (f a) (f b)) xs)"
  by (induction xs) (simp_all add: ins_by_map)

lemma filter_ins_skip: "\<not> P x \<Longrightarrow> filter P (ins_by cmp x xs) = filter P xs"
  by (induction xs) auto

context comparator
begin

lemma sorted_ins: "sorted_wrt (\<lambda>x y. cmp x y \<le> 0) xs \<Longrightarrow> sorted_wrt (\<lambda>x y. cmp x y \<le> 0) (ins_by cmp x xs)"
proof (induction xs)
  case (Cons y ys)
  have "set (ins_by cmp x ys) = insert x (set ys)"
    using mset_eq_setD [of "ins_by cmp x ys" "x # ys"] by simp
  with Cons trans [of x y] total [of x y] show ?case by auto
qed simp

lemma sorted_js_sort: "sorted_wrt (\<lambda>x y. cmp x y \<le> 0) (js_sort cmp xs)"
  by (induction xs) (auto intro: sorted_ins)

lemma ins_stable: "cmp x z = 0 \<Longrightarrow> filter (\<lambda>y. cmp y z = 0) (ins_by cmp x xs) = x # filter (\<lambda>y. cmp y z = 0) xs"
proof (induction xs)
  case (Cons y ys)
  then show ?case using zero_le [of x z y] zero_flip [of y z] by auto
qed simp

lemma js_sort_stable: "filter (\<lambda>y. cmp y z = 0) (js_sort cmp xs) = filter (\<lambda>y. cmp y z = 0) xs"
proof (induction xs)
  case (Cons x xs)
  then show ?case by (cases "cmp x z = 0") (simp_all add: ins_stable filter_ins_skip)
qed simp

lemma flipped: "comparator (\<lambda>x y. cmp y x)"
proof
  show "sgn (cmp x y) = - sgn (cmp y x)" for x y by (rule anti)
  show "cmp y x \<le> 0 \<Longrightarrow> cmp z y \<le> 0 \<Longrightarrow> cmp z x \<le> 0" for x y z by (rule trans)
qed

lemma by_key: "comparator (\<lambda>x y. cmp (f x) (f y))"
proof
  show "sgn (cmp (f y) (f x)) = - sgn (cmp (f x) (f y))" for x y by (rule anti)
  show "cmp (f x) (f y) \<le> 0 \<Longrightarrow> cmp (f y) (f z) \<le> 0 \<Longrightarrow> cmp (f x) (f z) \<le> 0" for x y z by (rule trans)
qed

end

section \<open>Lexicographic comparison\<close>

text \<open>Element by element until one differs; then the lengths.\<close>

fun lex_cmp :: "('a \<Rightarrow> 'a \<Rightarrow> int) \<Rightarrow> 'a list \<Rightarrow> 'a list \<Rightarrow> int" where
  "lex_cmp c [] [] = 0"
| "lex_cmp c (x # xs) [] = 1"
| "lex_cmp c [] (y # ys) = - 1"
| "lex_cmp c (x # xs) (y # ys) = (if c x y \<noteq> 0 then c x y else lex_cmp c xs ys)"

context comparator
begin

lemma lex_anti: "sgn (lex_cmp cmp ys xs) = - sgn (lex_cmp cmp xs ys)"
proof (induction xs arbitrary: ys)
  case Nil
  show ?case by (cases ys) simp_all
next
  case (Cons x xs)
  show ?case using Cons anti [of _ x] zero_flip [of x] by (cases ys) auto
qed

lemma lex_trans: "lex_cmp cmp xs ys \<le> 0 \<Longrightarrow> lex_cmp cmp ys zs \<le> 0 \<Longrightarrow> lex_cmp cmp xs zs \<le> 0"
proof (induction xs arbitrary: ys zs)
  case Nil
  show ?case by (cases zs) simp_all
next
  case (Cons x xs)
  then obtain y ys' where y: "ys = y # ys'" by (cases ys) auto
  with Cons.prems obtain z zs' where z: "zs = z # zs'" by (cases zs) auto
  have le: "cmp x y \<le> 0" "cmp y z \<le> 0" using Cons.prems y z by (auto split: if_splits)
  then have xz: "cmp x z \<le> 0" by (rule trans)
  show ?case
  proof (cases "cmp x z = 0")
    case True
    have "cmp y x \<le> 0" using trans [of y z x] le True zero_flip [of x z] by simp
    then have xy: "cmp x y = 0" using le(1) le_flip [of y x] by simp
    then have yz: "cmp y z = 0" using zero_trans [of y x z] True zero_flip [of x y] by simp
    show ?thesis using Cons.IH [of ys' zs'] Cons.prems True xy yz y z by simp
  next
    case False
    with xz z show ?thesis by simp
  qed
qed

lemma lex: "comparator (lex_cmp cmp)"
  by (rule comparator.intro [OF lex_anti lex_trans])

end

section \<open>\<open>num_compare\<close>\<close>

text \<open>
  \<open>split(/(\d+)/)\<close> keeps the separators: pieces without digits alternate with numerals.
\<close>

lemma num_split_dec:
  assumes "dropWhile (\<lambda>c. \<not> is_digit c) s \<noteq> []"
  shows "length (dropWhile is_digit (dropWhile (\<lambda>c. \<not> is_digit c) s)) < length s"
proof -
  obtain c t where c: "dropWhile (\<lambda>c. \<not> is_digit c) s = c # t" "is_digit c"
    using assms by (metis hd_dropWhile list.exhaust_sel)
  have "length (dropWhile is_digit (c # t)) \<le> length t" using c(2) by (simp add: length_dropWhile_le)
  also have "length t < length s" using c(1) length_dropWhile_le [of "\<lambda>c. \<not> is_digit c" s] by simp
  finally show ?thesis using c(1) by simp
qed

function num_split :: "string \<Rightarrow> string list" where
  "num_split s =
     (let a = takeWhile (\<lambda>c. \<not> is_digit c) s; r = dropWhile (\<lambda>c. \<not> is_digit c) s
      in if r = [] then [a] else a # takeWhile is_digit r # num_split (dropWhile is_digit r))"
  by pat_completeness auto
termination
  by (relation "measure length") (rule wf_measure, simp only: in_measure, rule num_split_dec)

declare num_split.simps [simp del]

text \<open>
  \<open>Number(piece)\<close>: a numeral is rounded to a double (53 significant bits, ties to even;
  from \<open>2 ^ 1024 - 2 ^ 970\<close> on it is infinite), a blank piece is zero, \<open>Infinity\<close> is a number
  too, everything else without digits is \<open>NaN\<close>. The numbers are ordered by their rank.
\<close>

function bit_len :: "nat \<Rightarrow> nat" where
  "bit_len n = (if n = 0 then 0 else Suc (bit_len (n div 2)))"
  by pat_completeness auto
termination by (relation "measure id") auto

declare bit_len.simps [simp del]

definition round53 :: "nat \<Rightarrow> nat" where
  "round53 n = (let e = bit_len n - 53 in div_even n (2 ^ e) * 2 ^ e)"

definition js_infinity :: int where
  "js_infinity = 2 ^ 1024"

definition piece_num :: "string \<Rightarrow> int option" where
  "piece_num p =
     (let t = rev (dropWhile is_space (rev (dropWhile is_space p))) in
      if t = [] then Some 0
      else if list_all is_digit t then Some (min js_infinity (int (round53 (str_nat t))))
      else if t = ''Infinity'' \<or> t = ''+Infinity'' then Some js_infinity
      else if t = ''-Infinity'' then Some (- js_infinity)
      else None)"

definition piece_cmp :: "(string \<Rightarrow> string \<Rightarrow> int) \<Rightarrow> string \<Rightarrow> string \<Rightarrow> int" where
  "piece_cmp lc av bv = (case (piece_num av, piece_num bv) of
      (None, Some m) \<Rightarrow> 1
    | (Some n, None) \<Rightarrow> - 1
    | (None, None) \<Rightarrow> lc av bv
    | (Some n, Some m) \<Rightarrow> if n > m then 1 else if n < m then - 1 else 0)"

text \<open>The loop shifts both lists until one is empty, then compares what is left of each.\<close>

fun num_loop :: "(string \<Rightarrow> string \<Rightarrow> int) \<Rightarrow> string list \<Rightarrow> string list \<Rightarrow> int" where
  "num_loop lc (av # aa) (bv # ba) =
     (let c = piece_cmp lc av bv in if c \<noteq> 0 then c else num_loop lc aa ba)"
| "num_loop lc aa ba =
     (if length aa = length ba then 0 else if length aa > length ba then 1 else - 1)"

definition num_compare :: "(string \<Rightarrow> string \<Rightarrow> int) \<Rightarrow> string \<Rightarrow> string \<Rightarrow> int" where
  "num_compare lc a b = num_loop lc (num_split a) (num_split b)"

lemma num_loop_lex: "num_loop lc xs ys = lex_cmp (piece_cmp lc) xs ys"
  by (induction lc xs ys rule: num_loop.induct) (auto simp: Let_def neq_Nil_conv)

lemma piece_comparator:
  assumes "comparator lc" shows "comparator (piece_cmp lc)"
proof
  show "sgn (piece_cmp lc y x) = - sgn (piece_cmp lc x y)" for x y
    using comparator.anti [OF assms, of y x] by (auto simp: piece_cmp_def split: option.splits)
  show "piece_cmp lc x z \<le> 0" if "piece_cmp lc x y \<le> 0" "piece_cmp lc y z \<le> 0" for x y z
    using comparator.trans [OF assms, of x y z] that
    by (auto simp: piece_cmp_def split: option.splits if_splits)
qed

lemma num_comparator:
  assumes "comparator lc" shows "comparator (num_compare lc)"
proof -
  have "comparator (\<lambda>x y. lex_cmp (piece_cmp lc) (num_split x) (num_split y))"
    by (rule comparator.by_key [OF comparator.lex [OF piece_comparator [OF assms]]])
  moreover have "num_compare lc = (\<lambda>x y. lex_cmp (piece_cmp lc) (num_split x) (num_split y))"
    by (intro ext) (simp add: num_compare_def num_loop_lex)
  ultimately show ?thesis by simp
qed

text \<open>
  Code units compared one by one: the order of \<open>localeCompare\<close> is not this one, but this one
  is a consistent comparator too, and it is the order of \<open><\<close> on strings.
\<close>

definition unit_cmp :: "string \<Rightarrow> string \<Rightarrow> int" where
  "unit_cmp = lex_cmp (\<lambda>a b. int (code a) - int (code b))"

lemma char_comparator: "comparator (\<lambda>a b. int (code a) - int (code b))"
  by unfold_locales (auto simp: sgn_if)

interpretation units: comparator unit_cmp
  unfolding unit_cmp_def by (rule comparator.lex [OF char_comparator])

interpretation unit_nums: comparator "num_compare unit_cmp"
  by (rule num_comparator [OF units.comparator_axioms])

section \<open>Sorting by a key, and link ids\<close>

text \<open>
  The two sorts read \<open>obj[a][key]\<close> in the comparator, so a missing \<open>obj[a]\<close> is an exception as
  soon as the comparator runs; a missing \<open>key\<close> prints as \<open>undefined\<close>.
\<close>

definition key_text :: "('k, (string, string) obj) obj \<Rightarrow> string \<Rightarrow> 'k \<Rightarrow> string" where
  "key_text ob key a = (case oget ob a of None \<Rightarrow> []
     | Some o1 \<Rightarrow> (case oget o1 key of None \<Rightarrow> ''undefined'' | Some v \<Rightarrow> toLower v))"

definition sort_key :: "(string \<Rightarrow> string \<Rightarrow> int) \<Rightarrow> 'k list \<Rightarrow> ('k, (string, string) obj) obj \<Rightarrow> string \<Rightarrow> bool \<Rightarrow> exn + 'k list" where
  "sort_key c arr ob key asc =
     (if 2 \<le> length arr \<and> list_ex (\<lambda>a. oget ob a = None) arr then Inl TypeError
      else if asc then Inr (js_sort (\<lambda>a b. c (key_text ob key a) (key_text ob key b)) arr)
      else Inr (js_sort (\<lambda>b a. c (key_text ob key a) (key_text ob key b)) arr))"

definition sort_by_string_key where
  "sort_by_string_key lc arr ob key asc = sort_key lc arr ob key asc"

definition sort_by_number_key where
  "sort_by_number_key lc arr ob key asc = sort_key (num_compare lc) arr ob key asc"

text \<open>The id of a layer 3 link, and whether an error was shown (both ends on one device).\<close>

definition ip_link_text :: "string \<Rightarrow> string \<Rightarrow> string \<Rightarrow> string \<Rightarrow> string" where
  "ip_link_text dev1 if1 dev2 if2 = ''ip_'' @ dev1 @ ''@'' @ if1 @ ''#'' @ dev2 @ ''@'' @ if2"

definition ip_link_id :: "(string \<Rightarrow> string \<Rightarrow> int) \<Rightarrow> string \<Rightarrow> string \<Rightarrow> string \<Rightarrow> string \<Rightarrow> bool \<times> string" where
  "ip_link_id lc dev1 if1 dev2 if2 =
     (let dc = lc dev1 dev2 in
      if dc < 0 then (False, ip_link_text dev1 if1 dev2 if2)
      else if dc > 0 then (False, ip_link_text dev2 if2 dev1 if1)
      else let ic = lc if1 if2 in
        if ic < 0 then (True, ip_link_text dev1 if1 dev2 if2)
        else (True, ip_link_text dev2 if2 dev1 if1))"

text \<open>
  Whatever consistent order \<open>localeCompare\<close> uses, \<open>num_compare\<close> is a consistent comparator
  too: comparing the other way round gives the opposite sign, and its order is transitive.
\<close>

theorem num_compare_consistent:
  assumes "comparator lc"
  shows "sgn (num_compare lc b a) = - sgn (num_compare lc a b) \<and>
    (num_compare lc a b \<le> 0 \<longrightarrow> num_compare lc b c \<le> 0 \<longrightarrow> num_compare lc a c \<le> 0)"
  using comparator.anti [OF num_comparator [OF assms]] comparator.trans [OF num_comparator [OF assms]] by blast

lemma num_compare_consistent_witness:
  "sgn (num_compare unit_cmp ''Gi0/10'' ''Gi0/9'') = - sgn (num_compare unit_cmp ''Gi0/9'' ''Gi0/10'') \<and>
    num_compare unit_cmp ''Gi0/9'' ''Gi1/2'' \<le> 0"
proof -
  have "num_compare unit_cmp ''Gi0/9'' ''Gi0/10'' \<le> 0" "num_compare unit_cmp ''Gi0/10'' ''Gi1/2'' \<le> 0"
    by code_simp+
  then show ?thesis
    using num_compare_consistent [OF units.comparator_axioms, of "''Gi0/10''" "''Gi0/9''" "''Gi1/2''"] by blast
qed

text \<open>
  The two sorts keep every entry, order the keys' texts, and leave entries of equal text in
  their old order (ascending sort; the objects have all the entries).
\<close>

theorem sort_by_number_key_sorts:
  assumes lc: "comparator lc" and all: "list_all (\<lambda>a. oget ob a \<noteq> None) arr"
  shows "\<exists>r. sort_by_number_key lc arr ob key True = Inr r \<and> mset r = mset arr \<and>
    sorted_wrt (\<lambda>a b. num_compare lc (key_text ob key a) (key_text ob key b) \<le> 0) r \<and>
    (\<forall>z. filter (\<lambda>a. num_compare lc (key_text ob key a) (key_text ob key z) = 0) r =
         filter (\<lambda>a. num_compare lc (key_text ob key a) (key_text ob key z) = 0) arr)"
proof -
  let ?c = "\<lambda>a b. num_compare lc (key_text ob key a) (key_text ob key b)"
  have c: "comparator ?c" by (rule comparator.by_key [OF num_comparator [OF lc]])
  have "\<not> list_ex (\<lambda>a. oget ob a = None) arr" using all by (simp add: list_all_iff list_ex_iff)
  then have "sort_by_number_key lc arr ob key True = Inr (js_sort ?c arr)"
    by (simp add: sort_by_number_key_def sort_key_def)
  then show ?thesis
    using comparator.sorted_js_sort [OF c] comparator.js_sort_stable [OF c] by simp
qed

lemma sort_by_number_key_sorts_witness:
  "\<exists>r. sort_by_number_key unit_cmp [''b'', ''a''] [(''a'', [(''n'', ''port 2'')]), (''b'', [(''n'', ''port 10'')])] ''n'' True = Inr r \<and>
    mset r = mset [''b'', ''a''] \<and>
    sorted_wrt (\<lambda>a b. num_compare unit_cmp
      (key_text [(''a'', [(''n'', ''port 2'')]), (''b'', [(''n'', ''port 10'')])] ''n'' a)
      (key_text [(''a'', [(''n'', ''port 2'')]), (''b'', [(''n'', ''port 10'')])] ''n'' b) \<le> 0) r"
  using sort_by_number_key_sorts [OF units.comparator_axioms, of "[(''a'', [(''n'', ''port 2'')]), (''b'', [(''n'', ''port 10'')])]" "[''b'', ''a'']" "''n''"]
  by auto

text \<open>
  The id of a layer 3 link does not depend on the end it is computed from, provided the
  devices are told apart by \<open>localeCompare\<close>; then no error is shown either.
\<close>

theorem ip_link_id_symmetric:
  assumes "comparator lc" "lc dev1 dev2 \<noteq> 0"
  shows "ip_link_id lc dev1 if1 dev2 if2 = ip_link_id lc dev2 if2 dev1 if1 \<and>
    \<not> fst (ip_link_id lc dev1 if1 dev2 if2)"
  using assms(2) comparator.less_flip [OF assms(1), of dev1 dev2] comparator.less_flip [OF assms(1), of dev2 dev1]
  by (auto simp: ip_link_id_def Let_def)

lemma ip_link_id_symmetric_witness:
  "ip_link_id unit_cmp ''r1'' ''e0'' ''r2'' ''e1'' = ip_link_id unit_cmp ''r2'' ''e1'' ''r1'' ''e0'' \<and>
    \<not> fst (ip_link_id unit_cmp ''r1'' ''e0'' ''r2'' ''e1'')"
  by (rule ip_link_id_symmetric [OF units.comparator_axioms]) code_simp


section \<open>More comparators\<close>

text \<open>A second comparison that decides the ties of a first; and the sort depends on the elements' order only.\<close>

lemma then_by:
  assumes "comparator c1" "comparator c2"
  shows "comparator (\<lambda>a b. if c1 a b \<noteq> 0 then c1 a b else c2 a b)"
proof
  show "sgn (if c1 b a \<noteq> 0 then c1 b a else c2 b a) = - sgn (if c1 a b \<noteq> 0 then c1 a b else c2 a b)" for a b
    using comparator.anti [OF assms(1), of b a] comparator.anti [OF assms(2), of b a] comparator.zero_flip [OF assms(1), of a b] by auto
  show "(if c1 a d \<noteq> 0 then c1 a d else c2 a d) \<le> 0"
    if h: "(if c1 a b \<noteq> 0 then c1 a b else c2 a b) \<le> 0" "(if c1 b d \<noteq> 0 then c1 b d else c2 b d) \<le> 0" for a b d
  proof -
    have le: "c1 a b \<le> 0" "c1 b d \<le> 0" using h by (auto split: if_splits)
    then have ad: "c1 a d \<le> 0" by (rule comparator.trans [OF assms(1)])
    show ?thesis
    proof (cases "c1 a d = 0")
      case True
      then have "c1 d a = 0" using comparator.zero_flip [OF assms(1)] by metis
      then have "c1 b a \<le> 0" "c1 d b \<le> 0"
        using comparator.trans [OF assms(1) le(2), of a] comparator.trans [OF assms(1) _ le(1), of d] by simp_all
      then have "c1 a b = 0" "c1 b d = 0" using le comparator.le_flip [OF assms(1)] by (meson dual_order.antisym)+
      then have "c2 a d \<le> 0" using h comparator.trans [OF assms(2), of a b d] by simp
      with True show ?thesis by simp
    qed (use ad in simp)
  qed
qed

lemma js_sort_cong:
  "(\<And>x y. x \<in> set xs \<Longrightarrow> y \<in> set xs \<Longrightarrow> c x y \<le> 0 \<longleftrightarrow> c' x y \<le> 0) \<Longrightarrow> js_sort c xs = js_sort c' xs"
proof (induction xs)
  case (Cons x xs)
  have ins: "ins_by c x ys = ins_by c' x ys" if "set ys \<subseteq> set (x # xs)" for ys
    using that Cons.prems by (induction ys) auto
  have "js_sort c xs = js_sort c' xs" by (rule Cons.IH) (simp add: Cons.prems)
  moreover have "ins_by c x (js_sort c' xs) = ins_by c' x (js_sort c' xs)" by (rule ins) auto
  ultimately show ?case by simp
qed simp

text \<open>Quotients with positive divisors, compared by cross multiplication; the larger comes first.\<close>

lemma quotients:
  assumes "\<And>x. 0 < q x"
  shows "comparator (\<lambda>a b. int (p b * q a) - int (p a * q b))"
proof
  show "sgn (int (p a * q b) - int (p b * q a)) = - sgn (int (p b * q a) - int (p a * q b))" for a b
    by (auto simp: sgn_if)
  show "int (p d * q a) - int (p a * q d) \<le> 0"
    if "int (p b * q a) - int (p a * q b) \<le> 0" "int (p d * q b) - int (p b * q d) \<le> 0" for a b d
  proof -
    have h: "p b * q a \<le> p a * q b" "p d * q b \<le> p b * q d" using that by linarith+
    have "(p d * q a) * q b = (p d * q b) * q a" by simp
    also have "\<dots> \<le> (p b * q d) * q a" using h(2) by (rule mult_right_mono) simp
    also have "\<dots> = (p b * q a) * q d" by simp
    also have "\<dots> \<le> (p a * q b) * q d" using h(1) by (rule mult_right_mono) simp
    finally have "(p d * q a) * q b \<le> (p a * q d) * q b" by (simp add: ac_simps)
    then have "p d * q a \<le> p a * q d" using assms [of b] by simp
    then show ?thesis by linarith
  qed
qed

lemma larger_first: "comparator (\<lambda>a b. int (p b) - int (p a))"
  by unfold_locales (auto simp: sgn_if)

end
