(* ===== verification/Arrange.thy ===== *)
theory Arrange
  imports AddDevice Sorting
begin

text \<open>
  \<open>arrange_interfaces_dev2tp\<close> and \<open>arrange_interfaces_dev2dev\<close>: the interfaces drawn on the
  border of a device are moved to the border cell (slot) nearest to what they are connected
  to. First the interfaces whose link has turnpoints, then those with a direct link, then the
  rest take the free slots in order.
\<close>

section \<open>Slots\<close>

text \<open>
  One row of the slot table. In a middle row the column jumps from 1 to the last one; with a
  single column this jumps back, and the loop of the code does not end.
\<close>

partial_function (option) slot_row :: "nat \<Rightarrow> nat \<Rightarrow> nat \<Rightarrow> nat \<Rightarrow> slot list option" where
  "slot_row rows cols r c =
     (if c < cols then
        let c' = c + 1;
            c' = (if r > 0 \<and> r < rows - 1 \<and> c' = 1 then cols - 1 else c')
        in Option.bind (slot_row rows cols r c')
             (\<lambda>rest. Some (\<lparr>s_col = c, s_row = r, s_occupied = False, s_by = [], s_func = []\<rparr> # rest))
      else Some [])"

declare slot_row.simps [code]

fun slot_rows :: "nat \<Rightarrow> nat \<Rightarrow> nat list \<Rightarrow> slot list option" where
  "slot_rows rows cols [] = Some []"
| "slot_rows rows cols (r # rs) = (case slot_row rows cols r 0 of
      None \<Rightarrow> None
    | Some row \<Rightarrow> map_option ((@) row) (slot_rows rows cols rs))"

definition make_slots :: "nat \<Rightarrow> nat \<Rightarrow> slot list option" where
  "make_slots rows cols = slot_rows rows cols [0..<rows]"

text \<open>The nearest free slot; of several nearest ones the first.\<close>

fun nearest_from :: "nat \<Rightarrow> (slot \<Rightarrow> int) \<Rightarrow> slot list \<Rightarrow> (nat \<times> int) option \<Rightarrow> (nat \<times> int) option" where
  "nearest_from n dist [] best = best"
| "nearest_from n dist (sl # sls) best = nearest_from (Suc n) dist sls
     (if s_occupied sl then best
      else case best of
          None \<Rightarrow> Some (n, dist sl)
        | Some (m, dm) \<Rightarrow> if dm > dist sl then Some (n, dist sl) else best)"

definition nearest_slot :: "(slot \<Rightarrow> int) \<Rightarrow> slot list \<Rightarrow> nat option" where
  "nearest_slot dist sls = map_option fst (nearest_from 0 dist sls None)"

section \<open>Geometry\<close>

definition sq_dist :: "int \<times> int \<Rightarrow> int \<times> int \<Rightarrow> int" where
  "sq_dist p q = (fst p - fst q) * (fst p - fst q) + (snd p - snd q) * (snd p - snd q)"

definition center :: "elem \<Rightarrow> int \<times> int" where
  "center e = (e_left e + e_width e div 2, e_top e + e_height e div 2)"

record rect =
  r_left :: int
  r_top :: int
  r_right :: int
  r_bottom :: int

text \<open>The rectangle of the centres of a device's border cells.\<close>

definition dev_rect :: "int \<Rightarrow> elem \<Rightarrow> rect" where
  "dev_rect sz e = (let l = e_left e + sz div 2; t = e_top e + sz div 2
     in \<lparr>r_left = l, r_top = t, r_right = l + e_width e - sz, r_bottom = t + e_height e - sz\<rparr>)"

definition mid :: "int \<Rightarrow> int \<Rightarrow> int \<Rightarrow> int \<Rightarrow> int option" where
  "mid to_lo from_lo to_hi from_hi =
     (let lo = (if to_lo > from_lo then to_lo else from_lo);
          hi = (if to_hi < from_hi then to_hi else from_hi)
      in if lo > hi then None else Some (lo + (hi - lo) div 2))"

text \<open>
  The point of the neighbour's rectangle the distances refer to, by the neighbour's position;
  \<open>None\<close> is the branch that shows an error and returns.
\<close>

definition ref_point :: "rect \<Rightarrow> rect \<Rightarrow> (int \<times> int) option" where
  "ref_point fr to =
     (if r_right to \<le> r_left fr \<and> r_bottom to \<le> r_top fr then Some (r_right to, r_bottom to)
      else if r_right to \<le> r_left fr \<and> r_bottom to \<ge> r_top fr \<and> r_top to \<le> r_bottom fr then
        map_option (Pair (r_right to)) (mid (r_top to) (r_top fr) (r_bottom to) (r_bottom fr))
      else if r_right to \<le> r_left fr \<and> r_top to < r_bottom fr then Some (r_right to, r_top to)
      else if r_left to \<ge> r_right fr \<and> r_bottom to \<le> r_top fr then Some (r_left to, r_bottom to)
      else if r_left to \<ge> r_right fr \<and> r_top to > r_bottom fr then Some (r_left to, r_top to)
      else if r_left to \<ge> r_right fr \<and> r_bottom to \<ge> r_top fr \<and> r_top to \<le> r_bottom fr then
        map_option (Pair (r_left to)) (mid (r_top to) (r_top fr) (r_bottom to) (r_bottom fr))
      else if r_bottom to \<le> r_top fr \<and> r_right to \<ge> r_left fr \<and> r_left to \<le> r_right fr then
        map_option (\<lambda>x. (x, r_bottom to)) (mid (r_left to) (r_left fr) (r_right to) (r_right fr))
      else if r_top to \<ge> r_bottom fr \<and> r_right to \<ge> r_left fr \<and> r_left to \<le> r_right fr then
        map_option (\<lambda>x. (x, r_top to)) (mid (r_left to) (r_left fr) (r_right to) (r_right fr))
      else Some (r_left to + (r_right to - r_left to) div 2, r_top to + (r_bottom to - r_top to) div 2))"

section \<open>The links of an interface\<close>

record target =
  tg_dist :: int
  tg_x :: int
  tg_y :: int
  tg_dev :: dev_id
  tg_link :: link_id

definition arr_links :: "app \<Rightarrow> dev_id \<Rightarrow> if_name \<Rightarrow> link_id list" where
  "arr_links s d i =
     (if site s \<noteq> ''l3'' then (case if_l2_links (if_of (dev_of s d) i) of None \<Rightarrow> [] | Some ls \<Rightarrow> ls)
      else (case t_l3_links (tif_of (temp_of s d) i) of None \<Rightarrow> [] | Some ls \<Rightarrow> ls))"

text \<open>\<open>int_links.sort()\<close> sorts the array in \<open>data\<close> or \<open>temp_data\<close> in place.\<close>

definition set_if :: "dev_id \<Rightarrow> if_name \<Rightarrow> iface \<Rightarrow> app \<Rightarrow> app" where
  "set_if d i f s = s\<lparr>devs := oset d ((dev_of s d)\<lparr>interfaces := Some (oset i f (dev_ifs (dev_of s d)))\<rparr>) (devs s)\<rparr>"

definition set_tif :: "dev_id \<Rightarrow> if_name \<Rightarrow> temp_if \<Rightarrow> app \<Rightarrow> app" where
  "set_tif d i t s = s\<lparr>temp_devs := oset d ((temp_of s d)\<lparr>td_ifs := oset i t (td_ifs (temp_of s d))\<rparr>) (temp_devs s)\<rparr>"

definition sort_links :: "dev_id \<Rightarrow> if_name \<Rightarrow> app \<Rightarrow> app" where
  "sort_links d i s =
     (let ls = js_sort unit_cmp (arr_links s d i) in
      if site s \<noteq> ''l3'' then
        (let f = if_of (dev_of s d) i in if if_l2_links f = None then s else set_if d i (f\<lparr>if_l2_links := Some ls\<rparr>) s)
      else
        (let t = tif_of (temp_of s d) i in if t_l3_links t = None then s else set_tif d i (t\<lparr>t_l3_links := Some ls\<rparr>) s))"

definition other_end :: "connection \<Rightarrow> dev_id \<Rightarrow> if_name \<Rightarrow> (dev_id \<times> if_name) option" where
  "other_end con d i =
     (if from_dev con = d \<and> from_int con = i then Some (to_dev con, to_int con)
      else if to_dev con = d \<and> to_int con = i then Some (from_dev con, from_int con)
      else None)"

text \<open>The turnpoint at this end of a link, by the first leg that leaves this interface.\<close>

definition end_tp :: "dev_id \<Rightarrow> if_name \<Rightarrow> leg list \<Rightarrow> tpi option" where
  "end_tp d i ls = (case List.find (\<lambda>l. case leg_ends l of LDevtp fd fi k \<Rightarrow> fd = d \<and> fi = i | _ \<Rightarrow> False) ls of
      None \<Rightarrow> None
    | Some l \<Rightarrow> (case leg_ends l of LDevtp fd fi k \<Rightarrow> Some k | _ \<Rightarrow> None))"

definition tp_at :: "app \<Rightarrow> link_id \<Rightarrow> tpi \<Rightarrow> turnpoint option" where
  "tp_at s lid k = (case oget (map_tps (map_data s)) lid of None \<Rightarrow> None | Some t \<Rightarrow> oget t k)"

definition is_tptp :: "tp_ends \<Rightarrow> bool" where
  "is_tptp e = (case e of Tptp _ _ \<Rightarrow> True | _ \<Rightarrow> False)"

section \<open>Collecting the targets of an interface\<close>

text \<open>
  The two functions collect from the same sorted list of links: links through turnpoints with
  the turnpoint at this end, direct links with the reference point of the neighbour. An
  inconsistency shows a message and ends the whole function (\<open>Halt\<close>).
\<close>

type_synonym collecting = "app \<times> target list"

definition tp_target :: "dev_id \<Rightarrow> if_name \<Rightarrow> int \<times> int \<Rightarrow> link_id \<Rightarrow> collecting \<Rightarrow> collecting run" where
  "tp_target d i from lid st = (case st of (s, tgs) \<Rightarrow> (case oget (connections s) lid of
      None \<Rightarrow> Done st
    | Some con \<Rightarrow> (case other_end con d i of
        None \<Rightarrow> Halt (error_at (''Connections error '' @ lid) s, tgs)
      | Some (nei_dev, nei_int) \<Rightarrow>
          if length (legs con) = 1 then Done st
          else (case end_tp d i (legs con) of
              None \<Rightarrow> Halt (error_at ''Turnpoint not found'' s, tgs)
            | Some k \<Rightarrow> (case tp_at s lid k of
                None \<Rightarrow> Halt (error_at ''Turnpoint error'' s, tgs)
              | Some tp \<Rightarrow>
                  if is_tptp (tp_ends tp) then Halt (error_at ''Turnpoint error'' s, tgs)
                  else Done (s, tgs @ [\<lparr>tg_dist = sq_dist (tp_x tp, tp_y tp) from, tg_x = tp_x tp,
                      tg_y = tp_y tp, tg_dev = nei_dev, tg_link = lid\<rparr>]))))))"

definition dev_target :: "dev_id \<Rightarrow> if_name \<Rightarrow> elem \<Rightarrow> link_id \<Rightarrow> collecting \<Rightarrow> collecting run" where
  "dev_target d i fe lid st = (case st of (s, tgs) \<Rightarrow> (case oget (connections s) lid of
      None \<Rightarrow> Done st
    | Some con \<Rightarrow> (case other_end con d i of
        None \<Rightarrow> Halt (error_at (''Connections error '' @ lid) s, tgs)
      | Some (nei_dev, nei_int) \<Rightarrow>
          if length (legs con) \<noteq> 1 then Done st
          else (case oget (page s) nei_dev of
              None \<Rightarrow> Halt (error_at ''Cannot find nei element'' s, tgs)
            | Some te \<Rightarrow> (case ref_point (dev_rect (int_size s) fe) (dev_rect (int_size s) te) of
                None \<Rightarrow> Halt (error_at ''JS Program error'' s, tgs)
              | Some p \<Rightarrow> Done (s, tgs @ [\<lparr>tg_dist = sq_dist p (center fe), tg_x = fst p, tg_y = snd p,
                  tg_dev = nei_dev, tg_link = lid\<rparr>]))))))"

text \<open>The closest target, by a stable sort on the distance.\<close>

definition closest :: "target list \<Rightarrow> target option" where
  "closest tgs = (case js_sort (\<lambda>a b. tg_dist a - tg_dist b) tgs of [] \<Rightarrow> None | t # _ \<Rightarrow> Some t)"

section \<open>Moving an interface\<close>

definition move_elem :: "string \<Rightarrow> int \<Rightarrow> int \<Rightarrow> app \<Rightarrow> app" where
  "move_elem k l t s = (case oget (page s) k of None \<Rightarrow> s
     | Some e \<Rightarrow> s\<lparr>page := oset k (e\<lparr>e_left := l, e_top := t\<rparr>) (page s)\<rparr>)"

definition take_slot :: "dev_id \<Rightarrow> if_name \<Rightarrow> string \<Rightarrow> nat \<Rightarrow> app \<Rightarrow> app" where
  "take_slot d i func n s = (let t = temp_of s d in
     put_temp d (t\<lparr>td_slots := (td_slots t)[n := (td_slots t ! n)\<lparr>s_occupied := True, s_by := i, s_func := func\<rparr>]\<rparr>) s)"

definition set_cell :: "dev_id \<Rightarrow> if_name \<Rightarrow> nat \<Rightarrow> nat \<Rightarrow> app \<Rightarrow> app" where
  "set_cell d i c r s = move_elem (int_elm i d) (int c * int_size s) (int r * int_size s)
     (set_tif d i ((tif_of (temp_of s d) i)\<lparr>t_col := Some c, t_row := Some r\<rparr>) s)"

definition mark_relocated :: "dev_id \<Rightarrow> if_name \<Rightarrow> app \<Rightarrow> app" where
  "mark_relocated d i s = (let t = temp_of s d in
     put_temp d (t\<lparr>td_relocated := (if i \<in> set (td_relocated t) then td_relocated t else td_relocated t @ [i])\<rparr>) s)"

definition add_key :: "'a \<Rightarrow> 'a list \<Rightarrow> 'a list" where
  "add_key x xs = (if x \<in> set xs then xs else xs @ [x])"

text \<open>
  Slot \<open>n\<close> is taken by the interface; the flag says whether its cell changed, which decides
  whether the link must be drawn again.
\<close>

definition occupy :: "dev_id \<Rightarrow> if_name \<Rightarrow> string \<Rightarrow> nat \<Rightarrow> app \<Rightarrow> (app \<times> bool) run" where
  "occupy d i func n s =
     (let sl = td_slots (temp_of s d) ! n; c = s_col sl; r = s_row sl;
          s = take_slot d i func n s
      in if oget (page s) (int_elm i d) = None
         then Halt (error_at (''Cannot find interface element '' @ int_elm i d) s, False)
         else let t = tif_of (temp_of s d) i
              in Done (set_cell d i c r s, t_col t \<noteq> Some c \<or> t_row t \<noteq> Some r))"

text \<open>What happens with the collected targets; \<open>off\<close> is added to the corner of a slot.\<close>

definition settle :: "string \<Rightarrow> int \<Rightarrow> dev_id \<Rightarrow> if_name \<Rightarrow> elem \<Rightarrow> bool \<Rightarrow> target list \<Rightarrow> app \<times> dev_id list \<Rightarrow> (app \<times> dev_id list) run" where
  "settle func off d i fe moved tgs st = (case st of (s, neis) \<Rightarrow> (case closest tgs of
      None \<Rightarrow> Done st
    | Some tg \<Rightarrow>
        (case nearest_slot (\<lambda>sl. sq_dist (e_left fe + int (s_col sl) * int_size s + off,
                 e_top fe + int (s_row sl) * int_size s + off) (tg_x tg, tg_y tg)) (td_slots (temp_of s d)) of
            None \<Rightarrow> Halt (error_at ''no slots!'' s, neis)
          | Some n \<Rightarrow> (case occupy d i func n s of
              Done (s', changed) \<Rightarrow>
                let redo = changed \<or> moved;
                    s' = (if redo then s'\<lparr>rearranged := add_key (tg_link tg) (rearranged s')\<rparr> else s')
                in Done (mark_relocated d i s', if redo then add_key (tg_dev tg) neis else neis)
            | Halt (s', _) \<Rightarrow> Halt (s', neis)
            | Threw e (s', _) \<Rightarrow> Threw e (s', neis)))))"

definition lift_run :: "('a \<Rightarrow> 'b) \<Rightarrow> 'a run \<Rightarrow> 'b run" where
  "lift_run f r = (case r of Done s \<Rightarrow> Done (f s) | Halt s \<Rightarrow> Halt (f s) | Threw e s \<Rightarrow> Threw e (f s))"

text \<open>
  The body of the first loop of each function: only interfaces drawn outside are moved.
  Reading an interface that \<open>temp_data\<close> does not have is an exception.
\<close>

definition arrange_if :: "(dev_id \<Rightarrow> if_name \<Rightarrow> link_id \<Rightarrow> collecting \<Rightarrow> collecting run) \<Rightarrow> string \<Rightarrow> int \<Rightarrow> dev_id \<Rightarrow> elem \<Rightarrow> bool \<Rightarrow> if_name \<Rightarrow> app \<times> dev_id list \<Rightarrow> (app \<times> dev_id list) run" where
  "arrange_if collect func off d fe moved i st = (case st of (s, neis) \<Rightarrow>
     if oget (td_ifs (temp_of s d)) i = None then Threw TypeError st
     else if t_draw (tif_of (temp_of s d) i) \<noteq> Some 1 then Done st
     else if site s \<noteq> ''l3'' \<and> oget (dev_ifs (dev_of s d)) i = None then Threw TypeError st
     else let s = sort_links d i s
          in (case each (collect d i) (arr_links s d i) (s, []) of
                Done (s', tgs) \<Rightarrow> settle func off d i fe moved tgs (s', neis)
              | Halt (s', tgs) \<Rightarrow> Halt (s', neis)
              | Threw e (s', tgs) \<Rightarrow> Threw e (s', neis)))"

section \<open>The two functions\<close>

definition arrange_interfaces_dev2tp :: "dev_id \<Rightarrow> bool \<Rightarrow> app \<Rightarrow> app run" where
  "arrange_interfaces_dev2tp d moved s = (case oget (page s) d of
      None \<Rightarrow> Halt (error_at ''Undefined from element'' s)
    | Some fe \<Rightarrow> (case oget (temp_devs s) d of
        None \<Rightarrow> Threw TypeError s
      | Some t \<Rightarrow>
          let s = put_temp d (t\<lparr>td_slots := [], td_relocated := []\<rparr>) s
          in (case make_slots (td_rows t) (td_cols t) of
                None \<Rightarrow> Threw Hang s
              | Some sls \<Rightarrow>
                  let s = put_temp d ((temp_of s d)\<lparr>td_slots := sls\<rparr>) s
                  in (case oget (devs s) d of
                        None \<Rightarrow> Threw TypeError s
                      | Some dv \<Rightarrow>
                          if interfaces dv = None then Done s
                          else lift_run fst (each (arrange_if (\<lambda>d i. tp_target d i (center fe)) ''dev2tp'' 0 d fe moved)
                                 (interfaces_sorted dv) (s, []))))))"

text \<open>The last loop: an interface nothing has placed takes the first free slot.\<close>

definition first_free :: "slot list \<Rightarrow> nat option" where
  "first_free sls = (if list_ex (\<lambda>sl. \<not> s_occupied sl) sls
     then Some (length (takeWhile s_occupied sls)) else None)"

definition relocate_if :: "dev_id \<Rightarrow> if_name \<Rightarrow> app \<Rightarrow> app run" where
  "relocate_if d i s =
     (if oget (td_ifs (temp_of s d)) i = None then Threw TypeError s
      else if t_draw (tif_of (temp_of s d) i) \<noteq> Some 1 \<or> i \<in> set (td_relocated (temp_of s d)) then Done s
      else (case first_free (td_slots (temp_of s d)) of
          None \<Rightarrow> Halt (error_at (''Relocation error for '' @ int_elm i d) s)
        | Some n \<Rightarrow> lift_run fst (occupy d i ''dev2dev_reloc'' n s)))"

definition dev2dev_body :: "dev_id \<Rightarrow> bool \<Rightarrow> app \<Rightarrow> (app \<times> dev_id list) run" where
  "dev2dev_body d moved s = (case oget (page s) d of
      None \<Rightarrow> Halt (error_at ''Undefined from element'' s, [])
    | Some fe \<Rightarrow> (case oget (devs s) d of
        None \<Rightarrow> Threw TypeError (s, [])
      | Some dv \<Rightarrow> seq
          (if interfaces dv = None then Done (s, [])
           else seq (each (arrange_if (\<lambda>d i. dev_target d i fe) ''dev2dev_dev'' (int_size s div 2) d fe moved)
                       (interfaces_sorted dv) (s, []))
                  (\<lambda>(s, neis). lift_run (\<lambda>s. (s, neis)) (each (relocate_if d) (interfaces_sorted dv) s)))
          (\<lambda>(s, neis). Done (s\<lparr>arranged := add_key d (arranged s)\<rparr>, neis))))"

definition arrange_interfaces_dev2dev :: "dev_id \<Rightarrow> bool \<Rightarrow> bool \<Rightarrow> app \<Rightarrow> app run" where
  "arrange_interfaces_dev2dev d recursive moved s = (case dev2dev_body d moved s of
      Halt (s, _) \<Rightarrow> Halt s
    | Threw e (s, _) \<Rightarrow> Threw e s
    | Done (s, neis) \<Rightarrow>
        if \<not> recursive then Done s
        else seq (each (\<lambda>dv s. called (arrange_interfaces_dev2tp dv False s)) neis s)
               (each (\<lambda>dv s. if dv \<in> set (arranged s) then Done s
                  else seq (called (arrange_interfaces_dev2tp dv False s))
                         (\<lambda>s. called (lift_run fst (dev2dev_body dv False s)))) neis))"

text \<open>The loop over all drawn devices that every change of the map ends with.\<close>

definition rearrange_all :: "app \<Rightarrow> app run" where
  "rearrange_all s = each (\<lambda>d s. case oget (temp_devs s) d of
       None \<Rightarrow> Done s
     | Some t \<Rightarrow> if td_draw t
         then seq (called (arrange_interfaces_dev2tp d False s)) (\<lambda>s. called (arrange_interfaces_dev2dev d False False s))
         else Done s) (okeys (devs s)) s"

section \<open>The slot table is the border\<close>

definition free_slot :: "cell \<Rightarrow> slot" where
  "free_slot p = \<lparr>s_col = fst p, s_row = snd p, s_occupied = False, s_by = '''', s_func = ''''\<rparr>"

definition slot_cell :: "slot \<Rightarrow> cell" where
  "slot_cell sl = (s_col sl, s_row sl)"

lemma slot_row_step:
  "slot_row rows cols r c = (if c < cols
     then map_option ((#) (free_slot (c, r))) (slot_row rows cols r (if 0 < r \<and> r < rows - 1 \<and> c = 0 then cols - 1 else c + 1))
     else Some [])"
  by (subst slot_row.simps) (simp add: Let_def map_conv_bind_option free_slot_def comp_def)

lemma slot_row_full:
  assumes "\<not> (0 < r \<and> r < rows - 1)"
  shows "slot_row rows cols r c = Some (map (\<lambda>c. free_slot (c, r)) [c..<cols])"
proof (induction "cols - c" arbitrary: c)
  case 0
  then show ?case by (simp add: slot_row_step)
next
  case (Suc k)
  then have c: "c < cols" and r: "slot_row rows cols r (c + 1) = Some (map (\<lambda>c. free_slot (c, r)) [c + 1..<cols])" by simp_all
  have "slot_row rows cols r c = map_option ((#) (free_slot (c, r))) (slot_row rows cols r (c + 1))"
    using assms c by (subst slot_row_step) auto
  with r c show ?case by (simp add: upt_conv_Cons)
qed

lemma slot_row_border:
  assumes "2 \<le> cols"
  shows "slot_row rows cols r 0 = Some (map free_slot (border_row cols rows r))"
proof (cases "0 < r \<and> r < rows - 1")
  case True
  have "slot_row rows cols r cols = Some []" by (simp add: slot_row_step)
  then have "slot_row rows cols r (cols - 1) = Some [free_slot (cols - 1, r)]"
    using assms by (subst slot_row_step) auto
  then show ?thesis using True assms by (subst slot_row_step) (auto simp: border_row_def)
next
  case False
  then show ?thesis by (auto simp: slot_row_full border_row_def)
qed

lemma slot_rows_border: "2 \<le> cols \<Longrightarrow> slot_rows rows cols rs = Some (map free_slot (concat (map (border_row cols rows) rs)))"
  by (induction rs) (simp_all add: slot_row_border)

lemma make_slots_border: "2 \<le> cols \<Longrightarrow> make_slots rows cols = Some (map free_slot (border cols rows))"
  by (simp add: make_slots_def slot_rows_border border_def)

section \<open>The invariant of a device being arranged\<close>

definition seated :: "temp_dev \<Rightarrow> if_name \<Rightarrow> bool" where
  "seated t i \<longleftrightarrow> (\<exists>n < length (td_slots t). s_occupied (td_slots t ! n) \<and> s_by (td_slots t ! n) = i \<and>
     t_col (tif_of t i) = Some (s_col (td_slots t ! n)) \<and> t_row (tif_of t i) = Some (s_row (td_slots t ! n)))"

definition slots_ok :: "temp_dev \<Rightarrow> bool" where
  "slots_ok t \<longleftrightarrow> map slot_cell (td_slots t) = border (td_cols t) (td_rows t) \<and>
     (\<forall>i \<in> set (td_relocated t). seated t i)"

text \<open>What a step may change in a device: its seats only grow.\<close>

definition keeps :: "temp_dev \<Rightarrow> temp_dev \<Rightarrow> bool" where
  "keeps t u \<longleftrightarrow> td_cols u = td_cols t \<and> td_rows u = td_rows t \<and>
     (\<forall>i. seated t i \<longrightarrow> seated u i) \<and> (\<forall>i. draw_of (td_ifs u) i = draw_of (td_ifs t) i) \<and>
     set (td_relocated t) \<subseteq> set (td_relocated u)"

lemma keeps_refl [simp]: "keeps t t"
  by (simp add: keeps_def)

lemma keeps_trans: "keeps t u \<Longrightarrow> keeps u v \<Longrightarrow> keeps t v"
  by (auto simp: keeps_def)

lemma temp_of_simps [simp]:
  "temp_of (put_temp d t s) e = (if e = d then t else temp_of s e)"
  "temp_of (error_at m s) e = temp_of s e"
  "temp_of (s\<lparr>page := p\<rparr>) e = temp_of s e" "temp_of (s\<lparr>devs := dv\<rparr>) e = temp_of s e"
  "temp_of (s\<lparr>rearranged := r\<rparr>) e = temp_of s e" "temp_of (s\<lparr>arranged := r\<rparr>) e = temp_of s e"
  "temp_of (set_if d i f s) e = temp_of s e" "temp_of (move_elem k l t' s) e = temp_of s e"
  by (simp_all add: temp_of_def put_temp_def error_at_def set_if_def move_elem_def split: option.splits)

lemma temp_of_set_tif [simp]:
  "temp_of (set_tif d i t s) e = (if e = d then (temp_of s d)\<lparr>td_ifs := oset i t (td_ifs (temp_of s d))\<rparr> else temp_of s e)"
  by (simp add: set_tif_def temp_of_def)

lemma tif_of_oset [simp]: "tif_of (t\<lparr>td_ifs := oset i f (td_ifs t)\<rparr>) j = (if j = i then f else tif_of t j)"
  by (simp add: tif_of_def)

lemma tif_of_frame [simp]:
  "tif_of (t\<lparr>td_slots := sls\<rparr>) j = tif_of t j" "tif_of (t\<lparr>td_relocated := rs\<rparr>) j = tif_of t j"
  by (simp_all add: tif_of_def)

lemma draw_of_tif: "draw_of (td_ifs t) i = t_draw (tif_of t i)"
  by (simp add: draw_of_def tif_of_def temp_if0_def split: option.split)

lemma seated_frame [simp]: "seated (t\<lparr>td_relocated := rs\<rparr>) i = seated t i"
  by (simp add: seated_def)

lemma slots_ok_border: "slots_ok t \<Longrightarrow> n < length (td_slots t) \<Longrightarrow> slot_cell (td_slots t ! n) \<in> set (border (td_cols t) (td_rows t))"
  unfolding slots_ok_def by (metis length_map nth_map nth_mem)

lemma sort_links_keeps:
  assumes "slots_ok (temp_of s d)"
  shows "slots_ok (temp_of (sort_links d i s) e) = slots_ok (temp_of s e) \<and> keeps (temp_of s e) (temp_of (sort_links d i s) e) \<and>
    td_slots (temp_of (sort_links d i s) e) = td_slots (temp_of s e) \<and>
    td_relocated (temp_of (sort_links d i s) e) = td_relocated (temp_of s e)"
proof -
  have "slots_ok (t\<lparr>td_ifs := oset i (tif_of t i\<lparr>t_l3_links := l\<rparr>) (td_ifs t)\<rparr>) = slots_ok t \<and>
      keeps t (t\<lparr>td_ifs := oset i (tif_of t i\<lparr>t_l3_links := l\<rparr>) (td_ifs t)\<rparr>)" for t l
    by (auto simp: slots_ok_def seated_def keeps_def draw_of_tif)
  then show ?thesis by (auto simp: sort_links_def Let_def)
qed

text \<open>Taking a free slot keeps all other seats, and seats the interface.\<close>

lemma occupy_keeps:
  assumes ok: "slots_ok (temp_of s d)" and n: "n < length (td_slots (temp_of s d))"
    and free: "\<not> s_occupied (td_slots (temp_of s d) ! n)"
    and r: "occupy d i func n s = Done (s', ch)"
  shows "slots_ok (temp_of s' d) \<and> keeps (temp_of s d) (temp_of s' d) \<and> seated (temp_of s' d) i \<and>
    td_relocated (temp_of s' d) = td_relocated (temp_of s d)"
proof -
  define t where "t = temp_of s d"
  define sl where "sl = td_slots t ! n"
  define u where "u = (t\<lparr>td_slots := (td_slots t)[n := sl\<lparr>s_occupied := True, s_by := i, s_func := func\<rparr>],
    td_ifs := oset i ((tif_of t i)\<lparr>t_col := Some (s_col sl), t_row := Some (s_row sl)\<rparr>) (td_ifs t)\<rparr>)"
  have "temp_of s' d = u"
    using r by (auto simp: occupy_def Let_def u_def t_def sl_def set_cell_def take_slot_def split: if_splits)
  moreover have sn: "td_slots u ! n = sl\<lparr>s_occupied := True, s_by := i, s_func := func\<rparr>" "length (td_slots u) = length (td_slots t)"
    "\<And>m. m \<noteq> n \<Longrightarrow> td_slots u ! m = td_slots t ! m"
    using n by (simp_all add: u_def t_def)
  have tif: "tif_of u j = (if j = i then (tif_of t i)\<lparr>t_col := Some (s_col sl), t_row := Some (s_row sl)\<rparr> else tif_of t j)" for j
    by (simp add: u_def tif_of_def)
  have si: "seated u i" unfolding seated_def using sn n tif by (intro exI [of _ n]) (simp add: t_def)
  have sj: "seated u j" if "seated t j" for j
  proof (cases "j = i")
    case False
    from that obtain m where m: "m < length (td_slots t)" "s_occupied (td_slots t ! m)" "s_by (td_slots t ! m) = j"
      "t_col (tif_of t j) = Some (s_col (td_slots t ! m))" "t_row (tif_of t j) = Some (s_row (td_slots t ! m))"
      by (auto simp: seated_def)
    have "m \<noteq> n" using m(2) free by (auto simp: t_def)
    with m sn tif False show ?thesis unfolding seated_def by (intro exI [of _ m]) simp
  qed (use si in simp)
  have "map slot_cell (td_slots u) = map slot_cell (td_slots t)"
    by (intro nth_equalityI) (use sn n in \<open>auto simp: slot_cell_def t_def sl_def nth_list_update u_def\<close>)
  then have "slots_ok u"
    using ok sj by (auto simp: slots_ok_def t_def [symmetric]) (simp_all add: u_def)
  moreover have "keeps t u" using sj by (auto simp: keeps_def draw_of_tif tif) (simp_all add: u_def)
  moreover have "td_relocated u = td_relocated t" by (simp add: u_def)
  ultimately show ?thesis using si by (simp add: t_def)
qed

lemma nearest_from_range:
  "nearest_from k dist sls best = Some (m, dm) \<Longrightarrow>
     (case best of None \<Rightarrow> False | Some b \<Rightarrow> b = (m, dm)) \<or> (k \<le> m \<and> m < k + length sls \<and> \<not> s_occupied (sls ! (m - k)) \<and> dm = dist (sls ! (m - k)))"
proof (induction k dist sls best rule: nearest_from.induct)
  case (2 n dist sl sls best)
  show ?case
    using "2.IH" "2.prems"
    by (auto simp: nth_Cons' Suc_diff_le split: if_splits option.splits prod.splits)
qed simp

lemma nearest_slot_free:
  "nearest_slot dist sls = Some n \<Longrightarrow> n < length sls \<and> \<not> s_occupied (sls ! n)"
  using nearest_from_range [of 0 dist sls None n] by (auto simp: nearest_slot_def)

lemma first_free_free: "first_free sls = Some n \<Longrightarrow> n < length sls \<and> \<not> s_occupied (sls ! n)"
proof -
  assume "first_free sls = Some n"
  then have e: "\<exists>sl \<in> set sls. \<not> s_occupied sl" and n: "n = length (takeWhile s_occupied sls)"
    by (auto simp: first_free_def list_ex_iff split: if_splits)
  have "takeWhile s_occupied sls \<noteq> sls" using e by (simp add: takeWhile_eq_all_conv)
  then have "n < length sls"
    using n length_takeWhile_le [of s_occupied sls] takeWhile_eq_take [of s_occupied sls] by (cases "n = length sls") auto
  then show ?thesis using n nth_length_takeWhile [of s_occupied sls] by simp
qed

text \<open>Collecting reads the state and shows at most one message, before it gives up.\<close>

lemma collect_frame:
  assumes c: "\<And>lid st. temp_devs (fst (run_state (collect lid st))) = temp_devs (fst st) \<and>
      (\<forall>st'. collect lid st = Done st' \<longrightarrow> fst st' = fst st)"
  shows "temp_devs (fst (run_state (each collect ls st))) = temp_devs (fst st) \<and>
    (\<forall>st'. each collect ls st = Done st' \<longrightarrow> fst st' = fst st)"
proof (induction ls arbitrary: st)
  case (Cons l ls)
  show ?case
  proof (cases "collect l st")
    case (Done st1)
    then have "fst st1 = fst st" using c by blast
    with Done Cons.IH [of st1] show ?thesis by simp
  qed (use c [of l st] in simp_all)
qed simp

lemma temp_devs_error [simp]: "temp_devs (error_at m s) = temp_devs s"
  by (simp add: error_at_def)

lemma tp_target_frame:
  "temp_devs (fst (run_state (tp_target d i from lid st))) = temp_devs (fst st) \<and>
     (\<forall>st'. tp_target d i from lid st = Done st' \<longrightarrow> fst st' = fst st)"
  by (cases st) (auto simp: tp_target_def split: option.splits)

lemma dev_target_frame:
  "temp_devs (fst (run_state (dev_target d i fe lid st))) = temp_devs (fst st) \<and>
     (\<forall>st'. dev_target d i fe lid st = Done st' \<longrightarrow> fst st' = fst st)"
  by (cases st) (auto simp: dev_target_def split: option.splits)

lemmas collectors_frame = tp_target_frame dev_target_frame

lemma settle_keeps:
  assumes ok: "slots_ok (temp_of s d)" and r: "settle func off d i fe moved tgs (s, neis) = Done (s', neis')"
  shows "slots_ok (temp_of s' d) \<and> keeps (temp_of s d) (temp_of s' d)"
proof (cases "closest tgs")
  case None
  with r ok show ?thesis by (simp add: settle_def)
next
  case (Some tg)
  with r obtain n s1 ch where n: "nearest_slot (\<lambda>sl. sq_dist (e_left fe + int (s_col sl) * int_size s + off,
        e_top fe + int (s_row sl) * int_size s + off) (tg_x tg, tg_y tg)) (td_slots (temp_of s d)) = Some n"
    and o1: "occupy d i func n s = Done (s1, ch)"
    and s': "temp_of s' d = temp_of (mark_relocated d i s1) d"
    by (auto simp: settle_def Let_def mark_relocated_def split: option.splits run.splits if_splits)
  from occupy_keeps [OF ok _ _ o1] nearest_slot_free [OF n]
  have k: "slots_ok (temp_of s1 d)" "keeps (temp_of s d) (temp_of s1 d)" "seated (temp_of s1 d) i" by blast+
  then show ?thesis unfolding s'
    by (auto simp: mark_relocated_def Let_def slots_ok_def keeps_def)
qed

lemma arrange_if_keeps:
  assumes c: "\<And>lid st. temp_devs (fst (run_state (collect d i lid st))) = temp_devs (fst st) \<and>
      (\<forall>st'. collect d i lid st = Done st' \<longrightarrow> fst st' = fst st)"
    and ok: "slots_ok (temp_of s d)"
    and r: "arrange_if collect func off d fe moved i (s, neis) = Done (s', neis')"
  shows "slots_ok (temp_of s' d) \<and> keeps (temp_of s d) (temp_of s' d)"
proof (cases "t_draw (tif_of (temp_of s d) i) = Some 1")
  case False
  with r ok show ?thesis by (auto simp: arrange_if_def split: if_splits)
next
  case True
  let ?s = "sort_links d i s"
  from r True obtain s1 tgs where e: "each (collect d i) (arr_links ?s d i) (?s, []) = Done (s1, tgs)"
    and st: "settle func off d i fe moved tgs (s1, neis) = Done (s', neis')"
    by (auto simp: arrange_if_def Let_def split: if_splits run.splits)
  have "s1 = ?s" using collect_frame [of "collect d i" "arr_links ?s d i" "(?s, [])"] c e by auto
  then have o: "slots_ok (temp_of s1 d)" "keeps (temp_of s d) (temp_of s1 d)"
    using sort_links_keeps [OF ok, of i d] ok by auto
  from settle_keeps [OF o(1) st] keeps_trans [OF o(2)] show ?thesis by blast
qed

lemma each_arrange_if_keeps:
  assumes c: "\<And>i lid st. temp_devs (fst (run_state (collect d i lid st))) = temp_devs (fst st) \<and>
      (\<forall>st'. collect d i lid st = Done st' \<longrightarrow> fst st' = fst st)"
  shows "slots_ok (temp_of s d) \<Longrightarrow> each (arrange_if collect func off d fe moved) names (s, neis) = Done (s', neis') \<Longrightarrow>
    slots_ok (temp_of s' d) \<and> keeps (temp_of s d) (temp_of s' d)"
proof (induction names arbitrary: s neis)
  case (Cons i names)
  from Cons.prems(2) obtain s1 n1 where a: "arrange_if collect func off d fe moved i (s, neis) = Done (s1, n1)"
    and e: "each (arrange_if collect func off d fe moved) names (s1, n1) = Done (s', neis')"
    by (cases "arrange_if collect func off d fe moved i (s, neis)") auto
  from arrange_if_keeps [OF c Cons.prems(1) a] have k: "slots_ok (temp_of s1 d)" "keeps (temp_of s d) (temp_of s1 d)" by auto
  from Cons.IH [OF k(1) e] keeps_trans [OF k(2)] show ?case by blast
qed simp

lemma relocate_if_keeps:
  assumes ok: "slots_ok (temp_of s d)" and r: "relocate_if d i s = Done s'"
  shows "slots_ok (temp_of s' d) \<and> keeps (temp_of s d) (temp_of s' d) \<and>
    (draw_of (td_ifs (temp_of s d)) i = Some 1 \<longrightarrow> seated (temp_of s' d) i)"
proof (cases "t_draw (tif_of (temp_of s d) i) = Some 1 \<and> i \<notin> set (td_relocated (temp_of s d))")
  case False
  with r ok show ?thesis by (auto simp: relocate_if_def slots_ok_def draw_of_tif split: if_splits)
next
  case True
  with r obtain n ch where n: "first_free (td_slots (temp_of s d)) = Some n"
    and o1: "occupy d i ''dev2dev_reloc'' n s = Done (s', ch)"
    by (auto simp: relocate_if_def lift_run_def split: if_splits option.splits run.splits)
  from occupy_keeps [OF ok _ _ o1] first_free_free [OF n] show ?thesis by blast
qed

lemma each_relocate_keeps:
  "slots_ok (temp_of s d) \<Longrightarrow> each (relocate_if d) names s = Done s' \<Longrightarrow>
    slots_ok (temp_of s' d) \<and> keeps (temp_of s d) (temp_of s' d) \<and>
    (\<forall>i \<in> set names. draw_of (td_ifs (temp_of s d)) i = Some 1 \<longrightarrow> seated (temp_of s' d) i)"
proof (induction names arbitrary: s)
  case (Cons i names)
  from Cons.prems(2) obtain s1 where a: "relocate_if d i s = Done s1" and e: "each (relocate_if d) names s1 = Done s'"
    by (cases "relocate_if d i s") auto
  from relocate_if_keeps [OF Cons.prems(1) a] have k: "slots_ok (temp_of s1 d)" "keeps (temp_of s d) (temp_of s1 d)"
    "draw_of (td_ifs (temp_of s d)) i = Some 1 \<longrightarrow> seated (temp_of s1 d) i" by auto
  from Cons.IH [OF k(1) e] k show ?case by (auto simp: keeps_def)
qed simp

lemma dev2tp_slots_ok:
  assumes r: "arrange_interfaces_dev2tp d moved s = Done s'" and c: "2 \<le> td_cols (temp_of s d)"
  shows "slots_ok (temp_of s' d) \<and> td_cols (temp_of s' d) = td_cols (temp_of s d) \<and>
    td_rows (temp_of s' d) = td_rows (temp_of s d) \<and>
    (\<forall>i. draw_of (td_ifs (temp_of s' d)) i = draw_of (td_ifs (temp_of s d)) i)"
proof -
  from r obtain fe t dv where fe: "oget (page s) d = Some fe" and t: "oget (temp_devs s) d = Some t"
    by (auto simp: arrange_interfaces_dev2tp_def split: option.splits)
  have tt: "temp_of s d = t" using t by (simp add: temp_of_def)
  define u where "u = t\<lparr>td_relocated := [], td_slots := map free_slot (border (td_cols t) (td_rows t))\<rparr>"
  define s0 where "s0 = put_temp d (t\<lparr>td_slots := [], td_relocated := []\<rparr>) s"
  define s1 where "s1 = put_temp d u s0"
  have ms: "make_slots (td_rows t) (td_cols t) = Some (map free_slot (border (td_cols t) (td_rows t)))"
    using make_slots_border c tt by simp
  have u: "slots_ok u" by (auto simp: u_def slots_ok_def slot_cell_def free_slot_def o_def)
  have s1: "temp_of s1 d = u" by (simp add: s1_def)
  have k: "slots_ok (temp_of s' d) \<and> keeps u (temp_of s' d)"
  proof (cases "oget (devs s1) d")
    case None
    with r fe t ms show ?thesis
      by (auto simp: arrange_interfaces_dev2tp_def Let_def s1_def s0_def u_def temp_of_def put_temp_def split: option.splits)
  next
    case (Some dv)
    show ?thesis
    proof (cases "interfaces dv = None")
      case True
      with r fe t ms Some have "s' = s1"
        by (simp add: arrange_interfaces_dev2tp_def Let_def s1_def s0_def u_def temp_of_def put_temp_def)
      with s1 u show ?thesis by simp
    next
      case False
      with r fe t ms Some obtain neis where
        "each (arrange_if (\<lambda>d i. tp_target d i (center fe)) ''dev2tp'' 0 d fe moved) (interfaces_sorted dv) (s1, []) = Done (s', neis)"
        by (auto simp: arrange_interfaces_dev2tp_def Let_def s1_def s0_def u_def temp_of_def put_temp_def lift_run_def split: run.splits)
      from each_arrange_if_keeps [OF _ _ this] tp_target_frame u s1 show ?thesis by simp
    qed
  qed
  then show ?thesis using tt by (simp add: keeps_def u_def)
qed

lemma dev2dev_body_seats:
  assumes r: "dev2dev_body d moved s = Done (s', neis)" and ok: "slots_ok (temp_of s d)"
  shows "slots_ok (temp_of s' d) \<and> keeps (temp_of s d) (temp_of s' d) \<and>
    (interfaces (dev_of s d) \<noteq> None \<longrightarrow> (\<forall>i \<in> set (interfaces_sorted (dev_of s d)).
       draw_of (td_ifs (temp_of s d)) i = Some 1 \<longrightarrow> seated (temp_of s' d) i))"
proof -
  from r obtain fe dv where fe: "oget (page s) d = Some fe" and dv: "oget (devs s) d = Some dv"
    by (auto simp: dev2dev_body_def split: option.splits)
  have d: "dev_of s d = dv" using dv by (simp add: dev_of_def)
  show ?thesis
  proof (cases "interfaces dv = None")
    case True
    with r fe dv ok d show ?thesis by (auto simp: dev2dev_body_def)
  next
    case False
    with r fe dv obtain s1 n1 s2 where
      a: "each (arrange_if (\<lambda>d i. dev_target d i fe) ''dev2dev_dev'' (int_size s div 2) d fe moved) (interfaces_sorted dv) (s, []) = Done (s1, n1)"
      and b: "each (relocate_if d) (interfaces_sorted dv) s1 = Done s2" and s': "s' = s2\<lparr>arranged := add_key d (arranged s2)\<rparr>"
      by (cases "each (arrange_if (\<lambda>d i. dev_target d i fe) ''dev2dev_dev'' (int_size s div 2) d fe moved) (interfaces_sorted dv) (s, [])")
        (auto simp: dev2dev_body_def lift_run_def split: run.splits)
    have k1: "slots_ok (temp_of s1 d)" "keeps (temp_of s d) (temp_of s1 d)"
      using each_arrange_if_keeps [OF _ ok a] dev_target_frame by auto
    from each_relocate_keeps [OF k1(1) b] have "slots_ok (temp_of s2 d)" "keeps (temp_of s1 d) (temp_of s2 d)"
      "\<forall>i \<in> set (interfaces_sorted dv). draw_of (td_ifs (temp_of s1 d)) i = Some 1 \<longrightarrow> seated (temp_of s2 d) i" by auto
    moreover have "\<forall>i. draw_of (td_ifs (temp_of s1 d)) i = draw_of (td_ifs (temp_of s d)) i" using k1(2) by (simp add: keeps_def)
    ultimately show ?thesis using keeps_trans [OF k1(2)] d by (simp add: s')
  qed
qed

definition sits_at :: "temp_dev \<Rightarrow> if_name \<Rightarrow> cell \<Rightarrow> bool" where
  "sits_at t i c \<longleftrightarrow> t_col (tif_of t i) = Some (fst c) \<and> t_row (tif_of t i) = Some (snd c)"

lemma seated_apart:
  assumes ok: "slots_ok t" and c: "2 \<le> td_cols t" and i: "seated t i" and j: "seated t j" and ij: "i \<noteq> j"
  shows "\<exists>a b. sits_at t i a \<and> sits_at t j b \<and> a \<noteq> b \<and> {a, b} \<subseteq> set (border (td_cols t) (td_rows t))"
proof -
  obtain n where n: "n < length (td_slots t)" "s_by (td_slots t ! n) = i" "sits_at t i (slot_cell (td_slots t ! n))"
    using i by (auto simp: seated_def sits_at_def slot_cell_def)
  obtain m where m: "m < length (td_slots t)" "s_by (td_slots t ! m) = j" "sits_at t j (slot_cell (td_slots t ! m))"
    using j by (auto simp: seated_def sits_at_def slot_cell_def)
  have "m \<noteq> n" using n(2) m(2) ij by auto
  moreover have "distinct (map slot_cell (td_slots t))" using ok distinct_border [OF c] by (simp add: slots_ok_def)
  ultimately have "slot_cell (td_slots t ! n) \<noteq> slot_cell (td_slots t ! m)"
    using n(1) m(1) by (auto simp: distinct_conv_nth)
  then show ?thesis using n m slots_ok_border [OF ok] by blast
qed

text \<open>
  C4: when both arranging functions of a device ran to their end, any two different interfaces
  drawn outside sit at different cells, all of them on the border of the device.
\<close>

theorem arrange_no_overlap:
  assumes tp: "arrange_interfaces_dev2tp d m1 s = Done s1" and dd: "arrange_interfaces_dev2dev d False m2 s1 = Done s2"
    and c: "2 \<le> td_cols (temp_of s d)" and f: "interfaces (dev_of s1 d) \<noteq> None"
    and i: "i \<in> set (interfaces_sorted (dev_of s1 d))" "t_draw (tif_of (temp_of s d) i) = Some 1"
    and j: "j \<in> set (interfaces_sorted (dev_of s1 d))" "t_draw (tif_of (temp_of s d) j) = Some 1" and ij: "i \<noteq> j"
  shows "\<exists>a b. sits_at (temp_of s2 d) i a \<and> sits_at (temp_of s2 d) j b \<and> a \<noteq> b \<and>
    {a, b} \<subseteq> set (border (td_cols (temp_of s d)) (td_rows (temp_of s d)))"
proof -
  from dd obtain neis where b: "dev2dev_body d m2 s1 = Done (s2, neis)"
    by (auto simp: arrange_interfaces_dev2dev_def split: run.splits prod.splits)
  note ok1 = dev2tp_slots_ok [OF tp c]
  from dev2dev_body_seats [OF b] ok1 have k: "slots_ok (temp_of s2 d)" "keeps (temp_of s1 d) (temp_of s2 d)"
    "\<forall>i \<in> set (interfaces_sorted (dev_of s1 d)). draw_of (td_ifs (temp_of s1 d)) i = Some 1 \<longrightarrow> seated (temp_of s2 d) i"
    using f by auto
  have "seated (temp_of s2 d) i" "seated (temp_of s2 d) j" using k(3) ok1 i j by (auto simp: draw_of_tif)
  from seated_apart [OF k(1) _ this ij] k(2) ok1 c show ?thesis by (simp add: keeps_def)
qed

text \<open>Two devices side by side; the interface \<open>e1\<close> of \<open>r1\<close> has a direct link to \<open>r2\<close>.\<close>

definition ex_box :: "int \<Rightarrow> int \<Rightarrow> int \<Rightarrow> elem" where
  "ex_box x y w = \<lparr>e_left = x, e_top = y, e_width = w, e_height = w, e_text = '''', e_css = []\<rparr>"

definition ex_arr_dev :: "if_name list \<Rightarrow> device" where
  "ex_arr_dev is = device0\<lparr>interfaces := Some (map (\<lambda>i. (i, iface0\<lparr>if_l2_links := (if i = ''e1'' then Some [''l1''] else None)\<rparr>)) is),
     interfaces_sorted := is\<rparr>"

definition ex_arr_temp :: "if_name list \<Rightarrow> temp_dev" where
  "ex_arr_temp is = temp_dev0\<lparr>td_ifs := map (\<lambda>i. (i, temp_if0\<lparr>t_draw := Some 1, t_col := Some 0, t_row := Some 0\<rparr>)) is,
     td_draw := True, td_cols := 3, td_rows := 3\<rparr>"

definition ex_arr :: app where
  "ex_arr = app0\<lparr>devs := [(''r1'', ex_arr_dev [''e1'', ''e2'']), (''r2'', ex_arr_dev [''e1''])],
     temp_devs := [(''r1'', ex_arr_temp [''e1'', ''e2'']), (''r2'', ex_arr_temp [''e1''])],
     page := [(''r1'', ex_box 0 0 46), (''e1@r1'', ex_box 0 0 12), (''e2@r1'', ex_box 0 0 12),
       (''r2'', ex_box 160 0 46), (''e1@r2'', ex_box 0 0 12)],
     connections := [(''l1'', \<lparr>legs = [\<lparr>leg_ends = LDevdev ''r1'' ''e1'' ''r2'' ''e1'', leg_drawn = None\<rparr>],
       con_tps = [], from_dev = ''r1'', from_int = ''e1'', to_dev = ''r2'', to_int = ''e1'', con_status = 1\<rparr>)]\<rparr>"

definition ex_arr1 :: app where "ex_arr1 = run_state (arrange_interfaces_dev2tp ''r1'' False ex_arr)"
definition ex_arr2 :: app where "ex_arr2 = run_state (arrange_interfaces_dev2dev ''r1'' False False ex_arr1)"

lemma ex_arr_runs: "arrange_interfaces_dev2tp ''r1'' False ex_arr = Done ex_arr1"
  "arrange_interfaces_dev2dev ''r1'' False False ex_arr1 = Done ex_arr2"
  by code_simp+

lemma ex_arr_facts: "2 \<le> td_cols (temp_of ex_arr ''r1'')" "interfaces (dev_of ex_arr1 ''r1'') \<noteq> None"
  "''e1'' \<in> set (interfaces_sorted (dev_of ex_arr1 ''r1''))" "t_draw (tif_of (temp_of ex_arr ''r1'') ''e1'') = Some 1"
  "''e2'' \<in> set (interfaces_sorted (dev_of ex_arr1 ''r1''))" "t_draw (tif_of (temp_of ex_arr ''r1'') ''e2'') = Some 1"
  by code_simp+

lemma arrange_no_overlap_witness:
  "\<exists>a b. sits_at (temp_of ex_arr2 ''r1'') ''e1'' a \<and> sits_at (temp_of ex_arr2 ''r1'') ''e2'' b \<and> a \<noteq> b \<and>
    {a, b} \<subseteq> set (border (td_cols (temp_of ex_arr ''r1'')) (td_rows (temp_of ex_arr ''r1'')))"
  by (rule arrange_no_overlap [OF ex_arr_runs ex_arr_facts]) simp

section \<open>The reference point and the nearest slot\<close>

lemma mid_ok:
  assumes "to_lo \<le> to_hi" "from_lo \<le> from_hi" "from_lo \<le> to_hi" "to_lo \<le> from_hi"
  shows "\<exists>m. mid to_lo from_lo to_hi from_hi = Some m \<and> to_lo \<le> m \<and> m \<le> to_hi"
proof -
  define lo where "lo = (if to_lo > from_lo then to_lo else from_lo)"
  define hi where "hi = (if to_hi < from_hi then to_hi else from_hi)"
  have "lo \<le> hi" "to_lo \<le> lo" "hi \<le> to_hi" using assms by (auto simp: lo_def hi_def)
  moreover have "mid to_lo from_lo to_hi from_hi = Some (lo + (hi - lo) div 2)"
    using \<open>lo \<le> hi\<close> by (simp add: mid_def lo_def hi_def Let_def)
  moreover have "0 \<le> (hi - lo) div 2" "(hi - lo) div 2 \<le> hi - lo" using \<open>lo \<le> hi\<close> by linarith+
  ultimately show ?thesis by auto
qed

lemma ref_point_in_rect:
  assumes "r_left fr \<le> r_right fr" "r_top fr \<le> r_bottom fr" "r_left to \<le> r_right to" "r_top to \<le> r_bottom to"
  shows "\<exists>x y. ref_point fr to = Some (x, y) \<and> r_left to \<le> x \<and> x \<le> r_right to \<and> r_top to \<le> y \<and> y \<le> r_bottom to"
proof -
  have v: "\<exists>m. mid (r_top to) (r_top fr) (r_bottom to) (r_bottom fr) = Some m \<and> r_top to \<le> m \<and> m \<le> r_bottom to"
    if "r_top fr \<le> r_bottom to" "r_top to \<le> r_bottom fr"
    using mid_ok assms that by blast
  have h: "\<exists>m. mid (r_left to) (r_left fr) (r_right to) (r_right fr) = Some m \<and> r_left to \<le> m \<and> m \<le> r_right to"
    if "r_left fr \<le> r_right to" "r_left to \<le> r_right fr"
    using mid_ok assms that by blast
  have half: "r_left to \<le> r_left to + (r_right to - r_left to) div 2" "r_left to + (r_right to - r_left to) div 2 \<le> r_right to"
    "r_top to \<le> r_top to + (r_bottom to - r_top to) div 2" "r_top to + (r_bottom to - r_top to) div 2 \<le> r_bottom to"
    using assms by linarith+
  show ?thesis
    unfolding ref_point_def using assms v h half by (simp split: if_split)
qed

text \<open>
  For two devices of any size and position the error branch of the case distinction is
  never taken, and the reference point lies in the rectangle of the neighbour.
\<close>

theorem ref_point_inside:
  assumes "r_left fr \<le> r_right fr" "r_top fr \<le> r_bottom fr" "r_left to \<le> r_right to" "r_top to \<le> r_bottom to"
  shows "\<exists>x y. ref_point fr to = Some (x, y) \<and> r_left to \<le> x \<and> x \<le> r_right to \<and> r_top to \<le> y \<and> y \<le> r_bottom to"
  using assms by (rule ref_point_in_rect)

lemma ref_point_inside_witness:
  "\<exists>x y. ref_point (dev_rect 16 (ex_box 0 0 46)) (dev_rect 16 (ex_box 160 0 46)) = Some (x, y) \<and>
    r_left (dev_rect 16 (ex_box 160 0 46)) \<le> x \<and> x \<le> r_right (dev_rect 16 (ex_box 160 0 46)) \<and>
    r_top (dev_rect 16 (ex_box 160 0 46)) \<le> y \<and> y \<le> r_bottom (dev_rect 16 (ex_box 160 0 46))"
  by (rule ref_point_inside) (simp_all add: dev_rect_def ex_box_def)

end
