(* ===== verification/Connections.thy ===== *)
theory Connections
  imports TurnPoints Arrange
begin

text \<open>
  \<open>build_connections\<close>: from the links the server sent to the connections that are drawn. On the
  layer 3 map two interfaces are linked when their addresses are the only two of a network; on the
  other maps the links are given. A link is taken up once, when both devices are on the page.
\<close>

section \<open>The links of one interface\<close>

record link_spec =
  li_link :: link_id
  li_dev :: dev_id
  li_int :: if_name
  li_status :: nat

type_synonym linking = "app \<times> link_spec list"

definition draws_out :: "app \<Rightarrow> dev_id \<Rightarrow> if_name \<Rightarrow> exn + bool" where
  "draws_out s d i = (case oget (td_ifs (temp_of s d)) i of
      None \<Rightarrow> Inl TypeError
    | Some t \<Rightarrow> Inr (t_draw t = Some 1))"

text \<open>The other address of a network of two.\<close>

definition nei_ip :: "string \<Rightarrow> (string, l3_end) obj \<Rightarrow> string option" where
  "nei_ip ip nt = List.find (\<lambda>x. x \<noteq> ip) (okeys nt)"

definition push_l3 :: "dev_id \<Rightarrow> if_name \<Rightarrow> link_id \<Rightarrow> app \<Rightarrow> app" where
  "push_l3 d i lid s = (let t = tif_of (temp_of s d) i in
     set_tif d i (t\<lparr>t_l3_links := Some ((case t_l3_links t of None \<Rightarrow> [] | Some ls \<Rightarrow> ls) @ [lid])\<rparr>) s)"

definition l3_status :: "iface \<Rightarrow> iface \<Rightarrow> nat" where
  "l3_status f g = (if ifOperStatus f = Some 1 \<and> ifOperStatus g = Some 1 then 1 else 2)"

definition is_loopback :: "string \<Rightarrow> bool" where
  "is_loopback ip = re_prefix (re_lit ''127.'') ip"

text \<open>
  The condition under which an address belongs to a link, and the neighbour it leads to:
  \<open>None\<close> where the code continues with the next address.
\<close>

definition l3_neighbour :: "app \<Rightarrow> dev_id \<Rightarrow> string \<Rightarrow> ip_entry \<Rightarrow> l3_end option" where
  "l3_neighbour s d ip e =
     (if is_loopback ip then None
      else (case oget (l3_links s) (net e) of
          None \<Rightarrow> None
        | Some nt \<Rightarrow> (case oget nt ip of
            None \<Rightarrow> None
          | Some me \<Rightarrow>
              if l3_dev_id me = d \<and> length (okeys nt) = 2 then
                (case nei_ip ip nt of
                    None \<Rightarrow> None
                  | Some n \<Rightarrow> (case oget nt n of
                      None \<Rightarrow> None
                    | Some ne \<Rightarrow> if l3_dev_id ne = d then None else Some ne))
              else None)))"

definition l3_link_ip :: "(string \<Rightarrow> string \<Rightarrow> int) \<Rightarrow> dev_id \<Rightarrow> if_name \<Rightarrow> iface \<Rightarrow> string \<times> ip_entry \<Rightarrow> linking \<Rightarrow> linking run" where
  "l3_link_ip lc d i f ipe st = (case st of (s, acc) \<Rightarrow> (case l3_neighbour s d (fst ipe) (snd ipe) of
      None \<Rightarrow> Done st
    | Some ne \<Rightarrow>
        let nd = l3_dev_id ne; ni = l3_ifName ne
        in (case oget (devs s) nd of
            None \<Rightarrow> Done st
          | Some ndv \<Rightarrow>
              if interfaces ndv = None then Threw TypeError st
              else (case oget (dev_ifs ndv) ni of
                  None \<Rightarrow> Done st
                | Some nf \<Rightarrow>
                    if oget (temp_devs s) nd = None then Done st
                    else (case draws_out s nd ni of
                        Inl x \<Rightarrow> Threw x st
                      | Inr dr \<Rightarrow>
                          if \<not> dr then Done st
                          else
                            let (err, lid) = ip_link_id lc d i nd ni;
                                s = (if err then error_at ''JS Program error'' s else s);
                                s = push_l3 d i lid s;
                                s = s\<lparr>p2p_links := oset lid \<lparr>p2p_from_dev = d, p2p_from_int = i,
                                      p2p_to_dev = nd, p2p_to_int = ni, p2p_status = l3_status f nf\<rparr> (p2p_links s)\<rparr>
                            in Done (s, if oget (connections s) lid = None
                                 then acc @ [\<lparr>li_link = lid, li_dev = nd, li_int = ni, li_status = l3_status f nf\<rparr>]
                                 else acc))))))"

definition l3_links_of :: "(string \<Rightarrow> string \<Rightarrow> int) \<Rightarrow> dev_id \<Rightarrow> if_name \<Rightarrow> iface \<Rightarrow> app \<Rightarrow> linking run" where
  "l3_links_of lc d i f s =
     (if ips f = None \<or> oget (temp_devs s) d = None then Done (s, [])
      else (case draws_out s d i of
          Inl x \<Rightarrow> Threw x (s, [])
        | Inr dr \<Rightarrow>
            if \<not> dr then Done (s, [])
            else each (l3_link_ip lc d i f) (case ips f of None \<Rightarrow> [] | Some m \<Rightarrow> m)
                   (set_tif d i ((tif_of (temp_of s d) i)\<lparr>t_l3_links := Some []\<rparr>) s, [])))"

definition l2_spec :: "dev_id \<Rightarrow> link_id \<Rightarrow> l2_link \<Rightarrow> link_spec" where
  "l2_spec d lid l = (let e = (if DevId (end0 l) = d then end1 l else end0 l)
     in \<lparr>li_link = lid, li_dev = DevId e, li_int = l2_ifName e, li_status = l2_status l\<rparr>)"

definition l2_links_of :: "dev_id \<Rightarrow> if_name \<Rightarrow> app \<Rightarrow> linking run" where
  "l2_links_of d i s =
     (if oget (temp_devs s) d = None then Done (s, [])
      else (case draws_out s d i of
          Inl x \<Rightarrow> Threw x (s, [])
        | Inr dr \<Rightarrow>
            if \<not> dr then Done (s, [])
            else (case oget (dev_ifs (dev_of s d)) i of
                None \<Rightarrow> Threw TypeError (s, [])
              | Some f \<Rightarrow> Done (s, concat (map (\<lambda>lid. case oget (l2_links s) lid of
                    None \<Rightarrow> []
                  | Some l \<Rightarrow> if oget (connections s) lid = None \<and> DevId (end0 l) \<noteq> DevId (end1 l)
                      then [l2_spec d lid l] else [])
                  (case if_l2_links f of None \<Rightarrow> [] | Some ls \<Rightarrow> ls))))))"

definition if_link_specs :: "(string \<Rightarrow> string \<Rightarrow> int) \<Rightarrow> dev_id \<Rightarrow> if_name \<Rightarrow> app \<Rightarrow> linking run" where
  "if_link_specs lc d i s =
     (if site s = ''l3'' then (case oget (dev_ifs (dev_of s d)) i of
         None \<Rightarrow> Threw TypeError (s, [])
       | Some f \<Rightarrow> l3_links_of lc d i f s)
      else l2_links_of d i s)"

section \<open>Connecting\<close>

definition connect :: "dev_id \<Rightarrow> if_name \<Rightarrow> link_spec \<Rightarrow> app \<Rightarrow> app" where
  "connect d i li s =
     (if oget (page s) (li_dev li) = None then s
      else let (con, al) = build_connection (li_link li) d i (li_dev li) (li_int li) (li_status li)
                 (oget (map_tps (map_data s)) (li_link li))
           in s\<lparr>connections := oset (li_link li) con (connections s), alerts := alerts s @ al\<rparr>)"

definition connect_if :: "(string \<Rightarrow> string \<Rightarrow> int) \<Rightarrow> dev_id \<Rightarrow> if_name \<Rightarrow> app \<Rightarrow> app run" where
  "connect_if lc d i s = (case if_link_specs lc d i s of
      Done (s, lis) \<Rightarrow> Done (fold (connect d i) lis s)
    | Halt (s, lis) \<Rightarrow> Halt s
    | Threw e (s, lis) \<Rightarrow> Threw e s)"

definition build_connections :: "(string \<Rightarrow> string \<Rightarrow> int) \<Rightarrow> app \<Rightarrow> app run" where
  "build_connections lc s = each (\<lambda>d s.
     if oget (page s) d = None \<or> interfaces (dev_of s d) = None then Done s
     else each (connect_if lc d) (interfaces_sorted (dev_of s d)) s) (okeys (devs s)) s"

section \<open>Every connection joins two devices on the page\<close>

definition con_ok :: "app \<Rightarrow> connection \<Rightarrow> bool" where
  "con_ok s con \<longleftrightarrow> from_dev con \<noteq> to_dev con \<and> oget (page s) (from_dev con) \<noteq> None \<and> oget (page s) (to_dev con) \<noteq> None"

definition cons_ok :: "app \<Rightarrow> bool" where
  "cons_ok s \<longleftrightarrow> (\<forall>lid con. oget (connections s) lid = Some con \<longrightarrow> con_ok s con)"

lemma push_l3_frame [simp]:
  "connections (push_l3 d i lid s) = connections s" "page (push_l3 d i lid s) = page s"
  by (simp_all add: push_l3_def set_tif_def Let_def)

lemma error_at_frame [simp]: "connections (error_at m s) = connections s" "page (error_at m s) = page s"
  by (simp_all add: error_at_def)

lemma l3_neighbour_other: "l3_neighbour s d ip e = Some ne \<Longrightarrow> l3_dev_id ne \<noteq> d"
  by (auto simp: l3_neighbour_def split: if_splits option.splits)

definition specs_inv :: "app \<Rightarrow> dev_id \<Rightarrow> linking \<Rightarrow> bool" where
  "specs_inv s0 d st \<longleftrightarrow> connections (fst st) = connections s0 \<and> page (fst st) = page s0 \<and>
     (\<forall>li \<in> set (snd st). li_dev li \<noteq> d)"

lemma l3_link_ip_inv: "specs_inv s0 d st \<Longrightarrow> holds (specs_inv s0 d) (l3_link_ip lc d i f ipe st)"
  by (cases st) (auto simp: l3_link_ip_def specs_inv_def Let_def dest: l3_neighbour_other
      split: option.splits sum.splits if_splits prod.splits)

lemma if_link_specs_inv: "holds (specs_inv s d) (if_link_specs lc d i s)"
proof (cases "site s = ''l3''")
  case True
  have "specs_inv s d (set_tif d i t s, [])" for t by (simp add: specs_inv_def set_tif_def)
  then have "holds (specs_inv s d) (each (l3_link_ip lc d i f) ms (set_tif d i t s, []))" for f ms t
    by (intro holds_each l3_link_ip_inv)
  moreover have "specs_inv s d (s, [])" by (simp add: specs_inv_def)
  ultimately show ?thesis using True
    by (auto simp: if_link_specs_def l3_links_of_def split: option.split sum.split)
next
  case False
  then show ?thesis
    by (auto simp: if_link_specs_def l2_links_of_def specs_inv_def l2_spec_def Let_def split: option.splits sum.splits if_splits)
qed

lemma connect_ok:
  "cons_ok s \<Longrightarrow> oget (page s) d \<noteq> None \<Longrightarrow> li_dev li \<noteq> d \<Longrightarrow> cons_ok (connect d i li s) \<and> page (connect d i li s) = page s"
  by (auto simp: connect_def cons_ok_def con_ok_def build_connection_def Let_def split: prod.splits)

lemma fold_connect_ok:
  "cons_ok s \<Longrightarrow> oget (page s) d \<noteq> None \<Longrightarrow> \<forall>li \<in> set lis. li_dev li \<noteq> d \<Longrightarrow>
     cons_ok (fold (connect d i) lis s) \<and> page (fold (connect d i) lis s) = page s"
proof (induction lis arbitrary: s)
  case (Cons li lis)
  then show ?case using connect_ok [of s d li i] by simp
qed simp

lemma connect_if_ok:
  assumes "cons_ok s" "oget (page s) d \<noteq> None"
  shows "holds (\<lambda>s'. cons_ok s' \<and> page s' = page s) (connect_if lc d i s)"
proof -
  have c: "cons_ok s' = cons_ok s" if "connections s' = connections s" "page s' = page s" for s'
    using that by (simp add: cons_ok_def con_ok_def)
  obtain s1 lis where st: "run_state (if_link_specs lc d i s) = (s1, lis)" by fastforce
  have inv: "connections s1 = connections s" "page s1 = page s" "\<forall>li \<in> set lis. li_dev li \<noteq> d"
    using if_link_specs_inv [of s d lc i] st by (simp_all add: holds_def specs_inv_def)
  then have ok: "cons_ok s1" "oget (page s1) d \<noteq> None" using c [of s1] assms by simp_all
  have "cons_ok (fold (connect d i) lis s1) \<and> page (fold (connect d i) lis s1) = page s"
    using fold_connect_ok [OF ok inv(3), of i] inv(2) by simp
  with ok(1) inv(2) st show ?thesis
    by (cases "if_link_specs lc d i s") (simp_all add: connect_if_def)
qed

text \<open>
  C11: whatever \<open>build_connections\<close> does, and even when it ends with an exception, every
  connection it leaves joins two different devices that are both on the page.
\<close>

theorem build_connections_ok:
  assumes "cons_ok s"
  shows "cons_ok (run_state (build_connections lc s))"
proof -
  have "holds (\<lambda>s'. cons_ok s') (build_connections lc s)"
    unfolding build_connections_def
  proof (rule holds_each)
    show "cons_ok s" by (rule assms)
    fix d s1 assume ok: "cons_ok s1"
    show "holds cons_ok (if oget (page s1) d = None \<or> interfaces (dev_of s1 d) = None then Done s1
        else each (connect_if lc d) (interfaces_sorted (dev_of s1 d)) s1)"
    proof (cases "oget (page s1) d = None")
      case False
      have "holds (\<lambda>s'. cons_ok s' \<and> page s' = page s1) (each (connect_if lc d) is s1)" for "is"
        by (rule holds_each) (use ok False connect_if_ok [of _ d lc] in \<open>auto simp: holds_def\<close>)
      then show ?thesis using ok by (auto simp: holds_def)
    qed (use ok in simp)
  qed
  then show ?thesis by (simp add: holds_def)
qed

lemma build_connections_ok_witness: "cons_ok (run_state (build_connections unit_cmp ex_arr))"
  by (rule build_connections_ok) (simp add: cons_ok_def con_ok_def ex_arr_def app0_def)

text \<open>
  The layer 3 neighbour relation is symmetric: if the address \<open>ip\<close> of a device leads to
  another device, the address of the neighbour in the same network leads back to the device.
\<close>

theorem l3_neighbour_symmetric:
  assumes n: "l3_neighbour s d ip e = Some ne" and wf: "oget (l3_links s) (net e) = Some nt" "distinct (okeys nt)"
    and e': "net e' = net e" and ip': "nei_ip ip nt = Some ip'" "\<not> is_loopback ip'"
  shows "\<exists>me. l3_neighbour s (l3_dev_id ne) ip' e' = Some me \<and> l3_dev_id me = d"
proof -
  from n wf ip' obtain me where me: "oget nt ip = Some me" "l3_dev_id me = d" "length (okeys nt) = 2"
    "oget nt ip' = Some ne" "l3_dev_id ne \<noteq> d"
    by (auto simp: l3_neighbour_def split: if_splits option.splits)
  have ne: "ip' \<noteq> ip" using ip'(1) by (auto simp: nei_ip_def find_Some_iff)
  have lo: "\<not> is_loopback ip" using n by (auto simp: l3_neighbour_def)
  have "ip \<in> set (okeys nt)" "ip' \<in> set (okeys nt)"
    using me(1,4) by (metis oget_None_iff option.distinct(1))+
  with me(3) ne wf(2) have "nei_ip ip' nt = Some ip"
    by (auto simp: nei_ip_def length_Suc_conv numeral_2_eq_2)
  with me e' ip'(2) wf(1) show ?thesis
    by (simp add: l3_neighbour_def)
qed

lemma ex_not_loopback: "\<not> is_loopback ''10.0.0.1''" "\<not> is_loopback ''10.0.0.2''"
  by code_simp+

definition ex_l3 :: app where
  "ex_l3 = app0\<lparr>site := ''l3'', l3_links := [(''n'', [(''10.0.0.1'', \<lparr>l3_dev_id = ''r1'', l3_ifName = ''e1''\<rparr>),
     (''10.0.0.2'', \<lparr>l3_dev_id = ''r2'', l3_ifName = ''e2''\<rparr>)])]\<rparr>"

lemma l3_neighbour_symmetric_witness:
  "\<exists>me. l3_neighbour ex_l3 ''r2'' ''10.0.0.2'' \<lparr>masklen = 30, net = ''n''\<rparr> = Some me \<and> l3_dev_id me = ''r1''"
  using l3_neighbour_symmetric [of ex_l3 "''r1''" "''10.0.0.1''" "\<lparr>masklen = 30, net = ''n''\<rparr>"
      "\<lparr>l3_dev_id = ''r2'', l3_ifName = ''e2''\<rparr>"
      "[(''10.0.0.1'', \<lparr>l3_dev_id = ''r1'', l3_ifName = ''e1''\<rparr>), (''10.0.0.2'', \<lparr>l3_dev_id = ''r2'', l3_ifName = ''e2''\<rparr>)]"
      "\<lparr>masklen = 30, net = ''n''\<rparr>" "''10.0.0.2''"]
  by (simp add: ex_l3_def app0_def l3_neighbour_def nei_ip_def ex_not_loopback)

end
