(* ===== verification/Draw.thy ===== *)
theory Draw
  imports Connections
begin

text \<open>
  Drawing a connection: one line per leg, a button for a new turnpoint in the middle of every leg
  that is long enough, and a button per turnpoint (\<open>draw_connection\<close>, \<open>draw_line\<close>,
  \<open>clear_link_objects\<close>).
\<close>

section \<open>Lines\<close>

text \<open>The box of a line and the line's ends in it, as \<open>draw_line\<close> computes them per axis.\<close>

definition line_axis :: "int \<Rightarrow> int \<Rightarrow> int \<times> int \<times> int \<times> int" where
  "line_axis a b =
     (let (c, f, t, w) = (if a < b then (a, 0, b - a, b - a) else (b, a - b, 0, a - b));
          w = (if w < 1 then 1 else w)
      in (c, f, t, w + 1))"

definition line_html :: "int \<Rightarrow> int \<Rightarrow> int \<Rightarrow> int \<Rightarrow> int \<Rightarrow> int \<Rightarrow> string \<Rightarrow> nat \<Rightarrow> string option \<Rightarrow> string" where
  "line_html w h fx fy tx ty color width dash =
     ''<SVG style=\"display:block;overflow:visible\" width=\"'' @ int_str w @ ''\" height=\"'' @ int_str h @ ''\">'' @
     ''<line x1=\"'' @ int_str fx @ ''\" y1=\"'' @ int_str fy @ ''\" x2=\"'' @ int_str tx @ ''\" y2=\"'' @ int_str ty @ ''\"'' @
     '' shape-rendering=\"crispEdges\"'' @
     '' stroke=\"'' @ color @ ''\" stroke-width=\"'' @ nat_str width @ ''\"'' @
     (case dash of None \<Rightarrow> [] | Some d \<Rightarrow> '' stroke-dasharray=\"'' @ d @ ''\"'') @
     ''/></SVG>''"

definition line_elem :: "int \<times> int \<Rightarrow> int \<times> int \<Rightarrow> string \<Rightarrow> nat \<Rightarrow> string option \<Rightarrow> elem" where
  "line_elem p q color width dash =
     (let (cx, fx, tx, w) = line_axis (fst p) (fst q);
          (cy, fy, ty, h) = line_axis (snd p) (snd q)
      in \<lparr>e_left = cx, e_top = cy, e_width = w, e_height = h,
          e_text = line_html w h fx fy tx ty color width dash, e_css = [(''z-index'', ''-1'')]\<rparr>)"

definition draw_line :: "string \<Rightarrow> int \<times> int \<Rightarrow> int \<times> int \<Rightarrow> string \<Rightarrow> nat \<Rightarrow> string option \<Rightarrow> app \<Rightarrow> app" where
  "draw_line line_id p q color width dash s =
     s\<lparr>page := oset line_id (line_elem p q color width dash) (odel line_id (page s))\<rparr>"

section \<open>The ends of a leg\<close>

definition line_name :: "link_id \<Rightarrow> nat \<Rightarrow> string" where
  "line_name lid l = ''line_'' @ lid @ ''_leg_'' @ nat_str l"

definition new_tp_elm :: "link_id \<Rightarrow> nat \<Rightarrow> string" where
  "new_tp_elm lid l = ''new_tp_'' @ lid @ ''@'' @ nat_str l"

definition tp_elm :: "link_id \<Rightarrow> tpi \<Rightarrow> string" where
  "tp_elm lid k = ''tp_'' @ lid @ ''@'' @ nat_str k"

text \<open>The centre of an interface's square; \<open>None\<close> if the device or the square is not drawn.\<close>

definition if_center :: "app \<Rightarrow> dev_id \<Rightarrow> if_name \<Rightarrow> (int \<times> int) option" where
  "if_center s d i = (case (oget (page s) d, oget (page s) (int_elm i d)) of
      (Some de, Some ie) \<Rightarrow> Some (e_left de + e_left ie + e_width ie div 2 + 2,
        e_top de + e_top ie + e_height ie div 2 + 2)
    | _ \<Rightarrow> None)"

definition tp_pos :: "app \<Rightarrow> link_id \<Rightarrow> tpi \<Rightarrow> exn + (int \<times> int)" where
  "tp_pos s lid k = (case tp_at s lid k of None \<Rightarrow> Inl TypeError | Some tp \<Rightarrow> Inr (tp_x tp, tp_y tp))"

datatype line_place = LineAt "int \<times> int" "int \<times> int" | NoEnd string | LineExn exn

definition leg_line :: "app \<Rightarrow> link_id \<Rightarrow> leg_ends \<Rightarrow> line_place" where
  "leg_line s lid l = (case l of
      LDevdev fd fi td ti \<Rightarrow> (case if_center s fd fi of
          None \<Rightarrow> NoEnd ''undefined elm_d1 or elm_i1''
        | Some p \<Rightarrow> (case if_center s td ti of
            None \<Rightarrow> NoEnd ''undefined elm_d2 or elm_i2''
          | Some q \<Rightarrow> LineAt p q))
    | LDevtp fd fi k \<Rightarrow> (case if_center s fd fi of
          None \<Rightarrow> NoEnd ''undefined elm_d1 or elm_i1''
        | Some p \<Rightarrow> (case tp_pos s lid k of Inl x \<Rightarrow> LineExn x | Inr q \<Rightarrow> LineAt p q))
    | LTptp f k \<Rightarrow> (case tp_pos s lid f of
          Inl x \<Rightarrow> LineExn x
        | Inr p \<Rightarrow> (case tp_pos s lid k of Inl x \<Rightarrow> LineExn x | Inr q \<Rightarrow> LineAt p q)))"

section \<open>Drawing a connection\<close>

definition status_color :: "nat \<Rightarrow> string" where
  "status_color st = (if st = 2 then ''red'' else if st = 3 then ''mediumblue''
     else if st = 4 then ''saddlebrown'' else ''black'')"

definition tp_btn_size :: "app \<Rightarrow> int" where
  "tp_btn_size s = int_size s div 3 * 2"

definition leg_mid :: "int \<times> int \<Rightarrow> int \<times> int \<Rightarrow> int \<times> int" where
  "leg_mid p q = (ceil_div (fst p + fst q) 2, ceil_div (snd p + snd q) 2)"

definition min_line_length :: int where "min_line_length = 10"

text \<open>A button centred on a point; it exists already or is made, and is hidden unless shown.\<close>

definition put_button :: "string \<Rightarrow> string \<Rightarrow> int \<times> int \<Rightarrow> app \<Rightarrow> app" where
  "put_button k txt c s =
     (let b = tp_btn_size s; half = ceil_div b 2;
          e = (case oget (page s) k of
                 Some e \<Rightarrow> e
               | None \<Rightarrow> \<lparr>e_left = 0, e_top = 0, e_width = b, e_height = b, e_text = txt, e_css = []\<rparr>)
      in put_elem k (e\<lparr>e_left := fst c - half, e_top := snd c - half,
           e_css := (if tp_show s then e_css e else oset ''display'' ''none'' (e_css e))\<rparr>) s)"

definition set_drawn :: "link_id \<Rightarrow> nat \<Rightarrow> string option \<Rightarrow> app \<Rightarrow> app" where
  "set_drawn lid l v s = (case oget (connections s) lid of
      None \<Rightarrow> s
    | Some con \<Rightarrow> s\<lparr>connections := oset lid
        (con\<lparr>legs := (legs con)[l := (legs con ! l)\<lparr>leg_drawn := v\<rparr>]\<rparr>) (connections s)\<rparr>)"

definition draw_leg :: "link_id \<Rightarrow> nat \<Rightarrow> bool \<Rightarrow> nat \<times> leg \<Rightarrow> app \<Rightarrow> app run" where
  "draw_leg lid status virt nl s = (case leg_line s lid (leg_ends (snd nl)) of
      LineExn x \<Rightarrow> Threw x s
    | NoEnd m \<Rightarrow> Done (error_at m s)
    | LineAt p q \<Rightarrow>
        let l = fst nl;
            s = set_drawn lid l (Some (line_name lid l)) s;
            width = (if site s = ''l3'' \<and> \<not> tp_show s then 0 else 1);
            s = (if virt then draw_line (line_name lid l) p q (status_color status) (width + 1) (Some ''6,4'') s
                 else draw_line (line_name lid l) p q (status_color status) width None s)
        in Done (if sq_dist q p > min_line_length * min_line_length
             then put_button (new_tp_elm lid l) ''+'' (leg_mid p q) s
             else s\<lparr>page := odel (new_tp_elm lid l) (page s)\<rparr>))"

definition draw_tp :: "link_id \<Rightarrow> tpi \<Rightarrow> app \<Rightarrow> app run" where
  "draw_tp lid k s = (case tp_pos s lid k of
      Inl x \<Rightarrow> Threw x s
    | Inr c \<Rightarrow> Done (put_button (tp_elm lid k) ''&#10535;'' c s))"

definition draw_connection :: "link_id \<Rightarrow> app \<Rightarrow> app run" where
  "draw_connection lid s = (case oget (connections s) lid of
      None \<Rightarrow> Halt s
    | Some con \<Rightarrow>
        if site s \<noteq> ''l3'' \<and> oget (l2_links s) lid = None then Threw TypeError s
        else let virt = (site s \<noteq> ''l3'' \<and> (case oget (l2_links s) lid of None \<Rightarrow> False | Some l \<Rightarrow> l2_virtual l))
             in seq (each (draw_leg lid (con_status con) virt) (enumerate 0 (legs con)) s)
                  (each (draw_tp lid) (okeys (con_tps con))))"

definition draw_all :: "app \<Rightarrow> app run" where
  "draw_all s = each (\<lambda>lid s. called (draw_connection lid s)) (okeys (connections s)) s"

section \<open>Removing what is drawn\<close>

definition clear_leg :: "link_id \<Rightarrow> nat \<times> leg \<Rightarrow> app \<Rightarrow> app" where
  "clear_leg lid nl s =
     (let s = (case leg_drawn (snd nl) of
            None \<Rightarrow> s
          | Some line \<Rightarrow> set_drawn lid (fst nl) None (s\<lparr>page := odel line (page s)\<rparr>))
      in s\<lparr>page := odel (new_tp_elm lid (fst nl)) (page s)\<rparr>)"

definition clear_legs :: "link_id \<Rightarrow> app \<Rightarrow> app" where
  "clear_legs lid s = (case oget (connections s) lid of
      None \<Rightarrow> s
    | Some con \<Rightarrow> fold (clear_leg lid) (enumerate 0 (legs con)) s)"

definition clear_link_objects :: "link_id \<Rightarrow> app \<Rightarrow> app" where
  "clear_link_objects lid s =
     (let s = clear_legs lid s in
      case oget (map_tps (map_data s)) lid of
        None \<Rightarrow> s
      | Some t \<Rightarrow> fold (\<lambda>k s. s\<lparr>page := odel (tp_elm lid k) (page s)\<rparr>) (okeys t) s)"

end
