(* ===== verification/TextFns.thy ===== *)
theory TextFns
  imports JsText
begin

text \<open>
  The small text functions of \<open>mapper.js\<close>: escaping for regular expressions and HTML, MAC
  addresses, ranges of VLANs, code generation, durations and dates, the WHOIS filter and
  shortening.
\<close>

section \<open>Escaping\<close>

definition is_re_special :: "char \<Rightarrow> bool" where
  "is_re_special c \<longleftrightarrow> c \<in> set ''/-^$*+?.()|[]{}'' \<or> c = CHR 0x5C"

definition escapeRegex :: "string \<Rightarrow> string" where
  "escapeRegex s = concat (map (\<lambda>c. if is_re_special c then [CHR 0x5C, c] else [c]) s)"

text \<open>One of the five replacements of a single character by an entity.\<close>

definition replace_char :: "char \<Rightarrow> string \<Rightarrow> string \<Rightarrow> string" where
  "replace_char d r s = concat (map (\<lambda>c. if c = d then r else [c]) s)"

definition escapeHtml :: "string \<Rightarrow> string" where
  "escapeHtml s = replace_char CHR 0x27 ''&#039;'' (replace_char CHR 0x22 ''&quot;''
     (replace_char CHR ''>'' ''&gt;'' (replace_char CHR ''<'' ''&lt;'' (replace_char CHR ''&'' ''&amp;'' s))))"

text \<open>What a browser shows for an entity text.\<close>

definition entities :: "(string \<times> char) list" where
  "entities = [(''&amp;'', CHR ''&''), (''&lt;'', CHR ''<''), (''&gt;'', CHR ''>''),
     (''&quot;'', CHR 0x22), (''&#039;'', CHR 0x27)]"

function shown :: "string \<Rightarrow> string" where
  "shown s = (case s of [] \<Rightarrow> []
     | c # s' \<Rightarrow> (case List.find (\<lambda>(e, d). take (length e) s = e) entities of
         None \<Rightarrow> c # shown s'
       | Some (e, d) \<Rightarrow> d # shown (drop (max 1 (length e)) s)))"
  by pat_completeness auto
termination by (relation "measure length") (auto split: list.splits)

declare shown.simps [simp del]

section \<open>MAC addresses\<close>

text \<open>
  \<open>/^([0-9a-fA-F]{2})[:\.\-]?...$/\<close>: six pairs of hexadecimal digits with an optional
  separator between two pairs. Separators are no digits, so matching is deterministic.
\<close>

definition is_mac_sep :: "char \<Rightarrow> bool" where
  "is_mac_sep c \<longleftrightarrow> c = CHR '':'' \<or> c = CHR ''.'' \<or> c = CHR ''-''"

fun mac_pairs :: "nat \<Rightarrow> string \<Rightarrow> string list option" where
  "mac_pairs n (a # b # s) =
     (if is_hex a \<and> is_hex b then
        (if n = 0 then (if s = [] then Some [[a, b]] else None)
         else map_option ((#) [a, b]) (mac_pairs (n - 1) (case s of [] \<Rightarrow> s | c # s' \<Rightarrow> if is_mac_sep c then s' else s)))
      else None)"
| "mac_pairs n s = None"

definition mac_match :: "string \<Rightarrow> string list option" where
  "mac_match s = mac_pairs 5 s"

definition parse_mac :: "string \<Rightarrow> string option" where
  "parse_mac s = (case mac_match s of
      None \<Rightarrow> None
    | Some m \<Rightarrow> Some (toLower (m ! 0) @ toLower (m ! 1) @ toLower (m ! 2) @ toLower (m ! 3) @ toLower (m ! 4) @ toLower (m ! 5)))"

definition format_mac :: "string \<Rightarrow> string \<Rightarrow> string" where
  "format_mac mac view = (case mac_match mac of
      None \<Rightarrow> mac
    | Some m \<Rightarrow>
        if view = ''canonic'' \<or> view = ''u6c'' then
          toUpper (m ! 0) @ '':'' @ toUpper (m ! 1) @ '':'' @ toUpper (m ! 2) @ '':'' @ toUpper (m ! 3) @ '':'' @
          toUpper (m ! 4) @ '':'' @ toUpper (m ! 5)
        else if view = ''snr'' \<or> view = ''l6h'' then
          toLower (m ! 0) @ ''-'' @ toLower (m ! 1) @ ''-'' @ toLower (m ! 2) @ ''-'' @ toLower (m ! 3) @ ''-'' @
          toLower (m ! 4) @ ''-'' @ toLower (m ! 5)
        else if view = ''cisco'' \<or> view = ''l3d'' then
          toLower (m ! 0) @ toLower (m ! 1) @ ''.'' @ toLower (m ! 2) @ toLower (m ! 3) @ ''.'' @
          toLower (m ! 4) @ toLower (m ! 5)
        else if view = ''huawei'' \<or> view = ''l3h'' then
          toLower (m ! 0) @ toLower (m ! 1) @ ''-'' @ toLower (m ! 2) @ toLower (m ! 3) @ ''-'' @
          toLower (m ! 4) @ toLower (m ! 5)
        else mac)"

section \<open>Ranges\<close>

text \<open>
  \<open>unwind_list\<close>. A part without a dash is pushed as the one-element array \<open>split\<close> returned, a
  range as its numbers, so the entries are of two kinds; a comparison with \<open>!==\<close>
  distinguishes them. Ends that are no number give \<open>NaN\<close> bounds, and the loop does not run.
\<close>

datatype vlan_entry = ArrEntry "string list" | StrEntry string

text \<open>\<open>Number(s)\<close> of a decimal numeral with blanks around it; the empty string is 0.\<close>

definition trim :: "string \<Rightarrow> string" where
  "trim s = rev (dropWhile is_space (rev (dropWhile is_space s)))"

definition js_number :: "string \<Rightarrow> nat option" where
  "js_number s = (let t = trim s in if t = [] then Some 0 else if is_num t then Some (str_nat t) else None)"

definition unwind_part :: "string \<Rightarrow> vlan_entry list" where
  "unwind_part part = (let range = split_on CHR ''-'' part in
     if length range = 1 then [ArrEntry range]
     else (case (js_number (range ! 0), js_number (range ! 1)) of
         (Some lo, Some hi) \<Rightarrow> map (StrEntry \<circ> nat_str) [lo..<Suc hi]
       | _ \<Rightarrow> []))"

definition unwind_list :: "string \<Rightarrow> vlan_entry list" where
  "unwind_list s = concat (map unwind_part (split_on CHR '','' s))"

text \<open>The text of an entry, as a concatenation or \<open>String(entry)\<close> shows it.\<close>

fun entry_text :: "vlan_entry \<Rightarrow> string" where
  "entry_text (ArrEntry ss) = join '','' ss"
| "entry_text (StrEntry s) = s"

text \<open>The entry \<open>===\<close> a string: an array never is.\<close>

fun entry_is :: "vlan_entry \<Rightarrow> string \<Rightarrow> bool" where
  "entry_is (ArrEntry ss) v = False"
| "entry_is (StrEntry s) v = (s = v)"

section \<open>Codes, windows and durations\<close>

definition code_chars :: string where
  "code_chars = ''qwertyuiopasdfghjkzxcvbnmQWERTYUPASDFGHJKLZXCVBNM23456789''"

text \<open>\<open>Math.random\<close> is a stream of values in \<open>[0, 1)\<close>, given as fractions of \<open>2 ^ 53\<close>.\<close>

definition gen_code :: "(nat \<Rightarrow> nat) \<Rightarrow> string" where
  "gen_code random = map (\<lambda>i. code_chars ! (random i * length code_chars div 2 ^ 53)) [0..<32]"

definition shift_stack_xy :: "nat \<Rightarrow> nat" where
  "shift_stack_xy xy = (let xy = xy + 20 in if xy > 400 then 40 else xy)"

definition get_win_part :: "(string, (string, 'a) obj) obj \<Rightarrow> string \<Rightarrow> string \<Rightarrow> 'a \<Rightarrow> 'a" where
  "get_win_part parts win key def = (case oget parts win of None \<Rightarrow> def
     | Some o1 \<Rightarrow> (case oget o1 key of None \<Rightarrow> def | Some v \<Rightarrow> v))"

definition set_win_part :: "string \<Rightarrow> string \<Rightarrow> 'a \<Rightarrow> (string, (string, 'a) obj) obj \<Rightarrow> (string, (string, 'a) obj) obj" where
  "set_win_part win key v parts =
     (let parts = (if oget parts win = None then oset win [] parts else parts)
      in case oget parts win of None \<Rightarrow> parts | Some o1 \<Rightarrow> oset win (oset key v o1) parts)"

definition hash_length :: "('k, 'v) obj \<Rightarrow> nat" where
  "hash_length ps = foldl (\<lambda>n k. n + 1) 0 (okeys ps)"

definition time_diff :: "int \<Rightarrow> string" where
  "time_diff seconds =
     (if seconds < 2 * 60 then int_str seconds @ '' secs''
      else if seconds < 2 * 60 * 60 then int_str (seconds div 60) @ '' mins''
      else if seconds < 2 * 60 * 60 * 24 then int_str (seconds div (60 * 60)) @ '' hours''
      else int_str (seconds div (60 * 60 * 24)) @ '' days'')"

definition lz :: "nat \<Rightarrow> string" where
  "lz a = (let s = ''0'' @ nat_str a in drop (length s - 2) s)"

record date =
  date_day :: nat
  date_month :: nat
  date_year :: nat
  date_hours :: nat
  date_minutes :: nat

definition DateTime :: "date \<Rightarrow> string" where
  "DateTime d = lz (date_day d) @ ''.'' @ lz (date_month d + 1) @ ''.'' @ nat_str (date_year d) @ '' '' @
     lz (date_hours d) @ '':'' @ lz (date_minutes d)"

text \<open>
  \<open>wdhm\<close>: the numbers with the letter of their unit (weeks, days, hours, minutes, seconds); the
  code's suffixes are the Russian abbreviations of the five units.
\<close>

datatype unit_of_time = Weeks | Days | Hours | Minutes | Seconds

definition wdhm :: "nat \<Rightarrow> (nat \<times> unit_of_time) list" where
  "wdhm time =
     (let w = time div (7 * 24 * 60 * 60); time = time - w * (7 * 24 * 60 * 60);
          d = time div (24 * 60 * 60); time = time - d * (24 * 60 * 60);
          h = time div (60 * 60); time = time - h * (60 * 60);
          m = time div 60; s = time - m * 60
      in (if w > 0 then [(w, Weeks)] else []) @
         (if d > 0 \<or> w > 0 then [(d, Days)] else []) @
         (if h > 0 \<or> d > 0 \<or> w > 0 then [(h, Hours)] else []) @
         (if m > 0 \<or> h > 0 \<or> d > 0 \<or> w > 0 then [(m, Minutes)] else []) @
         [(s, Seconds)])"

definition ellipsed :: "string \<Rightarrow> nat \<Rightarrow> string" where
  "ellipsed text chars = (if int (length text) > int chars - 3 then take (chars - 3) text @ ''...'' else text)"

section \<open>WHOIS\<close>

definition re_ip4 :: re where
  "re_ip4 = (let d = re_plus (RCls is_digit); p = re_lit ''.'' in
     RSeq d (RSeq p (RSeq d (RSeq p (RSeq d (RSeq p d))))))"

definition re_range :: re where
  "re_range = (let sp = RStar (RCls is_space) in
     RSeq (RAlt (re_liti ''inetnum'') (re_liti ''netrange'')) (RSeq (re_lit '':'') (RSeq sp (RSeq re_ip4
       (RSeq sp (RSeq (re_lit ''-'') (RSeq sp re_ip4)))))))"

definition re_whois_field :: re where
  "re_whois_field = RSeq (RAlt (re_liti ''netname'') (RAlt (re_liti ''country'')
     (RAlt (re_liti ''org'') (re_liti ''organization'')))) (re_lit '':'')"

definition whois_line :: "string \<Rightarrow> string list \<times> bool \<Rightarrow> string list \<times> bool" where
  "whois_line line st = (case st of (out, block) \<Rightarrow>
     if re_search re_range line then (out @ [line], True)
     else if re_search re_whois_field line \<and> block then (out @ [line], block)
     else if re_full (RStar (RCls is_space)) line then (out, False)
     else (out, block))"

definition whois :: "string \<Rightarrow> string" where
  "whois src = join [CHR 0x0A] (fst (fold whois_line (split_on CHR 0x0A src) ([], False)))"

section \<open>Facts: escaping\<close>

lemma replace_char_simps [simp]:
  "replace_char d r [] = []" "replace_char d r (c # s) = (if c = d then r else [c]) @ replace_char d r s"
  "replace_char d r (s @ t) = replace_char d r s @ replace_char d r t"
  by (simp_all add: replace_char_def)

fun escape_char :: "char \<Rightarrow> string" where
  "escape_char c =
     (if c = CHR ''&'' then ''&amp;'' else if c = CHR ''<'' then ''&lt;''
      else if c = CHR ''>'' then ''&gt;'' else if c = CHR 0x22 then ''&quot;''
      else if c = CHR 0x27 then ''&#039;'' else [c])"

lemma escapeHtml_Nil [simp]: "escapeHtml [] = []"
  by (simp add: escapeHtml_def)

lemma escapeHtml_Cons [simp]: "escapeHtml (c # s) = escape_char c @ escapeHtml s"
  by (simp add: escapeHtml_def)

declare escape_char.simps [simp del]

lemma shown_Nil [simp]: "shown [] = []"
  by (simp add: shown.simps)

lemma shown_plain: "c \<noteq> CHR ''&'' \<Longrightarrow> shown (c # s) = c # shown s"
  by (subst shown.simps) (simp add: entities_def)

lemma shown_entity:
  "shown (''&amp;'' @ s) = CHR ''&'' # shown s" "shown (''&lt;'' @ s) = CHR ''<'' # shown s"
  "shown (''&gt;'' @ s) = CHR ''>'' # shown s" "shown (''&quot;'' @ s) = CHR 0x22 # shown s"
  "shown (''&#039;'' @ s) = CHR 0x27 # shown s"
  by (subst shown.simps, simp add: entities_def)+

lemma shown_escape_char: "shown (escape_char c @ s) = c # shown s"
  using shown_entity [of s] by (simp add: escape_char.simps shown_plain)

lemma escape_char_safe: "d \<in> set (escape_char c) \<Longrightarrow> d \<notin> {CHR ''<'', CHR ''>'', CHR 0x22, CHR 0x27}"
  by (auto simp: escape_char.simps split: if_splits)

text \<open>
  C24: text escaped with \<open>escapeHtml\<close> is shown as the original text, and it contains no angle
  bracket and no quote, so it cannot open a tag or leave an attribute.
\<close>

theorem escapeHtml_safe:
  "shown (escapeHtml s) = s \<and> set (escapeHtml s) \<inter> {CHR ''<'', CHR ''>'', CHR 0x22, CHR 0x27} = {}"
proof (induction s)
  case (Cons c s)
  have "set (escape_char c) \<inter> {CHR ''<'', CHR ''>'', CHR 0x22, CHR 0x27} = {}"
    using escape_char_safe by blast
  with Cons show ?case by (simp add: shown_escape_char Int_Un_distrib2)
qed simp

section \<open>Facts: MAC addresses\<close>

lemma is_hex_no_sep: "is_hex c \<Longrightarrow> \<not> is_mac_sep c"
  by (auto simp: is_hex_def is_digit_def is_mac_sep_def code_def)

definition hex_pair :: "string \<Rightarrow> bool" where
  "hex_pair p \<longleftrightarrow> (\<exists>a b. p = [a, b] \<and> is_hex a \<and> is_hex b)"

lemma mac_pairs_shape: "mac_pairs n s = Some ps \<Longrightarrow> length ps = Suc n \<and> (\<forall>p \<in> set ps. hex_pair p)"
proof (induction n s arbitrary: ps rule: mac_pairs.induct)
  case (1 n a b s)
  show ?case
  proof (cases "is_hex a \<and> is_hex b")
    case h: True
    show ?thesis
    proof (cases n)
      case 0
      with "1.prems" h show ?thesis by (auto simp: hex_pair_def split: if_splits)
    next
      case (Suc m)
      let ?s = "case s of [] \<Rightarrow> s | c # s' \<Rightarrow> if is_mac_sep c then s' else s"
      from "1.prems" h Suc obtain qs where q: "mac_pairs (n - 1) ?s = Some qs" "ps = [a, b] # qs"
        by auto
      from "1.IH" [OF h _ q(1)] Suc h q(2) show ?thesis by (auto simp: hex_pair_def)
    qed
  next
    case False
    with "1.prems" show ?thesis by auto
  qed
qed simp_all

text \<open>Writing the pairs with any choice of separators between them.\<close>

fun mac_text :: "string list \<Rightarrow> string list \<Rightarrow> string" where
  "mac_text [] seps = []"
| "mac_text (p # ps) [] = p @ mac_text ps []"
| "mac_text (p # ps) (d # seps) = p @ (if ps = [] then [] else d) @ mac_text ps seps"

definition sep_ok :: "string \<Rightarrow> bool" where
  "sep_ok d \<longleftrightarrow> d = [] \<or> (\<exists>c. d = [c] \<and> is_mac_sep c)"

lemma mac_text_start:
  assumes "ps \<noteq> []" "\<forall>p \<in> set ps. hex_pair p"
  shows "\<exists>a s. mac_text ps seps = a # s \<and> is_hex a"
proof -
  obtain p qs where p: "ps = p # qs" using assms(1) by (cases ps) auto
  then obtain a b where "p = [a, b]" "is_hex a" using assms(2) by (auto simp: hex_pair_def)
  with p show ?thesis by (cases seps) auto
qed

lemma mac_pairs_text:
  "ps \<noteq> [] \<Longrightarrow> \<forall>p \<in> set ps. hex_pair p \<Longrightarrow> \<forall>d \<in> set seps. sep_ok d \<Longrightarrow>
     mac_pairs (length ps - 1) (mac_text ps seps) = Some ps"
proof (induction ps seps rule: mac_text.induct)
  case (2 p ps)
  then obtain a b where p: "p = [a, b]" "is_hex a" "is_hex b" by (auto simp: hex_pair_def)
  show ?case
  proof (cases "ps = []")
    case False
    then obtain c s where c: "mac_text ps [] = c # s" "is_hex c" using mac_text_start [of ps "[]"] 2 by auto
    obtain m where m: "length ps = Suc m" using False by (cases ps) auto
    with 2 p c False is_hex_no_sep [OF c(2)] show ?thesis by simp
  qed (simp add: p)
next
  case (3 p ps d seps)
  then obtain a b where p: "p = [a, b]" "is_hex a" "is_hex b" by (auto simp: hex_pair_def)
  show ?case
  proof (cases "ps = []")
    case False
    then obtain c s where c: "mac_text ps seps = c # s" "is_hex c" using mac_text_start [of ps seps] 3 by auto
    obtain m where m: "length ps = Suc m" using False by (cases ps) auto
    have "(case d @ mac_text ps seps of [] \<Rightarrow> d @ mac_text ps seps
        | c # s' \<Rightarrow> if is_mac_sep c then s' else d @ mac_text ps seps) = mac_text ps seps"
      using 3 c is_hex_no_sep [OF c(2)] by (auto simp: sep_ok_def)
    with 3 p False m show ?thesis by simp
  qed (simp add: p)
qed simp

lemma list6: "length ps = 6 \<Longrightarrow> ps = [ps ! 0, ps ! 1, ps ! 2, ps ! 3, ps ! 4, ps ! 5]"
  by (rule nth_equalityI) (auto simp: less_Suc_eq numeral_eq_Suc)

lemma mac_matchD:
  assumes "mac_match s = Some m"
  obtains a b c d e f where "m = [a, b, c, d, e, f]" "hex_pair a" "hex_pair b" "hex_pair c" "hex_pair d" "hex_pair e" "hex_pair f"
proof -
  have "length m = 6" "\<forall>p \<in> set m. hex_pair p"
    using mac_pairs_shape [of 5 s m] assms by (simp_all add: mac_match_def)
  then show thesis using that list6 [of m] by (metis list.set_intros)
qed

lemma hex_pair_case [simp]: "hex_pair p \<Longrightarrow> hex_pair (toLower p)" "hex_pair p \<Longrightarrow> hex_pair (toUpper p)"
  by (auto simp: hex_pair_def toLower_def toUpper_def)

lemma toLower_case [simp]: "toLower (toLower s) = toLower s" "toLower (toUpper s) = toLower s"
  by (simp_all add: toLower_def toUpper_def)

definition mac_views :: "string list" where
  "mac_views = [''canonic'', ''u6c'', ''snr'', ''l6h'', ''cisco'', ''l3d'', ''huawei'', ''l3h'']"

text \<open>Every known view writes the six pairs in one case with its separators.\<close>

lemma format_mac_text:
  assumes m: "mac_match s = Some m" and v: "view \<in> set mac_views"
  shows "\<exists>k seps. (k = toLower \<or> k = toUpper) \<and> (\<forall>d \<in> set seps. sep_ok d) \<and> format_mac s view = mac_text (map k m) seps"
proof -
  obtain a b c d e f where abc: "m = [a, b, c, d, e, f]" by (rule mac_matchD [OF m])
  have six: "mac_text (map k [a, b, c, d, e, f]) (replicate 5 [x]) =
      k a @ x # k b @ x # k c @ x # k d @ x # k e @ x # k f" for k x
    by (simp add: eval_nat_numeral)
  have three: "mac_text (map k [a, b, c, d, e, f]) [[], [x], [], [x], []] =
      k a @ k b @ x # k c @ k d @ x # k e @ k f" for k x
    by simp
  have r: "\<forall>d \<in> set (replicate 5 [x]). sep_ok d" "\<forall>d \<in> set [[], [x], [], [x], []]. sep_ok d" if "is_mac_sep x" for x
    using that by (auto simp: sep_ok_def)
  have s: "is_mac_sep CHR '':''" "is_mac_sep CHR ''-''" "is_mac_sep CHR ''.''" by (simp_all add: is_mac_sep_def)
  note f = format_mac_def m abc
  have "view = ''canonic'' \<or> view = ''u6c'' \<or> view = ''snr'' \<or> view = ''l6h'' \<or> view = ''cisco'' \<or>
      view = ''l3d'' \<or> view = ''huawei'' \<or> view = ''l3h''"
    using v unfolding mac_views_def by (simp only: list.set insert_iff empty_iff simp_thms)
  then consider "view = ''canonic'' \<or> view = ''u6c''" | "view = ''snr'' \<or> view = ''l6h''"
    | "view = ''cisco'' \<or> view = ''l3d''" | "view = ''huawei'' \<or> view = ''l3h''"
    by argo
  then show ?thesis
  proof cases
    case 1
    then show ?thesis using r(1) [OF s(1)] six [of toUpper]
      by (intro exI [of _ toUpper] exI [of _ "replicate 5 '':''"]) (auto simp: f)
  next
    case 2
    then show ?thesis using r(1) [OF s(2)] six [of toLower]
      by (intro exI [of _ toLower] exI [of _ "replicate 5 ''-''"]) (auto simp: f)
  next
    case 3
    then show ?thesis using r(2) [OF s(3)] three [of toLower]
      by (intro exI [of _ toLower] exI [of _ "[[], ''.'', [], ''.'', []]"]) (auto simp: f)
  next
    case 4
    then show ?thesis using r(2) [OF s(2)] three [of toLower]
      by (intro exI [of _ toLower] exI [of _ "[[], ''-'', [], ''-'', []]"]) (auto simp: f)
  qed
qed

text \<open>
  Every view of a MAC address the program prints is a MAC address it accepts, and parsing it
  gives the same twelve digits as parsing the original text.
\<close>

theorem format_mac_parses:
  assumes m: "parse_mac s = Some h" and v: "view \<in> set mac_views"
  shows "parse_mac (format_mac s view) = Some h"
proof -
  from m obtain ps where ps: "mac_match s = Some ps" by (auto simp: parse_mac_def split: option.splits)
  obtain a b c d e f where abc: "ps = [a, b, c, d, e, f]" "hex_pair a" "hex_pair b" "hex_pair c" "hex_pair d" "hex_pair e" "hex_pair f"
    by (rule mac_matchD [OF ps])
  from format_mac_text [OF ps v] obtain k seps where
    k: "k = toLower \<or> k = toUpper" "\<forall>d \<in> set seps. sep_ok d" "format_mac s view = mac_text (map k ps) seps" by blast
  have "\<forall>p \<in> set (map k ps). hex_pair p" using abc k(1) by auto
  from mac_pairs_text [OF _ this k(2)] have "mac_match (format_mac s view) = Some (map k ps)"
    using abc by (simp add: mac_match_def k(3) eval_nat_numeral)
  with m ps abc k(1) show ?thesis by (auto simp: parse_mac_def)
qed

lemma format_mac_parses_witness: "parse_mac (format_mac ''00-1a-2B:3c4d.5E'' ''cisco'') = Some ''001a2b3c4d5e''"
  by (rule format_mac_parses) (code_simp, code_simp)

section \<open>Facts: durations, ranges, codes\<close>

fun unit_seconds :: "unit_of_time \<Rightarrow> nat" where
  "unit_seconds Weeks = 604800"
| "unit_seconds Days = 86400"
| "unit_seconds Hours = 3600"
| "unit_seconds Minutes = 60"
| "unit_seconds Seconds = 1"

fun unit_limit :: "unit_of_time \<Rightarrow> nat option" where
  "unit_limit Weeks = None"
| "unit_limit Days = Some 7"
| "unit_limit Hours = Some 24"
| "unit_limit Minutes = Some 60"
| "unit_limit Seconds = Some 60"

lemma minus_div_mult: "n - n div k * k = n mod k" for n k :: nat
  by (simp add: minus_div_mult_eq_mod)

text \<open>
  The numbers \<open>wdhm\<close> prints add up to the time given, and each but the weeks is below the
  size of the next larger unit.
\<close>

theorem wdhm_exact:
  "sum_list (map (\<lambda>(n, u). n * unit_seconds u) (wdhm time)) = time \<and>
   list_all (\<lambda>(n, u). case unit_limit u of None \<Rightarrow> True | Some k \<Rightarrow> n < k) (wdhm time)"
proof -
  define w d h m s where "w = time div 604800" and "d = time mod 604800 div 86400"
    and "h = time mod 604800 mod 86400 div 3600" and "m = time mod 604800 mod 86400 mod 3600 div 60"
    and "s = time mod 604800 mod 86400 mod 3600 mod 60"
  have W: "wdhm time = (if w > 0 then [(w, Weeks)] else []) @ (if d > 0 \<or> w > 0 then [(d, Days)] else []) @
      (if h > 0 \<or> d > 0 \<or> w > 0 then [(h, Hours)] else []) @
      (if m > 0 \<or> h > 0 \<or> d > 0 \<or> w > 0 then [(m, Minutes)] else []) @ [(s, Seconds)]"
    by (simp add: wdhm_def minus_div_mult w_def d_def h_def m_def s_def Let_def)
  have lim: "d < 7" "h < 24" "m < 60" "s < 60"
    by (simp_all add: d_def h_def m_def s_def less_mult_imp_div_less)
  have "time = w * 604800 + d * 86400 + h * 3600 + m * 60 + s"
    unfolding w_def d_def h_def m_def s_def
    using div_mult_mod_eq [of time 604800] div_mult_mod_eq [of "time mod 604800" 86400]
      div_mult_mod_eq [of "time mod 604800 mod 86400" 3600] div_mult_mod_eq [of "time mod 604800 mod 86400 mod 3600" 60]
    by linarith
  then have "sum_list (map (\<lambda>(n, u). n * unit_seconds u) (wdhm time)) = time"
    unfolding W by auto
  moreover have "list_all (\<lambda>(n, u). case unit_limit u of None \<Rightarrow> True | Some k \<Rightarrow> n < k) (wdhm time)"
    using lim by (simp add: W)
  ultimately show ?thesis by blast
qed

lemma trim_digits: "list_all is_digit s \<Longrightarrow> trim s = s"
proof -
  assume s: "list_all is_digit s"
  have d: "dropWhile is_space s = s" if "list_all is_digit s" for s
    using that by (cases s) (auto simp: is_digit_def is_space_def)
  have "list_all is_digit (rev s)" using s by (simp add: list_all_rev)
  then show ?thesis by (simp add: trim_def d s)
qed

lemma js_number_nat_str [simp]: "js_number (nat_str n) = Some n"
proof -
  have "list_all is_digit (nat_str n)" "nat_str n \<noteq> []"
    using is_num_nat_str [of n] by (simp_all add: is_num_def del: is_num_nat_str)
  then have "trim (nat_str n) = nat_str n" by (simp add: trim_digits)
  then show ?thesis by (simp add: js_number_def Let_def)
qed

lemma dash_free: "CHR ''-'' \<notin> set (nat_str n)"
  using is_num_nat_str [of n] by (auto simp: is_num_def list_all_iff is_digit_def code_def simp del: is_num_nat_str)

lemma unwind_range: "unwind_part (nat_str lo @ ''-'' @ nat_str hi) = map (StrEntry \<circ> nat_str) [lo..<Suc hi]"
  by (simp add: unwind_part_def split_on_append split_on_free dash_free)

lemma unwind_single: "CHR ''-'' \<notin> set p \<Longrightarrow> unwind_part p = [ArrEntry [p]]"
  by (simp add: unwind_part_def split_on_free)

text \<open>
  A range of VLANs unwinds to strings that equal exactly the numbers between its ends, but a
  single VLAN unwinds to an array: it shows the same text and is strictly equal to no string,
  so a filter that compares with \<open>!==\<close> drops it.
\<close>

theorem unwind_entries:
  "(list_ex (\<lambda>e. entry_is e (nat_str v)) (unwind_part (nat_str lo @ ''-'' @ nat_str hi)) \<longleftrightarrow> lo \<le> v \<and> v \<le> hi) \<and>
   map entry_text (unwind_part (nat_str v)) = [nat_str v] \<and>
   \<not> list_ex (\<lambda>e. entry_is e (nat_str v)) (unwind_part (nat_str v))"
proof -
  have "list_ex (\<lambda>e. entry_is e (nat_str v)) (unwind_part (nat_str lo @ ''-'' @ nat_str hi)) \<longleftrightarrow>
      v \<in> set [lo..<Suc hi]"
    unfolding unwind_range by (simp only: list_ex_iff set_map) auto
  then show ?thesis by (auto simp: unwind_single dash_free)
qed

lemma length_code_chars: "length code_chars = 57"
  by (simp add: code_chars_def)

text \<open>
  Whatever the random source returns, a generated code has 32 characters, all from the
  alphabet of the code, which has no look-alikes of one and zero.
\<close>

theorem gen_code_shape:
  assumes "\<forall>i. random i < 2 ^ 53"
  shows "length (gen_code random) = 32 \<and> set (gen_code random) \<subseteq> set code_chars \<and>
    set (gen_code random) \<inter> set ''10OlI'' = {}"
proof -
  have "random i * length code_chars div 2 ^ 53 < length code_chars" for i
    using assms mult_strict_right_mono [of "random i" "2 ^ 53" "length code_chars"]
    by (intro less_mult_imp_div_less) (simp add: length_code_chars mult.commute)
  then have sub: "set (gen_code random) \<subseteq> set code_chars"
    by (auto simp: gen_code_def)
  have "set code_chars \<inter> set ''10OlI'' = {}" by code_simp
  with sub show ?thesis by (auto simp: gen_code_def)
qed

lemma gen_code_shape_witness:
  "length (gen_code (\<lambda>i. i * 1000003 mod 2 ^ 53)) = 32 \<and> set (gen_code (\<lambda>i. i * 1000003 mod 2 ^ 53)) \<subseteq> set code_chars \<and>
    set (gen_code (\<lambda>i. i * 1000003 mod 2 ^ 53)) \<inter> set ''10OlI'' = {}"
  by (rule gen_code_shape) simp

end
