(* ===== verification/Popup.thy ===== *)
theory Popup
  imports Draw TextFns
begin

text \<open>
  What hovering shows: the information box and the interface labels of a device
  (\<open>device_in\<close>), the label and the dashes of an interface (\<open>int_popup_label\<close>), the highlighted
  lines (\<open>link_highlight\<close>), \<open>interface_in\<close>, which combines them, and \<open>interface_out\<close>, which
  takes everything back. The size of a rendered text is a parameter.
\<close>

section \<open>The popup of a device\<close>

text \<open>
  The style of a label: its corner, the given width and height (\<open>None\<close> is \<open>auto\<close>) and the
  transforms \<open>translateY(-100%)\<close> and \<open>translateX(-100%)\<close>.
\<close>

record css_box =
  css_left :: int
  css_top :: int
  css_width :: "int option"
  css_height :: "int option"
  up_by_height :: bool
  left_by_width :: bool

definition label_css :: "int \<Rightarrow> elem \<Rightarrow> nat \<Rightarrow> cell \<Rightarrow> css_box" where
  "label_css sz de rows c =
     (let x = e_left de; y = e_top de; col = int (fst c); row = int (snd c)
      in if snd c = 0 then
           \<lparr>css_left = x + col * sz + 1, css_top = y - 2, css_width = Some (sz - 6), css_height = None,
             up_by_height = True, left_by_width = False\<rparr>
         else if snd c + 1 = rows then
           \<lparr>css_left = x + col * sz + 1, css_top = y + e_height de + 4, css_width = Some (sz - 6), css_height = None,
             up_by_height = False, left_by_width = False\<rparr>
         else if fst c = 0 then
           \<lparr>css_left = x - 2, css_top = y + row * sz + 1, css_width = None, css_height = Some (sz - 6),
             up_by_height = False, left_by_width = True\<rparr>
         else
           \<lparr>css_left = x + e_width de + 4, css_top = y + row * sz + 1, css_width = None, css_height = Some (sz - 6),
             up_by_height = False, left_by_width = False\<rparr>)"

text \<open>Rendered: one pixel of padding and of border on every side.\<close>

definition render :: "int \<times> int \<Rightarrow> css_box \<Rightarrow> rect" where
  "render ext b =
     (let w = (case css_width b of None \<Rightarrow> fst ext | Some w \<Rightarrow> w) + 4;
          h = (case css_height b of None \<Rightarrow> snd ext | Some h \<Rightarrow> h) + 4;
          l = (if left_by_width b then css_left b - w else css_left b);
          t = (if up_by_height b then css_top b - h else css_top b)
      in \<lparr>r_left = l, r_top = t, r_right = l + w, r_bottom = t + h\<rparr>)"

datatype info_place = InfoTop | InfoBottom

record dev_popup =
  info_text :: string
  info_at :: info_place
  if_labels :: "(if_name \<times> css_box) list"

definition dev_info_text :: "(int \<Rightarrow> date) \<Rightarrow> int \<Rightarrow> dev_id \<Rightarrow> device \<Rightarrow> string" where
  "dev_info_text date_of now d dv =
     ''ID:&nbsp;'' @ d @ ''&nbsp;&nbsp;'' @ ''IP:&nbsp;'' @ undef_str (dev_data_ip dv) @ ''&nbsp;&nbsp;Type:&nbsp;'' @
     dev_model_short dv @ ''<BR>'' @ ''Uptime:&nbsp;'' @ undef_str (dev_sysUpTimeStr dv) @
     (case dev_last_seen dv of None \<Rightarrow> []
      | Some t \<Rightarrow> ''&nbsp;Last seen:&nbsp;'' @ DateTime (date_of t) @ ''&nbsp;('' @ time_diff (now - t) @ '' ago)'') @
     ''<BR>'' @ ''Location:&nbsp;'' @ undef_str (dev_sysLocation dv)"

definition popup_if :: "app \<Rightarrow> dev_id \<Rightarrow> elem \<Rightarrow> if_name \<Rightarrow> dev_popup \<Rightarrow> dev_popup run" where
  "popup_if s d de i p = (case oget (td_ifs (temp_of s d)) i of
      None \<Rightarrow> Threw TypeError p
    | Some t \<Rightarrow>
        if t_draw t \<noteq> Some 1 then Done p
        else (case (t_col t, t_row t) of
            (Some c, Some r) \<Rightarrow>
              Done (p\<lparr>if_labels := if_labels p @ [(i, label_css (int_size s) de (td_rows (temp_of s d)) (c, r))]\<rparr>)
          | _ \<Rightarrow> Done p))"

text \<open>
  \<open>info_bottom\<close> gives the lower edge of the box with a text; the top of the device is relative to
  the window, so the scroll position comes in.
\<close>

definition device_in :: "(int \<Rightarrow> date) \<Rightarrow> int \<Rightarrow> (string \<Rightarrow> int) \<Rightarrow> int \<Rightarrow> bool \<Rightarrow> dev_id \<Rightarrow> device \<Rightarrow> app \<Rightarrow> dev_popup run option" where
  "device_in date_of now info_bottom scroll_top dragging d dv s =
     (if dragging then None
      else let itext = dev_info_text date_of now d dv;
               p = \<lparr>info_text = itext, info_at = InfoTop, if_labels = []\<rparr>
           in (case oget (page s) d of
                 None \<Rightarrow> Some (Done p)
               | Some de \<Rightarrow>
                   let p = (if info_bottom itext \<ge> e_top de - scroll_top then p\<lparr>info_at := InfoBottom\<rparr> else p)
                   in Some (each (popup_if s d de) (okeys (dev_ifs dv)) p)))"

section \<open>Labels never overlap\<close>

definition apart :: "rect \<Rightarrow> rect \<Rightarrow> bool" where
  "apart a b \<longleftrightarrow> r_right a \<le> r_left b \<or> r_right b \<le> r_left a \<or> r_bottom a \<le> r_top b \<or> r_bottom b \<le> r_top a"

lemma step_apart:
  fixes c c' :: nat
  assumes "c < c'" "0 \<le> sz"
  shows "int c * sz + sz \<le> int c' * sz"
proof -
  have "(int c + 1) * sz \<le> int c' * sz" using assms by (intro mult_right_mono) auto
  then show ?thesis by (simp add: distrib_right)
qed

text \<open>
  C20: whatever the texts of the labels measure, the labels that hovering over a device shows for
  two different interfaces on its border never overlap.
\<close>

theorem popup_labels_apart:
  assumes cells: "a \<in> set (border cols rows)" "b \<in> set (border cols rows)" "a \<noteq> b"
    and grid: "2 \<le> cols" "2 \<le> rows" and sz: "6 \<le> sz"
    and de: "e_width de = int cols * sz - 2" "e_height de = int rows * sz - 2"
    and ext: "0 \<le> fst ta" "0 \<le> snd ta" "0 \<le> fst tb" "0 \<le> snd tb"
  shows "apart (render ta (label_css sz de rows a)) (render tb (label_css sz de rows b))"
proof -
  obtain ca ra where a: "a = (ca, ra)" by (cases a)
  obtain cb rb where b: "b = (cb, rb)" by (cases b)
  have in_border: "ca < cols" "ra < rows" "cb < cols" "rb < rows"
      "0 < ra \<and> ra < rows - 1 \<Longrightarrow> ca = 0 \<or> ca = cols - 1" "0 < rb \<and> rb < rows - 1 \<Longrightarrow> cb = 0 \<or> cb = cols - 1"
    using cells set_border [OF grid(1), of rows] grid by (auto simp: a b)
  have rows: "int ra * sz + sz \<le> int rows * sz" "int rb * sz + sz \<le> int rows * sz"
    and pos: "0 \<le> int ra * sz" "0 \<le> int rb * sz" "0 \<le> int cols * sz"
    using in_border sz step_apart [of _ rows sz] by auto
  have inner: "ra + 1 \<noteq> rows \<Longrightarrow> (int ra * sz + sz) + sz \<le> int rows * sz"
      "rb + 1 \<noteq> rows \<Longrightarrow> (int rb * sz + sz) + sz \<le> int rows * sz"
    using in_border sz step_apart [of "Suc ra" rows sz] step_apart [of "Suc rb" rows sz]
    by (auto simp: distrib_right add_ac)
  have cols_apart: "ca \<noteq> cb \<Longrightarrow> int ca * sz + sz \<le> int cb * sz \<or> int cb * sz + sz \<le> int ca * sz"
    and rows_apart: "ra \<noteq> rb \<Longrightarrow> int ra * sz + sz \<le> int rb * sz \<or> int rb * sz + sz \<le> int ra * sz"
    using step_apart [of ca cb sz] step_apart [of cb ca sz] step_apart [of ra rb sz] step_apart [of rb ra sz] sz
    by linarith+
  consider "ra = 0" "rb = 0" | "ra = 0" "rb \<noteq> 0" | "ra \<noteq> 0" "rb = 0" | "ra \<noteq> 0" "rb \<noteq> 0" by blast
  then show ?thesis
  proof cases
    case 1
    then show ?thesis using cells(3) cols_apart by (auto simp: a b label_css_def render_def apart_def Let_def)
  next
    case 2
    then show ?thesis using rows pos sz ext by (simp add: a b label_css_def render_def apart_def Let_def de)
  next
    case 3
    then show ?thesis using rows pos sz ext by (simp add: a b label_css_def render_def apart_def Let_def de)
  next
    case 4
    consider "ra + 1 = rows" "rb + 1 = rows" | "ra + 1 = rows" "rb + 1 \<noteq> rows" | "ra + 1 \<noteq> rows" "rb + 1 = rows"
      | "ra + 1 \<noteq> rows" "rb + 1 \<noteq> rows" by blast
    then show ?thesis
    proof cases
      case 1
      then show ?thesis using 4 cells(3) cols_apart by (auto simp: a b label_css_def render_def apart_def Let_def)
    next
      case 2
      then show ?thesis using 4 inner(2) sz by (auto simp: a b label_css_def render_def apart_def Let_def de)
    next
      case 3
      then show ?thesis using 4 inner(1) sz by (auto simp: a b label_css_def render_def apart_def Let_def de)
    next
      case sides: 4
      show ?thesis
      proof (cases "ra = rb")
        case True
        then have "(ca = 0) \<noteq> (cb = 0)" using 4 sides in_border cells(3) by (auto simp: a b)
        then show ?thesis using 4 sides pos(3) by (auto simp: a b label_css_def render_def apart_def Let_def de)
      next
        case False
        then show ?thesis using 4 sides rows_apart by (auto simp: a b label_css_def render_def apart_def Let_def de)
      qed
    qed
  qed
qed

lemma popup_labels_apart_witness:
  "apart (render (37, 11) (label_css 16 (ex_box 160 32 46) 3 (2, 0)))
     (render (25, 11) (label_css 16 (ex_box 160 32 46) 3 (2, 1)))"
proof (rule popup_labels_apart)
  show "(2, 0) \<in> set (border 3 3)" "(2, 1) \<in> set (border 3 3)" by code_simp+
qed (simp_all add: ex_box_def)

section \<open>Highlighted lines\<close>

text \<open>
  The attributes of a drawn line: the size of its SVG element, the ends and the stroke of the
  line, the values \<open>link_highlight\<close> keeps in the element's data, and its class.
\<close>

record line_attrs =
  sv_w :: int
  sv_h :: int
  ln_x1 :: int
  ln_y1 :: int
  ln_x2 :: int
  ln_y2 :: int
  ln_stroke :: nat

record svg_line =
  sv_attrs :: line_attrs
  sv_data_stroke :: nat
  sv_saved :: "line_attrs option"
  sv_highlighted :: bool

text \<open>The line \<open>draw_line\<close> makes.\<close>

definition svg_of :: "int \<times> int \<Rightarrow> int \<times> int \<Rightarrow> nat \<Rightarrow> svg_line" where
  "svg_of p q width =
     (let (cx, fx, tx, w) = line_axis (fst p) (fst q); (cy, fy, ty, h) = line_axis (snd p) (snd q)
      in \<lparr>sv_attrs = \<lparr>sv_w = w, sv_h = h, ln_x1 = fx, ln_y1 = fy, ln_x2 = tx, ln_y2 = ty, ln_stroke = width\<rparr>,
          sv_data_stroke = width, sv_saved = None, sv_highlighted = False\<rparr>)"

definition highlight_line :: "svg_line \<Rightarrow> svg_line" where
  "highlight_line ln =
     (let a = sv_attrs ln;
          b = a\<lparr>sv_w := sv_w a + 3, sv_h := sv_h a + 3, ln_stroke := sv_data_stroke ln + 2\<rparr>;
          b = (if ln_x1 a = ln_x2 a \<and> ln_x1 a = 0 then b\<lparr>ln_x1 := 1, ln_x2 := 1\<rparr>
               else if ln_y1 a = ln_y2 a \<and> ln_y1 a = 0 then b\<lparr>ln_y1 := 1, ln_y2 := 1\<rparr> else b)
      in ln\<lparr>sv_attrs := b, sv_saved := Some a, sv_highlighted := True\<rparr>)"

definition unhighlight_line :: "bool \<Rightarrow> svg_line \<Rightarrow> svg_line" where
  "unhighlight_line hidden ln =
     (if \<not> sv_highlighted ln then ln
      else (case sv_saved ln of
          None \<Rightarrow> ln\<lparr>sv_highlighted := False\<rparr>
        | Some a \<Rightarrow> ln\<lparr>sv_attrs := a\<lparr>ln_stroke := (if hidden then 0 else sv_data_stroke ln)\<rparr>, sv_highlighted := False\<rparr>))"

definition lines_hidden :: "app \<Rightarrow> bool" where
  "lines_hidden s \<longleftrightarrow> site s = ''l3'' \<and> \<not> tp_show s"

text \<open>
  Highlighting a drawn line and taking the highlight back gives the line as it was drawn; but
  when a line is highlighted twice before that, its SVG element stays three pixels too large.
  This happens for two interfaces joined by two address pairs, whose link is listed twice.
\<close>

theorem highlight_restores:
  assumes "hidden \<Longrightarrow> width = 0"
  shows "sv_attrs (unhighlight_line hidden (highlight_line (svg_of p q width))) = sv_attrs (svg_of p q width) \<and>
    sv_attrs (unhighlight_line hidden (highlight_line (highlight_line (svg_of p q width)))) \<noteq> sv_attrs (svg_of p q width)"
  using assms
  by (auto simp: svg_of_def highlight_line_def unhighlight_line_def Let_def split: prod.split)

lemma highlight_restores_witness:
  "sv_attrs (unhighlight_line True (highlight_line (svg_of (3, 7) (3, 90) 0))) = sv_attrs (svg_of (3, 7) (3, 90) 0) \<and>
   sv_attrs (unhighlight_line True (highlight_line (highlight_line (svg_of (3, 7) (3, 90) 0)))) \<noteq> sv_attrs (svg_of (3, 7) (3, 90) 0)"
  by (rule highlight_restores) simp

section \<open>The popup of an interface\<close>

text \<open>
  What hovering over an interface has put on the page: the labels and dashes (class
  \<open>inpopup\<close>) with their ids, the outlined interfaces, the lines, and the errors shown.
\<close>

record hover =
  hv_popups :: "(string, elem) obj"
  hv_outlined :: "string list"
  hv_lines :: "(string, svg_line) obj"
  hv_alerts :: "string list"

definition popup_elm :: "if_name \<Rightarrow> dev_id \<Rightarrow> string" where
  "popup_elm i d = ''inpopup_'' @ int_elm i d"

definition over_name_text :: "if_style \<Rightarrow> iface \<Rightarrow> string" where
  "over_name_text st f = st_short_name st @
     (case tunnelSrcIfName f of None \<Rightarrow> [] | Some src \<Rightarrow> CHR 0x0A # src)"

text \<open>
  The label over the name: as wide as the name if it fits, else it starts at the left edge of the
  name or, for an interface on the right side, it ends at the right edge. \<open>m\<close> is its outer width,
  the border of the name adds two pixels to its width.
\<close>

definition name_label :: "elem \<Rightarrow> int \<Rightarrow> bool \<Rightarrow> string \<Rightarrow> string \<Rightarrow> elem" where
  "name_label ne m to_left bullet_col text =
     (let nw = e_width ne + 2; nh = e_height ne + 2
      in \<lparr>e_left = (if m \<le> nw - 2 then e_left ne else if to_left then e_left ne - (m - nw) else e_left ne),
          e_top = e_top ne, e_width = (if m \<le> nw - 2 then nw - 2 else m - 4), e_height = nh - 2,
          e_text = text, e_css = [(''color'', bullet_col)]\<rparr>)"

definition dash_elem :: "int \<Rightarrow> int \<Rightarrow> int \<Rightarrow> int \<Rightarrow> elem" where
  "dash_elem l t w h = \<lparr>e_left = l, e_top = t, e_width = w, e_height = h, e_text = [],
     e_css = [(''background-color'', ''fuchsia'')]\<rparr>"

definition h_dash :: "int \<Rightarrow> nat \<Rightarrow> nat \<Rightarrow> nat \<Rightarrow> elem option" where
  "h_dash sz rows col row =
     (if row = 0 then Some (dash_elem (sz * int col) (- 3) (sz - 2) 3)
      else if row + 1 = rows then Some (dash_elem (sz * int col) (sz * int rows - 2) (sz - 2) 3)
      else None)"

definition v_dash :: "int \<Rightarrow> nat \<Rightarrow> nat \<Rightarrow> nat \<Rightarrow> elem option" where
  "v_dash sz cols col row =
     (if col = 0 then Some (dash_elem (- 3) (sz * int row) 3 (sz - 2))
      else if col + 1 = cols then Some (dash_elem (sz * int cols - 2) (sz * int row) 3 (sz - 2))
      else None)"

definition add_popup :: "string \<Rightarrow> elem \<Rightarrow> hover \<Rightarrow> hover" where
  "add_popup k e hv = hv\<lparr>hv_popups := hv_popups hv @ [(k, e)]\<rparr>"

definition add_dash :: "string \<Rightarrow> elem option \<Rightarrow> hover \<Rightarrow> hover" where
  "add_dash k oe hv = (case oe of None \<Rightarrow> hv | Some e \<Rightarrow> add_popup k e hv)"

definition outline :: "app \<Rightarrow> string \<Rightarrow> hover \<Rightarrow> hover" where
  "outline s k hv = (if oget (page s) k = None then hv else hv\<lparr>hv_outlined := add_key k (hv_outlined hv)\<rparr>)"

text \<open>
  The source of a tunnel is outlined, or all tunnels of a source. \<open>measure\<close> gives the outer width of
  a label with a text; a dash has no id, the keys stand for its element.
\<close>

definition outline_tunnels :: "app \<Rightarrow> dev_id \<Rightarrow> device \<Rightarrow> if_name \<Rightarrow> iface \<Rightarrow> hover \<Rightarrow> hover" where
  "outline_tunnels s d dv i f hv = (case tunnelSrcIfName f of
      Some src \<Rightarrow> outline s (int_elm src d) hv
    | None \<Rightarrow> fold (\<lambda>(j, g) hv. if tunnelSrcIfName g = Some i then outline s (int_elm j d) hv else hv) (dev_ifs dv) hv)"

definition int_popup_label :: "(string \<Rightarrow> int) \<Rightarrow> app \<Rightarrow> if_name \<Rightarrow> dev_id \<Rightarrow> hover \<Rightarrow> hover run" where
  "int_popup_label text_width s i d hv =
     (if oget (hv_popups hv) (popup_elm i d) \<noteq> None then Halt hv
      else (case oget (page s) (name_elm d) of
          None \<Rightarrow> Halt hv
        | Some ne \<Rightarrow> (case oget (devs s) d of
            None \<Rightarrow> Threw TypeError hv
          | Some dv \<Rightarrow> (case (int_style i dv, oget (dev_ifs dv) i, oget (td_ifs (temp_of s d)) i) of
              (Inr st, Some f, Some t) \<Rightarrow>
                let cols = td_cols (temp_of s d); rows = td_rows (temp_of s d); sz = int_size s;
                    text = over_name_text st f;
                    to_left = (case (t_col t, t_row t) of
                      (Some c, Some r) \<Rightarrow> c + 1 = cols \<and> 0 < r \<and> r + 1 < rows | _ \<Rightarrow> False);
                    hv = add_popup (popup_elm i d) (name_label ne (text_width text) to_left (bullet_color st) text) hv;
                    hv = (case (t_col t, t_row t) of
                      (Some c, Some r) \<Rightarrow> add_dash (''v_dash_'' @ int_elm i d) (v_dash sz cols c r)
                        (add_dash (''h_dash_'' @ int_elm i d) (h_dash sz rows c r) hv)
                      | _ \<Rightarrow> hv)
                in Done (outline_tunnels s d dv i f hv)
            | _ \<Rightarrow> Threw TypeError hv))))"

definition highlight_leg :: "leg \<Rightarrow> hover \<Rightarrow> hover" where
  "highlight_leg l hv = (case leg_drawn l of
      None \<Rightarrow> hv
    | Some k \<Rightarrow> (case oget (hv_lines hv) k of
        None \<Rightarrow> hv
      | Some ln \<Rightarrow> hv\<lparr>hv_lines := oset k (highlight_line ln) (hv_lines hv)\<rparr>))"

definition link_highlight :: "(string \<Rightarrow> int) \<Rightarrow> app \<Rightarrow> link_id \<Rightarrow> hover \<Rightarrow> hover run" where
  "link_highlight text_width s lid hv = (case oget (connections s) lid of
      None \<Rightarrow> Threw TypeError hv
    | Some con \<Rightarrow>
        seq (called (int_popup_label text_width s (from_int con) (from_dev con) hv))
          (\<lambda>hv. seq (called (int_popup_label text_width s (to_int con) (to_dev con) hv))
            (\<lambda>hv. Done (fold highlight_leg (legs con) hv))))"

definition hover_links :: "app \<Rightarrow> dev_id \<Rightarrow> if_name \<Rightarrow> iface \<Rightarrow> link_id list" where
  "hover_links s d i f =
     (if site s \<noteq> ''l3'' \<and> if_l2_links f \<noteq> None then the (if_l2_links f)
      else if site s = ''l3'' then
        (case oget (td_ifs (temp_of s d)) i of None \<Rightarrow> []
         | Some t \<Rightarrow> (case t_l3_links t of None \<Rightarrow> [] | Some ls \<Rightarrow> ls))
      else [])"

definition hover_link :: "(string \<Rightarrow> int) \<Rightarrow> app \<Rightarrow> dev_id \<Rightarrow> if_name \<Rightarrow> link_id \<Rightarrow> hover \<Rightarrow> hover run" where
  "hover_link text_width s d i lid hv = (case oget (connections s) lid of
      None \<Rightarrow> Done hv
    | Some con \<Rightarrow> (case other_end con d i of
        None \<Rightarrow> Halt (hv\<lparr>hv_alerts := hv_alerts hv @ [''Connections error '' @ lid]\<rparr>)
      | Some (nd, ni) \<Rightarrow> seq (called (int_popup_label text_width s ni nd hv))
          (link_highlight text_width s lid)))"

text \<open>Without a drawn link on layer 3, all interfaces in the networks of the interface get a label.\<close>

definition hover_net_if :: "(string \<Rightarrow> int) \<Rightarrow> app \<Rightarrow> string \<times> l3_end \<Rightarrow> hover \<Rightarrow> hover run" where
  "hover_net_if text_width s ne hv =
     (let nd = l3_dev_id (snd ne); ni = l3_ifName (snd ne)
      in case oget (devs s) nd of
           None \<Rightarrow> Done hv
         | Some dv \<Rightarrow> (case interfaces dv of
             None \<Rightarrow> Threw TypeError hv
           | Some o1 \<Rightarrow>
               if oget o1 ni \<noteq> None \<and> oget (temp_devs s) nd \<noteq> None \<and> td_draw (temp_of s nd)
               then called (int_popup_label text_width s ni nd hv) else Done hv))"

definition interface_in :: "(string \<Rightarrow> int) \<Rightarrow> app \<Rightarrow> if_name \<Rightarrow> dev_id \<Rightarrow> hover \<Rightarrow> hover run" where
  "interface_in text_width s i d hv = (case oget (devs s) d of
      None \<Rightarrow> Threw TypeError hv
    | Some dv \<Rightarrow> (case oget (dev_ifs dv) i of
        None \<Rightarrow> Threw TypeError hv
      | Some f \<Rightarrow>
          let ls = hover_links s d i f
          in seq (called (int_popup_label text_width s i d hv))
            (\<lambda>hv. seq (each (hover_link text_width s d i) ls hv)
              (\<lambda>hv. if site s = ''l3'' \<and> ls = [] then
                  (case ips f of None \<Rightarrow> Done hv
                   | Some as \<Rightarrow> each (\<lambda>(ip, e) hv. case oget (l3_links s) (net e) of
                        None \<Rightarrow> Done hv | Some nt \<Rightarrow> each (hover_net_if text_width s) nt hv) as hv)
                else Done hv))))"

definition interface_out :: "app \<Rightarrow> hover \<Rightarrow> hover" where
  "interface_out s hv = hv\<lparr>hv_popups := [], hv_outlined := [],
     hv_lines := map (\<lambda>(k, ln). (k, unhighlight_line (lines_hidden s) ln)) (hv_lines hv)\<rparr>"

section \<open>Hovering leaves no trace\<close>

text \<open>The lines \<open>L\<close>, each highlighted as often as \<open>c\<close> says.\<close>

definition lit :: "(string \<Rightarrow> nat) \<Rightarrow> (string, svg_line) obj \<Rightarrow> (string, svg_line) obj" where
  "lit c L = map (\<lambda>(k, ln). (k, (highlight_line ^^ c k) ln)) L"

lemma oget_lit: "oget (lit c L) k = map_option (highlight_line ^^ c k) (oget L k)"
  by (induction L) (auto simp: lit_def)

lemma lit_none [simp]: "lit (\<lambda>k. 0) L = L"
  by (induction L) (auto simp: lit_def)

lemma okeys_lit [simp]: "okeys (lit c L) = okeys L"
  by (simp add: lit_def okeys_def case_prod_unfold comp_def)

lemma lit_cong: "(\<And>k. k \<in> set (okeys L) \<Longrightarrow> c k = c' k) \<Longrightarrow> lit c L = lit c' L"
  by (force simp: lit_def okeys_def)

lemma oset_lit: "owf L \<Longrightarrow> oget L k = Some ln \<Longrightarrow> oset k ((highlight_line ^^ Suc (c k)) ln) (lit c L) = lit (c(k := Suc (c k))) L"
proof (induction L)
  case (Cons a L)
  show ?case
  proof (cases "fst a = k")
    case True
    then have "k \<notin> set (okeys L)" using Cons.prems(1) by (cases a) (simp add: owf_def okeys_def)
    then have "lit (c(k := Suc (c k))) L = lit c L" by (intro lit_cong) auto
    then show ?thesis using True Cons.prems(2) by (cases a) (simp add: lit_def)
  next
    case False
    have "oset k ((highlight_line ^^ Suc (c k)) ln) (lit c L) = lit (c(k := Suc (c k))) L"
      using Cons.prems False by (intro Cons.IH; cases a) (auto simp: owf_def split: if_splits)
    then show ?thesis using False by (cases a) (simp add: lit_def)
  qed
qed simp

lemma lit_absent: "oget L k = None \<Longrightarrow> lit (c(k := n)) L = lit c L"
  by (rule lit_cong) (auto simp: oget_None_iff)

definition drawn_keys :: "app \<Rightarrow> link_id \<Rightarrow> string list" where
  "drawn_keys s lid = (case oget (connections s) lid of None \<Rightarrow> []
     | Some con \<Rightarrow> List.map_filter leg_drawn (legs con))"

lemma highlight_legs_lit:
  "owf L \<Longrightarrow> hv_lines hv = lit c L \<Longrightarrow>
    hv_lines (fold highlight_leg lgs hv) = lit (\<lambda>k. c k + count_list (List.map_filter leg_drawn lgs) k) L"
proof (induction lgs arbitrary: hv c)
  case (Cons l lgs)
  show ?case
  proof (cases "leg_drawn l")
    case None
    then show ?thesis using Cons.prems Cons.IH [of hv c] by (simp add: highlight_leg_def map_filter_simps)
  next
    case (Some k)
    have "hv_lines (highlight_leg l hv) = lit (c(k := Suc (c k))) L"
      using Cons.prems Some oset_lit [of L k _ c]
      by (auto simp: highlight_leg_def oget_lit lit_absent split: option.split)
    from Cons.IH [OF Cons.prems(1) this] show ?thesis
      using Some by (simp add: map_filter_simps) (rule lit_cong, simp)
  qed
qed (simp add: map_filter_simps)

lemma popup_lines [simp]: "hv_lines (run_state (int_popup_label text_width s i d hv)) = hv_lines hv"
proof -
  have "hv_lines (outline s k hv) = hv_lines hv" for k hv by (simp add: outline_def)
  then have o: "hv_lines (outline_tunnels s d dv i f hv) = hv_lines hv" for dv f hv
    by (simp add: outline_tunnels_def fold_view [of hv_lines] split: option.split prod.split)
  show ?thesis
    by (auto simp: int_popup_label_def add_popup_def add_dash_def Let_def o split: option.split sum.split)
qed

text \<open>
  A run that starts with the lines \<open>lit c L\<close> and highlights \<open>k\<close> at most \<open>h k\<close> times, exactly as often when it
  comes to its end.
\<close>

definition lit_by :: "(string, svg_line) obj \<Rightarrow> (string \<Rightarrow> nat) \<Rightarrow> (string \<Rightarrow> nat) \<Rightarrow> hover run \<Rightarrow> bool" where
  "lit_by L c h r \<longleftrightarrow> (\<exists>c'. hv_lines (run_state r) = lit c' L \<and> (\<forall>k. c' k \<le> c k + h k) \<and>
     (finished r \<longrightarrow> c' = (\<lambda>k. c k + h k)))"

lemma lit_by_none: "hv_lines (run_state r) = lit c L \<Longrightarrow> lit_by L c (\<lambda>k. 0) r"
  unfolding lit_by_def by (rule exI [of _ c]) simp

lemma lit_by_seq:
  assumes "lit_by L c h r" "\<And>hv. hv_lines hv = lit (\<lambda>k. c k + h k) L \<Longrightarrow> lit_by L (\<lambda>k. c k + h k) h' (f hv)"
  shows "lit_by L c (\<lambda>k. h k + h' k) (seq r f)"
proof -
  obtain c' where c': "hv_lines (run_state r) = lit c' L" "\<forall>k. c' k \<le> c k + h k" "finished r \<longrightarrow> c' = (\<lambda>k. c k + h k)"
    using assms(1) by (auto simp: lit_by_def)
  show ?thesis
  proof (cases r)
    case (Done hv)
    with c' assms(2) [of hv] show ?thesis by (simp add: lit_by_def add.assoc)
  qed (use c'(1,2) in \<open>auto simp: lit_by_def intro!: exI [of _ c'] intro: trans_le_add1 simp flip: add.assoc\<close>)
qed

lemma lit_by_each:
  assumes "\<And>x hv c. hv_lines hv = lit c L \<Longrightarrow> lit_by L c (h x) (f x hv)"
  shows "hv_lines hv = lit c L \<Longrightarrow> lit_by L c (\<lambda>k. \<Sum>x\<leftarrow>xs. h x k) (each f xs hv)"
proof (induction xs arbitrary: hv c)
  case (Cons x xs)
  have "lit_by L c (\<lambda>k. h x k + (\<Sum>x\<leftarrow>xs. h x k)) (seq (f x hv) (each f xs))"
    by (rule lit_by_seq [OF assms [OF Cons.prems] Cons.IH])
  then show ?case by simp
qed (simp add: lit_by_none)

lemma lit_by_popup: "hv_lines hv = lit c L \<Longrightarrow> lit_by L c (\<lambda>k. 0) (called (int_popup_label text_width s i d hv))"
  by (rule lit_by_none) simp

lemma lit_by_then:
  assumes "lit_by L c (\<lambda>k. 0) r" "\<And>hv. hv_lines hv = lit c L \<Longrightarrow> lit_by L c h (f hv)"
  shows "lit_by L c h (seq r f)"
  using lit_by_seq [of L c "\<lambda>k. 0" r h f] assms by simp

lemma link_highlight_lit:
  assumes L: "owf L" "hv_lines hv = lit c L" and con: "oget (connections s) lid = Some con"
  shows "lit_by L c (count_list (drawn_keys s lid)) (link_highlight text_width s lid hv)"
  unfolding link_highlight_def con option.case
proof (intro lit_by_then lit_by_popup)
  show "lit_by L c (count_list (drawn_keys s lid)) (Done (fold highlight_leg (legs con) hv))" if "hv_lines hv = lit c L" for hv
    using highlight_legs_lit [OF L(1) that, of "legs con"] con by (auto simp: lit_by_def drawn_keys_def)
qed (rule L)

lemma hover_link_lit:
  assumes L: "owf L" "hv_lines hv = lit c L"
  shows "lit_by L c (count_list (drawn_keys s lid)) (hover_link text_width s e i lid hv)"
proof (cases "oget (connections s) lid")
  case None
  then show ?thesis using L(2) by (auto simp: hover_link_def drawn_keys_def lit_by_def)
next
  case con: (Some con)
  show ?thesis
  proof (cases "other_end con e i")
    case None
    then show ?thesis using L con by (auto simp: hover_link_def lit_by_def intro!: exI [of _ c])
  next
    case (Some ne)
    obtain nd ni where ne: "ne = (nd, ni)" by (cases ne)
    have "lit_by L c (count_list (drawn_keys s lid))
        (seq (called (int_popup_label text_width s ni nd hv)) (link_highlight text_width s lid))"
      by (rule lit_by_then [OF lit_by_popup [OF L(2)] link_highlight_lit [OF L(1) _ con]])
    with con Some ne show ?thesis by (simp add: hover_link_def)
  qed
qed

lemma hover_net_lines: "hv_lines (run_state (each (hover_net_if text_width s) nt hv)) = hv_lines hv"
  by (rule each_view) (simp add: hover_net_if_def Let_def split: option.split)

text \<open>How often a line is in the list of links of an interface.\<close>

definition line_hits :: "app \<Rightarrow> dev_id \<Rightarrow> if_name \<Rightarrow> iface \<Rightarrow> string \<Rightarrow> nat" where
  "line_hits s d i f k = count_list (concat (map (drawn_keys s) (hover_links s d i f))) k"

lemma line_hits_sum: "line_hits s d i f = (\<lambda>k. \<Sum>lid\<leftarrow>hover_links s d i f. count_list (drawn_keys s lid) k)"
proof
  have "count_list (concat (map g xs)) k = (\<Sum>x\<leftarrow>xs. count_list (g x) k)" for g :: "link_id \<Rightarrow> string list" and xs k
    by (induction xs) simp_all
  then show "line_hits s d i f k = (\<Sum>lid\<leftarrow>hover_links s d i f. count_list (drawn_keys s lid) k)" for k
    by (simp add: line_hits_def)
qed

lemma interface_in_lit:
  assumes "owf (hv_lines hv)" "oget (devs s) d = Some dv" "oget (dev_ifs dv) i = Some f"
  shows "lit_by (hv_lines hv) (\<lambda>k. 0) (line_hits s d i f) (interface_in text_width s i d hv)"
proof -
  let ?ls = "hover_links s d i f" and ?L = "hv_lines hv"
  define last where "last = (\<lambda>hv. if site s = ''l3'' \<and> ?ls = [] then
                  (case ips f of None \<Rightarrow> Done hv
                   | Some as \<Rightarrow> each (\<lambda>(ip, e) hv. case oget (l3_links s) (net e) of
                        None \<Rightarrow> Done hv | Some nt \<Rightarrow> each (hover_net_if text_width s) nt hv) as hv)
                else Done hv)"
  have last: "hv_lines (run_state (last hv)) = hv_lines hv" for hv
    by (auto simp: last_def hover_net_lines intro!: each_view [of hv_lines] split: option.split)
  have "lit_by ?L c (\<lambda>k. line_hits s d i f k + 0) (seq (each (hover_link text_width s d i) ?ls hv1) last)"
    if "hv_lines hv1 = lit c ?L" for hv1 c
    unfolding line_hits_sum
    by (rule lit_by_seq [OF lit_by_each [OF hover_link_lit [OF assms(1)] that]]) (simp_all add: lit_by_none last)
  then have "lit_by ?L (\<lambda>k. 0) (line_hits s d i f)
      (seq (called (int_popup_label text_width s i d hv)) (\<lambda>hv. seq (each (hover_link text_width s d i) ?ls hv) last))"
    by (intro lit_by_then [OF lit_by_popup]) simp_all
  then show ?thesis using assms(2,3) by (simp add: interface_in_def Let_def last_def)
qed

text \<open>A line as \<open>draw_connection\<close> draws it: not highlighted, its stroke the recorded one and zero if lines are hidden.\<close>

definition plain_line :: "bool \<Rightarrow> svg_line \<Rightarrow> bool" where
  "plain_line hidden ln \<longleftrightarrow> \<not> sv_highlighted ln \<and> ln_stroke (sv_attrs ln) = sv_data_stroke ln \<and>
     (hidden \<longrightarrow> sv_data_stroke ln = 0)"

lemma highlights:
  "sv_w (sv_attrs ((highlight_line ^^ n) ln)) = sv_w (sv_attrs ln) + 3 * int n"
  "sv_data_stroke ((highlight_line ^^ n) ln) = sv_data_stroke ln"
  by (induction n) (simp_all add: highlight_line_def Let_def)

lemma unhighlight_again: "sv_attrs (unhighlight_line h ((highlight_line ^^ Suc n) ln)) =
    (sv_attrs ((highlight_line ^^ n) ln))\<lparr>ln_stroke := if h then 0 else sv_data_stroke ln\<rparr>"
  using highlights(2) [of n ln] by (simp add: unhighlight_line_def highlight_line_def Let_def)

lemma unhighlight_lit:
  assumes "plain_line h ln"
  shows "n \<le> 1 \<Longrightarrow> sv_attrs (unhighlight_line h ((highlight_line ^^ n) ln)) = sv_attrs ln"
    and "1 \<le> n \<Longrightarrow> sv_w (sv_attrs (unhighlight_line h ((highlight_line ^^ n) ln))) = sv_w (sv_attrs ln) + 3 * (int n - 1)"
proof -
  have e: "(sv_attrs ln)\<lparr>ln_stroke := if h then 0 else sv_data_stroke ln\<rparr> = sv_attrs ln" "unhighlight_line h ln = ln"
    using assms by (auto simp: plain_line_def unhighlight_line_def)
  show "sv_attrs (unhighlight_line h ((highlight_line ^^ n) ln)) = sv_attrs ln" if "n \<le> 1"
    using that e unhighlight_again [of h 0 ln] by (cases n) simp_all
  show "sv_w (sv_attrs (unhighlight_line h ((highlight_line ^^ n) ln))) = sv_w (sv_attrs ln) + 3 * (int n - 1)" if n: "1 \<le> n"
  proof -
    obtain m where m: "n = Suc m" using n by (cases n) simp_all
    show ?thesis unfolding m unhighlight_again by (simp add: highlights)
  qed
qed

text \<open>
  C19: when the pointer leaves an interface, nothing of what entering it showed remains: no label
  and no outline, and every line that is in the interface's list of links at most once has the
  attributes it had before, however the entering handler ended. A line that is listed more often, as
  for two address pairs between the same interfaces, keeps three pixels for each time too many.
\<close>

theorem hover_leaves_no_trace:
  assumes "owf (hv_lines hv)" "list_all (plain_line (lines_hidden s) \<circ> snd) (hv_lines hv)"
    and "oget (devs s) d = Some dv" "oget (dev_ifs dv) i = Some f"
    and r: "r = interface_in text_width s i d hv" and out: "hv' = interface_out s (run_state r)"
  shows "hv_popups hv' = [] \<and> hv_outlined hv' = [] \<and> okeys (hv_lines hv') = okeys (hv_lines hv) \<and>
    (\<forall>k ln. oget (hv_lines hv) k = Some ln \<longrightarrow> (\<exists>ln'. oget (hv_lines hv') k = Some ln' \<and>
      (line_hits s d i f k \<le> 1 \<longrightarrow> sv_attrs ln' = sv_attrs ln) \<and>
      (finished r \<and> 1 \<le> line_hits s d i f k \<longrightarrow>
        sv_w (sv_attrs ln') = sv_w (sv_attrs ln) + 3 * (int (line_hits s d i f k) - 1))))"
proof -
  obtain c where c: "hv_lines (run_state r) = lit c (hv_lines hv)" "\<forall>k. c k \<le> line_hits s d i f k"
      "finished r \<longrightarrow> c = line_hits s d i f"
    using interface_in_lit [OF assms(1,3,4), of text_width] by (auto simp: r lit_by_def)
  have m: "oget (map (\<lambda>(k, ln). (k, g ln)) L) k = map_option g (oget L k)" for g :: "svg_line \<Rightarrow> svg_line" and L k
    by (induction L) auto
  have o: "oget (hv_lines hv') k = map_option (\<lambda>ln. unhighlight_line (lines_hidden s) ((highlight_line ^^ c k) ln)) (oget (hv_lines hv) k)" for k
  proof -
    have "hv_lines hv' = map (\<lambda>(k, ln). (k, unhighlight_line (lines_hidden s) ln)) (lit c (hv_lines hv))"
      by (simp add: out interface_out_def c(1))
    then have "oget (hv_lines hv') k = map_option (unhighlight_line (lines_hidden s)) (oget (lit c (hv_lines hv)) k)"
      using m [of "unhighlight_line (lines_hidden s)" "lit c (hv_lines hv)" k] by (simp only:)
    then show ?thesis by (simp only: oget_lit option.map_comp comp_def)
  qed
  have "plain_line (lines_hidden s) ln" if "oget (hv_lines hv) k = Some ln" for k ln
    using map_of_SomeD [OF that] assms(2) by (auto simp: list_all_iff)
  then have "\<exists>ln'. oget (hv_lines hv') k = Some ln' \<and> (line_hits s d i f k \<le> 1 \<longrightarrow> sv_attrs ln' = sv_attrs ln) \<and>
      (finished r \<and> 1 \<le> line_hits s d i f k \<longrightarrow> sv_w (sv_attrs ln') = sv_w (sv_attrs ln) + 3 * (int (line_hits s d i f k) - 1))"
    if "oget (hv_lines hv) k = Some ln" for k ln
    using that unhighlight_lit c(2,3) order_trans [of "c k" "line_hits s d i f k" 1] by (simp add: o)
  moreover have "okeys (hv_lines hv') = okeys (hv_lines hv)"
    using okeys_lit [of c "hv_lines hv"] by (simp add: out interface_out_def c(1) okeys_def case_prod_unfold comp_def)
  ultimately show ?thesis by (simp add: out interface_out_def)
qed

definition ex_hover :: hover where
  "ex_hover = \<lparr>hv_popups = [], hv_outlined = [], hv_lines = [(''line_l1_leg_0'', svg_of (10, 20) (90, 70) 1)], hv_alerts = []\<rparr>"

definition ex_drawn :: app where
  "ex_drawn = ex_arr\<lparr>connections := [(''l1'', \<lparr>legs = [\<lparr>leg_ends = LDevdev ''r1'' ''e1'' ''r2'' ''e1'', leg_drawn = Some ''line_l1_leg_0''\<rparr>],
     con_tps = [], from_dev = ''r1'', from_int = ''e1'', to_dev = ''r2'', to_int = ''e1'', con_status = 1\<rparr>)]\<rparr>"

lemma hover_leaves_no_trace_witness:
  "\<exists>ln'. oget (hv_lines (interface_out ex_drawn (run_state (interface_in (\<lambda>_. 30) ex_drawn ''e1'' ''r1'' ex_hover)))) ''line_l1_leg_0'' = Some ln' \<and>
    sv_attrs ln' = sv_attrs (svg_of (10, 20) (90, 70) 1)"
proof -
  have "owf (hv_lines ex_hover)" by (simp add: ex_hover_def owf_def)
  moreover have "list_all (plain_line (lines_hidden ex_drawn) \<circ> snd) (hv_lines ex_hover)"
    by (simp add: ex_hover_def plain_line_def svg_of_def lines_hidden_def ex_drawn_def ex_arr_def app0_def split: prod.split)
  moreover have "oget (devs ex_drawn) ''r1'' = Some (ex_arr_dev [''e1'', ''e2''])" by code_simp
  moreover have "oget (dev_ifs (ex_arr_dev [''e1'', ''e2''])) ''e1'' = Some (iface0\<lparr>if_l2_links := Some [''l1'']\<rparr>)"
    by code_simp
  moreover have "line_hits ex_drawn ''r1'' ''e1'' (iface0\<lparr>if_l2_links := Some [''l1'']\<rparr>) ''line_l1_leg_0'' \<le> 1"
    by (simp add: line_hits_def hover_links_def drawn_keys_def ex_drawn_def ex_arr_def app0_def iface0_def map_filter_simps)
  moreover have "oget (hv_lines ex_hover) ''line_l1_leg_0'' = Some (svg_of (10, 20) (90, 70) 1)" by (simp add: ex_hover_def)
  ultimately show ?thesis using hover_leaves_no_trace [OF _ _ _ _ refl refl, of ex_hover ex_drawn] by blast
qed

end
