(* ===== verification/IfInfo.thy ===== *)
theory IfInfo
  imports Popup IfStyle "HOL-Library.Sublist"
begin

text \<open>
  The box at the top of the page while the pointer is over an interface (\<open>interface_in\<close>): its HTML with
  the pictures of the traffic and the labels of \<open>int_labels\<close>, the lines below it, and where it stands.
\<close>

section \<open>The box\<close>

record if_box =
  ib_html :: string
  ib_alias :: "string option"
  ib_ips :: "string list"
  ib_ifIndex :: "string option"
  ib_at :: info_place

text \<open>\<open>sec\<close> is the time in milliseconds, which keeps the browser from showing an old picture.\<close>

definition graph_src :: "string \<Rightarrow> string \<Rightarrow> string \<Rightarrow> int \<Rightarrow> nat \<Rightarrow> string" where
  "graph_src type safe_dev_id safe_int sec m = ''graph?type='' @ type @ ''&dev_id='' @ safe_dev_id @ ''&int='' @ safe_int @
     ''&small&'' @ int_str sec @ ''&max='' @ nat_str m"

definition graph_max :: "iface \<Rightarrow> nat" where
  "graph_max f = (case ifSpeed f of Some n \<Rightarrow> if n > 0 then n else 1000000000 | None \<Rightarrow> 1000000000)"

definition graph_imgs :: "string \<Rightarrow> string \<Rightarrow> int \<Rightarrow> iface \<Rightarrow> string" where
  "graph_imgs safe_dev_id safe_int sec f =
     ''<IMG src=\"'' @ graph_src ''int_io'' safe_dev_id safe_int sec (graph_max f) @ ''\"/>&nbsp;<IMG src=\"'' @
     graph_src ''int_pkts'' safe_dev_id safe_int sec (graph_max f div 12000) @ ''\"/>&nbsp;''"

definition int_info_html :: "string \<Rightarrow> string \<Rightarrow> int \<Rightarrow> bool \<Rightarrow> if_name \<Rightarrow> device \<Rightarrow> iface \<Rightarrow> exn + string" where
  "int_info_html safe_dev_id safe_int sec offline i dv f =
     map_sum id (\<lambda>ls. ifName f @ ''&nbsp;'' @
         (if \<not> dev_virtual dv \<and> \<not> offline then graph_imgs safe_dev_id safe_int sec f else []) @ ls @ ''&nbsp;'')
       (int_labels i (Some dv))"

definition box_ips :: "iface \<Rightarrow> string list" where
  "box_ips f = (case ips f of None \<Rightarrow> [] | Some a \<Rightarrow> map (\<lambda>(ip, e). ip @ ''/'' @ nat_str (masklen e)) a)"

text \<open>
  \<open>info_bottom\<close> gives the lower edge of the box with its contents; \<open>index\<close> is the \<open>ifIndex\<close> of the interface.
\<close>

definition interface_box :: "(if_box \<Rightarrow> int) \<Rightarrow> int \<Rightarrow> string \<Rightarrow> string \<Rightarrow> string option \<Rightarrow> int \<Rightarrow> bool \<Rightarrow> app \<Rightarrow> if_name \<Rightarrow> dev_id \<Rightarrow> exn + if_box" where
  "interface_box info_bottom scroll_top safe_dev_id safe_int index sec offline s i d = (case oget (devs s) d of
      None \<Rightarrow> Inl TypeError
    | Some dv \<Rightarrow> (case oget (dev_ifs dv) i of
        None \<Rightarrow> Inl TypeError
      | Some f \<Rightarrow> map_sum id (\<lambda>h.
          let b = \<lparr>ib_html = h, ib_alias = ifAlias f, ib_ips = box_ips f, ib_ifIndex = index, ib_at = InfoTop\<rparr>
          in case oget (page s) d of
               None \<Rightarrow> b
             | Some de \<Rightarrow> if info_bottom b \<ge> e_top de - scroll_top then b\<lparr>ib_at := InfoBottom\<rparr> else b)
          (int_info_html safe_dev_id safe_int sec offline i dv f)))"

section \<open>What reaches the HTML\<close>

text \<open>A text is part of another one (\<open>sublist\<close>) when what surrounds it does not matter.\<close>

lemma part_in: "sublist t s \<Longrightarrow> sublist t (u @ s @ v)"
  by (rule sublist_order.order_trans [OF _ sublist_appendI])

lemma part_left: "sublist t s \<Longrightarrow> sublist t (u @ s)"
  using part_in [of t s u "[]"] by simp

lemma part_right: "sublist t s \<Longrightarrow> sublist t (s @ v)"
  using part_in [of t s "[]" v] by simp

lemma part_concat: "s \<in> set xs \<Longrightarrow> sublist s (concat xs)"
  by (induction xs) (auto intro: part_left)

lemma part_join: "s \<in> set xs \<Longrightarrow> sublist s (join sep xs)"
  by (induction sep xs rule: join.induct) (auto intro: part_left)

lemma macs_keep: "k \<noteq> ''05_macs'' \<Longrightarrow> oget (macs_labels d f ls) k = oget ls k"
  by (auto simp: macs_labels_def split: option.split)

lemma lag_keep: "k \<noteq> ''06_lag'' \<Longrightarrow> k \<noteq> ''07_pagp'' \<Longrightarrow> oget (lag_labels f ls) k = oget ls k"
  by (auto simp: lag_labels_def)

lemma neig_keep: "k \<noteq> key \<Longrightarrow> oget (neig_labels key proto line cnt ns ls) k = oget ls k"
  by (auto simp: neig_labels_def split: option.split)

lemma label_shown:
  assumes "int_metrics i (Some dv) = Inr ls" "oget ls k = Some l"
  shows "\<exists>h. int_labels i (Some dv) = Inr h \<and> sublist (long_text l) h"
proof -
  have "k \<in> set (sort (okeys ls))" using oget_in_okeys [OF assms(2)] by simp
  then have "label_html l \<in> set (map (\<lambda>k. case oget ls k of None \<Rightarrow> '''' | Some l \<Rightarrow> label_html l) (sort (okeys ls)))"
    using assms(2) by force
  note m = part_concat [OF this]
  have "sublist (long_text l) (label_html l)"
    unfolding label_html_def by (rule sublist_append_rightI | rule part_left)+
  from sublist_order.order_trans [OF this m] show ?thesis by (simp add: int_labels_def assms(1))
qed

text \<open>
  C17: What an LLDP neighbour announces as its name, markup included, is part of the HTML of the box as it
  stands, also while a user only moves the pointer over the interface: nothing escapes it.
\<close>

theorem neighbour_name_unescaped:
  assumes "oget (devs s) d = Some dv" "oget (dev_ifs dv) i = Some f"
    and "lldp_count f = Some n" "port_neigs (dev_lldp_ports dv) (lldp_portIndex f) = Some ns"
    and "(k, nb) \<in> set (take 10 ns)" "oget (nei_text nb) ''RemSysName'' = Some t"
  shows "\<exists>b. interface_box info_bottom scroll_top safe_dev_id safe_int index sec offline s i d = Inr b \<and> sublist t (ib_html b)"
proof -
  have "sublist t (lldp_line nb)"
    unfolding lldp_line_def Let_def assms(6) undef_str_def option.case by (rule sublist_append_rightI | rule part_left)+
  moreover have "lldp_line nb \<in> set (neigs_list lldp_line ns)" using assms(5) by (force simp: neigs_list_def)
  ultimately have j: "sublist t (join ''\<newline>'' (neigs_list lldp_line ns))"
    by (rule sublist_order.order_trans [OF _ part_join])
  obtain ls where ls: "int_metrics i (Some dv) = Inr ls" by (simp add: int_metrics_def assms(2))
  define l where "l = mk_label (''LLDP&nbsp;'' @ nat_str n) (nat_str n @ ''&nbsp;LLDP Neighbours\<newline>'' @ join ''\<newline>'' (neigs_list lldp_line ns)) ''#FFCCFF''"
  have o: "oget ls ''04_0lldp'' = Some l"
    using ls by (auto simp: int_metrics_def assms(2-4) lag_keep macs_keep neig_keep) (simp add: neig_labels_def l_def)
  have "sublist t (long_text l)" unfolding l_def mk_label_def label.simps by (rule j | rule part_left)+
  then obtain h where h: "int_labels i (Some dv) = Inr h" "sublist t h"
    using label_shown [OF ls o] sublist_order.order_trans by blast
  have "sublist t (x @ y @ z @ h @ v)" for x y z v by (rule part_left, rule part_left, rule part_left, rule part_right, rule h(2))
  then have "\<exists>g. int_info_html safe_dev_id safe_int sec offline i dv f = Inr g \<and> sublist t g"
    unfolding int_info_html_def h(1) map_sum.simps by (intro exI conjI) (rule refl, assumption)
  then show ?thesis by (auto simp: interface_box_def assms(1,2) Let_def split: option.split)
qed


text \<open>A neighbour that closes the title of the label and starts an element of its own.\<close>

definition ex_neighbour :: neighbour where
  "ex_neighbour = \<lparr>nei_text = [(''RemSysName'', ''\"><b>''), (''RemPortId'', ''e2'')], RemMgmtAddr = None\<rparr>"

definition ex_lldp_if :: iface where
  "ex_lldp_if = iface0\<lparr>ifName := ''e1'', lldp_count := Some 1, lldp_portIndex := Some ''1''\<rparr>"

definition ex_lldp_dev :: device where
  "ex_lldp_dev = device0\<lparr>interfaces := Some [(''e1'', ex_lldp_if)],
     dev_lldp_ports := Some [(''1'', \<lparr>port_ifName = Some ''e1'', port_neighbours = Some [(''n'', ex_neighbour)]\<rparr>)]\<rparr>"

lemma neighbour_name_unescaped_witness:
  "\<exists>b. interface_box (\<lambda>_. 90) 0 ''r1'' ''e1'' None 5 False (app0\<lparr>devs := [(''r1'', ex_lldp_dev)]\<rparr>) ''e1'' ''r1'' = Inr b \<and>
     sublist ''\"><b>'' (ib_html b)"
proof (rule neighbour_name_unescaped)
  show "oget (devs (app0\<lparr>devs := [(''r1'', ex_lldp_dev)]\<rparr>)) ''r1'' = Some ex_lldp_dev" by simp
  show "oget (dev_ifs ex_lldp_dev) ''e1'' = Some ex_lldp_if" by (simp add: ex_lldp_dev_def dev_ifs_def)
  show "lldp_count ex_lldp_if = Some 1" by (simp add: ex_lldp_if_def)
  show "port_neigs (dev_lldp_ports ex_lldp_dev) (lldp_portIndex ex_lldp_if) = Some [(''n'', ex_neighbour)]"
    by (simp add: ex_lldp_dev_def ex_lldp_if_def port_neigs_def)
  show "(''n'', ex_neighbour) \<in> set (take 10 [(''n'', ex_neighbour)])" by simp
  show "oget (nei_text ex_neighbour) ''RemSysName'' = Some ''\"><b>''" by (simp add: ex_neighbour_def)
qed

end
