(* ===== verification/Queries.thy ===== *)
theory Queries
  imports TextFns
begin

text \<open>
  What every part of the page talks to the server and to the user with: \<open>run_query\<close> and
  \<open>auth_check\<close>, the questions before an action (\<open>show_confirm\<close>, \<open>show_confirm_checkbox\<close>), the
  fields that search while one types (\<open>inputStop\<close>), and what the browser keeps for a user
  (\<open>save_local\<close>, \<open>get_local\<close>, \<open>del_local\<close>). Fixed texts of dialogs are named by constructors.
\<close>

section \<open>Queries\<close>

text \<open>The \<open>ok\<close> of an answer: a text, or an object, of which the check reads \<open>fail\<close> and \<open>userinfo\<close>.\<close>

datatype 'a ok_value = OkText string | OkAnswer "string option" "(string \<times> string) option" 'a

text \<open>\<open>json\<close> is the answer printed by \<open>JSON.stringify\<close>; an error that is not a text is printed too.\<close>

record 'a reply =
  an_ok :: "'a ok_value option"
  an_auth_url :: "string option"
  an_error :: "string option"
  an_json :: string

datatype 'a got = Got "'a reply" | Lost "string option"

datatype 'a effect =
    Calls "'a reply" | CallsBare | AsksFile
  | GoesTo string | SessionOver | NoAccess string string
  | ShowsError string | ShowsAjaxError string | RedIndicator

definition auth_check :: "(string \<Rightarrow> string) \<Rightarrow> string \<Rightarrow> 'a reply \<Rightarrow> 'a ok_value \<Rightarrow> exn + 'a effect list \<times> bool" where
  "auth_check encode location res ok = (case ok of
      OkText t \<Rightarrow>
        if t = ''noauth'' then (case an_auth_url res of
            Some u \<Rightarrow> Inr ([GoesTo (u @ encode location)], False)
          | None \<Rightarrow> Inr ([SessionOver], False))
        else Inr ([], True)
    | OkAnswer fail ui a \<Rightarrow>
        if fail = Some ''noaccess'' then (case ui of
            None \<Rightarrow> Inl TypeError
          | Some (name, login) \<Rightarrow> Inr ([NoAccess name login], False))
        else Inr ([], True))"

definition answered :: "(string \<Rightarrow> string) \<Rightarrow> string \<Rightarrow> bool \<Rightarrow> 'a got \<Rightarrow> exn + 'a effect list" where
  "answered encode location has_func g = (case g of
      Got res \<Rightarrow> (case an_ok res of
          Some ok \<Rightarrow> map_sum id (\<lambda>(es, go). if \<not> go then es else if has_func then [Calls res] else []) (auth_check encode location res ok)
        | None \<Rightarrow> Inr [ShowsError (case an_error res of Some e \<Rightarrow> e | None \<Rightarrow> an_json res), RedIndicator])
    | Lost t \<Rightarrow> Inr [ShowsAjaxError (case t of Some x \<Rightarrow> x | None \<Rightarrow> []), RedIndicator])"

text \<open>Without a query the callback runs at once, without an argument.\<close>

definition run_query :: "bool \<Rightarrow> (string \<Rightarrow> string) \<Rightarrow> string \<Rightarrow> 'q option \<Rightarrow> bool \<Rightarrow> ('q \<Rightarrow> 'a got) \<Rightarrow> exn + 'a effect list" where
  "run_query offline encode location q has_func server =
     (if offline then Inr [AsksFile]
      else case q of
          None \<Rightarrow> Inr (if has_func then [CallsBare] else [])
        | Some q \<Rightarrow> answered encode location has_func (server q))"

section \<open>Questions\<close>

datatype answer_op = Cancels | Executes | Ticks bool

datatype call = Func | CancelFunc

record question =
  qu_open :: bool
  qu_done :: bool
  qu_ticked :: bool
  qu_calls :: "call list"

definition ask :: question where
  "ask = \<lparr>qu_open = True, qu_done = False, qu_ticked = False, qu_calls = []\<rparr>"

text \<open>Closing, by a button, the cross or Escape: the handler runs the second function unless it is done.\<close>

definition close_question :: "bool \<Rightarrow> question \<Rightarrow> question" where
  "close_question has_cancel u =
     u\<lparr>qu_open := False, qu_calls := qu_calls u @ (if has_cancel \<and> \<not> qu_done u then [CancelFunc] else [])\<rparr>"

definition show_confirm :: "bool \<Rightarrow> answer_op \<Rightarrow> question \<Rightarrow> question" where
  "show_confirm has_cancel op u =
     (if \<not> qu_open u then u
      else case op of
          Cancels \<Rightarrow> close_question has_cancel u
        | Executes \<Rightarrow> (let u = close_question has_cancel (u\<lparr>qu_done := True\<rparr>) in u\<lparr>qu_calls := qu_calls u @ [Func]\<rparr>)
        | Ticks b \<Rightarrow> u)"

definition show_confirm_checkbox :: "answer_op \<Rightarrow> question \<Rightarrow> question" where
  "show_confirm_checkbox op u =
     (if \<not> qu_open u then u
      else case op of
          Cancels \<Rightarrow> u\<lparr>qu_open := False\<rparr>
        | Executes \<Rightarrow> if qu_ticked u then u\<lparr>qu_open := False, qu_calls := qu_calls u @ [Func]\<rparr> else u
        | Ticks b \<Rightarrow> u\<lparr>qu_ticked := b\<rparr>)"

definition ask_checkbox :: "bool \<Rightarrow> question" where
  "ask_checkbox skip = (if skip then ask\<lparr>qu_open := False, qu_calls := [Func]\<rparr> else ask)"

section \<open>Searching while one types\<close>

text \<open>
  A key that is pressed stops the timer, a change of the text starts it anew; \<open>Passes\<close> is time
  without either. Most keys do both, in this order.
\<close>

datatype type_op = KeyDown | Input | Passes nat

record typing =
  ty_timer :: "nat option"
  ty_stops :: nat

definition inputStop :: "nat \<Rightarrow> type_op \<Rightarrow> typing \<Rightarrow> typing" where
  "inputStop timeout op t = (case op of
      KeyDown \<Rightarrow> t\<lparr>ty_timer := None\<rparr>
    | Input \<Rightarrow> t\<lparr>ty_timer := Some timeout\<rparr>
    | Passes n \<Rightarrow> (case ty_timer t of
          None \<Rightarrow> t
        | Some k \<Rightarrow> if k \<le> n then t\<lparr>ty_timer := None, ty_stops := Suc (ty_stops t)\<rparr> else t\<lparr>ty_timer := Some (k - n)\<rparr>))"

definition types :: "nat \<Rightarrow> type_op list \<Rightarrow> typing \<Rightarrow> typing" where
  "types timeout ops t = fold (inputStop timeout) ops t"

section \<open>What the browser keeps\<close>

text \<open>
  The page keeps truth values only; the JSON of any other value stands for itself, and \<open>other\<close> reads
  the texts that are none of the four words. \<open>setItem\<close> turns \<open>undefined\<close> into its name.
\<close>

datatype js_value = VUndef | VNull | VBool bool | VOther string

definition stringify :: "js_value \<Rightarrow> string" where
  "stringify v = (case v of VUndef \<Rightarrow> ''undefined'' | VNull \<Rightarrow> ''null'' | VBool b \<Rightarrow> if b then ''true'' else ''false'' | VOther t \<Rightarrow> t)"

definition json_parse :: "(string \<Rightarrow> js_value option) \<Rightarrow> string \<Rightarrow> js_value option" where
  "json_parse other t =
     (if t = ''true'' then Some (VBool True) else if t = ''false'' then Some (VBool False)
      else if t = ''null'' then Some VNull else if t = ''undefined'' then None else other t)"

type_synonym storage = "(string, string) obj"

definition local_key :: "string \<Rightarrow> string \<Rightarrow> string" where
  "local_key user key = key @ ''_'' @ user"

definition save_local :: "string \<Rightarrow> string \<Rightarrow> js_value \<Rightarrow> storage \<Rightarrow> storage" where
  "save_local user key v st = oset (local_key user key) (stringify v) st"

definition get_local :: "(string \<Rightarrow> js_value option) \<Rightarrow> string \<Rightarrow> string \<Rightarrow> js_value \<Rightarrow> storage \<Rightarrow> js_value" where
  "get_local other user key on_error st = (case oget st (local_key user key) of
      None \<Rightarrow> on_error
    | Some js \<Rightarrow> if js = ''null'' then on_error else (case json_parse other js of None \<Rightarrow> on_error | Some v \<Rightarrow> v))"

text \<open>By a name, or by a regular expression for the whole key, with the user in it.\<close>

datatype local_pattern = ByName string | ByRegExp "string \<Rightarrow> bool"

definition del_local :: "string \<Rightarrow> local_pattern \<Rightarrow> storage \<Rightarrow> storage" where
  "del_local user p st = (case p of
      ByName key \<Rightarrow> odel (local_key user key) st
    | ByRegExp m \<Rightarrow> fold odel (filter m (okeys st)) st)"

text \<open>The keys of the page: the menu, the lock of the selection, the graphs and the orders of two reports.\<close>

definition page_keys :: "string list" where
  "page_keys = [''show_menu'', ''allow_select'', ''graph_compact'', ''inventory_order'', ''summary_order'']"

section \<open>Facts\<close>

lemma calls_only_when_ok: "answered encode location has_func g = Inr es \<Longrightarrow> Calls res \<in> set es \<Longrightarrow>
    g = Got res \<and> has_func \<and> es = [Calls res] \<and> (\<exists>ok. an_ok res = Some ok \<and> (\<forall>fail ui a. ok = OkAnswer fail ui a \<longrightarrow> fail \<noteq> Some ''noaccess''))"
  by (auto simp: answered_def auth_check_def split: got.splits option.splits ok_value.splits if_splits)

lemma confirm_closed: "\<not> qu_open u \<Longrightarrow> fold (show_confirm c) ops u = u"
  by (induction ops) (simp_all add: show_confirm_def)

definition answers :: "answer_op \<Rightarrow> bool" where
  "answers op = (case op of Ticks b \<Rightarrow> False | _ \<Rightarrow> True)"

text \<open>However often its buttons are clicked, a question runs one function, that of the first answer.\<close>

lemma confirmed_once: "qu_calls (fold (show_confirm has_cancel) ops ask) = (case find answers ops of
    None \<Rightarrow> [] | Some op \<Rightarrow> if op = Executes then [Func] else if has_cancel then [CancelFunc] else [])"
proof (induction ops)
  case (Cons op ops)
  show ?case
  proof (cases op)
    case (Ticks b)
    then have "show_confirm has_cancel op ask = ask" by (simp add: show_confirm_def ask_def)
    with Cons Ticks show ?thesis by (simp add: answers_def)
  next
    case Cancels
    then have "\<not> qu_open (show_confirm has_cancel op ask)" by (simp add: show_confirm_def ask_def close_question_def)
    then show ?thesis using Cancels by (simp add: confirm_closed) (simp add: answers_def show_confirm_def ask_def close_question_def)
  next
    case Executes
    then have "\<not> qu_open (show_confirm has_cancel op ask)" by (simp add: show_confirm_def ask_def close_question_def)
    then show ?thesis using Executes by (simp add: confirm_closed) (simp add: answers_def show_confirm_def ask_def close_question_def)
  qed
qed (simp add: ask_def)

lemma checkbox_closed: "\<not> qu_open u \<Longrightarrow> fold show_confirm_checkbox ops u = u"
  by (induction ops) (simp_all add: show_confirm_checkbox_def)

lemma checkbox_needs_tick: "Func \<in> set (qu_calls (fold show_confirm_checkbox ops ask)) \<Longrightarrow> Ticks True \<in> set ops"
proof -
  have n: "\<not> qu_ticked u \<Longrightarrow> qu_calls u = [] \<Longrightarrow> Ticks True \<notin> set ops \<Longrightarrow> qu_calls (fold show_confirm_checkbox ops u) = []" for u
  proof (induction ops arbitrary: u)
    case (Cons op ops)
    then show ?case by (cases op) (auto simp: show_confirm_checkbox_def)
  qed simp
  have a: "\<not> qu_ticked ask" "qu_calls ask = []" by (simp_all add: ask_def)
  show "Func \<in> set (qu_calls (fold show_confirm_checkbox ops ask)) \<Longrightarrow> Ticks True \<in> set ops"
    using n [OF a] by (cases "Ticks True \<in> set ops") simp_all
qed

lemma local_saved: "get_local other user key on_error (save_local user key (VBool b) st) = VBool b"
  by (simp add: get_local_def save_local_def stringify_def json_parse_def)

lemma local_null: "get_local other user key on_error (save_local user key VNull st) = on_error"
    "get_local other user key on_error (save_local user key VUndef st) = on_error"
  by (simp_all add: get_local_def save_local_def stringify_def json_parse_def)

lemma page_keys_apart:
  assumes "k \<in> set page_keys" "k' \<in> set page_keys"
  shows "local_key u k = local_key u' k' \<longleftrightarrow> u = u' \<and> k = k'"
proof -
  have p: "list_all (\<lambda>k. 3 \<le> length k \<and> list_all (\<lambda>k'. take 3 k = take 3 k' \<longrightarrow> k = k') page_keys) page_keys" by code_simp
  have l: "3 \<le> length k" "3 \<le> length k'" and d: "take 3 k = take 3 k' \<Longrightarrow> k = k'"
    using p assms unfolding list_all_iff by blast+
  have "take 3 (local_key u k) = take 3 k" "take 3 (local_key u' k') = take 3 k'" using l by (simp_all add: local_key_def)
  then have "local_key u k = local_key u' k' \<Longrightarrow> k = k'" using d by (simp only:)
  then show ?thesis by (auto simp: local_key_def)
qed

text \<open>What is kept for one user and one of the keys of the page is seen under no other.\<close>

lemma local_settings_apart:
  assumes "k \<in> set page_keys" "k' \<in> set page_keys"
  shows "get_local other u' k' e (save_local u k (VBool b) st) = (if u' = u \<and> k' = k then VBool b else get_local other u' k' e st)"
proof (cases "u' = u \<and> k' = k")
  case True
  then show ?thesis by (simp add: local_saved)
next
  case False
  then have "local_key u' k' \<noteq> local_key u k" using page_keys_apart [OF assms(2,1)] by blast
  then have "oget (save_local u k (VBool b) st) (local_key u' k') = oget st (local_key u' k')" by (simp add: save_local_def)
  then show ?thesis unfolding get_local_def by (simp only: if_not_P [OF False])
qed

lemma oget_fold_odel: "oget (fold odel ks st) k = (if k \<in> set ks then None else oget st k)"
  by (induction ks arbitrary: st) auto

text \<open>A regular expression deletes what it matches of every user.\<close>

lemma del_local_users: "oget (del_local user (ByRegExp m) st) k = (if m k then None else oget st k)"
proof -
  have "oget (del_local user (ByRegExp m) st) k = (if k \<in> set (filter m (okeys st)) then None else oget st k)"
    by (simp only: del_local_def local_pattern.case oget_fold_odel)
  then show ?thesis using oget_None_iff [of st k] by auto
qed

section \<open>One search for what is typed\<close>

definition still :: "type_op \<Rightarrow> bool" where
  "still op = (case op of Passes n \<Rightarrow> True | _ \<Rightarrow> False)"

definition passed :: "type_op list \<Rightarrow> nat" where
  "passed ops = sum_list (map (\<lambda>op. case op of Passes n \<Rightarrow> n | _ \<Rightarrow> 0) ops)"

lemma passed_simps [simp]: "passed [] = 0" "passed (Passes n # ops) = n + passed ops" "still (Passes n)" "\<not> still KeyDown" "\<not> still Input"
  by (simp_all add: passed_def still_def)

lemma types_simps [simp]: "types w [] t = t" "types w (op # ops) t = types w ops (inputStop w op t)"
    "types w (xs @ ys) t = types w ys (types w xs t)"
  by (simp_all add: types_def)

lemma idle: "list_all still ops \<Longrightarrow> ty_timer t = None \<Longrightarrow> types w ops t = t"
proof (induction ops)
  case (Cons op ops)
  then show ?case by (cases op) (simp_all add: inputStop_def)
qed simp

lemma waits: "list_all still ops \<Longrightarrow> ty_timer t = Some k \<Longrightarrow> 0 < k \<Longrightarrow>
    types w ops t = (if passed ops < k then t\<lparr>ty_timer := Some (k - passed ops)\<rparr> else t\<lparr>ty_timer := None, ty_stops := Suc (ty_stops t)\<rparr>)"
proof (induction ops arbitrary: t k)
  case (Cons op ops)
  then obtain n where n: "op = Passes n" by (cases op) simp_all
  show ?case
  proof (cases "k \<le> n")
    case True
    with Cons.prems n idle [of ops "t\<lparr>ty_timer := None, ty_stops := Suc (ty_stops t)\<rparr>" w] show ?thesis by (simp add: inputStop_def)
  next
    case False
    with Cons.prems n Cons.IH [of "t\<lparr>ty_timer := Some (k - n)\<rparr>" "k - n"] show ?thesis by (auto simp: inputStop_def)
  qed
qed simp

definition owed :: "typing \<Rightarrow> nat" where
  "owed t = ty_stops t + (if ty_timer t = None then 0 else 1)"

definition inputs :: "type_op list \<Rightarrow> nat" where
  "inputs ops = length (filter (\<lambda>op. op = Input) ops)"

lemma owed_step: "owed (inputStop w op t) \<le> owed t + inputs [op]"
  by (cases op) (simp_all add: inputStop_def owed_def inputs_def split: option.split)

lemma searches_bounded: "owed (types w ops t) \<le> owed t + inputs ops"
proof (induction ops arbitrary: t)
  case (Cons op ops)
  have "inputs (op # ops) = inputs [op] + inputs ops" by (simp add: inputs_def)
  with Cons.IH [of "inputStop w op t"] owed_step [of w op t] show ?case by (simp only: types_simps)
qed simp

text \<open>
  After a change of the text the search runs exactly once, when the field has been left alone for the
  time set; and it never runs when a key that changes nothing is pressed before that.
\<close>

theorem search_after_typing:
  assumes "0 < timeout" "list_all still ops" "list_all still ops'"
  shows "ty_stops (types timeout (before @ Input # ops) t) =
      ty_stops (types timeout before t) + (if timeout \<le> passed ops then 1 else 0) \<and>
    (passed ops < timeout \<longrightarrow> ty_stops (types timeout (before @ Input # ops @ KeyDown # ops') t) = ty_stops (types timeout before t))"
proof -
  define u where "u = inputStop timeout Input (types timeout before t)"
  have u: "ty_timer u = Some timeout" "ty_stops u = ty_stops (types timeout before t)" by (simp_all add: u_def inputStop_def)
  have w: "types timeout ops u = (if passed ops < timeout then u\<lparr>ty_timer := Some (timeout - passed ops)\<rparr>
      else u\<lparr>ty_timer := None, ty_stops := Suc (ty_stops u)\<rparr>)"
    using waits [OF assms(2) u(1) assms(1)] by simp
  have i: "types timeout ops' (inputStop timeout KeyDown v) = inputStop timeout KeyDown v" for v
    by (rule idle [OF assms(3)]) (simp add: inputStop_def)
  have "ty_stops (types timeout ops u) = ty_stops u + (if timeout \<le> passed ops then 1 else 0)" by (simp add: w)
  moreover have "passed ops < timeout \<Longrightarrow> ty_stops (types timeout ops' (inputStop timeout KeyDown (types timeout ops u))) = ty_stops u"
    by (simp add: i) (simp add: w inputStop_def)
  ultimately show ?thesis by (simp add: u_def [symmetric] u(2))
qed

lemma search_after_typing_witness:
  "ty_stops (types 500 ([Input, Passes 100] @ Input # [Passes 300, Passes 300]) \<lparr>ty_timer = None, ty_stops = 0\<rparr>) = 1 \<and>
   ty_stops (types 500 ([Input, Passes 100] @ Input # [Passes 300] @ KeyDown # [Passes 600]) \<lparr>ty_timer = None, ty_stops = 0\<rparr>) = 0"
  using search_after_typing [of 500 "[Passes 300, Passes 300]" "[]" "[Input, Passes 100]" "\<lparr>ty_timer = None, ty_stops = 0\<rparr>"]
    search_after_typing [of 500 "[Passes 300]" "[Passes 600]" "[Input, Passes 100]" "\<lparr>ty_timer = None, ty_stops = 0\<rparr>"]
  by (simp add: inputStop_def)

end
