(* ===== verification/MapOps.thy ===== *)
theory MapOps
  imports Draw
begin

text \<open>
  What the user does with the map: loading, moving devices one by one or together, taking them
  from the side list and putting them back, inserting, removing and dragging turnpoints, and
  what each of these stores (\<open>save_map\<close>).
\<close>

section \<open>Storing: \<open>save_map\<close>\<close>

text \<open>\<open>md[key][id]\<close> and \<open>md[key]\<close> for the parts that are stored separately.\<close>

definition md_item :: "map_data \<Rightarrow> string \<Rightarrow> string \<Rightarrow> saved option" where
  "md_item md key i =
     (if key = ''loc'' then map_option SLoc (oget (map_loc md) i)
      else if key = ''tps'' then map_option STps (oget (map_tps md) i)
      else if key = ''colors'' then map_option SColor (oget (map_colors md) i)
      else None)"

definition md_part :: "map_data \<Rightarrow> string \<Rightarrow> saved option" where
  "md_part md key =
     (if key = ''loc'' then Some (SAllLoc (map_loc md))
      else if key = ''tps'' then Some (SAllTps (map_tps md))
      else if key = ''colors'' then Some (SAllColors (map_colors md))
      else None)"

definition save_query :: "app \<Rightarrow> string option \<Rightarrow> string option \<Rightarrow> string option \<Rightarrow> map_data option option \<Rightarrow> query" where
  "save_query s key i fk md =
     (let whole = (case md of None \<Rightarrow> Some (map_data s) | Some m \<Rightarrow> m);
          m = (case whole of None \<Rightarrow> map_data0 | Some m \<Rightarrow> m);
          save_fk = (case fk of None \<Rightarrow> file_key s | Some f \<Rightarrow> f);
          q = (case (key, i) of
                 (Some k, Some j) \<Rightarrow> (case md_item m k j of
                     Some v \<Rightarrow> SaveKeyId k j save_fk v
                   | None \<Rightarrow> DelKeyId k j save_fk)
               | (Some k, None) \<Rightarrow> (case md_part m k of
                     Some v \<Rightarrow> SaveKey k save_fk v
                   | None \<Rightarrow> DelKey k save_fk)
               | (None, _) \<Rightarrow> SaveMap save_fk (SMap whole))
      in if default_map s \<and> save_fk = [] then SaveMap save_fk (SMap whole) else q)"

definition save_map :: "string option \<Rightarrow> string option \<Rightarrow> string option \<Rightarrow> map_data option option \<Rightarrow> app \<Rightarrow> app" where
  "save_map key i fk md s =
     (if \<not> enable_save s then s\<lparr>g_unsaved := True\<rparr>
      else s\<lparr>sent := sent s @ [save_query s key i fk md]\<rparr>)"

text \<open>The answer of the server: the user's own layout now exists.\<close>

definition save_done :: "string option \<Rightarrow> app \<Rightarrow> app" where
  "save_done fk s = (if fk = None then s\<lparr>g_unsaved := False\<rparr> else s)\<lparr>default_map := False\<rparr>"

section \<open>Redrawing after a change\<close>

definition forget_arranged :: "app \<Rightarrow> app" where
  "forget_arranged s = s\<lparr>arranged := [], rearranged := []\<rparr>"

definition redraw :: "app \<Rightarrow> app run" where
  "redraw s = seq (rearrange_all (forget_arranged s)) draw_all"

section \<open>Turnpoints on the page\<close>

definition set_tps :: "link_id \<Rightarrow> tps option \<Rightarrow> app \<Rightarrow> app" where
  "set_tps lid ot s = (let md = map_data s in
     s\<lparr>map_data := md\<lparr>map_tps := (case ot of None \<Rightarrow> odel lid (map_tps md) | Some t \<Rightarrow> oset lid t (map_tps md))\<rparr>\<rparr>)"

definition link_tps :: "app \<Rightarrow> link_id \<Rightarrow> tps option" where
  "link_tps s lid = oget (map_tps (map_data s)) lid"

text \<open>What follows a change of a link's turnpoints: it is saved and the link is built anew.\<close>

definition rebuild_link :: "(string \<Rightarrow> string \<Rightarrow> int) \<Rightarrow> link_id \<Rightarrow> app \<Rightarrow> app run" where
  "rebuild_link lc lid s =
     (let s = save_map (Some ''tps'') (Some lid) None None s;
          s = s\<lparr>connections := odel lid (connections s)\<rparr>
      in seq (build_connections lc s) redraw)"

definition tp_grid_offset :: "app \<Rightarrow> int" where
  "tp_grid_offset s = int_size s div 2"

text \<open>
  \<open>new_tp\<close>: \<open>cx\<close> and \<open>cy\<close> are the centre stored with the button. The buttons of the turnpoints
  are looked up by \<open>tp_\<close> and the number alone, which is not the id they have.
\<close>

definition new_tp_clear :: "link_id \<Rightarrow> app \<Rightarrow> app" where
  "new_tp_clear lid s =
     (let s = clear_legs lid s in
      case link_tps s lid of
        None \<Rightarrow> s
      | Some t \<Rightarrow> fold (\<lambda>k s. s\<lparr>page := odel (''tp_'' @ nat_str k) (page s)\<rparr>) (okeys t) s)"

definition new_tp :: "(string \<Rightarrow> string \<Rightarrow> int) \<Rightarrow> link_id \<Rightarrow> nat \<Rightarrow> int \<Rightarrow> int \<Rightarrow> app \<Rightarrow> app run" where
  "new_tp lc lid l cx cy s =
     (let s = s\<lparr>page := odel (new_tp_elm lid l) (page s)\<rparr>;
          cx = snap (int_size s) cx + tp_grid_offset s;
          cy = snap (int_size s) cy + tp_grid_offset s
      in case oget (connections s) lid of
           None \<Rightarrow> Threw TypeError s
         | Some con \<Rightarrow>
             let s = new_tp_clear lid s
             in if length (legs con) \<le> l then Threw TypeError s
                else (case new_tp_tps cx cy (leg_ends (legs con ! l)) (link_tps s lid) of
                    Halt ot \<Rightarrow> Halt (error_at ''Invalid leg type'' s)
                  | Threw e ot \<Rightarrow> Threw e (set_tps lid ot s)
                  | Done ot \<Rightarrow> rebuild_link lc lid (set_tps lid ot s)))"

definition remove_tp :: "(string \<Rightarrow> string \<Rightarrow> int) \<Rightarrow> link_id \<Rightarrow> tpi \<Rightarrow> app \<Rightarrow> app run" where
  "remove_tp lc lid k s =
     (let s = clear_link_objects lid s
      in case remove_tp_tps k (link_tps s lid) of
           Halt ot \<Rightarrow> Halt (error_at (''Corrupted turnpoints database, link_id: '' @ lid) (set_tps lid ot s))
         | Threw e ot \<Rightarrow> Threw e (set_tps lid ot s)
         | Done ot \<Rightarrow> rebuild_link lc lid (set_tps lid ot s))"

text \<open>\<open>tp_moved\<close>: \<open>x\<close> and \<open>y\<close> are where the button was dropped, with the scroll position.\<close>

definition tp_drop :: "app \<Rightarrow> int \<Rightarrow> int" where
  "tp_drop s v = (let offset = tp_grid_offset s - ceil_div (tp_btn_size s) 2 in
     max 0 (snap (int_size s) (v - offset) + offset))"

definition tp_moved :: "link_id \<Rightarrow> tpi \<Rightarrow> int \<Rightarrow> int \<Rightarrow> app \<Rightarrow> app run" where
  "tp_moved lid k x y s =
     (let x = tp_drop s x; y = tp_drop s y;
          s = move_elem (tp_elm lid k) x y s
      in case move_tp_tps k (x + tp_btn_size s div 2) (y + tp_btn_size s div 2) (link_tps s lid) of
           Threw e ot \<Rightarrow> Threw e s
         | Halt ot \<Rightarrow> Halt s
         | Done ot \<Rightarrow> redraw (save_map (Some ''tps'') (Some lid) None None (set_tps lid ot s)))"

section \<open>The side list\<close>

definition list_name :: "dev_id \<Rightarrow> device \<Rightarrow> string" where
  "list_name d dv = (case dev_short_name dv of None \<Rightarrow> d | Some n \<Rightarrow> n)"

definition list_color :: "device \<Rightarrow> string" where
  "list_color dv =
     (let st = dev_overall_status dv in
      if st = ''warn'' then ''orange'' else if st = ''error'' then ''red''
      else if st = ''paused'' then ''grey'' else if st = ''ok'' then ''black'' else ''darkorange'')"

definition device_to_list :: "dev_id \<Rightarrow> app \<Rightarrow> app run" where
  "device_to_list d s = (case oget (devs s) d of
      None \<Rightarrow> Threw TypeError s
    | Some dv \<Rightarrow> Done (s\<lparr>dev_list := dev_list s @ [(d, list_name d dv)]\<rparr>))"

definition resort_dev_list :: "(string \<Rightarrow> string \<Rightarrow> int) \<Rightarrow> app \<Rightarrow> app" where
  "resort_dev_list lc s = s\<lparr>dev_list := js_sort (\<lambda>a b. lc (snd a) (snd b)) (dev_list s)\<rparr>"

section \<open>Loading: \<open>data_loaded\<close>\<close>

record server_data =
  sv_devs :: "(dev_id, device) obj"
  sv_l2_links :: "(link_id, l2_link) obj"
  sv_l3_links :: "(string, (string, l3_end) obj) obj"
  sv_map :: map_data
  sv_default_map :: bool

definition reset_page :: "app \<Rightarrow> app" where
  "reset_page s = s\<lparr>temp_devs := [], p2p_links := [], page := [], bordered := [], dev_list := []\<rparr>"

definition set_sizes :: "app \<Rightarrow> app" where
  "set_sizes s = s\<lparr>int_size := (case opt_cell_size (map_data s) of None \<Rightarrow> 16 | Some n \<Rightarrow> int n),
     dev_name_size := (case opt_name_size (map_data s) of None \<Rightarrow> ''14px'' | Some z \<Rightarrow> z)\<rparr>"

definition load_device :: "(string \<Rightarrow> int \<times> int) \<Rightarrow> dev_id \<Rightarrow> app \<Rightarrow> app run" where
  "load_device text_size d s =
     (if oget (map_loc (map_data s)) d = None then device_to_list d s else called (add_device text_size d s))"

definition data_loaded :: "(string \<Rightarrow> string \<Rightarrow> int) \<Rightarrow> (string \<Rightarrow> int \<times> int) \<Rightarrow> server_data \<Rightarrow> bool \<Rightarrow> app \<Rightarrow> app run" where
  "data_loaded lc text_size nd really s =
     (let s = (if really then s\<lparr>map_data := sv_map nd, default_map := (sv_default_map nd \<or> default_map s)\<rparr> else s);
          s = s\<lparr>dev_selected := [], devs := sv_devs nd, l2_links := sv_l2_links nd, l3_links := sv_l3_links nd\<rparr>;
          s = set_sizes (reset_page s)
      in seq (each (load_device text_size) (okeys (devs s)) s)
        (\<lambda>s. let s = resort_dev_list lc s; s = s\<lparr>connections := []\<rparr>
             in seq (build_connections lc s) (\<lambda>s. seq (rearrange_all s) draw_all)))"

text \<open>The data already loaded, which \<open>dev_list_stop\<close> passes again.\<close>

definition loaded_data :: "app \<Rightarrow> server_data" where
  "loaded_data s = \<lparr>sv_devs = devs s, sv_l2_links = l2_links s, sv_l3_links = l3_links s, sv_map = map_data s,
     sv_default_map = default_map s\<rparr>"

section \<open>Moving devices\<close>

definition set_loc :: "dev_id \<Rightarrow> int \<Rightarrow> int \<Rightarrow> app \<Rightarrow> app" where
  "set_loc d x y s = (let md = map_data s in
     s\<lparr>map_data := md\<lparr>map_loc := oset d \<lparr>loc_x = x, loc_y = y\<rparr> (map_loc md)\<rparr>\<rparr>)"

text \<open>Dropping an entry of the side list right of the list puts the device on the map.\<close>

definition dev_list_stop :: "(string \<Rightarrow> string \<Rightarrow> int) \<Rightarrow> (string \<Rightarrow> int \<times> int) \<Rightarrow> dev_id \<Rightarrow> bool \<Rightarrow> int \<Rightarrow> int \<Rightarrow> app \<Rightarrow> app run" where
  "dev_list_stop lc text_size d outside x y s =
     (if \<not> outside then Done s
      else
        let s = s\<lparr>dev_list := filter (\<lambda>e. fst e \<noteq> d) (dev_list s)\<rparr>;
            x = snap (int_size s) (max 0 x); y = snap (int_size s) (max 0 y);
            s = save_map (Some ''loc'') (Some d) None None (set_loc d x y s)
        in data_loaded lc text_size (loaded_data s) False s)"

text \<open>Removing the element of a device removes what is inside it.\<close>

definition inside_device :: "dev_id \<Rightarrow> device \<Rightarrow> string \<Rightarrow> bool" where
  "inside_device d dv k \<longleftrightarrow> k = d \<or> k = name_elm d \<or> k = power_elm d \<or>
     list_ex (\<lambda>i. k = int_elm i d) (interfaces_sorted dv)"

definition drop_device :: "dev_id \<Rightarrow> app \<Rightarrow> app" where
  "drop_device d s = s\<lparr>page := filter (\<lambda>ke. \<not> inside_device d (dev_of s d) (fst ke)) (page s),
     bordered := filter (\<lambda>x. x \<noteq> d) (bordered s)\<rparr>"

definition drop_link :: "dev_id \<Rightarrow> link_id \<Rightarrow> app \<Rightarrow> app" where
  "drop_link d lid s = (case oget (connections s) lid of
      None \<Rightarrow> s
    | Some con \<Rightarrow>
        if to_dev con = d \<or> from_dev con = d then
          (let s = clear_link_objects lid s
           in set_tps lid None (s\<lparr>connections := odel lid (connections s)\<rparr>))
        else s)"

definition remove_from_map :: "(string \<Rightarrow> string \<Rightarrow> int) \<Rightarrow> dev_id \<Rightarrow> bool \<Rightarrow> app \<Rightarrow> app run" where
  "remove_from_map lc d to_list s =
     (let md = map_data s;
          s = s\<lparr>map_data := md\<lparr>map_loc := odel d (map_loc md)\<rparr>\<rparr>;
          s = save_map (Some ''loc'') (Some d) None None s
      in seq (if to_list then device_to_list d s else Done s)
        (\<lambda>s. let s = drop_device d (s\<lparr>temp_devs := odel d (temp_devs s)\<rparr>);
                 s = fold (drop_link d) (okeys (connections s)) s;
                 s = save_map (Some ''tps'') None None None s;
                 s = resort_dev_list lc s
             in Done (set_tps d None s)))"

definition device_drag :: "dev_id \<Rightarrow> int \<Rightarrow> int \<Rightarrow> app \<Rightarrow> app run" where
  "device_drag d x y s = redraw (save_map (Some ''loc'') (Some d) None None (set_loc d x y s))"

text \<open>
  The links of a moved device that are drawn and have turnpoints, with their two devices; a link
  is listed once. \<open>p2p_links\<close> and \<open>l2_links\<close> give the devices of a link.
\<close>

definition link_devs :: "app \<Rightarrow> link_id \<Rightarrow> (dev_id \<times> dev_id) option" where
  "link_devs s lid =
     (if site s = ''l3'' then map_option (\<lambda>p. (p2p_from_dev p, p2p_to_dev p)) (oget (p2p_links s) lid)
      else map_option (\<lambda>l. (DevId (end0 l), DevId (end1 l))) (oget (l2_links s) lid))"

definition drag_if_links :: "app \<Rightarrow> dev_id \<Rightarrow> if_name \<times> iface \<Rightarrow> link_id list" where
  "drag_if_links s d fi =
     (if site s = ''l3'' then
        (case oget (td_ifs (temp_of s d)) (fst fi) of None \<Rightarrow> []
         | Some t \<Rightarrow> (case t_l3_links t of None \<Rightarrow> [] | Some ls \<Rightarrow> ls))
      else (case if_l2_links (snd fi) of None \<Rightarrow> [] | Some ls \<Rightarrow> ls))"

definition add_dev_link :: "app \<Rightarrow> link_id \<Rightarrow> link_id list \<Rightarrow> link_id list" where
  "add_dev_link s lid acc =
     (if link_devs s lid \<noteq> None \<and> oget (connections s) lid \<noteq> None \<and> link_tps s lid \<noteq> None
      then add_key lid acc else acc)"

definition drag_selected :: "dev_id \<Rightarrow> int \<Rightarrow> int \<Rightarrow> int \<Rightarrow> int \<Rightarrow> dev_id \<Rightarrow> app \<times> link_id list \<Rightarrow> (app \<times> link_id list) run" where
  "drag_selected d x y dx dy dv st = (case st of (s, acc) \<Rightarrow> (case oget (page s) dv of
      None \<Rightarrow> Done st
    | Some e \<Rightarrow>
        let (nx, ny) = (if dv \<noteq> d then (e_left e + dx, e_top e + dy) else (x, y));
            s = (if dv \<noteq> d then move_elem dv nx ny s else s);
            s = set_loc dv nx ny s
        in if oget (devs s) dv = None then Threw TypeError (s, acc)
           else Done (s, fold (\<lambda>fi acc. fold (add_dev_link s) (drag_if_links s dv fi) acc) (dev_ifs (dev_of s dv)) acc)))"

definition shift_tps :: "int \<Rightarrow> int \<Rightarrow> tps \<Rightarrow> tps" where
  "shift_tps dx dy t = map (\<lambda>(k, p). (k, p\<lparr>tp_x := tp_x p + dx, tp_y := tp_y p + dy\<rparr>)) t"

definition shift_link :: "int \<Rightarrow> int \<Rightarrow> link_id \<Rightarrow> app \<Rightarrow> app" where
  "shift_link dx dy lid s = (case link_devs s lid of
      None \<Rightarrow> s
    | Some (a, b) \<Rightarrow>
        if a \<in> set (dev_selected s) \<and> b \<in> set (dev_selected s)
        then set_tps lid (map_option (shift_tps dx dy) (link_tps s lid)) s else s)"

text \<open>The branch for several selected devices: all of them move by the same amount.\<close>

definition group_drag :: "dev_id \<Rightarrow> int \<Rightarrow> int \<Rightarrow> app \<Rightarrow> app run" where
  "group_drag d x y s = (case oget (map_loc (map_data s)) d of
      None \<Rightarrow> Threw TypeError s
    | Some l \<Rightarrow>
        let dx = x - loc_x l; dy = y - loc_y l; s = forget_arranged s
        in (case each (drag_selected d x y dx dy) (dev_selected s) (s, []) of
              Threw e (s, _) \<Rightarrow> Threw e s
            | Halt (s, _) \<Rightarrow> Halt s
            | Done (s, ls) \<Rightarrow>
                seq (seq (rearrange_all (fold (shift_link dx dy) ls s)) draw_all)
                  (\<lambda>s. Done (save_map None None None None s))))"

definition device_drag_stop :: "dev_id \<Rightarrow> int \<Rightarrow> int \<Rightarrow> app \<Rightarrow> app run" where
  "device_drag_stop d x y s =
     (let x = snap (int_size s) (max 0 x); y = snap (int_size s) (max 0 y);
          s = move_elem d x y s
      in if length (dev_selected s) < 2 \<or> d \<notin> set (dev_selected s) then device_drag d x y s
         else group_drag d x y s)"

end
