(* ===== verification/Selection.thy ===== *)
theory Selection
  imports MapOps
begin

text \<open>
  Selecting devices: clicks on a device (\<open>device_click\<close>), on the empty workspace and on the
  lock of the selection, and the selection of everything behind an interface
  (\<open>interface_click\<close>, \<open>select_down\<close>). The border of a selected device is part of the page:
  \<open>bordered\<close> are the devices whose border is shown, and the two lists must agree. The buttons
  \<open>btnSetColor\<close> and \<open>btnGetColor\<close>, which the handlers switch, are never created by the page.
\<close>

section \<open>The handlers\<close>

definition on_page :: "app \<Rightarrow> dev_id \<Rightarrow> bool" where
  "on_page s d \<longleftrightarrow> oget (page s) d \<noteq> None"

definition dev_select_border :: "dev_id \<Rightarrow> bool \<Rightarrow> app \<Rightarrow> app" where
  "dev_select_border d selected s =
     (if \<not> on_page s d then s
      else s\<lparr>bordered := (if selected then add_key d (bordered s) else filter (\<lambda>x. x \<noteq> d) (bordered s))\<rparr>)"

text \<open>\<open>dev_select_border($(".device"), false)\<close>\<close>

definition no_borders :: "app \<Rightarrow> app" where
  "no_borders s = s\<lparr>bordered := []\<rparr>"

text \<open>Where a handler opens the window of the device or interface instead, its result is \<open>None\<close>.\<close>

definition device_click :: "bool \<Rightarrow> bool \<Rightarrow> dev_id \<Rightarrow> app \<Rightarrow> app option" where
  "device_click ctrl shift d s =
     (if \<not> ctrl \<and> \<not> shift then None
      else if oget (devs s) d \<noteq> None \<and> allow_select s then
        Some
          (if ctrl then
             (if d \<notin> set (dev_selected s)
              then dev_select_border d True (s\<lparr>dev_selected := dev_selected s @ [d]\<rparr>)
              else dev_select_border d False (s\<lparr>dev_selected := remove1 d (dev_selected s)\<rparr>))
           else (dev_select_border d True (no_borders s))\<lparr>dev_selected := [d]\<rparr>)
      else Some s)"

definition workspace_click :: "app \<Rightarrow> app" where
  "workspace_click s = (no_borders s)\<lparr>dev_selected := []\<rparr>"

definition toggle_select :: "app \<Rightarrow> app" where
  "toggle_select s =
     (let s = s\<lparr>allow_select := \<not> allow_select s\<rparr>
      in if \<not> allow_select s then (no_borders s)\<lparr>dev_selected := []\<rparr> else s)"

definition link_other :: "dev_id \<Rightarrow> l2_link \<Rightarrow> dev_id" where
  "link_other d l = (if DevId (end0 l) = d then DevId (end1 l) else DevId (end0 l))"

definition select_dev :: "dev_id \<Rightarrow> app \<Rightarrow> app" where
  "select_dev d s = dev_select_border d True (s\<lparr>dev_selected := dev_selected s @ [d]\<rparr>)"

text \<open>The recursion stops at a depth of 65; the recursive call is on every interface of a new device.\<close>

function select_down :: "dev_id \<Rightarrow> if_name \<Rightarrow> dev_id list \<Rightarrow> nat \<Rightarrow> app \<Rightarrow> app run" where
  "select_down d i excl counter s =
     (if counter > 64 then Halt s
      else if site s = ''l3'' then Done s
      else (case oget (devs s) d of
          None \<Rightarrow> Threw TypeError s
        | Some dv \<Rightarrow> (case oget (dev_ifs dv) i of
            None \<Rightarrow> Threw TypeError s
          | Some f \<Rightarrow> (case if_l2_links f of
              None \<Rightarrow> Done s
            | Some ls \<Rightarrow> each (\<lambda>lid s.
                if oget (connections s) lid = None then Done s
                else (case oget (l2_links s) lid of
                    None \<Rightarrow> Threw TypeError s
                  | Some l \<Rightarrow>
                      let nei = link_other d l
                      in if nei \<in> set (dev_selected s) \<or> nei \<in> set excl then Done s
                         else (let s = select_dev nei s in (case oget (devs s) nei of
                             None \<Rightarrow> Threw TypeError s
                           | Some nv \<Rightarrow> each (\<lambda>j s. called (select_down nei j excl (counter + 1) s))
                               (interfaces_sorted nv) s)))) ls s))))"
  by pat_completeness auto
termination by (relation "measure (\<lambda>(d, i, excl, counter, s). 65 - counter)") auto

declare select_down.simps [simp del]

definition interface_click :: "bool \<Rightarrow> if_name \<Rightarrow> dev_id \<Rightarrow> app \<Rightarrow> app run option" where
  "interface_click ctrl i d s =
     (if ctrl \<and> allow_select s \<and> site s \<noteq> ''l3'' then Some (called (select_down d i [d] 0 s))
      else None)"

section \<open>What lies behind an interface\<close>

text \<open>One step over a drawn link, and the devices reached by steps that avoid a set of devices.\<close>

definition hop :: "app \<Rightarrow> dev_id \<Rightarrow> if_name \<Rightarrow> dev_id \<Rightarrow> bool" where
  "hop s d i n \<longleftrightarrow> (\<exists>dv f ls lid l. oget (devs s) d = Some dv \<and> oget (dev_ifs dv) i = Some f \<and>
     if_l2_links f = Some ls \<and> lid \<in> set ls \<and> oget (connections s) lid \<noteq> None \<and>
     oget (l2_links s) lid = Some l \<and> n = link_other d l)"

definition dev_if :: "app \<Rightarrow> dev_id \<Rightarrow> if_name \<Rightarrow> bool" where
  "dev_if s d i \<longleftrightarrow> (\<exists>dv. oget (devs s) d = Some dv \<and> i \<in> set (interfaces_sorted dv))"

inductive behind :: "app \<Rightarrow> dev_id set \<Rightarrow> dev_id \<Rightarrow> if_name \<Rightarrow> dev_id \<Rightarrow> bool" for s stop d i where
  direct: "hop s d i n \<Longrightarrow> n \<notin> stop \<Longrightarrow> behind s stop d i n"
| further: "behind s stop d i m \<Longrightarrow> dev_if s m j \<Longrightarrow> hop s m j n \<Longrightarrow> n \<notin> stop \<Longrightarrow> behind s stop d i n"

lemma behind_trans:
  "behind s stop m j n \<Longrightarrow> behind s stop d i m \<Longrightarrow> dev_if s m j \<Longrightarrow> behind s stop d i n"
  by (induction rule: behind.induct) (auto intro: behind.further)

lemma behind_mono: "behind s stop d i n \<Longrightarrow> stop' \<subseteq> stop \<Longrightarrow> behind s stop' d i n"
  by (induction rule: behind.induct) (auto intro: behind.intros)

text \<open>The part of the state the recursion only reads.\<close>

definition net_of :: "app \<Rightarrow> _" where
  "net_of s = (devs s, l2_links s, connections s, site s)"

lemma net_select_dev [simp]: "net_of (select_dev d s) = net_of s"
  by (simp add: net_of_def select_dev_def dev_select_border_def)

lemma sel_select_dev [simp]: "dev_selected (select_dev d s) = dev_selected s @ [d]"
  by (simp add: select_dev_def dev_select_border_def)

lemma hop_net: "net_of s = net_of s' \<Longrightarrow> hop s = hop s'"
  by (intro ext) (simp add: hop_def net_of_def)

lemma dev_if_net: "net_of s = net_of s' \<Longrightarrow> dev_if s = dev_if s'"
  by (intro ext) (simp add: dev_if_def net_of_def)

lemma behind_net: "behind s stop d i n \<Longrightarrow> net_of s = net_of s' \<Longrightarrow> behind s' stop d i n"
  by (induction rule: behind.induct) (auto intro: behind.intros simp: hop_net [of s s'] dev_if_net [of s s'])

text \<open>
  What a part of the search does: it only adds devices, each of them is behind one of the
  interfaces \<open>src\<close>, and all neighbours of an added device are selected or excluded in the end.
\<close>

definition settled :: "dev_id list \<Rightarrow> app \<Rightarrow> dev_id \<Rightarrow> if_name \<Rightarrow> bool" where
  "settled excl s d i \<longleftrightarrow> (\<forall>n. hop s d i n \<longrightarrow> n \<in> set (dev_selected s) \<union> set excl)"

definition grow :: "dev_id list \<Rightarrow> (dev_id \<times> if_name) set \<Rightarrow> app \<Rightarrow> app \<Rightarrow> bool" where
  "grow excl src s s' \<longleftrightarrow> net_of s' = net_of s \<and> set (dev_selected s) \<subseteq> set (dev_selected s') \<and>
     (\<forall>m \<in> set (dev_selected s') - set (dev_selected s).
        (\<exists>(d, i) \<in> src. behind s (set (dev_selected s) \<union> set excl) d i m) \<and>
        (\<forall>j. dev_if s m j \<longrightarrow> settled excl s' m j))"

lemma grow_refl: "grow excl src s s"
  by (simp add: grow_def)

lemma settled_mono:
  "settled excl s d i \<Longrightarrow> net_of s' = net_of s \<Longrightarrow> set (dev_selected s) \<subseteq> set (dev_selected s') \<Longrightarrow> settled excl s' d i"
  by (auto simp: settled_def hop_net [of s' s])

lemma grow_trans:
  assumes a: "grow excl src s s'" and b: "grow excl src s' s''"
  shows "grow excl src s s''"
proof -
  have net: "net_of s' = net_of s" "net_of s'' = net_of s'" using a b by (simp_all add: grow_def)
  have sub: "set (dev_selected s) \<subseteq> set (dev_selected s')" "set (dev_selected s') \<subseteq> set (dev_selected s'')"
    using a b by (simp_all add: grow_def)
  have "(\<exists>(d, i) \<in> src. behind s (set (dev_selected s) \<union> set excl) d i m) \<and>
      (\<forall>j. dev_if s m j \<longrightarrow> settled excl s'' m j)"
    if m: "m \<in> set (dev_selected s'') - set (dev_selected s)" for m
  proof (cases "m \<in> set (dev_selected s')")
    case True
    then have "(\<exists>(d, i) \<in> src. behind s (set (dev_selected s) \<union> set excl) d i m) \<and>
        (\<forall>j. dev_if s m j \<longrightarrow> settled excl s' m j)"
      using a m by (simp add: grow_def)
    then show ?thesis using settled_mono [OF _ net(2) sub(2)] by blast
  next
    case False
    then have b': "(\<exists>(d, i) \<in> src. behind s' (set (dev_selected s') \<union> set excl) d i m)"
        "\<forall>j. dev_if s' m j \<longrightarrow> settled excl s'' m j"
      using b m by (simp_all add: grow_def)
    obtain d i where "(d, i) \<in> src" "behind s' (set (dev_selected s') \<union> set excl) d i m" using b'(1) by blast
    then have "behind s (set (dev_selected s) \<union> set excl) d i m"
      using behind_net [OF _ net(1)] behind_mono sub(1) by (meson Un_mono order_refl)
    then show ?thesis using b'(2) \<open>(d, i) \<in> src\<close> dev_if_net [OF net(1)] by auto
  qed
  then show ?thesis using net sub unfolding grow_def by auto
qed

lemma grow_settled: "grow excl src u u' \<Longrightarrow> settled excl u d i \<Longrightarrow> settled excl u' d i"
  unfolding grow_def using settled_mono by blast

lemma grow_link:
  assumes n: "hop s d i n" "n \<notin> set (dev_selected s) \<union> set excl"
    and g: "grow excl {(n, j) | j. dev_if s n j} (select_dev n s) s'"
    and q: "\<And>j. dev_if s n j \<Longrightarrow> settled excl s' n j"
  shows "grow excl {(d, i)} s s'"
proof -
  let ?stop = "set (dev_selected s) \<union> set excl"
  have net: "net_of s' = net_of s" and sub: "set (dev_selected s) \<subseteq> set (dev_selected s')"
    using g by (simp_all add: grow_def)
  have "behind s ?stop d i m \<and> (\<forall>j. dev_if s m j \<longrightarrow> settled excl s' m j)"
    if m: "m \<in> set (dev_selected s') - set (dev_selected s)" for m
  proof (cases "m = n")
    case True
    then show ?thesis using n q by (simp add: behind.direct)
  next
    case False
    then have m': "\<exists>(e, j) \<in> {(n, j) | j. dev_if s n j}. behind (select_dev n s) (set (dev_selected (select_dev n s)) \<union> set excl) e j m"
        "\<forall>j. dev_if (select_dev n s) m j \<longrightarrow> settled excl s' m j"
      using g m by (simp_all add: grow_def)
    obtain j where j: "dev_if s n j" "behind (select_dev n s) (set (dev_selected (select_dev n s)) \<union> set excl) n j m"
      using m'(1) by blast
    have "behind s (set (dev_selected (select_dev n s)) \<union> set excl) n j m"
      using behind_net [OF j(2) net_select_dev] .
    then have "behind s ?stop n j m" by (rule behind_mono) auto
    moreover have "behind s ?stop d i n" using n by (simp add: behind.direct)
    ultimately have "behind s ?stop d i m" using j(1) by (rule behind_trans)
    then show ?thesis using m'(2) dev_if_net [OF net_select_dev [of n s]] by simp
  qed
  then show ?thesis using net sub by (auto simp: grow_def)
qed

text \<open>
  All names the recursion follows exist; \<open>room\<close> is the number of devices it may still select.
\<close>

definition net_ok :: "app \<Rightarrow> bool" where
  "net_ok s \<longleftrightarrow> list_all (\<lambda>(d, dv).
     list_all (\<lambda>i. oget (dev_ifs dv) i \<noteq> None) (interfaces_sorted dv) \<and>
     list_all (\<lambda>(i, f). list_all (\<lambda>lid. oget (connections s) lid = None \<or>
         (case oget (l2_links s) lid of None \<Rightarrow> False | Some l \<Rightarrow> oget (devs s) (link_other d l) \<noteq> None))
       (case if_l2_links f of None \<Rightarrow> [] | Some ls \<Rightarrow> ls)) (dev_ifs dv)) (devs s)"

definition room :: "dev_id list \<Rightarrow> app \<Rightarrow> nat" where
  "room excl s = card (set (okeys (devs s)) - set (dev_selected s) - set excl)"

lemma net_ok_if: "net_ok s \<Longrightarrow> oget (devs s) d = Some dv \<Longrightarrow> i \<in> set (interfaces_sorted dv) \<Longrightarrow> oget (dev_ifs dv) i \<noteq> None"
  by (force simp: net_ok_def list_all_iff dest: map_of_SomeD)

lemma net_ok_link:
  assumes "net_ok s" "oget (devs s) d = Some dv" "oget (dev_ifs dv) i = Some f" "if_l2_links f = Some ls"
    "lid \<in> set ls" "oget (connections s) lid \<noteq> None"
  shows "\<exists>l. oget (l2_links s) lid = Some l \<and> oget (devs s) (link_other d l) \<noteq> None"
proof -
  have "(d, dv) \<in> set (devs s)" "(i, f) \<in> set (dev_ifs dv)" using assms by (auto dest: map_of_SomeD)
  then have "list_all (\<lambda>lid. oget (connections s) lid = None \<or>
         (case oget (l2_links s) lid of None \<Rightarrow> False | Some l \<Rightarrow> oget (devs s) (link_other d l) \<noteq> None))
       (case if_l2_links f of None \<Rightarrow> [] | Some ls \<Rightarrow> ls)"
    using assms(1) by (fastforce simp: net_ok_def list_all_iff)
  then show ?thesis using assms(4-6) by (auto simp: list_all_iff split: option.splits)
qed

lemma net_ok_net: "net_of s = net_of s' \<Longrightarrow> net_ok s = net_ok s'"
  unfolding net_ok_def net_of_def prod.inject by (elim conjE) (simp only:)

lemma room_select:
  assumes "oget (devs s) n \<noteq> None" "n \<notin> set (dev_selected s) \<union> set excl"
  shows "Suc (room excl (select_dev n s)) \<le> room excl s"
proof -
  have "devs (select_dev n s) = devs s" using net_select_dev [of n s] by (simp add: net_of_def)
  then have "set (okeys (devs (select_dev n s))) - set (dev_selected (select_dev n s)) - set excl =
      (set (okeys (devs s)) - set (dev_selected s) - set excl) - {n}" by auto
  moreover have "n \<in> set (okeys (devs s)) - set (dev_selected s) - set excl"
    using assms by (auto simp: oget_None_iff)
  ultimately show ?thesis unfolding room_def by (metis card_Suc_Diff1 finite_Diff List.finite_set order_refl)
qed

lemma room_grow: "grow excl src s s' \<Longrightarrow> room excl s' \<le> room excl s"
  unfolding room_def by (rule card_mono) (auto simp: grow_def net_of_def)

section \<open>The search selects what lies behind\<close>

lemma select_down_grow:
  assumes "net_ok s" "site s \<noteq> ''l3''" "oget (devs s) d = Some dv" "oget (dev_ifs dv) i \<noteq> None"
    "counter + room excl s \<le> 64"
  shows "\<exists>s'. select_down d i excl counter s = Done s' \<and> grow excl {(d, i)} s s' \<and> settled excl s' d i"
  using assms
proof (induction "65 - counter" arbitrary: counter d dv i s rule: less_induct)
  case less
  obtain f where f: "oget (dev_ifs dv) i = Some f" using less.prems(4) by blast
  define body where "body = (\<lambda>lid s.
                if oget (connections s) lid = None then Done s
                else (case oget (l2_links s) lid of
                    None \<Rightarrow> Threw TypeError s
                  | Some l \<Rightarrow>
                      let nei = link_other d l
                      in if nei \<in> set (dev_selected s) \<or> nei \<in> set excl then Done s
                         else (let s = select_dev nei s in (case oget (devs s) nei of
                             None \<Rightarrow> Threw TypeError s
                           | Some nv \<Rightarrow> each (\<lambda>j s. called (select_down nei j excl (counter + 1) s))
                               (interfaces_sorted nv) s))))"
  have unfold: "select_down d i excl counter s = (case if_l2_links f of None \<Rightarrow> Done s | Some ls \<Rightarrow> each body ls s)"
    unfolding body_def using less.prems(2-5) f by (simp add: select_down.simps [of d i excl counter s])
  show ?case
  proof (cases "if_l2_links f")
    case None
    then show ?thesis using unfold less.prems(3) f by (auto simp: grow_refl settled_def hop_def)
  next
    case (Some ls)
    define Q where "Q = (\<lambda>lid s'. \<forall>l. net_of s' = net_of s \<longrightarrow> oget (connections s) lid \<noteq> None \<longrightarrow>
      oget (l2_links s) lid = Some l \<longrightarrow> link_other d l \<in> set (dev_selected s') \<union> set excl)"
    have step: "\<exists>s2. body lid s1 = Done s2 \<and> (net_of s2 = net_of s \<and> counter + room excl s2 \<le> 64) \<and>
        grow excl {(d, i)} s1 s2 \<and> Q lid s2"
      if lid: "lid \<in> set ls" and s1: "net_of s1 = net_of s \<and> counter + room excl s1 \<le> 64" for lid s1
    proof (cases "oget (connections s1) lid = None")
      case True
      then show ?thesis using s1 by (simp add: body_def grow_refl Q_def net_of_def)
    next
      case con: False
      have ok1: "net_ok s1" using less.prems(1) net_ok_net s1 by blast
      have dv1: "oget (devs s1) d = Some dv" using s1 less.prems(3) by (simp add: net_of_def)
      obtain l where l: "oget (l2_links s1) lid = Some l" "oget (devs s1) (link_other d l) \<noteq> None"
        using net_ok_link [OF ok1 dv1 f Some lid con] by blast
      let ?n = "link_other d l"
      have hop1: "hop s1 d i ?n" unfolding hop_def using dv1 f Some lid con l(1) by blast
      show ?thesis
      proof (cases "?n \<in> set (dev_selected s1) \<union> set excl")
        case True
        then show ?thesis using s1 l con by (auto simp: body_def grow_refl Q_def net_of_def)
      next
        case new: False
        obtain nv where nv: "oget (devs s1) ?n = Some nv" using l(2) by blast
        let ?t = "select_dev ?n s1"
        let ?src = "{(?n, j) | j. dev_if s1 ?n j}"
        have net_t: "net_of ?t = net_of s1" by simp
        have room_t: "Suc counter + room excl ?t \<le> 64" using room_select [OF l(2) new] s1 by simp
        have inner: "\<exists>u'. called (select_down ?n j excl (counter + 1) u) = Done u' \<and>
            (net_of u' = net_of s1 \<and> Suc counter + room excl u' \<le> 64) \<and> grow excl ?src u u' \<and> settled excl u' ?n j"
          if j: "j \<in> set (interfaces_sorted nv)" and u: "net_of u = net_of s1 \<and> Suc counter + room excl u \<le> 64" for j u
        proof -
          have ok_u: "net_ok u" using ok1 net_ok_net u by blast
          have site_u: "site u \<noteq> ''l3''" and dev_u: "oget (devs u) ?n = Some nv"
            using u s1 less.prems(2) nv by (simp_all add: net_of_def)
          have if_u: "oget (dev_ifs nv) j \<noteq> None" using net_ok_if [OF ok1 nv j] .
          have less_u: "65 - (counter + 1) < 65 - counter" and room_u: "counter + 1 + room excl u \<le> 64"
            using u by linarith+
          obtain u' where u': "select_down ?n j excl (counter + 1) u = Done u'"
              "grow excl {(?n, j)} u u'" "settled excl u' ?n j"
            using less.hyps [OF less_u ok_u site_u dev_u if_u room_u] by blast
          have "dev_if s1 ?n j" using nv j by (simp add: dev_if_def)
          then have "grow excl ?src u u'" using u'(2) by (fastforce simp: grow_def)
          moreover have "Suc counter + room excl u' \<le> 64" using room_grow [OF u'(2)] u by linarith
          ultimately show ?thesis using u' u by (simp add: grow_def)
        qed
        have "\<exists>s2. each (\<lambda>j s. called (select_down ?n j excl (counter + 1) s)) (interfaces_sorted nv) ?t = Done s2 \<and>
            (net_of s2 = net_of s1 \<and> Suc counter + room excl s2 \<le> 64) \<and> grow excl ?src ?t s2 \<and>
            (\<forall>j \<in> set (interfaces_sorted nv). settled excl s2 ?n j)"
        proof (rule each_Done)
          show "net_of ?t = net_of s1 \<and> Suc counter + room excl ?t \<le> 64" using net_t room_t by blast
          show "grow excl ?src u u" for u by (rule grow_refl)
          show "grow excl ?src u u' \<Longrightarrow> grow excl ?src u' u'' \<Longrightarrow> grow excl ?src u u''" for u u' u''
            by (rule grow_trans)
          show "grow excl ?src u u' \<Longrightarrow> settled excl u ?n j \<Longrightarrow> settled excl u' ?n j" for j u u'
            by (rule grow_settled)
        qed (rule inner)
        then obtain s2 where s2: "each (\<lambda>j s. called (select_down ?n j excl (counter + 1) s)) (interfaces_sorted nv) ?t = Done s2"
            "net_of s2 = net_of s1 \<and> Suc counter + room excl s2 \<le> 64" "grow excl ?src ?t s2"
            "\<forall>j \<in> set (interfaces_sorted nv). settled excl s2 ?n j" by blast
        have "grow excl {(d, i)} s1 s2"
          using hop1 new s2(3) by (rule grow_link) (use s2(4) nv in \<open>auto simp: dev_if_def\<close>)
        moreover have "body lid s1 = Done s2"
          using con l(1) new nv s2(1) net_t by (auto simp: body_def Let_def net_of_def)
        moreover have "?n \<in> set (dev_selected s2)" using s2(3) by (auto simp: grow_def)
        ultimately show ?thesis using s1 s2(2) l(1) by (auto simp: Q_def net_of_def)
      qed
    qed
    have "\<exists>s'. each body ls s = Done s' \<and> (net_of s' = net_of s \<and> counter + room excl s' \<le> 64) \<and>
        grow excl {(d, i)} s s' \<and> (\<forall>lid \<in> set ls. Q lid s')"
    proof (rule each_Done)
      show "net_of s = net_of s \<and> counter + room excl s \<le> 64" using less.prems(5) by simp
      show "\<And>lid s1. lid \<in> set ls \<Longrightarrow> net_of s1 = net_of s \<and> counter + room excl s1 \<le> 64 \<Longrightarrow>
        \<exists>s'. body lid s1 = Done s' \<and> (net_of s' = net_of s \<and> counter + room excl s' \<le> 64) \<and> grow excl {(d, i)} s1 s' \<and> Q lid s'"
        by (rule step)
      show "grow excl {(d, i)} u u" for u by (rule grow_refl)
      show "grow excl {(d, i)} u u' \<Longrightarrow> grow excl {(d, i)} u' u'' \<Longrightarrow> grow excl {(d, i)} u u''" for u u' u''
        by (rule grow_trans)
      show "grow excl {(d, i)} u u' \<Longrightarrow> Q lid u \<Longrightarrow> Q lid u'" for lid u u'
        unfolding Q_def grow_def by auto
    qed
    then obtain s' where s': "each body ls s = Done s'" "net_of s' = net_of s" "grow excl {(d, i)} s s'"
        "\<forall>lid \<in> set ls. Q lid s'" by blast
    have "settled excl s' d i"
      unfolding settled_def hop_net [OF s'(2)]
    proof (intro allI impI)
      fix n assume "hop s d i n"
      then obtain lid l where "lid \<in> set ls" "oget (connections s) lid \<noteq> None" "oget (l2_links s) lid = Some l"
          "n = link_other d l"
        using less.prems(3) f Some by (auto simp: hop_def)
      then show "n \<in> set (dev_selected s') \<union> set excl" using s'(2,4) by (auto simp: Q_def)
    qed
    then show ?thesis using unfold Some s' by auto
  qed
qed

lemma behind_closed:
  assumes g: "grow excl {(d, i)} s s'" and q: "settled excl s' d i"
    and b: "behind s (set (dev_selected s) \<union> set excl) d i n"
  shows "n \<in> set (dev_selected s')"
proof -
  have net: "net_of s' = net_of s" and sub: "set (dev_selected s) \<subseteq> set (dev_selected s')"
    using g by (simp_all add: grow_def)
  show ?thesis using b
  proof (induction rule: behind.induct)
    case (direct n)
    then show ?case using q by (auto simp: settled_def hop_net [OF net])
  next
    case (further m j n)
    have "m \<notin> set (dev_selected s) \<union> set excl" using further.hyps(1) by (cases rule: behind.cases) auto
    then have "settled excl s' m j" using g further.IH further.hyps(2) by (auto simp: grow_def)
    then show ?case using further.hyps(3,4) by (auto simp: settled_def hop_net [OF net])
  qed
qed

text \<open>
  C6: with at most 65 devices the search runs to its end, and afterwards the selection is the
  old one and exactly the devices that a walk over drawn links can reach from the interface
  without passing the device itself or a device selected before.
\<close>

theorem interface_click_selects:
  assumes "net_ok s" "site s \<noteq> ''l3''" "allow_select s" "length (devs s) \<le> 65"
    and d: "oget (devs s) d = Some dv" "oget (dev_ifs dv) i \<noteq> None"
  shows "\<exists>s'. interface_click True i d s = Some (Done s') \<and>
    set (dev_selected s') = set (dev_selected s) \<union> {n. behind s (insert d (set (dev_selected s))) d i n}"
proof -
  have "set (okeys (devs s)) - set (dev_selected s) - set [d] \<subseteq> set (okeys (devs s)) - {d}" by auto
  moreover have "card (set (okeys (devs s)) - {d}) \<le> 64"
  proof -
    have "d \<in> set (okeys (devs s))" using d(1) oget_None_iff [of "devs s" d] by simp
    moreover have "card (set (okeys (devs s))) \<le> 65"
      using card_length [of "okeys (devs s)"] assms(4) by (simp add: okeys_def)
    ultimately show ?thesis by (simp add: card_Diff_singleton)
  qed
  ultimately have "card (set (okeys (devs s)) - set (dev_selected s) - set [d]) \<le> 64"
    using card_mono [of "set (okeys (devs s)) - {d}"] by (meson List.finite_set finite_Diff le_trans)
  then have "0 + room [d] s \<le> 64" by (simp add: room_def)
  then obtain s' where s': "select_down d i [d] 0 s = Done s'" "grow [d] {(d, i)} s s'" "settled [d] s' d i"
    using select_down_grow [OF assms(1,2) d] by blast
  have "set (dev_selected s') = set (dev_selected s) \<union> {n. behind s (set (dev_selected s) \<union> set [d]) d i n}"
    using s'(2) behind_closed [OF s'(2,3)] by (auto simp: grow_def)
  then show ?thesis using s'(1) assms(2,3) by (simp add: interface_click_def insert_commute)
qed

definition ex_sel :: app where
  "ex_sel = ex_arr\<lparr>allow_select := True,
     l2_links := [(''l1'', \<lparr>end0 = \<lparr>DevId = ''r1'', l2_ifName = ''e1''\<rparr>, end1 = \<lparr>DevId = ''r2'', l2_ifName = ''e1''\<rparr>,
       l2_status = 1, l2_virtual = False\<rparr>)]\<rparr>"

lemma interface_click_selects_witness:
  "\<exists>s'. interface_click True ''e1'' ''r1'' ex_sel = Some (Done s') \<and>
    set (dev_selected s') = set (dev_selected ex_sel) \<union>
      {n. behind ex_sel (insert ''r1'' (set (dev_selected ex_sel))) ''r1'' ''e1'' n}"
proof (rule interface_click_selects)
  show "net_ok ex_sel" by code_simp
  show "oget (devs ex_sel) ''r1'' = Some (ex_arr_dev [''e1'', ''e2''])" by code_simp
qed code_simp+

section \<open>The borders shown are those of the selected devices\<close>

definition borders_ok :: "app \<Rightarrow> bool" where
  "borders_ok s \<longleftrightarrow> distinct (dev_selected s) \<and>
     (\<forall>d. on_page s d \<longrightarrow> (d \<in> set (bordered s) \<longleftrightarrow> d \<in> set (dev_selected s)))"

lemma add_key_set [simp]: "set (add_key x xs) = insert x (set xs)"
  by (auto simp: add_key_def)

lemma borders_select_dev: "borders_ok s \<Longrightarrow> n \<notin> set (dev_selected s) \<Longrightarrow> borders_ok (select_dev n s)"
  by (auto simp: borders_ok_def select_dev_def dev_select_border_def on_page_def)

lemma borders_select_down: "borders_ok s \<Longrightarrow> holds borders_ok (select_down d i excl counter s)"
proof (induction "65 - counter" arbitrary: counter d i s rule: less_induct)
  case less
  have inner: "holds borders_ok (called (select_down n j excl (Suc counter) u))"
    if "borders_ok u" "\<not> 64 < counter" for n j u
    using that by (intro holds_called less.hyps) auto
  show ?case
    unfolding select_down.simps [of d i excl counter s]
    using less.prems by (auto split: option.split intro!: holds_each inner borders_select_dev simp: Let_def)
qed

inductive select_op :: "app \<Rightarrow> app \<Rightarrow> bool" where
  on_device: "device_click ctrl shift d s = Some s' \<Longrightarrow> select_op s s'"
| on_workspace: "select_op s (workspace_click s)"
| on_lock: "select_op s (toggle_select s)"
| on_interface: "interface_click ctrl i d s = Some r \<Longrightarrow> select_op s (run_state r)"

lemma borders_step:
  assumes "select_op s s'" "borders_ok s"
  shows "borders_ok s'"
  using assms
proof (cases rule: select_op.cases)
  case (on_device ctrl shift d)
  then show ?thesis using assms(2)
    by (auto simp: device_click_def borders_ok_def dev_select_border_def no_borders_def on_page_def split: if_splits)
next
  case (on_interface ctrl i d r)
  then have "r = called (select_down d i [d] 0 s)" by (simp add: interface_click_def split: if_splits)
  then show ?thesis using borders_select_down [OF assms(2)] on_interface(1) by (simp add: holds_def)
qed (simp_all add: assms(2) workspace_click_def toggle_select_def borders_ok_def no_borders_def on_page_def Let_def)

text \<open>
  C18: whatever the user clicks, the devices whose selection border is shown are exactly the
  selected ones on the page, and no device is selected twice; also when the search behind an
  interface ends early or with an exception.
\<close>

theorem selection_borders:
  assumes "select_op s s'" "borders_ok s"
  shows "borders_ok s'"
  by (rule borders_step [OF assms])

lemma selection_borders_witness: "borders_ok (run_state (called (select_down ''r1'' ''e1'' [''r1''] 0 ex_sel)))"
proof (rule selection_borders [OF select_op.on_interface])
  show "interface_click True ''e1'' ''r1'' ex_sel = Some (called (select_down ''r1'' ''e1'' [''r1''] 0 ex_sel))"
    by code_simp
  show "borders_ok ex_sel" by (simp add: borders_ok_def ex_sel_def ex_arr_def app0_def)
qed

end
