(* ===== verification/Views.thy ===== *)
theory Views
  imports MapOps
begin

text \<open>
  What drawing leaves alone. Drawing, arranging and connecting write only to what is drawn: the
  page, the temporary data, the connections, and the order of the lists of links. A view of the
  state is a function that does not see these writes; the locale lists them, and its lemmas say
  that no function that draws changes what such a view sees, however it ends.
\<close>

lemma run_state_lift [simp]: "run_state (lift_run f r) = f (run_state r)"
  by (cases r) (simp_all add: lift_run_def)

locale drawing_view =
  fixes v :: "app \<Rightarrow> 'a"
  assumes v_writes [simp]:
    "v (s\<lparr>page := p\<rparr>) = v s" "v (s\<lparr>temp_devs := t\<rparr>) = v s" "v (s\<lparr>connections := c\<rparr>) = v s"
    "v (s\<lparr>p2p_links := pp\<rparr>) = v s" "v (s\<lparr>rearranged := r\<rparr>) = v s" "v (s\<lparr>arranged := r\<rparr>) = v s"
    "v (s\<lparr>alerts := al\<rparr>) = v s" "v (s\<lparr>dev_list := dl\<rparr>) = v s" "v (s\<lparr>dev_selected := ds\<rparr>) = v s"
    "v (s\<lparr>int_size := isz\<rparr>) = v s" "v (s\<lparr>dev_name_size := nsz\<rparr>) = v s" "v (s\<lparr>bordered := bs\<rparr>) = v s"
    and v_sort_links [simp]: "v (sort_links d i s) = v s"
begin

lemma v_both [simp]:
  "v (s\<lparr>connections := c, alerts := al\<rparr>) = v s" "v (s\<lparr>arranged := r, rearranged := r'\<rparr>) = v s"
  using v_writes by simp_all

lemma v_parts [simp]:
  "v (put_temp d t s) = v s" "v (put_elem k e s) = v s" "v (set_tif d i tf s) = v s"
  "v (error_at m s) = v s" "v (move_elem k l t' s) = v s"
  by (simp_all add: put_temp_def put_elem_def set_tif_def error_at_def move_elem_def split: option.split)

lemma v_arrange_parts [simp]:
  "v (take_slot d i func n s) = v s" "v (set_cell d i c r s) = v s" "v (mark_relocated d i s) = v s"
  by (simp_all add: take_slot_def set_cell_def mark_relocated_def Let_def)

lemma occupy_view: "v (fst (run_state (occupy d i func n s))) = v s"
  by (simp add: occupy_def Let_def)

lemma tp_target_view: "v (fst (run_state (tp_target d i fr lid st))) = v (fst st)"
  by (cases st) (auto simp: tp_target_def split: option.split)

lemma dev_target_view: "v (fst (run_state (dev_target d i fe lid st))) = v (fst st)"
  by (cases st) (auto simp: dev_target_def split: option.split)

lemma settle_view: "v (fst (run_state (settle func off d i fe moved tgs st))) = v (fst st)"
proof (cases st)
  case (Pair s neis)
  show ?thesis
  proof (cases "closest tgs")
    case (Some tg)
    define best where "best = nearest_slot (\<lambda>sl. sq_dist (e_left fe + int (s_col sl) * int_size s + off,
                 e_top fe + int (s_row sl) * int_size s + off) (tg_x tg, tg_y tg)) (td_slots (temp_of s d))"
    show ?thesis
    proof (cases best)
      case (Some n)
      show ?thesis
        using occupy_view [of d i func n s] Pair \<open>closest tgs = Some tg\<close> Some
        by (cases "occupy d i func n s") (auto simp: settle_def Let_def best_def)
    qed (use Pair Some best_def in \<open>simp add: settle_def\<close>)
  qed (simp add: Pair settle_def)
qed

lemma arrange_if_view:
  assumes c: "\<And>lid st. v (fst (run_state (collect d i lid st))) = v (fst st)"
  shows "v (fst (run_state (arrange_if collect func off d fe moved i st))) = v (fst st)"
proof (cases st)
  case (Pair s neis)
  let ?s = "sort_links d i s"
  have e: "v (fst (run_state (each (collect d i) ls (?s, [])))) = v s" for ls
    using each_view [of "\<lambda>st. v (fst st)" "collect d i" ls "(?s, [])"] c by simp
  show ?thesis
    using Pair e [of "arr_links ?s d i"] settle_view
    by (cases "each (collect d i) (arr_links ?s d i) (?s, [])")
      (auto simp: arrange_if_def Let_def)
qed

lemma dev2tp_view [simp]: "v (run_state (arrange_interfaces_dev2tp d moved s)) = v s"
proof -
  have "v (fst (run_state (each (arrange_if (\<lambda>d i. tp_target d i fr) ''dev2tp'' 0 d fe moved) names (s, [])))) = v s"
    for fr fe names s
    using each_view [of "\<lambda>st. v (fst st)" "arrange_if (\<lambda>d i. tp_target d i fr) ''dev2tp'' 0 d fe moved" names "(s, [])"]
      arrange_if_view [OF tp_target_view] by simp
  then show ?thesis
    by (auto simp: arrange_interfaces_dev2tp_def Let_def split: option.split)
qed

lemma relocate_view: "v (run_state (relocate_if d i s)) = v s"
  using occupy_view by (auto simp: relocate_if_def split: option.split)

lemma dev2dev_body_view: "v (fst (run_state (dev2dev_body d moved s))) = v s"
proof -
  have a: "v (fst (run_state (each (arrange_if (\<lambda>d i. dev_target d i fe) f off d fe moved) names (s, [])))) = v s"
    for fe f off names s
    using each_view [of "\<lambda>st. v (fst st)" "arrange_if (\<lambda>d i. dev_target d i fe) f off d fe moved" names "(s, [])"]
      arrange_if_view [OF dev_target_view] by simp
  have b: "v (run_state (each (relocate_if d) names s)) = v s" for names s
    using each_view [of v, OF relocate_view] .
  show ?thesis
    unfolding dev2dev_body_def
    by (auto simp: a b seq_view [of "\<lambda>st. v (fst st)"] split: option.split prod.split)
qed

lemma dev2dev_view [simp]: "v (run_state (arrange_interfaces_dev2dev d rc moved s)) = v s"
proof -
  have 1: "v (run_state (each (\<lambda>dv s. called (arrange_interfaces_dev2tp dv False s)) xs s)) = v s" for xs s
    by (rule each_view) simp
  have 2: "v (run_state (each (\<lambda>dv s. if dv \<in> set (arranged s) then Done s
      else seq (called (arrange_interfaces_dev2tp dv False s)) (\<lambda>s. called (lift_run fst (dev2dev_body dv False s)))) xs s)) = v s" for xs s
    by (rule each_view) (simp add: seq_view [of v] dev2dev_body_view)
  show ?thesis
    using dev2dev_body_view [of d moved s]
    by (cases "dev2dev_body d moved s") (auto simp: arrange_interfaces_dev2dev_def seq_view [of v] 1 2 split: prod.split)
qed

lemma rearrange_all_view [simp]: "v (run_state (rearrange_all s)) = v s"
  unfolding rearrange_all_def by (rule each_view) (simp add: seq_view [of v] split: option.split)

lemma set_drawn_view [simp]: "v (set_drawn lid l dr s) = v s"
  by (simp add: set_drawn_def split: option.split)

lemma draw_parts_view [simp]:
  "v (put_button k txt c s) = v s" "v (draw_line l p q col w da s) = v s"
  by (simp_all add: put_button_def draw_line_def Let_def)

lemma draw_leg_view [simp]: "v (run_state (draw_leg lid status virt nl s)) = v s"
  by (simp add: draw_leg_def Let_def split: line_place.split)

lemma draw_tp_view [simp]: "v (run_state (draw_tp lid k s)) = v s"
  by (simp add: draw_tp_def split: sum.split)

lemma draw_connection_view [simp]: "v (run_state (draw_connection lid s)) = v s"
  by (simp add: draw_connection_def Let_def seq_view [of v] each_view [of v] split: option.split)

lemma draw_all_view [simp]: "v (run_state (draw_all s)) = v s"
  unfolding draw_all_def by (rule each_view) simp

lemma redraw_view [simp]: "v (run_state (redraw s)) = v s"
  by (simp add: redraw_def seq_view [of v] forget_arranged_def)

lemma push_l3_view [simp]: "v (push_l3 d i lid s) = v s"
  by (simp add: push_l3_def Let_def)

lemma l3_link_ip_view: "v (fst (run_state (l3_link_ip lc d i f ipe st))) = v (fst st)"
  by (cases st) (auto simp: l3_link_ip_def Let_def split: option.split sum.split prod.split)

lemma if_link_specs_view: "v (fst (run_state (if_link_specs lc d i s))) = v s"
proof -
  have "v (fst (run_state (each (l3_link_ip lc d i f) xs (s', [])))) = v s'" for f xs s'
    using each_view [of "\<lambda>st. v (fst st)" "l3_link_ip lc d i f" xs "(s', [])"] l3_link_ip_view by simp
  then show ?thesis
    by (auto simp: if_link_specs_def l3_links_of_def l2_links_of_def split: option.split sum.split)
qed

lemma connect_view [simp]: "v (connect d i li s) = v s"
  by (auto simp: connect_def Let_def split: prod.split)

lemma connect_if_view [simp]: "v (run_state (connect_if lc d i s)) = v s"
  using if_link_specs_view [of lc d i s]
  by (cases "if_link_specs lc d i s") (auto simp: connect_if_def fold_view [of v] split: prod.split)

lemma build_connections_view [simp]: "v (run_state (build_connections lc s)) = v s"
  unfolding build_connections_def by (rule each_view) (simp add: each_view [of v])

lemma clear_leg_view [simp]: "v (clear_leg lid nl s) = v s"
  by (simp add: clear_leg_def Let_def split: option.split)

lemma clear_legs_view [simp]: "v (clear_legs lid s) = v s"
  by (simp add: clear_legs_def fold_view [of v] split: option.split)

lemma clear_link_view [simp]: "v (clear_link_objects lid s) = v s"
  by (simp add: clear_link_objects_def Let_def fold_view [of v] split: option.split)

lemma add_device_view [simp]: "v (run_state (add_device text_size d s)) = v s"
proof -
  have p: "v (put_temp d t (s\<lparr>page := pg\<rparr>)) = v s" for t pg by simp
  show ?thesis
    by (auto simp: add_device_def Let_def split: option.split run.split prod.split)
qed

lemma device_to_list_view [simp]: "v (run_state (device_to_list d s)) = v s"
  by (simp add: device_to_list_def split: option.split)

lemma data_loaded_view:
  "v (run_state (data_loaded lc text_size nd False s)) =
     v (s\<lparr>devs := sv_devs nd, l2_links := sv_l2_links nd, l3_links := sv_l3_links nd\<rparr>)"
proof -
  have l: "v (run_state (each (load_device text_size) ds s)) = v s" for ds s
    by (rule each_view) (simp add: load_device_def)
  have h: "v (s\<lparr>dev_selected := [], devs := a, l2_links := b, l3_links := c\<rparr>) =
      v (s\<lparr>devs := a, l2_links := b, l3_links := c\<rparr>)" for a b c
  proof -
    have e: "s\<lparr>dev_selected := [], devs := a, l2_links := b, l3_links := c\<rparr> =
        s\<lparr>devs := a, l2_links := b, l3_links := c\<rparr>\<lparr>dev_selected := []\<rparr>" by simp
    show ?thesis unfolding e by (rule v_writes(9))
  qed
  show ?thesis
    by (simp add: data_loaded_def Let_def seq_view [of v] l resort_dev_list_def set_sizes_def reset_page_def h)
qed

lemma drop_device_view [simp]: "v (drop_device d s) = v s"
  using v_writes(1, 12) by (simp add: drop_device_def)

end

text \<open>Views of the network itself do not see the layout, what is sent of it, or its being unsaved either.\<close>

locale network_view = drawing_view +
  assumes v_layout [simp]:
    "v (s\<lparr>map_data := m\<rparr>) = v s" "v (s\<lparr>sent := qs\<rparr>) = v s" "v (s\<lparr>g_unsaved := u\<rparr>) = v s"
begin

lemma set_tps_net [simp]: "v (set_tps lid ot s) = v s"
  by (simp add: set_tps_def Let_def)

lemma save_map_net [simp]: "v (save_map k i fk md s) = v s"
  by (simp add: save_map_def)

lemma drop_link_net [simp]: "v (drop_link d lid s) = v s"
  using v_writes(3) by (simp add: drop_link_def Let_def split: option.split)

lemma remove_from_map_net: "\<exists>s'. remove_from_map lc d False s = Done s' \<and> v s' = v s"
  by (simp add: remove_from_map_def Let_def resort_dev_list_def fold_view [of v])

lemma redraw_data_net: "v (run_state (data_loaded lc text_size (loaded_data s) False s)) = v s"
  by (simp add: data_loaded_view loaded_data_def)

end

end
