(* ===== verification/Sync.thy ===== *)
theory Sync
  imports Views
begin

text \<open>
  The copy of the map the server stores follows the one on the page: what the queries of
  \<open>save_map\<close> do to a stored layout (\<open>http-ajax.go\<close>), and that every operation on the map,
  however its redrawing ends, sends queries that bring the stored layout to the new state.
\<close>

section \<open>The stored layout\<close>

text \<open>
  The server reads the object of a \<open>save_map_key_id\<close> query as a JSON object, so it rejects a
  colour, which is a string; the layout stays as it was.
\<close>

fun store_item :: "string \<Rightarrow> string \<Rightarrow> saved \<Rightarrow> map_data \<Rightarrow> map_data" where
  "store_item key i (SLoc l) m = (if key = ''loc'' then m\<lparr>map_loc := oset i l (map_loc m)\<rparr> else m)"
| "store_item key i (STps t) m = (if key = ''tps'' then m\<lparr>map_tps := oset i t (map_tps m)\<rparr> else m)"
| "store_item key i v m = m"

definition drop_item :: "string \<Rightarrow> string \<Rightarrow> map_data \<Rightarrow> map_data" where
  "drop_item key i m =
     (if key = ''loc'' then m\<lparr>map_loc := odel i (map_loc m)\<rparr>
      else if key = ''tps'' then m\<lparr>map_tps := odel i (map_tps m)\<rparr>
      else if key = ''colors'' then m\<lparr>map_colors := odel i (map_colors m)\<rparr> else m)"

fun store_part :: "string \<Rightarrow> saved \<Rightarrow> map_data \<Rightarrow> map_data" where
  "store_part key (SAllLoc ls) m = (if key = ''loc'' then m\<lparr>map_loc := ls\<rparr> else m)"
| "store_part key (SAllTps ts) m = (if key = ''tps'' then m\<lparr>map_tps := ts\<rparr> else m)"
| "store_part key (SAllColors cs) m = (if key = ''colors'' then m\<lparr>map_colors := cs\<rparr> else m)"
| "store_part key v m = m"

definition clear_part :: "string \<Rightarrow> map_data \<Rightarrow> map_data" where
  "clear_part key m =
     (if key = ''loc'' then m\<lparr>map_loc := []\<rparr> else if key = ''tps'' then m\<lparr>map_tps := []\<rparr>
      else if key = ''colors'' then m\<lparr>map_colors := []\<rparr> else m)"

text \<open>The layouts of a user by their file key; a layout nobody saved is empty.\<close>

type_synonym store = "string \<Rightarrow> map_data"

fun store_query :: "query \<Rightarrow> store \<Rightarrow> store" where
  "store_query (SaveKeyId key i fk v) st = st(fk := store_item key i v (st fk))"
| "store_query (DelKeyId key i fk) st = st(fk := drop_item key i (st fk))"
| "store_query (SaveKey key fk v) st = st(fk := store_part key v (st fk))"
| "store_query (DelKey key fk) st = st(fk := clear_part key (st fk))"
| "store_query (SaveMap fk (SMap (Some m))) st = st(fk := m)"
| "store_query (SaveMap fk v) st = st(fk := map_data0)"

text \<open>Two maps with the same positions, turnpoints and colours.\<close>

definition same_map :: "map_data \<Rightarrow> map_data \<Rightarrow> bool" where
  "same_map m n \<longleftrightarrow> oget (map_loc m) = oget (map_loc n) \<and> oget (map_tps m) = oget (map_tps n) \<and>
     oget (map_colors m) = oget (map_colors n)"

text \<open>
  In step: after the queries sent since the page was loaded, the stored layout is the one on the
  page. While the layout of another user is shown as the default one, nothing is stored yet.
\<close>

definition in_step :: "store \<Rightarrow> app \<Rightarrow> bool" where
  "in_step st s \<longleftrightarrow> (default_map s \<and> file_key s = [] \<and> sent s = []) \<or>
     same_map (fold store_query (sent s) st (file_key s)) (map_data s)"

section \<open>What is stored of the state\<close>

definition stored_view :: "app \<Rightarrow> map_data \<times> query list \<times> bool \<times> string \<times> bool" where
  "stored_view s = (map_data s, sent s, default_map s, file_key s, enable_save s)"

lemma view_simps [simp]:
  "stored_view (s\<lparr>page := p\<rparr>) = stored_view s" "stored_view (s\<lparr>devs := dv\<rparr>) = stored_view s"
  "stored_view (s\<lparr>temp_devs := t\<rparr>) = stored_view s" "stored_view (s\<lparr>connections := c\<rparr>) = stored_view s"
  "stored_view (s\<lparr>p2p_links := pp\<rparr>) = stored_view s" "stored_view (s\<lparr>rearranged := r\<rparr>) = stored_view s"
  "stored_view (s\<lparr>arranged := r\<rparr>) = stored_view s" "stored_view (s\<lparr>alerts := al\<rparr>) = stored_view s"
  "stored_view (s\<lparr>connections := c, alerts := al\<rparr>) = stored_view s"
  "stored_view (s\<lparr>arranged := r, rearranged := r'\<rparr>) = stored_view s"
  "stored_view (s\<lparr>dev_list := dl\<rparr>) = stored_view s" "stored_view (s\<lparr>dev_selected := ds\<rparr>) = stored_view s"
  "stored_view (s\<lparr>l2_links := l2\<rparr>) = stored_view s" "stored_view (s\<lparr>l3_links := l3\<rparr>) = stored_view s"
  "stored_view (s\<lparr>int_size := isz\<rparr>) = stored_view s" "stored_view (s\<lparr>dev_name_size := nsz\<rparr>) = stored_view s"
  "stored_view (s\<lparr>bordered := bs\<rparr>) = stored_view s"
  by (simp_all add: stored_view_def)

lemma set_if_view [simp]: "stored_view (set_if d i f s) = stored_view s"
  by (simp add: set_if_def)

interpretation stored: drawing_view stored_view
  by unfold_locales (simp_all add: sort_links_def Let_def set_tif_def)

section \<open>One change, one query\<close>

lemma in_step_view: "stored_view s = stored_view s' \<Longrightarrow> in_step st s = in_step st s'"
  by (simp add: stored_view_def in_step_def)

lemma save_map_fields [simp]:
  "map_data (save_map k i fk md s) = map_data s" "default_map (save_map k i fk md s) = default_map s"
  "file_key (save_map k i fk md s) = file_key s" "enable_save (save_map k i fk md s) = enable_save s"
  by (simp_all add: save_map_def)

lemma sent_save_map: "enable_save s \<Longrightarrow> sent (save_map k i fk md s) = sent s @ [save_query s k i fk md]"
  by (simp add: save_map_def)

text \<open>The state before a change and after it, apart from what is drawn.\<close>

definition changes_to :: "app \<Rightarrow> map_data \<Rightarrow> app \<Rightarrow> bool" where
  "changes_to s m s' \<longleftrightarrow> map_data s' = m \<and> sent s' = sent s \<and> default_map s' = default_map s \<and>
     file_key s' = file_key s \<and> enable_save s' = enable_save s"

lemma in_step_whole:
  assumes "enable_save s"
  shows "in_step st (save_map None None None None s)"
  using assms by (auto simp: in_step_def sent_save_map save_query_def Let_def same_map_def)

lemma in_step_change:
  assumes st: "in_step st s" and en: "enable_save s" and ch: "changes_to s m s'"
    and q: "\<And>x. same_map x (map_data s) \<Longrightarrow>
      same_map (store_query (case md_item m k i of Some v \<Rightarrow> SaveKeyId k i (file_key s) v | None \<Rightarrow> DelKeyId k i (file_key s))
        (\<lambda>_. x) (file_key s)) m"
  shows "in_step st (save_map (Some k) (Some i) None None s')"
proof (cases "default_map s \<and> file_key s = []")
  case True
  with ch en show ?thesis by (simp add: in_step_def changes_to_def sent_save_map save_query_def Let_def same_map_def)
next
  case False
  let ?x = "fold store_query (sent s) st (file_key s)"
  have "same_map ?x (map_data s)" using st False by (auto simp: in_step_def)
  note qq = q [OF this]
  have "save_query s' (Some k) (Some i) None None =
      (case md_item m k i of Some v \<Rightarrow> SaveKeyId k i (file_key s) v | None \<Rightarrow> DelKeyId k i (file_key s))"
    using False ch by (auto simp: save_query_def Let_def changes_to_def split: option.split)
  with qq ch en show ?thesis
    by (cases "md_item m k i") (simp_all add: in_step_def changes_to_def sent_save_map)
qed

lemma changes_set_tps: "changes_to s (map_data (set_tps lid ot s)) (set_tps lid ot s)"
  by (simp add: changes_to_def set_tps_def Let_def)

lemma same_map_refl [simp]: "same_map m m"
  by (simp add: same_map_def)

lemma in_step_tps:
  assumes "in_step st s" "enable_save s"
  shows "in_step st (save_map (Some ''tps'') (Some lid) None None (set_tps lid ot s))"
  by (rule in_step_change [OF assms changes_set_tps])
    (cases ot, auto simp: set_tps_def Let_def md_item_def same_map_def drop_item_def fun_eq_iff)

lemma in_step_loc:
  assumes "in_step st s" "enable_save s"
  shows "in_step st (save_map (Some ''loc'') (Some d) None None (set_loc d x y s))"
  by (rule in_step_change [OF assms, of "map_data (set_loc d x y s)"])
    (auto simp: changes_to_def set_loc_def Let_def md_item_def same_map_def fun_eq_iff)

lemma in_step_del_loc:
  assumes "in_step st s" "enable_save s"
  shows "in_step st (save_map (Some ''loc'') (Some d) None None (s\<lparr>map_data := (map_data s)\<lparr>map_loc := odel d (map_loc (map_data s))\<rparr>\<rparr>))"
  by (rule in_step_change [OF assms, of "(map_data s)\<lparr>map_loc := odel d (map_loc (map_data s))\<rparr>"])
    (auto simp: changes_to_def md_item_def same_map_def drop_item_def fun_eq_iff)

lemma in_step_part_tps:
  assumes st: "in_step st s" "enable_save s" "changes_to s m s'"
    and m: "oget (map_loc m) = oget (map_loc (map_data s))" "oget (map_colors m) = oget (map_colors (map_data s))"
  shows "in_step st (save_map (Some ''tps'') None None None s')"
proof (cases "default_map s \<and> file_key s = []")
  case True
  with st show ?thesis by (simp add: in_step_def changes_to_def sent_save_map save_query_def Let_def same_map_def)
next
  case False
  with st m show ?thesis
    by (auto simp: in_step_def changes_to_def sent_save_map save_query_def Let_def same_map_def md_part_def)
qed

section \<open>Every operation on the map\<close>

lemma stored_redraw [simp]: "stored_view (run_state (data_loaded lc text_size nd False s)) = stored_view s"
  by (simp add: stored.data_loaded_view)

lemma view_eqD: "stored_view s = stored_view s' \<Longrightarrow> map_data s = map_data s' \<and> sent s = sent s' \<and>
    default_map s = default_map s' \<and> file_key s = file_key s' \<and> enable_save s = enable_save s'"
  by (simp add: stored_view_def)

lemma link_tps_view: "stored_view s = stored_view s' \<Longrightarrow> link_tps s lid = link_tps s' lid"
  by (simp add: stored_view_def link_tps_def)

lemma drop_link_changes: "changes_to s m s' \<Longrightarrow> map_loc m = map_loc (map_data s) \<Longrightarrow> map_colors m = map_colors (map_data s) \<Longrightarrow>
    \<exists>m'. changes_to s m' (drop_link d lid s') \<and> map_loc m' = map_loc (map_data s) \<and> map_colors m' = map_colors (map_data s)"
  using view_eqD [OF stored.clear_link_view [of lid s']]
  by (auto simp: drop_link_def changes_to_def set_tps_def Let_def split: option.split)

lemma fold_drop_link_changes: "changes_to s m s' \<Longrightarrow> map_loc m = map_loc (map_data s) \<Longrightarrow> map_colors m = map_colors (map_data s) \<Longrightarrow>
    \<exists>m'. changes_to s m' (fold (drop_link d) lids s') \<and> map_loc m' = map_loc (map_data s) \<and> map_colors m' = map_colors (map_data s)"
proof (induction lids arbitrary: m s')
  case (Cons lid lids)
  from drop_link_changes [OF Cons.prems, of d lid] obtain m' where
    "changes_to s m' (drop_link d lid s')" "map_loc m' = map_loc (map_data s)" "map_colors m' = map_colors (map_data s)" by blast
  from Cons.IH [OF this] show ?case by simp
qed auto

lemma drop_link_tps: "link_tps s k = None \<Longrightarrow> link_tps (drop_link d lid s) k = None"
  using link_tps_view [OF stored.clear_link_view [of lid s]]
  by (auto simp: drop_link_def link_tps_def set_tps_def Let_def split: option.split)

lemma fold_drop_link_tps: "link_tps s k = None \<Longrightarrow> link_tps (fold (drop_link d) lids s) k = None"
  by (induction lids arbitrary: s) (simp_all add: drop_link_tps)

text \<open>
  The operations the page offers on the map, with how they end, and whether the operation is a drag
  of several devices, which is saved after everything is drawn anew. Those on turnpoints act on a
  link whose turnpoints form a path, as they always do.
\<close>

definition con_link_ok :: "connection \<Rightarrow> tps option \<Rightarrow> bool" where
  "con_link_ok con ot \<longleftrightarrow> (\<exists>ks. link_ok (End (from_dev con) (from_int con)) (End (to_dev con) (to_int con)) ot ks)"

definition group_moves :: "dev_id \<Rightarrow> app \<Rightarrow> bool" where
  "group_moves d s \<longleftrightarrow> 2 \<le> length (dev_selected s) \<and> d \<in> set (dev_selected s)"

inductive map_op :: "(string \<Rightarrow> string \<Rightarrow> int) \<Rightarrow> (string \<Rightarrow> int \<times> int) \<Rightarrow> app \<Rightarrow> bool \<Rightarrow> app run \<Rightarrow> bool" for lc text_size where
  op_new_tp: "oget (connections s) lid = Some con \<Longrightarrow> l < length (legs con) \<Longrightarrow> con_link_ok con (link_tps s lid) \<Longrightarrow>
    leg_ends (legs con ! l) \<in> set (drawn_legs (from_dev con) (from_int con) (to_dev con) (to_int con) (link_tps s lid)) \<Longrightarrow>
    map_op lc text_size s False (new_tp lc lid l cx cy s)"
| op_remove_tp: "con_link_ok con (link_tps s lid) \<Longrightarrow> link_tps s lid = Some t \<Longrightarrow> k \<in> set (okeys t) \<Longrightarrow>
    map_op lc text_size s False (remove_tp lc lid k s)"
| op_tp_moved: "con_link_ok con (link_tps s lid) \<Longrightarrow> link_tps s lid = Some t \<Longrightarrow> k \<in> set (okeys t) \<Longrightarrow>
    map_op lc text_size s False (tp_moved lid k x y s)"
| op_device_drag: "map_op lc text_size s False (device_drag d x y s)"
| op_drag_stop: "map_op lc text_size s (group_moves d s) (device_drag_stop d x y s)"
| op_from_list: "map_op lc text_size s False (dev_list_stop lc text_size d out x y s)"
| op_remove: "link_tps s d = None \<Longrightarrow> map_op lc text_size s False (remove_from_map lc d to_list s)"

lemma rebuild_link_step:
  assumes "in_step st s" "enable_save s"
  shows "in_step st (run_state (rebuild_link lc lid (set_tps lid ot s)))"
proof -
  let ?s = "save_map (Some ''tps'') (Some lid) None None (set_tps lid ot s)"
  have "stored_view (run_state (rebuild_link lc lid (set_tps lid ot s))) = stored_view ?s"
    by (simp add: rebuild_link_def Let_def seq_view [of stored_view])
  from in_step_view [OF this] in_step_tps [OF assms] show ?thesis by simp
qed

lemma new_tp_step:
  assumes st: "in_step st s" "enable_save s" and con: "oget (connections s) lid = Some con" "l < length (legs con)"
    and ok: "con_link_ok con (link_tps s lid)"
    and leg: "leg_ends (legs con ! l) \<in> set (drawn_legs (from_dev con) (from_int con) (to_dev con) (to_int con) (link_tps s lid))"
  shows "in_step st (run_state (new_tp lc lid l cx cy s))"
proof -
  obtain ks where ks: "link_ok (End (from_dev con) (from_int con)) (End (to_dev con) (to_int con)) (link_tps s lid) ks"
    using ok by (auto simp: con_link_ok_def)
  from drawn_legs_edge [OF ks leg] obtain xs ys where
    e: "ks = xs @ ys" "pairs (leg_nodes (leg_ends (legs con ! l))) (last_node (End (from_dev con) (from_int con)) xs) (next_node ys (End (to_dev con) (to_int con)))"
    by blast
  define s1 where "s1 = s\<lparr>page := odel (new_tp_elm lid l) (page s)\<rparr>"
  define s2 where "s2 = new_tp_clear lid s1"
  have v: "stored_view s2 = stored_view s"
    by (simp add: s2_def s1_def new_tp_clear_def Let_def fold_view [of stored_view] split: option.split)
  obtain t' where t': "new_tp_tps (snap (int_size s) cx + tp_grid_offset s) (snap (int_size s) cy + tp_grid_offset s)
      (leg_ends (legs con ! l)) (link_tps s lid) = Done (Some t')"
    using new_tp_link_ok [OF ks [unfolded e(1)] e(2)] by blast
  have "new_tp lc lid l cx cy s = rebuild_link lc lid (set_tps lid (Some t') s2)"
    using con t' link_tps_view [OF v, of lid]
    by (simp add: new_tp_def Let_def s1_def s2_def tp_grid_offset_def)
  moreover have "in_step st s2" "enable_save s2" using st in_step_view [OF v] view_eqD [OF v] by simp_all
  ultimately show ?thesis using rebuild_link_step by simp
qed

lemma remove_tp_step:
  assumes st: "in_step st s" "enable_save s" and ok: "con_link_ok con (link_tps s lid)"
    and k: "link_tps s lid = Some t" "k \<in> set (okeys t)"
  shows "in_step st (run_state (remove_tp lc lid k s))"
proof -
  obtain ks where ks: "link_ok (End (from_dev con) (from_int con)) (End (to_dev con) (to_int con)) (link_tps s lid) ks"
    using ok by (auto simp: con_link_ok_def)
  then have "k \<in> set ks" using k by (auto simp: link_ok_def chain_def)
  then obtain xs ys where x: "ks = xs @ k # ys" by (meson split_list)
  from remove_tp_link_ok [OF ks [unfolded x]] obtain ot' where ot': "remove_tp_tps k (link_tps s lid) = Done ot'" by blast
  let ?s = "clear_link_objects lid s"
  have v: "stored_view ?s = stored_view s" by simp
  have "remove_tp lc lid k s = rebuild_link lc lid (set_tps lid ot' ?s)"
    using ot' link_tps_view [OF v, of lid] by (simp add: remove_tp_def Let_def)
  moreover have "in_step st ?s" "enable_save ?s" using st in_step_view [OF v] view_eqD [OF v] by simp_all
  ultimately show ?thesis using rebuild_link_step by simp
qed

lemma tp_moved_step:
  assumes st: "in_step st s" "enable_save s" and k: "link_tps s lid = Some t" "k \<in> set (okeys t)"
  shows "in_step st (run_state (tp_moved lid k x y s))"
proof -
  define s1 where "s1 = move_elem (tp_elm lid k) (tp_drop s x) (tp_drop s y) s"
  have v: "stored_view s1 = stored_view s" by (simp add: s1_def)
  have i: "int_size s1 = int_size s" by (simp add: s1_def move_elem_def split: option.split)
  obtain p where p: "oget t k = Some p" using k(2) by (metis oget_None_iff not_None_eq)
  obtain ot where ot: "move_tp_tps k (tp_drop s x + tp_btn_size s div 2) (tp_drop s y + tp_btn_size s div 2) (link_tps s lid) = Done ot"
    using k(1) p by (auto simp: move_tp_tps_def)
  have "tp_moved lid k x y s = redraw (save_map (Some ''tps'') (Some lid) None None (set_tps lid ot s1))"
    using ot link_tps_view [OF v, of lid] i by (simp add: tp_moved_def Let_def s1_def [symmetric] tp_btn_size_def)
  then have "stored_view (run_state (tp_moved lid k x y s)) = stored_view (save_map (Some ''tps'') (Some lid) None None (set_tps lid ot s1))"
    by simp
  from in_step_view [OF this] show ?thesis
    using in_step_tps [of st s1 lid ot] st in_step_view [OF v] view_eqD [OF v] by simp
qed

lemma forget_selected [simp]: "dev_selected (forget_arranged s) = dev_selected s"
  by (simp add: forget_arranged_def)

lemma set_tps_absent: "link_tps u d = None \<Longrightarrow> in_step st u \<Longrightarrow> in_step st (set_tps d None u)"
proof -
  assume n: "link_tps u d = None" and i: "in_step st u"
  have "oget (odel d (map_tps (map_data u))) = oget (map_tps (map_data u))"
    using n by (auto simp: link_tps_def fun_eq_iff)
  with i show ?thesis by (simp add: in_step_def same_map_def set_tps_def Let_def)
qed

lemma device_drag_step: "in_step st s \<Longrightarrow> enable_save s \<Longrightarrow> in_step st (run_state (device_drag d x y s))"
  using in_step_view [of "run_state (device_drag d x y s)" "save_map (Some ''loc'') (Some d) None None (set_loc d x y s)" st]
    in_step_loc by (simp add: device_drag_def)

lemma set_loc_enable [simp]: "enable_save (set_loc d x y s) = enable_save s"
  by (simp add: set_loc_def Let_def)

lemma view_enable: "stored_view s = stored_view s' \<Longrightarrow> enable_save s = enable_save s'"
  by (simp add: stored_view_def)

lemma move_elem_enable [simp]: "enable_save (move_elem k l t s) = enable_save s"
  by (rule view_enable) simp

lemma drag_selected_enable: "enable_save (fst (run_state (drag_selected d x y dx dy dv st))) = enable_save (fst st)"
  by (cases st) (auto simp: drag_selected_def Let_def split: option.split)

lemma shift_link_enable [simp]: "enable_save (shift_link dx dy lid s) = enable_save s"
  by (auto simp: shift_link_def set_tps_def Let_def split: option.split)

lemma group_drag_step:
  assumes en: "enable_save s" and r: "group_drag d x y s = Done s'"
  shows "in_step st s'"
proof -
  from r obtain l where l: "oget (map_loc (map_data s)) d = Some l" by (auto simp: group_drag_def split: option.splits)
  define dx dy where "dx = x - loc_x l" and "dy = y - loc_y l"
  let ?e = "each (drag_selected d x y dx dy) (dev_selected s) (forget_arranged s, [])"
  from r l obtain s2 ls where e: "?e = Done (s2, ls)"
    by (cases ?e) (auto simp: group_drag_def Let_def dx_def dy_def)
  let ?s3 = "fold (shift_link dx dy) ls s2"
  from r l e have "seq (seq (rearrange_all ?s3) draw_all) (\<lambda>s. Done (save_map None None None None s)) = Done s'"
    by (simp add: group_drag_def Let_def dx_def dy_def)
  then obtain s4 where s4: "seq (rearrange_all ?s3) draw_all = Done s4" "s' = save_map None None None None s4"
    by (cases "seq (rearrange_all ?s3) draw_all") auto
  have "enable_save (fst (run_state ?e)) = enable_save s"
    using each_view [of "\<lambda>st. enable_save (fst st)" "drag_selected d x y dx dy", OF drag_selected_enable]
    by (simp add: forget_arranged_def)
  then have "enable_save ?s3" using en e by (simp add: fold_view [of enable_save])
  moreover have "stored_view (run_state (seq (rearrange_all ?s3) draw_all)) = stored_view ?s3"
    by (simp add: seq_view [of stored_view])
  ultimately have "enable_save s4" using s4(1) view_enable [of s4 ?s3] by simp
  then show ?thesis unfolding s4(2) by (rule in_step_whole)
qed

text \<open>A drag of several devices that does not come to its end has sent nothing.\<close>

definition sent_view :: "app \<Rightarrow> query list \<times> bool \<times> string \<times> bool" where
  "sent_view s = snd (stored_view s)"

lemma sent_view_stored: "stored_view s = stored_view s' \<Longrightarrow> sent_view s = sent_view s'"
  by (simp add: sent_view_def)

lemma set_loc_sent: "sent_view (set_loc d x y s) = sent_view s"
  by (simp add: sent_view_def stored_view_def set_loc_def Let_def)

lemma drag_selected_sent: "sent_view (fst (run_state (drag_selected d x y dx dy dv st))) = sent_view (fst st)"
proof -
  have "sent_view (move_elem k l t s) = sent_view s" for k l t s by (rule sent_view_stored) simp
  then show ?thesis by (cases st) (auto simp: drag_selected_def Let_def set_loc_sent split: option.split)
qed

lemma shift_link_sent: "sent_view (shift_link dx dy lid s) = sent_view s"
  by (auto simp: shift_link_def set_tps_def Let_def sent_view_def stored_view_def split: option.split)

lemma group_drag_cut: "\<not> finished (group_drag d x y s) \<Longrightarrow> sent_view (run_state (group_drag d x y s)) = sent_view s"
proof -
  assume n: "\<not> finished (group_drag d x y s)"
  show ?thesis
  proof (cases "oget (map_loc (map_data s)) d")
    case (Some l)
    define dx dy where "dx = x - loc_x l" and "dy = y - loc_y l"
    let ?e = "each (drag_selected d x y dx dy) (dev_selected s) (forget_arranged s, [])"
    have e: "sent_view (fst (run_state ?e)) = sent_view s"
      using each_view [of "\<lambda>st. sent_view (fst st)" "drag_selected d x y dx dy", OF drag_selected_sent]
        sent_view_stored [of "forget_arranged s" s] by (simp add: forget_arranged_def)
    show ?thesis
    proof (cases ?e)
      case (Done st)
      obtain s2 ls where st: "st = (s2, ls)" by (cases st)
      let ?r = "seq (rearrange_all (fold (shift_link dx dy) ls s2)) draw_all"
      have g: "group_drag d x y s = seq ?r (\<lambda>s. Done (save_map None None None None s))"
        using Some Done by (simp add: group_drag_def Let_def dx_def dy_def st)
      have v: "stored_view (run_state ?r) = stored_view (fold (shift_link dx dy) ls s2)"
        by (simp add: seq_view [of stored_view])
      from sent_view_stored [OF v] e Done have "sent_view (run_state ?r) = sent_view s"
        by (simp add: st fold_view [of sent_view, OF shift_link_sent])
      then show ?thesis using n by (cases ?r) (simp_all add: g)
    qed (use Some e in \<open>auto simp: group_drag_def Let_def dx_def dy_def\<close>)
  qed (simp add: group_drag_def)
qed

lemma in_step_as_before: "sent_view s' = sent_view s \<Longrightarrow> in_step st s \<Longrightarrow> sent s' = sent s \<and> in_step st (s'\<lparr>map_data := map_data s\<rparr>)"
  by (simp add: sent_view_def stored_view_def in_step_def)

lemma drag_stop_step:
  assumes st: "in_step st s" "enable_save s" and r_def: "r = device_drag_stop d x y s"
  shows "if group_moves d s \<and> \<not> finished r then sent (run_state r) = sent s \<and> in_step st ((run_state r)\<lparr>map_data := map_data s\<rparr>)
    else in_step st (run_state r)"
proof -
  define px py where "px = snap (int_size s) (max 0 x)" and "py = snap (int_size s) (max 0 y)"
  define s1 where "s1 = move_elem d px py s"
  have v: "stored_view s1 = stored_view s" by (simp add: s1_def)
  then have st1: "in_step st s1" "enable_save s1" using st in_step_view [OF v] view_enable [OF v] by simp_all
  have sel: "dev_selected s1 = dev_selected s" by (simp add: s1_def move_elem_def split: option.split)
  have r: "r = (if group_moves d s then group_drag d px py s1 else device_drag d px py s1)"
    by (simp add: r_def device_drag_stop_def Let_def s1_def px_def py_def sel [unfolded s1_def px_def py_def] group_moves_def not_less)
  show ?thesis
  proof (cases "group_moves d s")
    case g: True
    have cut: "sent (run_state r) = sent s \<and> in_step st ((run_state r)\<lparr>map_data := map_data s\<rparr>)" if "\<not> finished r"
    proof (rule in_step_as_before [OF _ st(1)])
      show "sent_view (run_state r) = sent_view s"
        using group_drag_cut [of d px py s1] that r g by (simp add: sent_view_stored [OF v])
    qed
    have "in_step st (run_state r)" if f: "finished r"
    proof -
      obtain s' where d: "r = Done s'" using f by (cases r) simp_all
      with r g have "group_drag d px py s1 = Done s'" by simp
      from group_drag_step [OF st1(2) this] show ?thesis by (simp only: d run_state.simps)
    qed
    with cut g show ?thesis by simp
  next
    case False
    with r device_drag_step [OF st1, of d px py] show ?thesis by simp
  qed
qed

lemma dev_list_stop_step:
  assumes "in_step st s" "enable_save s"
  shows "in_step st (run_state (dev_list_stop lc text_size d out x y s))"
proof -
  let ?s = "s\<lparr>dev_list := filter (\<lambda>e. fst e \<noteq> d) (dev_list s)\<rparr>"
  let ?t = "save_map (Some ''loc'') (Some d) None None (set_loc d (snap (int_size s) (max 0 x)) (snap (int_size s) (max 0 y)) ?s)"
  have "stored_view ?s = stored_view s" by simp
  from in_step_view [OF this] assms have t: "in_step st ?t" using in_step_loc [of st ?s] by simp
  have "out \<Longrightarrow> stored_view (run_state (dev_list_stop lc text_size d out x y s)) = stored_view ?t"
    by (simp add: dev_list_stop_def Let_def)
  from in_step_view [OF this] t show ?thesis using assms by (cases out) (simp_all add: dev_list_stop_def)
qed

lemma remove_step:
  assumes st: "in_step st s" "enable_save s" and d: "link_tps s d = None"
  shows "in_step st (run_state (remove_from_map lc d to_list s))"
proof -
  let ?s1 = "save_map (Some ''loc'') (Some d) None None (s\<lparr>map_data := (map_data s)\<lparr>map_loc := odel d (map_loc (map_data s))\<rparr>\<rparr>)"
  have i1: "in_step st ?s1" by (rule in_step_del_loc [OF st])
  let ?r = "if to_list then device_to_list d ?s1 else Done ?s1"
  have vr: "stored_view (run_state ?r) = stored_view ?s1" by simp
  show ?thesis
  proof (cases ?r)
    case (Done s2)
    with vr have v2: "stored_view s2 = stored_view ?s1" by simp
    define s3 where "s3 = drop_device d (s2\<lparr>temp_devs := odel d (temp_devs s2)\<rparr>)"
    have v3: "stored_view s3 = stored_view ?s1" using v2 by (simp add: s3_def)
    have i3: "in_step st s3" "enable_save s3" using i1 in_step_view [OF v3] view_enable [OF v3] st(2) by simp_all
    define s4 where "s4 = fold (drop_link d) (okeys (connections s3)) s3"
    obtain m where m: "changes_to s3 m s4" "map_loc m = map_loc (map_data s3)" "map_colors m = map_colors (map_data s3)"
      using fold_drop_link_changes [of s3 "map_data s3" s3 d "okeys (connections s3)"] by (auto simp: changes_to_def s4_def)
    have i5: "in_step st (save_map (Some ''tps'') None None None s4)"
      by (rule in_step_part_tps [OF i3 m(1)]) (simp_all add: m)
    have "link_tps s3 d = None" using d link_tps_view [OF v3, of d] by (simp add: link_tps_def)
    then have n: "link_tps s4 d = None" by (simp add: s4_def fold_drop_link_tps)
    have "run_state (remove_from_map lc d to_list s) = set_tps d None (resort_dev_list lc (save_map (Some ''tps'') None None None s4))"
      using Done by (simp add: remove_from_map_def Let_def s3_def s4_def)
    moreover have v5: "stored_view (resort_dev_list lc (save_map (Some ''tps'') None None None s4)) = stored_view (save_map (Some ''tps'') None None None s4)"
      by (simp add: resort_dev_list_def)
    moreover have "link_tps (save_map (Some ''tps'') None None None s4) d = None" using n by (simp add: link_tps_def)
    ultimately show ?thesis
      using i5 in_step_view [OF v5, of st] link_tps_view [OF v5, of d] set_tps_absent by simp
  next
    case (Halt s2)
    then show ?thesis using i1 vr in_step_view [OF vr] by (simp add: remove_from_map_def Let_def)
  next
    case (Threw e s2)
    then show ?thesis using i1 vr in_step_view [OF vr] by (simp add: remove_from_map_def Let_def)
  qed
qed

text \<open>
  C2: however an operation on the map ends (also when drawing it throws an exception), the
  queries sent bring the stored layout to the positions, turnpoints and colours on the page. The
  one exception is a drag of several devices at once that does not come to its end: it has sent
  nothing, and the stored layout stays the one before the drag.
\<close>

theorem map_ops_stored:
  assumes "map_op lc text_size s many r" "in_step st s" "enable_save s"
  shows "if many \<and> \<not> finished r then sent (run_state r) = sent s \<and> in_step st ((run_state r)\<lparr>map_data := map_data s\<rparr>)
    else in_step st (run_state r)"
  using assms(1)
proof cases
  case op_new_tp
  with assms new_tp_step show ?thesis by simp
next
  case op_remove_tp
  with assms remove_tp_step show ?thesis by simp
next
  case op_tp_moved
  with assms tp_moved_step show ?thesis by simp
next
  case op_device_drag
  with assms device_drag_step show ?thesis by simp
next
  case op_drag_stop
  with drag_stop_step [OF assms(2,3) op_drag_stop(2)] show ?thesis by simp
next
  case op_from_list
  with assms dev_list_stop_step show ?thesis by simp
next
  case op_remove
  with assms remove_step show ?thesis by simp
qed

lemma map_ops_stored_witness: "in_step (\<lambda>_. map_data0) (run_state (device_drag ''r1'' 32 48 ex_arr))"
  using map_ops_stored [OF op_device_drag, of "\<lambda>_. map_data0" ex_arr]
  by (simp add: in_step_def same_map_def ex_arr_def app0_def)

end
