(* ===== verification/IpAddr.thy ===== *)
theory IpAddr
  imports JsText "HOL-Library.Word"
begin

unbundle bit_operations_syntax

text \<open>
  IPv4 addresses and masks: \<open>v4len2mask\<close>, \<open>v4len2maskN\<close>, \<open>cidr_valid\<close>, \<open>v4oct2long\<close>,
  \<open>v4ip2long\<close>, \<open>v4long2ip\<close>, \<open>ip4octets\<close>, \<open>ip4net\<close>, \<open>net_mask_wc\<close> and \<open>hex2ip\<close>. JavaScript's
  \<open>&\<close>, \<open>~\<close> and \<open>>>>\<close> work on 32 bits (\<open>32 word\<close>), the operators of \<open>BigInt\<close> on numbers of
  any size. A number here is one that JavaScript represents exactly, that is below \<open>2 ^ 53\<close>.
\<close>

section \<open>The functions\<close>

type_synonym u32 = "32 word"

definition v4len2mask :: "nat list" where
  "v4len2mask = [0, 2147483648, 3221225472, 3758096384, 4026531840, 4160749568, 4227858432,
     4261412864, 4278190080, 4286578688, 4290772992, 4292870144, 4293918720, 4294443008,
     4294705152, 4294836224, 4294901760, 4294934528, 4294950912, 4294959104, 4294963200,
     4294965248, 4294966272, 4294966784, 4294967040, 4294967168, 4294967232, 4294967264,
     4294967280, 4294967288, 4294967292, 4294967294, 4294967295]"

definition v4len2maskN :: "nat list" where
  "v4len2maskN = [0, 2147483648, 3221225472, 3758096384, 4026531840, 4160749568, 4227858432,
     4261412864, 4278190080, 4286578688, 4290772992, 4292870144, 4293918720, 4294443008,
     4294705152, 4294836224, 4294901760, 4294934528, 4294950912, 4294959104, 4294963200,
     4294965248, 4294966272, 4294966784, 4294967040, 4294967168, 4294967232, 4294967264,
     4294967280, 4294967288, 4294967292, 4294967294, 4294967295]"

definition v4oct2long :: "nat \<Rightarrow> nat \<Rightarrow> nat \<Rightarrow> nat \<Rightarrow> nat" where
  "v4oct2long i3 i2 i1 i0 = unat (of_nat (i3 * 16777216 + i2 * 65536 + i1 * 256 + i0) :: u32)"

definition digits_upto :: "nat \<Rightarrow> string \<Rightarrow> bool" where
  "digits_upto n s \<longleftrightarrow> 1 \<le> length s \<and> length s \<le> n \<and> list_all is_digit s"

text \<open>
  A group of digits cannot contain the separators, so the regular expressions match exactly
  when the parts between the separators are groups of digits.
\<close>

definition v4ip2long :: "string \<Rightarrow> nat option" where
  "v4ip2long s = (case split_on (CHR ''.'') s of
      [a, b, c, d] \<Rightarrow>
        if digits_upto 3 a \<and> digits_upto 3 b \<and> digits_upto 3 c \<and> digits_upto 3 d then
          if str_nat a > 255 \<or> str_nat b > 255 \<or> str_nat c > 255 \<or> str_nat d > 255 then None
          else Some (v4oct2long (str_nat a) (str_nat b) (str_nat c) (str_nat d))
        else None
    | _ \<Rightarrow> None)"

definition cidr_valid :: "string \<Rightarrow> bool" where
  "cidr_valid s = (case split_on (CHR ''.'') s of
      [a, b, c, de] \<Rightarrow> (case split_on (CHR ''/'') de of
          [d, e] \<Rightarrow>
            if digits_upto 3 a \<and> digits_upto 3 b \<and> digits_upto 3 c \<and> digits_upto 3 d \<and> digits_upto 2 e then
              if str_nat a > 255 \<or> str_nat b > 255 \<or> str_nat c > 255 \<or> str_nat d > 255 \<or> str_nat e > 32
              then False
              else
                let ip = v4oct2long (str_nat a) (str_nat b) (str_nat c) (str_nat d);
                    n = unat ((of_nat ip AND of_nat (v4len2mask ! str_nat e)) :: u32)
                in ip = n
            else False
        | _ \<Rightarrow> False)
    | _ \<Rightarrow> False)"

definition ip4octets :: "nat \<Rightarrow> nat list" where
  "ip4octets n =
     [n div 16777216,
      unat ((of_nat n AND 0xFFFFFF) :: u32) div 65536,
      unat ((of_nat n AND 0xFFFF) :: u32) div 256,
      unat ((of_nat n AND 0xFF) :: u32)]"

definition v4long2ip :: "nat \<Rightarrow> string" where
  "v4long2ip n = (let oc = ip4octets n in
     nat_str (oc ! 0) @ ''.'' @ nat_str (oc ! 1) @ ''.'' @ nat_str (oc ! 2) @ ''.'' @ nat_str (oc ! 3))"

text \<open>\<open>BigInt(ip) & undefined\<close> is an exception.\<close>

definition ip4net :: "nat \<Rightarrow> nat \<Rightarrow> exn + nat" where
  "ip4net ip mlen = (if mlen < length v4len2maskN then Inr (ip AND v4len2maskN ! mlen) else Inl TypeError)"

definition wildcard :: "nat \<Rightarrow> nat" where
  "wildcard m = unat (NOT (of_nat m) :: u32)"

definition net_mask_wc :: "nat \<Rightarrow> nat \<Rightarrow> string" where
  "net_mask_wc n mlen = v4long2ip n @ ''/'' @ nat_str mlen @ '' ('' @ v4long2ip (v4len2mask ! mlen) @ '' '' @
     v4long2ip (wildcard (v4len2mask ! mlen)) @ '')''"

definition hex_val :: "char \<Rightarrow> nat" where
  "hex_val c = (if is_digit c then code c - 48 else code (lower c) - 87)"

definition hex_nat :: "string \<Rightarrow> nat option" where
  "hex_nat s = (if s \<noteq> [] \<and> list_all is_hex s then Some (foldl (\<lambda>n c. 16 * n + hex_val c) 0 s) else None)"

text \<open>
  \<open>Number("0x" + hex)\<close> drops trailing white space; anything but hexadecimal digits gives
  \<open>NaN\<close>, whose first octet prints as \<open>NaN\<close> and whose bits are all zero.
\<close>

definition hex2ip :: "string \<Rightarrow> string" where
  "hex2ip h = (case hex_nat (rev (dropWhile is_space (rev h))) of
      None \<Rightarrow> ''NaN.0.0.0''
    | Some n \<Rightarrow> v4long2ip n)"

section \<open>Masks\<close>

lemma mask_table: "v4len2mask = map (\<lambda>n. 2 ^ 32 - 2 ^ (32 - n)) [0..<33]"
  by (simp add: v4len2mask_def upt_rec)

lemma maskN_table: "v4len2maskN = v4len2mask"
  by (simp add: v4len2mask_def v4len2maskN_def)

lemma mask_at: "n \<le> 32 \<Longrightarrow> v4len2mask ! n = 2 ^ 32 - 2 ^ (32 - n)"
  by (simp add: mask_table del: upt_rec_numeral)

lemma length_maskN: "length v4len2maskN = 33"
  by (simp add: v4len2maskN_def)

lemma high_mask: "k \<le> m \<Longrightarrow> 2 ^ m - 2 ^ k = push_bit k (mask (m - k) :: nat)"
  by (simp add: mask_eq_exp_minus_1 push_bit_eq_mult diff_mult_distrib power_add [symmetric])

lemma and_high_mask:
  assumes "(n :: nat) < 2 ^ m" "k \<le> m"
  shows "n AND (2 ^ m - 2 ^ k) = n div 2 ^ k * 2 ^ k"
proof -
  have "n AND push_bit k (mask (m - k)) = push_bit k (take_bit (m - k) (drop_bit k n))"
    by (rule bit_eqI) (auto simp: bit_simps)
  also have "take_bit (m - k) (drop_bit k n) = drop_bit k n"
    using assms by (simp add: take_bit_nat_eq_self_iff drop_bit_eq_div less_mult_imp_div_less power_add [symmetric])
  finally show ?thesis using assms by (simp add: high_mask push_bit_eq_mult drop_bit_eq_div)
qed

lemma unat_u32 [simp]: "n < 2 ^ 32 \<Longrightarrow> unat (of_nat n :: u32) = n"
  by (simp add: unat_of_nat take_bit_nat_eq_self_iff)

lemma unat_and_u32: "m < 2 ^ 32 \<Longrightarrow> n < 2 ^ 32 \<Longrightarrow> unat ((of_nat m AND of_nat n) :: u32) = (m AND n)"
  by (simp add: unsigned_and_eq)

lemma ip4net_eq: "ip < 2 ^ 32 \<Longrightarrow> n \<le> 32 \<Longrightarrow> ip4net ip n = Inr (ip div 2 ^ (32 - n) * 2 ^ (32 - n))"
  using and_high_mask [of ip 32 "32 - n"] by (simp add: ip4net_def length_maskN mask_at) (simp add: maskN_table mask_at)

lemma wildcard_eq: "n \<le> 32 \<Longrightarrow> wildcard (v4len2mask ! n) = 2 ^ (32 - n) - 1"
proof -
  assume n: "n \<le> 32"
  have "(2 :: nat) ^ (32 - n) \<le> 2 ^ 32" by (rule power_increasing) simp_all
  then have "unat (of_nat (v4len2mask ! n) :: u32) = 2 ^ 32 - 2 ^ (32 - n)"
    unfolding mask_at [OF n] by (intro unat_u32) simp
  moreover have "unat (NOT w) = 2 ^ 32 - 1 - unat w" for w :: u32
  proof -
    have "NOT w = - 1 - w" by (simp add: not_eq_complement)
    moreover have "unat (- 1 - w) = unat (- 1 :: u32) - unat w" by (rule unat_sub) simp
    ultimately show ?thesis by (simp add: unsigned_minus_1_eq_mask mask_eq_exp_minus_1)
  qed
  ultimately show ?thesis unfolding wildcard_def using \<open>2 ^ (32 - n) \<le> 2 ^ 32\<close> by simp
qed

section \<open>Addresses\<close>

lemma low_mask: "unat ((of_nat n AND of_nat (mask k)) :: u32) = n mod 2 ^ k" if "k \<le> 32"
proof -
  have "(of_nat n AND of_nat (mask k) :: u32) = take_bit k (of_nat n)"
    by (simp add: take_bit_eq_mask of_nat_mask_eq)
  then have "unat ((of_nat n AND of_nat (mask k)) :: u32) = take_bit k (take_bit 32 n)"
    by (simp only: unsigned_take_bit_eq unsigned_of_nat) simp
  also have "\<dots> = take_bit k n" using that by (simp add: take_bit_take_bit min_def)
  finally show ?thesis by (simp only: take_bit_eq_mod)
qed

lemma low_masks:
  "unat ((of_nat n AND 0xFFFFFF) :: u32) = n mod 16777216"
  "unat ((of_nat n AND 0xFFFF) :: u32) = n mod 65536"
  "unat ((of_nat n AND 0xFF) :: u32) = n mod 256"
  using low_mask [of 24 n] low_mask [of 16 n] low_mask [of 8 n] by (simp_all add: mask_eq_exp_minus_1)

lemma ip4octets_eq: "ip4octets n = [n div 16777216, n mod 16777216 div 65536, n mod 65536 div 256, n mod 256]"
  by (simp add: ip4octets_def low_masks)

lemma dot_free: "CHR ''.'' \<notin> set (nat_str n)" "CHR ''/'' \<notin> set (nat_str n)"
proof -
  have "list_all is_digit (nat_str n)" using is_num_nat_str [of n] by (simp add: is_num_def del: is_num_nat_str)
  moreover have "\<not> is_digit CHR ''.''" "\<not> is_digit CHR ''/''" by code_simp+
  ultimately show "CHR ''.'' \<notin> set (nat_str n)" "CHR ''/'' \<notin> set (nat_str n)" by (auto simp: list_all_iff)
qed

lemma digits_upto_nat_str: "n < 10 ^ k \<Longrightarrow> 0 < k \<Longrightarrow> digits_upto k (nat_str n)"
  using length_nat_str [of n k] is_num_nat_str [of n] nat_str_nonempty [of n]
  by (simp add: digits_upto_def is_num_def Suc_le_eq del: nat_str_nonempty is_num_nat_str)

lemma octets_lt: "n < 2 ^ 32 \<Longrightarrow> n div 16777216 < 256" "n mod 16777216 div 65536 < 256"
    "n mod 65536 div 256 < 256" "n mod 256 < (256 :: nat)"
  by (simp_all add: less_mult_imp_div_less)

lemma byte_le: "n mod 256 \<le> (255 :: nat)"
  using mod_less_divisor [of 256 n] by linarith

lemma octets_sum: "n div 16777216 * 16777216 + n mod 16777216 div 65536 * 65536 + n mod 65536 div 256 * 256 + n mod 256 = (n :: nat)"
proof -
  have "n mod 16777216 mod 65536 = n mod 65536" "n mod 65536 mod 256 = n mod 256" by (simp_all add: mod_mod_cancel)
  then show ?thesis
    using div_mult_mod_eq [of n 16777216] div_mult_mod_eq [of "n mod 16777216" 65536]
      div_mult_mod_eq [of "n mod 65536" 256] by linarith
qed

lemma v4long2ip_eq: "v4long2ip n = nat_str (n div 16777216) @ CHR ''.'' # nat_str (n mod 16777216 div 65536) @
    CHR ''.'' # nat_str (n mod 65536 div 256) @ CHR ''.'' # nat_str (n mod 256)"
  by (simp add: v4long2ip_def ip4octets_eq Let_def)

lemma v4ip2long_v4long2ip: "n < 2 ^ 32 \<Longrightarrow> v4ip2long (v4long2ip n) = Some n"
proof -
  assume n: "n < 2 ^ 32"
  note o = octets_lt [of n] octets_lt(1) [OF n]
  have d: "digits_upto 3 (nat_str (n div 16777216))" "digits_upto 3 (nat_str (n mod 16777216 div 65536))"
    "digits_upto 3 (nat_str (n mod 65536 div 256))" "digits_upto 3 (nat_str (n mod 256))"
    using o by (auto intro!: digits_upto_nat_str)
  have "v4oct2long (n div 16777216) (n mod 16777216 div 65536) (n mod 65536 div 256) (n mod 256) = n"
    unfolding v4oct2long_def octets_sum using n by (rule unat_u32)
  with d o byte_le [of n] show ?thesis
    by (simp add: v4ip2long_def v4long2ip_eq split_on_append split_on_free dot_free not_less)
qed

lemma cidr_valid_v4long2ip:
  assumes n: "n < 2 ^ 32" and k: "k < 100"
  shows "cidr_valid (v4long2ip n @ ''/'' @ nat_str k) \<longleftrightarrow> k \<le> 32 \<and> n mod 2 ^ (32 - k) = 0"
proof -
  note o = octets_lt [of n] octets_lt(1) [OF n]
  have d: "digits_upto 3 (nat_str (n div 16777216))" "digits_upto 3 (nat_str (n mod 16777216 div 65536))"
    "digits_upto 3 (nat_str (n mod 65536 div 256))" "digits_upto 3 (nat_str (n mod 256))"
    "digits_upto 2 (nat_str k)"
    using o k by (auto intro!: digits_upto_nat_str)
  have v: "v4oct2long (n div 16777216) (n mod 16777216 div 65536) (n mod 65536 div 256) (n mod 256) = n"
    unfolding v4oct2long_def octets_sum using n by (rule unat_u32)
  have free: "CHR ''.'' \<notin> set (nat_str (n mod 256) @ CHR ''/'' # nat_str k)" by (simp add: dot_free)
  have net: "unat ((of_nat n AND of_nat (v4len2mask ! k)) :: u32) = n div 2 ^ (32 - k) * 2 ^ (32 - k)" if "k \<le> 32"
  proof -
    have "v4len2mask ! k < 2 ^ 32" unfolding mask_at [OF that] by simp
    then have "unat ((of_nat n AND of_nat (v4len2mask ! k)) :: u32) = (n AND v4len2mask ! k)"
      using n by (rule unat_and_u32 [rotated])
    then show ?thesis using and_high_mask [OF n, of "32 - k"] by (simp add: mask_at that)
  qed
  have eq: "(n = n div m * m) = (n mod m = 0)" for m :: nat
    using div_mult_mod_eq [of n m] by linarith
  show ?thesis
    using d o v net byte_le [of n] eq [of "2 ^ (32 - k)"]
    by (simp add: cidr_valid_def v4long2ip_eq split_on_append split_on_free dot_free free not_less Let_def)
qed

section \<open>Properties\<close>

text \<open>
  Printing a 32-bit address and parsing the text gives the address back.
\<close>

theorem ip_text_roundtrip: "n < 2 ^ 32 \<Longrightarrow> v4ip2long (v4long2ip n) = Some n"
  by (rule v4ip2long_v4long2ip)

lemma ip_text_roundtrip_witness: "v4ip2long (v4long2ip 3232235777) = Some 3232235777"
  by (rule ip_text_roundtrip) simp

text \<open>
  \<open>cidr_valid\<close> accepts the text of an address and a mask length exactly when the length is
  at most 32 and the address has no bit outside the mask.
\<close>

theorem cidr_valid_iff:
  "n < 2 ^ 32 \<Longrightarrow> k < 100 \<Longrightarrow>
     cidr_valid (v4long2ip n @ ''/'' @ nat_str k) \<longleftrightarrow> k \<le> 32 \<and> n mod 2 ^ (32 - k) = 0"
  by (rule cidr_valid_v4long2ip)

lemma cidr_valid_iff_witness: "cidr_valid (v4long2ip 167772160 @ ''/'' @ nat_str 8) \<and> \<not> cidr_valid (v4long2ip 167772161 @ ''/'' @ nat_str 8)"
  using cidr_valid_iff [of 167772160 8] cidr_valid_iff [of 167772161 8] by simp

text \<open>
  For every address and every mask length from 0 to 32, \<open>ip4net\<close> returns the network address
  (the low bits cleared), and the wildcard \<open>net_mask_wc\<close> prints is the number of its hosts less one.
\<close>

theorem ip4net_network:
  assumes "ip < 2 ^ 32" "n \<le> 32"
  shows "ip4net ip n = Inr (ip - ip mod 2 ^ (32 - n)) \<and> wildcard (v4len2mask ! n) = 2 ^ (32 - n) - 1"
  using ip4net_eq [OF assms] wildcard_eq [OF assms(2)] by (simp add: minus_mod_eq_div_mult)

lemma ip4net_network_witness:
  "ip4net 3232235777 24 = Inr (3232235777 - 3232235777 mod 2 ^ (32 - 24)) \<and> wildcard (v4len2mask ! 24) = 2 ^ (32 - 24) - 1"
  by (rule ip4net_network) simp_all

end
