(* ===== verification/Tags.thy ===== *)
theory Tags
  imports Sorting "HOL-Library.Word"
begin

unbundle bit_operations_syntax

text \<open>
  The trees of locations and projects: \<open>get_tag_path\<close>, \<open>get_tag_name\<close>, the words of \<open>get_tag\<close>
  and \<open>tag_compare\<close>. The two bits of the flags that mean ``show in the tooltip'' and ``show in
  the label'' are the constants \<open>http-ajax.go\<close> writes into the page.
\<close>

section \<open>Looking a tag up\<close>

datatype tag = Tag (tag_id: string) (tag_text: string) (tag_descr: string) (tag_flags: "nat option") (tag_children: "tag list")

record path_entry =
  pe_id :: string
  pe_text :: string
  pe_descr :: string
  pe_flags :: "nat option"

definition tag_entry :: "tag \<Rightarrow> path_entry" where
  "tag_entry t = \<lparr>pe_id = tag_id t, pe_text = tag_text t, pe_descr = tag_descr t, pe_flags = tag_flags t\<rparr>"

text \<open>
  The value of a call: a path, \<open>null\<close>, or \<open>undefined\<close> from the guard on the depth. The caller
  takes \<open>undefined\<close> for a path, because it is not \<open>null\<close>, and calling \<open>slice\<close> on it is an
  exception.
\<close>

datatype path_result = Path "path_entry list" | PNull | PUndef

fun get_tag_path :: "tag \<Rightarrow> string \<Rightarrow> nat \<Rightarrow> exn + path_result"
and find_in_children :: "path_entry \<Rightarrow> tag list \<Rightarrow> string \<Rightarrow> nat \<Rightarrow> exn + path_result" where
  "get_tag_path (Tag i t d f cs) tid counter =
     (if counter > 100 then Inr PUndef
      else if i = tid then Inr (Path [tag_entry (Tag i t d f cs)])
      else find_in_children (tag_entry (Tag i t d f cs)) cs tid counter)"
| "find_in_children e [] tid counter = Inr PNull"
| "find_in_children e (c # cs) tid counter = (case get_tag_path c tid (counter + 1) of
      Inl x \<Rightarrow> Inl x
    | Inr PNull \<Rightarrow> find_in_children e cs tid counter
    | Inr PUndef \<Rightarrow> Inl TypeError
    | Inr (Path rec_res) \<Rightarrow> Inr (Path (e # rec_res)))"

definition get_tag_name :: "tag \<Rightarrow> string \<Rightarrow> exn + string" where
  "get_tag_name t tid = (case get_tag_path t tid 0 of
      Inl x \<Rightarrow> Inl x
    | Inr (Path p) \<Rightarrow> Inr (if p = [] then [] else pe_text (last p))
    | Inr PNull \<Rightarrow> Inr []
    | Inr PUndef \<Rightarrow> Inl TypeError)"

definition F_DISPLAY :: nat where "F_DISPLAY = 4"
definition F_IN_LABEL :: nat where "F_IN_LABEL = 8"

text \<open>An absent \<open>flags\<close> has no bit set.\<close>

definition flag_set :: "nat \<Rightarrow> path_entry \<Rightarrow> bool" where
  "flag_set fl e = (case pe_flags e of None \<Rightarrow> False | Some f \<Rightarrow> 0 < (f AND fl))"

definition get_tag :: "tag \<Rightarrow> string \<Rightarrow> exn + (string \<times> string list)" where
  "get_tag t tid = (case get_tag_path t tid 0 of
      Inl x \<Rightarrow> Inl x
    | Inr (Path p) \<Rightarrow> Inr (join '':'' (map pe_text (filter (\<lambda>e. flag_set F_IN_LABEL e \<or> pe_id e = tid) p)),
        map pe_text (filter (\<lambda>e. flag_set F_DISPLAY e \<or> pe_id e = tid) p))
    | Inr PNull \<Rightarrow> Inr (''NULL'', [''tag not found''])
    | Inr PUndef \<Rightarrow> Inr ('''', []))"

section \<open>Comparing tags\<close>

definition compare_labels :: "string \<Rightarrow> path_entry list \<Rightarrow> string list" where
  "compare_labels tid p =
     map pe_text (filter (\<lambda>e. pe_flags e \<noteq> None \<and> (flag_set F_IN_LABEL e \<or> pe_id e = tid)) p)"

fun compare_words :: "(string \<Rightarrow> string \<Rightarrow> int) \<Rightarrow> string list \<Rightarrow> string list \<Rightarrow> int option" where
  "compare_words lc (a # as) (b # bs) =
     (if a \<noteq> b then Some (num_compare lc a b) else compare_words lc as bs)"
| "compare_words lc as bs = None"

definition tag_compare :: "(string \<Rightarrow> string \<Rightarrow> int) \<Rightarrow> tag \<Rightarrow> string \<Rightarrow> string \<Rightarrow> exn + int" where
  "tag_compare lc base a b =
     (if a = b then Inr 0
      else if a = ''all'' then Inr (- 1)
      else if b = ''all'' then Inr 1
      else if a = ''nodata'' then Inr (- 1)
      else if b = ''nodata'' then Inr 1
      else if a = ''l3'' then Inr (- 1)
      else if b = ''l3'' then Inr 1
      else (case (get_tag_path base a 0, get_tag_path base b 0) of
          (Inl x, _) \<Rightarrow> Inl x
        | (_, Inl x) \<Rightarrow> Inl x
        | (Inr PNull, _) \<Rightarrow> Inr (- 1)
        | (_, Inr PNull) \<Rightarrow> Inr 1
        | (Inr (Path p), Inr (Path q)) \<Rightarrow>
            let la = compare_labels a p; lb = compare_labels b q
            in (case compare_words lc la lb of
                  Some c \<Rightarrow> Inr c
                | None \<Rightarrow> Inr (int (length la) - int (length lb)))
        | _ \<Rightarrow> Inr 0))"

section \<open>The lookup is right\<close>

fun tag_depth :: "tag \<Rightarrow> nat" where
  "tag_depth (Tag i t d f cs) = Suc (fold max (map tag_depth cs) 0)"

fun tag_ids :: "tag \<Rightarrow> string set" where
  "tag_ids (Tag i t d f cs) = insert i (\<Union> (set (map tag_ids cs)))"

text \<open>A path of the tree: from the root over children to a tag.\<close>

inductive tree_path :: "tag \<Rightarrow> path_entry list \<Rightarrow> bool" where
  here: "tree_path t [tag_entry t]"
| down: "c \<in> set (tag_children t) \<Longrightarrow> tree_path c p \<Longrightarrow> tree_path t (tag_entry t # p)"

inductive_simps tree_path_Nil [simp]: "tree_path t []"
inductive_cases tree_path_ConsE: "tree_path t (e # p)"

lemma tree_path_nonempty: "tree_path t p \<Longrightarrow> p \<noteq> []"
  by (auto elim: tree_path.cases)

lemma fold_max_le: "x \<in> set xs \<Longrightarrow> x \<le> fold max xs (n :: nat)" "n \<le> fold max xs n"
proof (induction xs arbitrary: n)
  case (Cons y ys)
  { case 1 then show ?case using Cons.IH(1) [of "max y n"] Cons.IH(2) [of "max y n"] by auto }
  { case 2 show ?case using Cons.IH(2) [of "max y n"] by simp }
qed simp_all

lemma child_depth: "c \<in> set cs \<Longrightarrow> tag_depth c < tag_depth (Tag i t d f cs)"
  using fold_max_le(1) [of "tag_depth c" "map tag_depth cs" 0] by simp

lemma get_tag_path_sound:
  "get_tag_path t tid n = Inr (Path p) \<Longrightarrow> tree_path t p \<and> pe_id (last p) = tid"
  "find_in_children e cs tid n = Inr (Path p) \<Longrightarrow>
     \<exists>c q. c \<in> set cs \<and> p = e # q \<and> tree_path c q \<and> pe_id (last q) = tid"
proof (induction t tid n and e cs tid n arbitrary: p and p rule: get_tag_path_find_in_children.induct)
  case (1 i t d f cs tid counter)
  let ?t = "Tag i t d f cs"
  have d: "\<not> 100 < counter" using "1.prems" by (auto split: if_splits)
  show ?case
  proof (cases "i = tid")
    case True
    with d "1.prems" have "p = [tag_entry ?t]" by simp
    then show ?thesis using tree_path.here [of ?t] True by (simp add: tag_entry_def)
  next
    case False
    with d "1.prems" have "find_in_children (tag_entry ?t) cs tid counter = Inr (Path p)" by simp
    from "1.IH" [OF d False this] obtain c q where
      q: "c \<in> set cs" "p = tag_entry ?t # q" "tree_path c q" "pe_id (last q) = tid" by blast
    have "tree_path ?t p" unfolding q(2) by (rule tree_path.down) (use q in simp_all)
    with q tree_path_nonempty [OF q(3)] show ?thesis by simp
  qed
next
  case (3 e c cs tid counter)
  then show ?case by (fastforce split: sum.splits path_result.splits)
qed simp

lemma get_tag_path_complete:
  "n + tag_depth t \<le> 101 \<Longrightarrow> get_tag_path t tid n = Inr PNull \<and> tid \<notin> tag_ids t \<or>
     (\<exists>p. get_tag_path t tid n = Inr (Path p)) \<and> tid \<in> tag_ids t"
  "(\<forall>c \<in> set cs. n + 1 + tag_depth c \<le> 101) \<Longrightarrow>
     find_in_children e cs tid n = Inr PNull \<and> tid \<notin> \<Union> (set (map tag_ids cs)) \<or>
     (\<exists>p. find_in_children e cs tid n = Inr (Path p)) \<and> tid \<in> \<Union> (set (map tag_ids cs))"
proof (induction t tid n and e cs tid n rule: get_tag_path_find_in_children.induct)
  case (1 i t d f cs tid counter)
  have d: "counter \<le> 100" using "1.prems" by simp
  have c: "\<forall>c \<in> set cs. counter + 1 + tag_depth c \<le> 101"
  proof
    fix c assume "c \<in> set cs"
    then have "tag_depth c < tag_depth (Tag i t d f cs)" by (rule child_depth)
    with "1.prems" show "counter + 1 + tag_depth c \<le> 101" by linarith
  qed
  show ?case
  proof (cases "i = tid")
    case False
    with "1.IH" [OF _ False c] d show ?thesis by auto
  qed (use d in simp)
next
  case (3 e c cs tid counter)
  from "3.IH"(1) "3.prems" consider (no) "get_tag_path c tid (counter + 1) = Inr PNull" "tid \<notin> tag_ids c"
    | (yes) p where "get_tag_path c tid (counter + 1) = Inr (Path p)" "tid \<in> tag_ids c" by auto
  then show ?case
  proof cases
    case no
    then show ?thesis using "3.IH"(2) [OF _ ] "3.prems" by auto
  qed auto
qed simp

section \<open>Properties\<close>

text \<open>
  C22: in a tree of at most 101 levels the lookup never fails: it returns a path of the tree that
  starts at the root and ends at a tag with the wanted id if there is one, and \<open>null\<close>
  exactly when there is none.
\<close>

theorem get_tag_path_correct:
  assumes "tag_depth t \<le> 101"
  shows "(if tid \<in> tag_ids t
     then \<exists>p. get_tag_path t tid 0 = Inr (Path p) \<and> tree_path t p \<and> hd p = tag_entry t \<and> pe_id (last p) = tid
     else get_tag_path t tid 0 = Inr PNull)"
proof (cases "tid \<in> tag_ids t")
  case True
  then obtain p where p: "get_tag_path t tid 0 = Inr (Path p)"
    using get_tag_path_complete(1) [of 0 t tid] assms by auto
  from get_tag_path_sound(1) [OF p] have "tree_path t p" "pe_id (last p) = tid" by simp_all
  moreover have "hd p = tag_entry t" using \<open>tree_path t p\<close> by (auto elim: tree_path.cases)
  ultimately show ?thesis using True p by auto
next
  case False
  then show ?thesis using get_tag_path_complete(1) [of 0 t tid] assms by auto
qed

definition ex_sites :: tag where
  "ex_sites = Tag ''root'' '''' '''' None [Tag ''1'' ''North'' '''' (Some 8) [Tag ''7'' ''Depot'' '''' (Some 4) []],
     Tag ''2'' ''South'' '''' None []]"

lemma get_tag_path_correct_witness:
  "\<exists>p. get_tag_path ex_sites ''7'' 0 = Inr (Path p) \<and> tree_path ex_sites p \<and> hd p = tag_entry ex_sites \<and> pe_id (last p) = ''7''"
proof -
  have "tag_depth ex_sites \<le> 101" "''7'' \<in> tag_ids ex_sites" by (simp_all add: ex_sites_def)
  then show ?thesis using get_tag_path_correct [of ex_sites "''7''"] by simp
qed

text \<open>A tree that is one chain of \<open>n + 1\<close> tags, none of which has the id.\<close>

fun tag_chain :: "nat \<Rightarrow> tag" where
  "tag_chain 0 = Tag ''x'' '''' '''' None []"
| "tag_chain (Suc n) = Tag ''x'' '''' '''' None [tag_chain n]"

text \<open>
  A branch of more than 101 levels is not cut off but ends the lookup with an exception:
  the guard on the depth returns \<open>undefined\<close>, which the calling level takes for a path.
\<close>

theorem deep_tag_throws:
  "n + k = 101 \<Longrightarrow> tid \<noteq> ''x'' \<Longrightarrow> k \<le> 100 \<Longrightarrow> get_tag_path (tag_chain (n + m)) tid k = Inl TypeError"
proof (induction n arbitrary: k)
  case (Suc n)
  show ?case
  proof (cases "k = 100")
    case True
    then have "n = 0" using Suc.prems by simp
    with True Suc.prems show ?thesis by (cases "tag_chain m") simp
  next
    case False
    with Suc show ?thesis by simp
  qed
qed simp

lemma deep_tag_throws_witness: "get_tag_path (tag_chain (101 + 3)) ''7'' 0 = Inl TypeError"
  by (rule deep_tag_throws) simp_all

text \<open>
  \<open>tag_compare\<close> is not a consistent comparator: two different tags that are not in the
  tree each come before the other.
\<close>

theorem tag_compare_inconsistent:
  assumes "tag_depth base \<le> 101" "a \<notin> tag_ids base" "b \<notin> tag_ids base" "a \<noteq> b"
    and "a \<notin> {''all'', ''nodata'', ''l3''}" "b \<notin> {''all'', ''nodata'', ''l3''}"
  shows "tag_compare lc base a b = Inr (- 1) \<and> tag_compare lc base b a = Inr (- 1)"
proof -
  have "get_tag_path base a 0 = Inr PNull" "get_tag_path base b 0 = Inr PNull"
    using get_tag_path_complete(1) [of 0 base] assms(1-3) by auto
  with assms(4-) show ?thesis by (simp add: tag_compare_def)
qed

lemma tag_compare_inconsistent_witness:
  "tag_compare unit_cmp ex_sites ''41'' ''42'' = Inr (- 1) \<and> tag_compare unit_cmp ex_sites ''42'' ''41'' = Inr (- 1)"
  by (rule tag_compare_inconsistent) (simp_all add: ex_sites_def)

end
