(* ===== verification/Offline.thy ===== *)
theory Offline
  imports TextFns IpAddr Tags Connections Sync
begin

text \<open>
  The offline mode: the page is opened from a file and \<open>run_query\<close> hands every query to
  \<open>offline_query\<close>, which answers from the data of that file (\<open>OD\<close>) in place of the server.
  The theory models the data, the three searches and the answer to every action.
\<close>

section \<open>The data of the file\<close>

text \<open>
  A device of the file is a device with the attributes the searches read: the lists of tags
  the filter of \<open>get_front\<close> looks at (\<open>dev_projs\<close> and \<open>dev_projects\<close> are both read), the
  texts, the inventory tables, and the \<open>macs\<close> and \<open>arp\<close> attributes that \<open>get_device\<close>
  writes into its interfaces.
\<close>

record od_device = device +
  od_safe_id :: string
  od_sites :: "string list option"
  od_projs :: "string list option"
  od_projects :: "string list option"
  od_texts :: "(string, string) obj"
  od_tables :: "(string, (string, string) obj) obj"
  od_if_macs :: "(if_name, (string, string list) obj) obj"
  od_if_arp :: "(if_name, (string, string) obj) obj"

record od_map =
  om_site :: string
  om_proj :: string
  om_map :: map_data

record od =
  od_devs :: "(dev_id, od_device) obj"
  od_macs :: "(dev_id, (if_name, (string, string list) obj) obj) obj"
  od_arp :: "(dev_id, (if_name, (string, string) obj) obj) obj"
  od_l2_links :: "(link_id, l2_link) obj"
  od_l3_links :: "(string, (string, l3_end) obj) obj"
  od_maps :: "od_map list"
  od_site_tags :: "tag list"
  od_proj_tags :: "tag list"

definition od_field :: "od_device \<Rightarrow> string \<Rightarrow> string option" where
  "od_field d key =
     (if key = ''short_name'' then dev_short_name d
      else if key = ''model_short'' then Some (dev_model_short d)
      else if key = ''sysLocation'' then dev_sysLocation d
      else oget (od_texts d) key)"

section \<open>List helpers of the library\<close>

text \<open>
  \<open>in_array\<close> returns whether the value is in the list, and the dialogs it opens when the
  list is not there. \<open>append_once\<close> compares like \<open>includes\<close>.
\<close>

definition in_array :: "'a list option \<Rightarrow> 'a option \<Rightarrow> bool \<times> string list" where
  "in_array list v = (case list of
      None \<Rightarrow> (False, [''in_array(): Undefined list'', ''in_array(): list is not an array: undefined''])
    | Some xs \<Rightarrow> (list_ex (\<lambda>x. Some x = v) xs, []))"

definition append_once :: "'a list \<Rightarrow> 'a \<Rightarrow> 'a list" where
  "append_once xs v = (if v \<in> set xs then xs else xs @ [v])"

section \<open>Searching for a MAC address\<close>

text \<open>
  The elements of \<open>ip_macs\<close> are what the code puts there: not addresses but the ARP table
  objects of devices. \<open>==\<close> compares such an object by its text, \<open>===\<close> never finds it equal
  to a string.
\<close>

datatype mac_key = MacText string | MacObj dev_id

fun mac_str :: "mac_key \<Rightarrow> string" where
  "mac_str (MacText s) = s"
| "mac_str (MacObj d) = ''[object Object]''"

record dev_ref =
  ref_dev_id :: dev_id
  ref_short_name :: "string option"
  ref_safe_id :: string
  ref_status :: string

definition ref_of :: "dev_id \<Rightarrow> od_device \<Rightarrow> dev_ref" where
  "ref_of d dv = \<lparr>ref_dev_id = d, ref_short_name = dev_short_name dv, ref_safe_id = od_safe_id dv,
     ref_status = dev_overall_status dv\<rparr>"

record if_hit =
  hit_ref :: dev_ref
  hit_ifName :: if_name
  hit_interface :: "iface option"

record port_hit = if_hit +
  hit_vlan :: string

record arp_hit = if_hit +
  hit_ip :: string

record net_hit = if_hit +
  hit_net_ip :: string
  hit_masklen :: nat

record mac_info =
  mi_ports :: "port_hit list"
  mi_arps :: "arp_hit list"
  mi_ips :: "string list"
  mi_ifs :: "if_hit list"

text \<open>The entry for an interface of a table: the device must be there and have interfaces.\<close>

definition table_hit :: "od \<Rightarrow> dev_id \<Rightarrow> if_name \<Rightarrow> exn + if_hit" where
  "table_hit o1 d i = (case oget (od_devs o1) d of
      None \<Rightarrow> Inl TypeError
    | Some dv \<Rightarrow> (case interfaces dv of
        None \<Rightarrow> Inl TypeError
      | Some fs \<Rightarrow> Inr \<lparr>hit_ref = ref_of d dv, hit_ifName = i, hit_interface = oget fs i\<rparr>))"

definition with_vlan :: "if_hit \<Rightarrow> string \<Rightarrow> port_hit" where
  "with_vlan h v = if_hit.extend h \<lparr>hit_vlan = v\<rparr>"

definition with_ip :: "if_hit \<Rightarrow> string \<Rightarrow> arp_hit" where
  "with_ip h ip = if_hit.extend h \<lparr>hit_ip = ip\<rparr>"

definition with_net :: "if_hit \<Rightarrow> string \<Rightarrow> nat \<Rightarrow> net_hit" where
  "with_net h ip m = if_hit.extend h \<lparr>hit_net_ip = ip, hit_masklen = m\<rparr>"

definition mac_ports :: "od \<Rightarrow> mac_key \<Rightarrow> exn + port_hit list" where
  "mac_ports o1 mac =
     gather (\<lambda>(d, ifs). gather (\<lambda>(i, vlans). gather (\<lambda>(v, macs).
       if fst (in_array (Some macs) (Some (mac_str mac)))
       then map_sum id (\<lambda>h. [with_vlan h v]) (table_hit o1 d i) else Inr []) vlans) ifs) (od_macs o1)"

definition mac_arps :: "od \<Rightarrow> mac_key \<Rightarrow> exn + arp_hit list" where
  "mac_arps o1 mac =
     gather (\<lambda>(d, ifs). gather (\<lambda>(i, ips). gather (\<lambda>(ip, m).
       if m = mac_str mac then map_sum id (\<lambda>h. [with_ip h ip]) (table_hit o1 d i) else Inr [])
       ips) ifs) (od_arp o1)"

definition mac_ifs :: "od \<Rightarrow> mac_key \<Rightarrow> if_hit list" where
  "mac_ifs o1 mac = concat (map (\<lambda>(d, dv). concat (map (\<lambda>(i, f).
     if map_option MacText (ifPhysAddr f) = Some mac
     then [\<lparr>hit_ref = ref_of d dv, hit_ifName = i, hit_interface = Some f\<rparr>] else [])
     (dev_ifs (device.truncate dv)))) (od_devs o1))"

definition search_mac_info :: "od \<Rightarrow> mac_key \<Rightarrow> exn + mac_info" where
  "search_mac_info o1 mac = (case mac_ports o1 mac of
      Inl e \<Rightarrow> Inl e
    | Inr ps \<Rightarrow> (case mac_arps o1 mac of
        Inl e \<Rightarrow> Inl e
      | Inr as \<Rightarrow> Inr \<lparr>mi_ports = ps, mi_arps = as, mi_ips = foldl append_once [] (map hit_ip as),
          mi_ifs = mac_ifs o1 mac\<rparr>))"

section \<open>Searching for an address\<close>

text \<open>
  \<open>ip_macs\<close> reads \<open>OD["arp"][dev_id][ip]\<close>, the entry of the device's ARP data under the name
  of an interface, so what it gathers are the tables of interfaces that are called like the
  address.
\<close>

definition ip_macs :: "od \<Rightarrow> string \<Rightarrow> mac_key list" where
  "ip_macs o1 ip = fold (\<lambda>(d, ifs) acc. fold (\<lambda>i acc.
     if oget ifs ip \<noteq> None then append_once acc (MacObj d) else acc) (okeys ifs) acc) (od_arp o1) []"

definition net_match :: "nat \<Rightarrow> string \<Rightarrow> nat \<Rightarrow> bool" where
  "net_match v4ip if_ip m =
     (if is_loopback if_ip then False
      else (case v4ip2long if_ip of
          None \<Rightarrow> False
        | Some u \<Rightarrow> \<not> (m = 0 \<or> 32 < m) \<and> ip4net u m = ip4net v4ip m))"

definition ip_in_if :: "string \<Rightarrow> iface \<Rightarrow> bool" where
  "ip_in_if ip f = (case ips f of None \<Rightarrow> False | Some m \<Rightarrow> oget m ip \<noteq> None)"

definition own_hit :: "dev_id \<Rightarrow> od_device \<Rightarrow> if_name \<Rightarrow> iface \<Rightarrow> if_hit" where
  "own_hit d dv i f = \<lparr>hit_ref = ref_of d dv, hit_ifName = i, hit_interface = Some f\<rparr>"

definition ip_ifs :: "od \<Rightarrow> string \<Rightarrow> if_hit list" where
  "ip_ifs o1 ip = concat (map (\<lambda>(d, dv). concat (map (\<lambda>(i, f).
     if ip_in_if ip f then [own_hit d dv i f] else []) (dev_ifs (device.truncate dv)))) (od_devs o1))"

definition ip_net_ifs :: "od \<Rightarrow> string \<Rightarrow> nat \<Rightarrow> net_hit list" where
  "ip_net_ifs o1 ip v4ip = concat (map (\<lambda>(d, dv). concat (map (\<lambda>(i, f).
     if ip_in_if ip f then []
     else concat (map (\<lambda>(if_ip, e).
       if net_match v4ip if_ip (masklen e) then [with_net (own_hit d dv i f) if_ip (masklen e)] else [])
       (case ips f of None \<Rightarrow> [] | Some m \<Rightarrow> m)))
     (dev_ifs (device.truncate dv)))) (od_devs o1))"

record nei_hit =
  nh_ref :: dev_ref
  nh_source :: string
  nh_neighbour :: neighbour
  nh_nei_index :: string
  nh_port :: "nei_port option"
  nh_port_index :: string
  nh_interface :: "iface option"
  nh_ifName :: "if_name option"

text \<open>
  The interface of a port goes into the entry when the port names one the device has. Reading
  the interface table of a device without one throws.
\<close>

definition port_if :: "od_device \<Rightarrow> if_name option \<Rightarrow> exn + (iface option \<times> if_name option)" where
  "port_if dv i = (case i of
      None \<Rightarrow> Inr (None, None)
    | Some n \<Rightarrow> (case interfaces dv of
        None \<Rightarrow> Inl TypeError
      | Some fs \<Rightarrow> Inr (case oget fs n of None \<Rightarrow> (None, None) | Some f \<Rightarrow> (Some f, Some n))))"

definition nei_hits ::
    "string \<Rightarrow> (neighbour \<Rightarrow> bool) \<Rightarrow> dev_id \<Rightarrow> od_device \<Rightarrow> (string, nei_port) obj option \<Rightarrow> exn + nei_hit list" where
  "nei_hits src found d dv ports =
     gather (\<lambda>(p, port). gather (\<lambda>(n, nei).
       if found nei
       then map_sum id (\<lambda>(f, i). [\<lparr>nh_ref = ref_of d dv, nh_source = src, nh_neighbour = nei, nh_nei_index = n,
              nh_port = None, nh_port_index = p, nh_interface = f, nh_ifName = i\<rparr>]) (port_if dv (port_ifName port))
       else Inr []) (case port_neighbours port of None \<Rightarrow> [] | Some ns \<Rightarrow> ns))
       (case ports of None \<Rightarrow> [] | Some ps \<Rightarrow> ps)"

definition lldp_has_ip :: "string \<Rightarrow> neighbour \<Rightarrow> bool" where
  "lldp_has_ip ip n = (case RemMgmtAddr n of None \<Rightarrow> False | Some a \<Rightarrow> oget a ''1'' = Some ip)"

text \<open>\<open>cdpRemAddrDecoded\<close> is a string, so its property \<open>"1"\<close> is its second character.\<close>

definition cdp_has_ip :: "string \<Rightarrow> neighbour \<Rightarrow> bool" where
  "cdp_has_ip ip n = (case oget (nei_text n) ''cdpRemAddrDecoded'' of
      None \<Rightarrow> False
    | Some a \<Rightarrow> 1 < length a \<and> [a ! 1] = ip)"

definition ip_neigs :: "od \<Rightarrow> string \<Rightarrow> exn + nei_hit list" where
  "ip_neigs o1 ip = gather (\<lambda>(d, dv).
     (case nei_hits ''LLDP'' (lldp_has_ip ip) d dv (dev_lldp_ports dv) of
        Inl e \<Rightarrow> Inl e
      | Inr ls \<Rightarrow> map_sum id (\<lambda>cs. ls @ cs) (nei_hits ''CDP'' (cdp_has_ip ip) d dv (dev_cdp_ports dv)))) (od_devs o1)"

record ip_info =
  ii_macs :: "mac_key list"
  ii_ifs :: "if_hit list"
  ii_net_ifs :: "net_hit list"
  ii_neigs :: "nei_hit list"

definition search_ip_info :: "od \<Rightarrow> string \<Rightarrow> exn + ip_info option" where
  "search_ip_info o1 ip = (case v4ip2long ip of
      None \<Rightarrow> Inr None
    | Some v4ip \<Rightarrow> map_sum id (\<lambda>ns. Some \<lparr>ii_macs = ip_macs o1 ip, ii_ifs = ip_ifs o1 ip,
        ii_net_ifs = ip_net_ifs o1 ip v4ip, ii_neigs = ns\<rparr>) (ip_neigs o1 ip))"

section \<open>Searching for a text\<close>

text \<open>
  \<open>RegExp(text, 'i')\<close> for the patterns \<open>escapeRegex\<close> makes: ordinary characters and escaped
  special ones stand for themselves. What any other pattern matches is the business of the
  regular expressions of the language; it is the parameter \<open>compile\<close>, which gives no matcher
  for a pattern that is refused.
\<close>

fun lit_pattern :: "string \<Rightarrow> string option" where
  "lit_pattern [] = Some []"
| "lit_pattern (c # s) =
     (if c = CHR 0x5C then
        (case s of [] \<Rightarrow> None
         | d # t \<Rightarrow> if is_re_special d then map_option ((#) d) (lit_pattern t) else None)
      else if is_re_special c then None
      else map_option ((#) c) (lit_pattern s))"

type_synonym compile = "string \<Rightarrow> (string \<Rightarrow> bool) option"

definition RegExp_i :: "compile \<Rightarrow> compile" where
  "RegExp_i compile pat = (case lit_pattern pat of
      Some s \<Rightarrow> Some (re_search (re_liti s))
    | None \<Rightarrow> compile pat)"

text \<open>\<open>reg.test(undefined)\<close> tests the text \<open>undefined\<close>.\<close>

definition test_text :: "(string \<Rightarrow> bool) \<Rightarrow> string option \<Rightarrow> bool" where
  "test_text reg v = reg (undef_str v)"

definition dev_search_keys :: "string list" where
  "dev_search_keys = [''short_name'', ''id'', ''model_short'', ''model_long'', ''sysDescr'', ''sysLocation'', ''sysObjectID'']"

definition dev_inv_keys :: "string list" where
  "dev_inv_keys = [''invEntModel'', ''invEntSerial'']"

definition dev_match :: "(string \<Rightarrow> bool) \<Rightarrow> od_device \<Rightarrow> bool" where
  "dev_match reg dv \<longleftrightarrow>
     list_ex (\<lambda>k. case od_field dv k of None \<Rightarrow> False | Some v \<Rightarrow> reg v) dev_search_keys \<or>
     list_ex (\<lambda>k. case oget (od_tables dv) k of None \<Rightarrow> False | Some t \<Rightarrow> list_ex (\<lambda>(j, v). reg v) t) dev_inv_keys"

definition if_match :: "(string \<Rightarrow> bool) \<Rightarrow> iface \<Rightarrow> bool" where
  "if_match reg f \<longleftrightarrow> test_text reg (ifDescr f) \<or> test_text reg (ifAlias f) \<or> test_text reg (Some (ifName f))"

definition lldp_keys :: "string list" where
  "lldp_keys = [''RemChassisId'', ''RemPortId'', ''RemPortDescr'', ''RemSysDescr'', ''RemSysName'']"

definition cdp_keys :: "string list" where
  "cdp_keys = [''cdpRemDevId'', ''cdpRemIfName'', ''cdpRemPlatform'', ''cdpRemSoftware'']"

definition nei_match :: "(string \<Rightarrow> bool) \<Rightarrow> string list \<Rightarrow> neighbour \<Rightarrow> bool" where
  "nei_match reg keys n = list_ex (\<lambda>k. test_text reg (oget (nei_text n) k)) keys"

definition found_nei ::
    "string \<Rightarrow> dev_id \<Rightarrow> od_device \<Rightarrow> string \<Rightarrow> nei_port \<Rightarrow> string \<Rightarrow> neighbour \<Rightarrow> exn + nei_hit" where
  "found_nei src d dv p port n nei = (case interfaces dv of
      None \<Rightarrow> Inl TypeError
    | Some fs \<Rightarrow> Inr \<lparr>nh_ref = ref_of d dv, nh_source = src, nh_neighbour = nei, nh_nei_index = n,
        nh_port = Some port, nh_port_index = p, nh_interface = oget fs (undef_str (port_ifName port)),
        nh_ifName = (case port_ifName port of None \<Rightarrow> None
          | Some i \<Rightarrow> if oget fs i = None then None else Some i)\<rparr>)"

definition found_neis ::
    "(string \<Rightarrow> bool) \<Rightarrow> string \<Rightarrow> string list \<Rightarrow> dev_id \<Rightarrow> od_device \<Rightarrow> (string, nei_port) obj option \<Rightarrow> exn + nei_hit list" where
  "found_neis reg src keys d dv ports =
     gather (\<lambda>(p, port). gather (\<lambda>(n, nei).
       if nei_match reg keys nei then map_sum id (\<lambda>h. [h]) (found_nei src d dv p port n nei) else Inr [])
       (case port_neighbours port of None \<Rightarrow> [] | Some ns \<Rightarrow> ns))
       (case ports of None \<Rightarrow> [] | Some ps \<Rightarrow> ps)"

definition found_devs :: "(string \<Rightarrow> bool) \<Rightarrow> od \<Rightarrow> dev_ref list" where
  "found_devs reg o1 = map (\<lambda>(d, dv). ref_of d dv) (filter (dev_match reg \<circ> snd) (od_devs o1))"

definition found_ifs :: "(string \<Rightarrow> bool) \<Rightarrow> od \<Rightarrow> if_hit list" where
  "found_ifs reg o1 = concat (map (\<lambda>(d, dv). concat (map (\<lambda>(i, f).
     if if_match reg f then [own_hit d dv i f] else []) (dev_ifs (device.truncate dv)))) (od_devs o1))"

definition found_neigs :: "(string \<Rightarrow> bool) \<Rightarrow> od \<Rightarrow> exn + nei_hit list" where
  "found_neigs reg o1 = gather (\<lambda>(d, dv).
     (case found_neis reg ''LLDP'' lldp_keys d dv (dev_lldp_ports dv) of
        Inl e \<Rightarrow> Inl e
      | Inr ls \<Rightarrow> map_sum id (\<lambda>cs. ls @ cs) (found_neis reg ''CDP'' cdp_keys d dv (dev_cdp_ports dv)))) (od_devs o1)"

text \<open>
  The answer to \<open>search\<close>. The tables \<open>ips\<close> and \<open>macs\<close> are filled for the address that was asked
  for and for the addresses found with it; a table or list that stays empty is left out, which
  is \<open>None\<close> here. The value \<open>undefined\<close> in \<open>ips\<close> is what \<open>search_ip_info\<close> answers for a text that
  is no IPv4 address.
\<close>

record search_ret =
  sr_origin :: string
  sr_type :: string
  sr_ips :: "(string, ip_info option) obj option"
  sr_macs :: "(string, mac_info) obj option"
  sr_devs :: "dev_ref list option"
  sr_ints :: "if_hit list option"
  sr_neigs :: "nei_hit list option"

definition some_list :: "'a list \<Rightarrow> 'a list option" where
  "some_list xs = (if xs = [] then None else Some xs)"

fun fill_ips :: "od \<Rightarrow> string list \<Rightarrow> (string, ip_info option) obj \<Rightarrow> exn + (string, ip_info option) obj" where
  "fill_ips o1 [] ipt = Inr ipt"
| "fill_ips o1 (ip # xs) ipt =
     (if Option.bind (oget ipt ip) id \<noteq> None then fill_ips o1 xs ipt
      else (case search_ip_info o1 ip of Inl e \<Rightarrow> Inl e | Inr r \<Rightarrow> fill_ips o1 xs (oset ip r ipt)))"

fun fill_macs :: "od \<Rightarrow> mac_key list \<Rightarrow> (string, mac_info) obj \<Rightarrow> exn + (string, mac_info) obj" where
  "fill_macs o1 [] mt = Inr mt"
| "fill_macs o1 (m # xs) mt =
     (if oget mt (mac_str m) \<noteq> None then fill_macs o1 xs mt
      else (case search_mac_info o1 m of Inl e \<Rightarrow> Inl e | Inr r \<Rightarrow> fill_macs o1 xs (oset (mac_str m) r mt)))"

definition mk_search_ret ::
    "string \<Rightarrow> string \<Rightarrow> (string, ip_info option) obj \<Rightarrow> (string, mac_info) obj \<Rightarrow> dev_ref list \<Rightarrow> if_hit list \<Rightarrow> nei_hit list \<Rightarrow> search_ret" where
  "mk_search_ret org ty ipt mt ds fs ns = \<lparr>sr_origin = org, sr_type = ty, sr_ips = some_list ipt, sr_macs = some_list mt,
     sr_devs = some_list ds, sr_ints = some_list fs, sr_neigs = some_list ns\<rparr>"

definition search_by_ip :: "od \<Rightarrow> string \<Rightarrow> exn + search_ret" where
  "search_by_ip o1 ip = (case search_ip_info o1 ip of
      Inl e \<Rightarrow> Inl e
    | Inr None \<Rightarrow> Inl TypeError
    | Inr (Some info) \<Rightarrow> map_sum id (\<lambda>mt. mk_search_ret ip ''ip'' [(ip, Some info)] mt [] [] [])
        (fill_macs o1 (foldl append_once [] (ii_macs info)) []))"

definition search_by_mac :: "od \<Rightarrow> string \<Rightarrow> exn + search_ret" where
  "search_by_mac o1 mac = (case search_mac_info o1 (MacText mac) of
      Inl e \<Rightarrow> Inl e
    | Inr info \<Rightarrow> map_sum id (\<lambda>ipt. mk_search_ret mac ''mac'' ipt [(mac, info)] [] [] [])
        (fill_ips o1 (foldl append_once [] (mi_ips info)) []))"

definition search_by_text :: "od \<Rightarrow> string \<Rightarrow> (string \<Rightarrow> bool) \<Rightarrow> exn + search_ret" where
  "search_by_text o1 text reg =
     map_sum id (\<lambda>ns. mk_search_ret text ''free'' [] [] (found_devs reg o1) (found_ifs reg o1) ns) (found_neigs reg o1)"

text \<open>
  The kind of search. A pattern that does not compile opens a dialog and the query is not
  answered, which is \<open>Inr None\<close>.
\<close>

definition offline_search :: "compile \<Rightarrow> od \<Rightarrow> bool \<Rightarrow> string \<Rightarrow> exn + search_ret option" where
  "offline_search compile o1 reg_search for_text =
     (if v4ip2long for_text \<noteq> None \<and> \<not> reg_search then map_sum id Some (search_by_ip o1 for_text)
      else (case parse_mac for_text of
          Some mac \<Rightarrow> if \<not> reg_search then map_sum id Some (search_by_mac o1 mac)
            else (case RegExp_i compile for_text of None \<Rightarrow> Inr None
                  | Some reg \<Rightarrow> map_sum id Some (search_by_text o1 for_text reg))
        | None \<Rightarrow> (case RegExp_i compile (if reg_search then for_text else escapeRegex for_text) of
              None \<Rightarrow> Inr None
            | Some reg \<Rightarrow> map_sum id Some (search_by_text o1 for_text reg))))"

section \<open>The front data\<close>

record front =
  fr_site :: "string option"
  fr_proj :: "string option"
  fr_login :: string
  fr_sites :: "tag list"
  fr_projects :: "tag list"
  fr_devs :: "(dev_id, od_device) obj"
  fr_l2_links :: "(link_id, l2_link) obj"
  fr_l3_links :: "(string, (string, l3_end) obj) obj"
  fr_map :: map_data
  fr_default_map :: bool

text \<open>
  The filter on one tag list: \<open>all\<close> takes every device, \<open>nodata\<close> those whose list is empty,
  anything else those that have the tag. For the projects the two branches read different
  attributes.
\<close>

definition tag_match :: "string option \<Rightarrow> string list option \<Rightarrow> string list option \<Rightarrow> exn + (bool \<times> string list)" where
  "tag_match req empty_list member_list =
     (if req = Some ''all'' then Inr (True, [])
      else if req = Some ''nodata'' then
        (case empty_list of None \<Rightarrow> Inl TypeError | Some l \<Rightarrow> Inr (length l = 0, []))
      else Inr (in_array member_list req))"

definition front_match :: "string option \<Rightarrow> string option \<Rightarrow> od_device \<Rightarrow> exn + (bool \<times> string list)" where
  "front_match req_site req_proj dv = (case tag_match req_site (od_sites dv) (od_sites dv) of
      Inl e \<Rightarrow> Inl e
    | Inr (False, msgs) \<Rightarrow> Inr (False, msgs)
    | Inr (True, msgs) \<Rightarrow> map_sum id (\<lambda>(b, more). (b, msgs @ more)) (tag_match req_proj (od_projs dv) (od_projects dv)))"

fun front_devs ::
    "string option \<Rightarrow> string option \<Rightarrow> (dev_id, od_device) obj \<Rightarrow> exn + ((dev_id, od_device) obj \<times> string list)" where
  "front_devs req_site req_proj [] = Inr ([], [])"
| "front_devs req_site req_proj ((d, dv) # ds) = (case front_match req_site req_proj dv of
      Inl e \<Rightarrow> Inl e
    | Inr (b, msgs) \<Rightarrow> map_sum id (\<lambda>(rest, more). (if b then (d, dv) # rest else rest, msgs @ more))
        (front_devs req_site req_proj ds))"

definition front_l2 :: "od \<Rightarrow> (dev_id, od_device) obj \<Rightarrow> (link_id, l2_link) obj" where
  "front_l2 o1 ds = filter (\<lambda>(lid, l). has ds (DevId (end0 l)) \<and> has ds (DevId (end1 l))) (od_l2_links o1)"

definition front_l3 :: "od \<Rightarrow> (dev_id, od_device) obj \<Rightarrow> (string, (string, l3_end) obj) obj" where
  "front_l3 o1 ds = filter (\<lambda>(nt, m). list_ex (\<lambda>(ip, e). has ds (l3_dev_id e)) m) (od_l3_links o1)"

definition front_map :: "od \<Rightarrow> string option \<Rightarrow> string option \<Rightarrow> map_data" where
  "front_map o1 req_site req_proj =
     (case List.find (\<lambda>m. Some (om_site m) = req_site \<and> Some (om_proj m) = req_proj) (od_maps o1) of
        None \<Rightarrow> map_data0
      | Some m \<Rightarrow> om_map m)"

definition get_front :: "od \<Rightarrow> string option \<Rightarrow> string option \<Rightarrow> exn + (front \<times> string list)" where
  "get_front o1 req_site req_proj =
     map_sum id (\<lambda>(ds, msgs). (\<lparr>fr_site = req_site, fr_proj = req_proj, fr_login = ''offline'',
       fr_sites = od_site_tags o1, fr_projects = od_proj_tags o1, fr_devs = ds,
       fr_l2_links = front_l2 o1 ds, fr_l3_links = front_l3 o1 ds, fr_map = front_map o1 req_site req_proj,
       fr_default_map = True\<rparr>, msgs)) (front_devs req_site req_proj (od_devs o1))"

text \<open>What \<open>data_loaded\<close> takes of the answer.\<close>

definition front_server :: "front \<Rightarrow> server_data" where
  "front_server f = \<lparr>sv_devs = map (\<lambda>(d, dv). (d, device.truncate dv)) (fr_devs f), sv_l2_links = fr_l2_links f,
     sv_l3_links = fr_l3_links f, sv_map = fr_map f, sv_default_map = fr_default_map f\<rparr>"

section \<open>One device\<close>

text \<open>
  \<open>get_device\<close> answers with the device object of \<open>OD\<close> itself and writes the \<open>macs\<close> and \<open>arp\<close>
  attributes of its interfaces there, so the data changes with the answer.
\<close>

definition attach :: "('i, 'v) obj option \<Rightarrow> 'i \<Rightarrow> ('i, 'v) obj \<Rightarrow> ('i, 'v) obj" where
  "attach tables i att = (case tables of
      None \<Rightarrow> att
    | Some t \<Rightarrow> (case oget t i of None \<Rightarrow> att | Some v \<Rightarrow> oset i v att))"

definition attach_if :: "od \<Rightarrow> dev_id \<Rightarrow> if_name \<Rightarrow> od_device \<Rightarrow> od_device" where
  "attach_if o1 d i dv = dv\<lparr>od_if_macs := attach (oget (od_macs o1) d) i (od_if_macs dv),
     od_if_arp := attach (oget (od_arp o1) d) i (od_if_arp dv)\<rparr>"

definition get_device :: "od \<Rightarrow> dev_id \<Rightarrow> exn + (od \<times> od_device)" where
  "get_device o1 d = (case oget (od_devs o1) d of
      None \<Rightarrow> Inl TypeError
    | Some dv \<Rightarrow>
        let dv = fold (attach_if o1 d) (okeys (dev_ifs (device.truncate dv))) dv
        in Inr (o1\<lparr>od_devs := oset d dv (od_devs o1)\<rparr>, dv))"

section \<open>Queries\<close>

datatype oquery =
    OGetFront "string option" "string option"
  | OListMaps
  | OGetDevice dev_id
  | OMacInfo string
  | OIpInfo string
  | OSearch bool string
  | OSaveMap
  | OSaveMapKeyId
  | OSaveMapKey
  | OOther string

datatype oreply =
    RFront front
  | RMaps "od_map list"
  | RDevice od_device
  | RMac mac_info
  | RIp "ip_info option"
  | RSearch search_ret
  | REmpty

text \<open>
  The outcome of a query: the data afterwards, the answer handed to the callback (none when the
  function returned before), and the dialogs opened. \<open>bad_pattern\<close> is the text of the
  exception for a pattern that does not compile.
\<close>

type_synonym outcome = "exn + (od \<times> oreply option \<times> string list)"

definition answer :: "od \<Rightarrow> exn + oreply \<Rightarrow> outcome" where
  "answer o1 r = map_sum id (\<lambda>r. (o1, Some r, [])) r"

definition offline_query :: "compile \<Rightarrow> (string \<Rightarrow> string) \<Rightarrow> od \<Rightarrow> oquery \<Rightarrow> outcome" where
  "offline_query compile bad_pattern o1 q = (case q of
      OGetFront st pr \<Rightarrow> map_sum id (\<lambda>(f, msgs). (o1, Some (RFront f), msgs)) (get_front o1 st pr)
    | OListMaps \<Rightarrow> Inr (o1, Some (RMaps (od_maps o1)), [])
    | OGetDevice d \<Rightarrow> map_sum id (\<lambda>(o2, dv). (o2, Some (RDevice dv), [])) (get_device o1 d)
    | OMacInfo mac \<Rightarrow> answer o1 (map_sum id RMac (search_mac_info o1 (MacText mac)))
    | OIpInfo ip \<Rightarrow> answer o1 (map_sum id RIp (search_ip_info o1 ip))
    | OSearch reg text \<Rightarrow> map_sum id (\<lambda>r. case r of
          None \<Rightarrow> (o1, None, [bad_pattern text])
        | Some r \<Rightarrow> (o1, Some (RSearch r), [])) (offline_search compile o1 reg text)
    | OSaveMap \<Rightarrow> Inr (o1, Some REmpty, [])
    | OSaveMapKeyId \<Rightarrow> Inr (o1, Some REmpty, [])
    | OSaveMapKey \<Rightarrow> Inr (o1, Some REmpty, [])
    | OOther action \<Rightarrow> Inr (o1, None, [''OFFLINE Unimplemented action: '' @ action]))"

text \<open>The queries \<open>save_map\<close> sends, as \<open>offline_query\<close> reads their action.\<close>

fun save_action :: "query \<Rightarrow> oquery" where
  "save_action (SaveKeyId k i f v) = OSaveMapKeyId"
| "save_action (DelKeyId k i f) = OOther ''del_map_key_id''"
| "save_action (SaveKey k f v) = OSaveMapKey"
| "save_action (DelKey k f) = OOther ''del_map_key''"
| "save_action (SaveMap f v) = OSaveMap"

end
