(* ===== verification/OfflineSearch.thy ===== *)
theory OfflineSearch
  imports Offline
begin

text \<open>
  What the answers of the offline mode have to do with the data of the file: the searches as
  selections of table rows, the front data as a filter, the queries that get no answer, and
  what the searches miss.
\<close>

section \<open>Literal patterns\<close>

lemma escapeRegex_simps [simp]:
  "escapeRegex [] = []"
  "escapeRegex (c # s) = (if is_re_special c then [CHR 0x5C, c] else [c]) @ escapeRegex s"
  by (simp_all add: escapeRegex_def)

lemma backslash_special: "is_re_special CHR 0x5C"
  by (simp add: is_re_special_def)

lemma lit_pattern_escape [simp]: "lit_pattern (escapeRegex s) = Some s"
  by (induction s) (auto simp: backslash_special)

lemma RegExp_i_escape [simp]: "RegExp_i compile (escapeRegex s) = Some (re_search (re_liti s))"
  by (simp add: RegExp_i_def)

definition contains_ci :: "string \<Rightarrow> string \<Rightarrow> bool" where
  "contains_ci s p \<longleftrightarrow> (\<exists>u w v. s = u @ w @ v \<and> toLower w = toLower p)"

lemma lang_Cls_seq: "e # v \<in> lang (RSeq (RCls p) r) \<longleftrightarrow> p e \<and> v \<in> lang r" "[] \<notin> lang (RSeq (RCls p) r)"
  by (auto intro: exI [of _ "[e]"])

lemma lang_liti: "lang (re_liti s) = {t. toLower t = toLower s}"
proof (induction s rule: re_liti.induct)
  case (3 c d s)
  have "t \<in> lang (re_liti (c # d # s)) \<longleftrightarrow> toLower t = toLower (c # d # s)" for t
    unfolding re_liti.simps using 3
    by (cases t) (simp_all only: lang_Cls_seq mem_Collect_eq, simp_all add: toLower_def)
  then show ?case by blast
qed (auto simp: toLower_def map_eq_Cons_conv)

lemma search_liti: "re_search (re_liti p) s \<longleftrightarrow> contains_ci s p"
  by (auto simp: re_search_def re_full_lang lang_liti contains_ci_def)

section \<open>Rows of the tables\<close>

text \<open>
  The tables as flat lists of rows, against which the nested loops of the searches are compared.
\<close>

definition mac_rows :: "od \<Rightarrow> (dev_id \<times> if_name \<times> string \<times> string list) list" where
  "mac_rows o1 = [(d, i, v, ms). (d, ifs) \<leftarrow> od_macs o1, (i, vs) \<leftarrow> ifs, (v, ms) \<leftarrow> vs]"

definition arp_rows :: "od \<Rightarrow> (dev_id \<times> if_name \<times> string \<times> string) list" where
  "arp_rows o1 = [(d, i, ip, m). (d, ifs) \<leftarrow> od_arp o1, (i, tb) \<leftarrow> ifs, (ip, m) \<leftarrow> tb]"

definition if_rows :: "od \<Rightarrow> (dev_id \<times> od_device \<times> if_name \<times> iface) list" where
  "if_rows o1 = [(d, dv, i, f). (d, dv) \<leftarrow> od_devs o1, (i, f) \<leftarrow> dev_ifs (device.truncate dv)]"

definition known_dev :: "od \<Rightarrow> dev_id \<Rightarrow> bool" where
  "known_dev o1 d = (case oget (od_devs o1) d of None \<Rightarrow> False | Some dv \<Rightarrow> interfaces dv \<noteq> None)"

definition tables_known :: "od \<Rightarrow> bool" where
  "tables_known o1 \<longleftrightarrow> list_all (known_dev o1) (okeys (od_macs o1)) \<and> list_all (known_dev o1) (okeys (od_arp o1))"

definition the_hit :: "od \<Rightarrow> dev_id \<Rightarrow> if_name \<Rightarrow> if_hit" where
  "the_hit o1 d i = (case table_hit o1 d i of Inr h \<Rightarrow> h | Inl e \<Rightarrow>
     \<lparr>hit_ref = \<lparr>ref_dev_id = d, ref_short_name = None, ref_safe_id = [], ref_status = []\<rparr>, hit_ifName = i, hit_interface = None\<rparr>)"

lemma if_hit_known: "known_dev o1 d \<Longrightarrow> table_hit o1 d i = Inr (the_hit o1 d i)"
  by (auto simp: known_dev_def the_hit_def table_hit_def split: option.splits)

lemma the_hit_keys [simp]: "ref_dev_id (hit_ref (the_hit o1 d i)) = d" "hit_ifName (the_hit o1 d i) = i"
  by (auto simp: the_hit_def table_hit_def ref_of_def split: option.splits sum.splits)

lemma port_hit_sels [simp]:
  "hit_ref (with_vlan h v) = hit_ref h" "hit_ifName (with_vlan h v) = hit_ifName h" "hit_vlan (with_vlan h v) = v"
  by (simp_all add: with_vlan_def if_hit.defs)

lemma arp_hit_sels [simp]:
  "hit_ref (with_ip h v) = hit_ref h" "hit_ifName (with_ip h v) = hit_ifName h" "hit_ip (with_ip h v) = v"
  by (simp_all add: with_ip_def if_hit.defs)

lemma net_hit_sels [simp]:
  "hit_ref (with_net h ip m) = hit_ref h" "hit_ifName (with_net h ip m) = hit_ifName h"
  "hit_net_ip (with_net h ip m) = ip" "hit_masklen (with_net h ip m) = m"
  by (simp_all add: with_net_def if_hit.defs)

lemma in_array_Some [simp]: "in_array (Some xs) (Some v) = (v \<in> set xs, [])"
  by (auto simp: in_array_def list_ex_iff)

lemma set_append_once [simp]: "set (append_once xs v) = insert v (set xs)"
  by (auto simp: append_once_def)

lemma distinct_append_once [simp]: "distinct xs \<Longrightarrow> distinct (append_once xs v)"
  by (simp add: append_once_def)

lemma foldl_append_once:
  "set (foldl append_once acc xs) = set acc \<union> set xs"
  "distinct acc \<Longrightarrow> distinct (foldl append_once acc xs)"
  by (induction xs arbitrary: acc) auto

section \<open>The search for a MAC address as a selection of rows\<close>

lemma concat_if_map: "concat (map (\<lambda>x. if P x then [f x] else []) xs) = map f (filter P xs)"
  by (induction xs) simp_all

lemmas rows_simps = filter_concat map_concat filter_map comp_def case_prod_unfold

lemma tables_knownD:
  "tables_known o1 \<Longrightarrow> (d, ifs) \<in> set (od_macs o1) \<Longrightarrow> known_dev o1 d"
  "tables_known o1 \<Longrightarrow> (d, tb) \<in> set (od_arp o1) \<Longrightarrow> known_dev o1 d"
  by (force simp: tables_known_def list_all_iff okeys_def)+

lemma mac_ports_rows:
  assumes "tables_known o1"
  shows "mac_ports o1 mac = Inr (map (\<lambda>(d, i, v, ms). with_vlan (the_hit o1 d i) v)
    (filter (\<lambda>(d, i, v, ms). mac_str mac \<in> set ms) (mac_rows o1)))"
proof -
  let ?f = "\<lambda>d i (v, ms). if mac_str mac \<in> set ms then [with_vlan (the_hit o1 d i) v] else []"
  have "mac_ports o1 mac = Inr (concat (map (\<lambda>(d, ifs). concat (map (\<lambda>(i, vs). concat (map (?f d i) vs)) ifs)) (od_macs o1)))"
    unfolding mac_ports_def
    by (rule gather_ok, clarsimp, rule gather_ok, clarsimp, rule gather_ok)
      (auto simp: if_hit_known tables_knownD [OF assms])
  then show ?thesis
    by (simp add: mac_rows_def rows_simps concat_if_map)
qed

lemma mac_arps_rows:
  assumes "tables_known o1"
  shows "mac_arps o1 mac = Inr (map (\<lambda>(d, i, ip, m). with_ip (the_hit o1 d i) ip)
    (filter (\<lambda>(d, i, ip, m). m = mac_str mac) (arp_rows o1)))"
proof -
  let ?f = "\<lambda>d i (ip, m). if m = mac_str mac then [with_ip (the_hit o1 d i) ip] else []"
  have "mac_arps o1 mac = Inr (concat (map (\<lambda>(d, ifs). concat (map (\<lambda>(i, tb). concat (map (?f d i) tb)) ifs)) (od_arp o1)))"
    unfolding mac_arps_def
    by (rule gather_ok, clarsimp, rule gather_ok, clarsimp, rule gather_ok)
      (auto simp: if_hit_known tables_knownD [OF assms])
  then show ?thesis
    by (simp add: arp_rows_def rows_simps concat_if_map)
qed

lemma mac_ifs_rows:
  "mac_ifs o1 (MacText m) = map (\<lambda>(d, dv, i, f). own_hit d dv i f)
    (filter (\<lambda>(d, dv, i, f). ifPhysAddr f = Some m) (if_rows o1))"
  by (simp add: mac_ifs_def if_rows_def own_hit_def rows_simps concat_if_map)

text \<open>
  C25: searching the file for a MAC address is the selection of the rows of its tables that
  hold the address: when the tables speak of known devices only, the search does not fail, the
  ports, ARP entries and interfaces it returns are exactly the matching rows, in the order of
  the file, and the addresses found are those of the matching ARP entries, each once.
\<close>

theorem mac_search_exact:
  assumes "tables_known o1"
  shows "\<exists>r. search_mac_info o1 (MacText m) = Inr r \<and>
    map (\<lambda>h. (ref_dev_id (hit_ref h), hit_ifName h, hit_vlan h)) (mi_ports r) =
      [(d, i, v). (d, i, v, ms) \<leftarrow> mac_rows o1, m \<in> set ms] \<and>
    map (\<lambda>h. (ref_dev_id (hit_ref h), hit_ifName h, hit_ip h)) (mi_arps r) =
      [(d, i, ip). (d, i, ip, a) \<leftarrow> arp_rows o1, a = m] \<and>
    distinct (mi_ips r) \<and> set (mi_ips r) = {ip. \<exists>d i. (d, i, ip, m) \<in> set (arp_rows o1)} \<and>
    map (\<lambda>h. (ref_dev_id (hit_ref h), hit_ifName h, hit_interface h)) (mi_ifs r) =
      [(d, i, Some f). (d, dv, i, f) \<leftarrow> if_rows o1, ifPhysAddr f = Some m]"
proof -
  let ?as = "map (\<lambda>(d, i, ip, a). with_ip (the_hit o1 d i) ip) (filter (\<lambda>(d, i, ip, a). a = m) (arp_rows o1))"
  have "set (map hit_ip ?as) = {ip. \<exists>d i. (d, i, ip, m) \<in> set (arp_rows o1)}"
    by (simp add: image_image set_eq_iff image_iff case_prod_unfold)
  then show ?thesis
    by (simp add: search_mac_info_def mac_ports_rows [OF assms] mac_arps_rows [OF assms] mac_ifs_rows
        foldl_append_once concat_if_map own_hit_def ref_of_def comp_def case_prod_unfold)
qed

text \<open>
  A small file: a router and a switch joined by a link, the switch with a MAC table and CDP
  data, the router with an ARP table.
\<close>

definition file_router :: od_device where
  "file_router = device.extend (device0\<lparr>dev_short_name := Some ''rt'',
     interfaces := Some [(''Gi0'', iface0\<lparr>ifName := ''Gi0'', ifDescr := Some ''Gi0'', ifPhysAddr := Some ''0200000000aa'',
       ips := Some [(''10.0.0.1'', \<lparr>masklen = 24, net = ''10.0.0.0/24''\<rparr>)]\<rparr>)],
     interfaces_sorted := [''Gi0'']\<rparr>)
     \<lparr>od_safe_id = ''rt'', od_sites = Some [''l3'', ''1''], od_projs = None, od_projects = Some [], od_texts = [],
      od_tables = [], od_if_macs = [], od_if_arp = []\<rparr>"

definition file_switch :: od_device where
  "file_switch = device.extend (device0\<lparr>dev_short_name := Some ''sw'',
     interfaces := Some [(''p1'', iface0\<lparr>ifName := ''p1'', ifDescr := Some ''p1'', ifAlias := Some ''to rt''\<rparr>)],
     interfaces_sorted := [''p1''],
     dev_cdp_ports := Some [(''1'', \<lparr>port_ifName = Some ''p1'', port_neighbours = Some [(''1'',
       \<lparr>nei_text = [(''cdpRemAddrDecoded'', ''10.0.0.1''), (''cdpRemDevId'', ''rt'')], RemMgmtAddr = None\<rparr>)]\<rparr>)]\<rparr>)
     \<lparr>od_safe_id = ''sw'', od_sites = Some [''1''], od_projs = None, od_projects = Some [''7''], od_texts = [],
      od_tables = [], od_if_macs = [], od_if_arp = []\<rparr>"

definition ex_file :: od where
  "ex_file = \<lparr>od_devs = [(''rt'', file_router), (''sw'', file_switch)],
     od_macs = [(''sw'', [(''p1'', [(''5'', [''0200000000aa'', ''0200000000bb''])])])],
     od_arp = [(''rt'', [(''Gi0'', [(''10.0.0.2'', ''0200000000bb'')])])],
     od_l2_links = [(''l'', \<lparr>end0 = \<lparr>DevId = ''rt'', l2_ifName = ''Gi0''\<rparr>, end1 = \<lparr>DevId = ''sw'', l2_ifName = ''p1''\<rparr>,
       l2_status = 1, l2_virtual = False\<rparr>)],
     od_l3_links = [], od_maps = [], od_site_tags = [], od_proj_tags = []\<rparr>"

lemma ex_file_known: "tables_known ex_file"
  by code_simp

lemma ex_search:
  "map (\<lambda>h. hit_ifName h) (mi_ports (projr (search_mac_info ex_file (MacText ''0200000000bb'')))) = [''p1'']"
  "mi_ips (projr (search_mac_info ex_file (MacText ''0200000000bb''))) = [''10.0.0.2'']"
  by code_simp+

lemma mac_search_exact_witness:
  "\<exists>r. search_mac_info ex_file (MacText ''0200000000bb'') = Inr r \<and>
     set (mi_ips r) = {ip. \<exists>d i. (d, i, ip, ''0200000000bb'') \<in> set (arp_rows ex_file)}"
  using mac_search_exact [OF ex_file_known, of "''0200000000bb''"] by blast

section \<open>The search for an address\<close>

lemma v4oct2long_lt: "v4oct2long a b c d < 2 ^ 32"
  unfolding v4oct2long_def by (rule order_less_le_trans, rule unsigned_less, simp)

lemma v4ip2long_lt: "v4ip2long s = Some n \<Longrightarrow> n < 2 ^ 32"
  using v4oct2long_lt by (auto simp: v4ip2long_def split: list.splits if_splits)

text \<open>
  Two addresses are in one network of \<open>m\<close> bits when their first \<open>m\<close> bits are equal.
\<close>

definition same_net :: "nat \<Rightarrow> nat \<Rightarrow> nat \<Rightarrow> bool" where
  "same_net m a b \<longleftrightarrow> a div 2 ^ (32 - m) = b div 2 ^ (32 - m)"

lemma net_match_iff:
  assumes "a < 2 ^ 32"
  shows "net_match a p m \<longleftrightarrow> \<not> is_loopback p \<and> (\<exists>u. v4ip2long p = Some u \<and> 1 \<le> m \<and> m \<le> 32 \<and> same_net m u a)"
proof -
  have "ip4net u m = ip4net a m \<longleftrightarrow> same_net m u a" if "v4ip2long p = Some u" "m \<le> 32" for u
    using ip4net_eq [OF v4ip2long_lt [OF that(1)] that(2)] ip4net_eq [OF assms that(2)]
    by (simp add: same_net_def)
  then show ?thesis by (auto simp: net_match_def split: option.splits)
qed

definition ports_known :: "od \<Rightarrow> bool" where
  "ports_known o1 \<longleftrightarrow> list_all (\<lambda>(d, dv). interfaces dv \<noteq> None \<or> (dev_lldp_ports dv = None \<and> dev_cdp_ports dv = None)) (od_devs o1)"

lemma port_if_ok: "interfaces dv \<noteq> None \<Longrightarrow> \<exists>fi. port_if dv i = Inr fi"
  by (auto simp: port_if_def split: option.splits)

lemma nei_hits_ok:
  assumes "interfaces dv \<noteq> None \<or> ports = None"
  shows "\<exists>hs. nei_hits src found d dv ports = Inr hs \<and>
    (\<forall>h \<in> set hs. nh_source h = src \<and> ref_dev_id (nh_ref h) = d \<and> found (nh_neighbour h))"
  unfolding nei_hits_def
proof (rule gather_all, clarify, rule gather_all, clarify)
  fix p port n nei
  assume "(p, port) \<in> set (case ports of None \<Rightarrow> [] | Some ps \<Rightarrow> ps)"
  then have "interfaces dv \<noteq> None" using assms by auto
  then obtain fi where "port_if dv (port_ifName port) = Inr fi" using port_if_ok by blast
  then show "\<exists>zs. (if found nei
      then map_sum id (\<lambda>(f, i). [\<lparr>nh_ref = ref_of d dv, nh_source = src, nh_neighbour = nei, nh_nei_index = n,
        nh_port = None, nh_port_index = p, nh_interface = f, nh_ifName = i\<rparr>]) (port_if dv (port_ifName port))
      else Inr []) = Inr zs \<and>
    (\<forall>h \<in> set zs. nh_source h = src \<and> ref_dev_id (nh_ref h) = d \<and> found (nh_neighbour h))"
    by (auto simp: ref_of_def case_prod_unfold)
qed

lemma cdp_has_ip_never: "length ip \<noteq> 1 \<Longrightarrow> \<not> cdp_has_ip ip n"
  by (auto simp: cdp_has_ip_def split: option.splits)

lemma v4ip2long_length: "v4ip2long ip = Some a \<Longrightarrow> length ip \<noteq> 1"
  by (auto simp: length_Suc_conv v4ip2long_def split: if_splits)

lemma ip_neigs_ok:
  assumes "ports_known o1" "length ip \<noteq> 1"
  shows "\<exists>hs. ip_neigs o1 ip = Inr hs \<and> (\<forall>h \<in> set hs. nh_source h = ''LLDP'' \<and> lldp_has_ip ip (nh_neighbour h))"
  unfolding ip_neigs_def
proof (rule gather_all, clarify)
  fix d dv assume dv: "(d, dv) \<in> set (od_devs o1)"
  then have l: "interfaces dv \<noteq> None \<or> dev_lldp_ports dv = None" and c: "interfaces dv \<noteq> None \<or> dev_cdp_ports dv = None"
    using assms(1) by (auto simp: ports_known_def list_all_iff)
  obtain hs where hs: "nei_hits ''LLDP'' (lldp_has_ip ip) d dv (dev_lldp_ports dv) = Inr hs"
      "\<forall>h \<in> set hs. nh_source h = ''LLDP'' \<and> ref_dev_id (nh_ref h) = d \<and> lldp_has_ip ip (nh_neighbour h)"
    using nei_hits_ok [OF l] by blast
  obtain cs where cs: "nei_hits ''CDP'' (cdp_has_ip ip) d dv (dev_cdp_ports dv) = Inr cs"
      "\<forall>h \<in> set cs. nh_source h = ''CDP'' \<and> ref_dev_id (nh_ref h) = d \<and> cdp_has_ip ip (nh_neighbour h)"
    using nei_hits_ok [OF c] by blast
  have "cs = []" using cs(2) cdp_has_ip_never [OF assms(2)] by (cases cs) auto
  with hs cs(1) show "\<exists>zs. (case nei_hits ''LLDP'' (lldp_has_ip ip) d dv (dev_lldp_ports dv) of Inl e \<Rightarrow> Inl e
      | Inr ls \<Rightarrow> map_sum id (\<lambda>cs. ls @ cs) (nei_hits ''CDP'' (cdp_has_ip ip) d dv (dev_cdp_ports dv))) = Inr zs \<and>
      (\<forall>h \<in> set zs. nh_source h = ''LLDP'' \<and> lldp_has_ip ip (nh_neighbour h))"
    by auto
qed

definition if_addrs :: "iface \<Rightarrow> (string, ip_entry) obj" where
  "if_addrs f = (case ips f of None \<Rightarrow> [] | Some m \<Rightarrow> m)"

lemma in_concat_map: "h \<in> set (concat (map f xs)) \<longleftrightarrow> (\<exists>x \<in> set xs. h \<in> set (f x))"
  by auto

lemma Bex_pair: "(\<exists>x \<in> set xs. P x) \<longleftrightarrow> (\<exists>a b. (a, b) \<in> set xs \<and> P (a, b))"
  by (auto simp: Bex_def)

lemma in_if: "h \<in> set (if b then xs else []) \<longleftrightarrow> b \<and> h \<in> set xs" "h \<in> set (if b then [] else xs) \<longleftrightarrow> \<not> b \<and> h \<in> set xs"
  by simp_all

lemma set_if_rows: "(d, dv, i, f) \<in> set (if_rows o1) \<longleftrightarrow> (d, dv) \<in> set (od_devs o1) \<and> (i, f) \<in> set (dev_ifs (device.truncate dv))"
  unfolding if_rows_def in_concat_map Bex_pair by auto

lemma set_ip_net_ifs:
  "h \<in> set (ip_net_ifs o1 ip a) \<longleftrightarrow> (\<exists>d dv i f p e. (d, dv, i, f) \<in> set (if_rows o1) \<and> \<not> ip_in_if ip f \<and>
     (p, e) \<in> set (if_addrs f) \<and> net_match a p (masklen e) \<and> h = with_net (own_hit d dv i f) p (masklen e))"
  unfolding ip_net_ifs_def if_addrs_def [symmetric] in_concat_map Bex_pair prod.case in_if set_if_rows
  by (simp only: list.set insert_iff empty_iff) blast

lemma ip_ifs_rows:
  "ip_ifs o1 ip = map (\<lambda>(d, dv, i, f). own_hit d dv i f) (filter (\<lambda>(d, dv, i, f). ip_in_if ip f) (if_rows o1))"
  by (simp add: ip_ifs_def if_rows_def rows_simps concat_if_map)

text \<open>
  C26: searching the file for an IPv4 address does not fail, lists exactly the interfaces that
  have the address, and lists exactly those other interface addresses that are in the same
  network: not a loopback address, a prefix of 1 to 32 bits, and the same first bits.
\<close>

theorem ip_search_nets:
  assumes "v4ip2long ip = Some a" "ports_known o1"
  shows "\<exists>r. search_ip_info o1 ip = Inr (Some r) \<and>
    map (\<lambda>h. (ref_dev_id (hit_ref h), hit_ifName h)) (ii_ifs r) =
      [(d, i). (d, dv, i, f) \<leftarrow> if_rows o1, ip_in_if ip f] \<and>
    set (map (\<lambda>h. (ref_dev_id (hit_ref h), hit_ifName h, hit_net_ip h, hit_masklen h)) (ii_net_ifs r)) =
      {(d, i, p, m). \<exists>dv f e u. (d, dv, i, f) \<in> set (if_rows o1) \<and> \<not> ip_in_if ip f \<and> (p, e) \<in> set (if_addrs f) \<and>
         m = masklen e \<and> \<not> is_loopback p \<and> v4ip2long p = Some u \<and> 1 \<le> m \<and> m \<le> 32 \<and> same_net m u a}"
proof -
  obtain hs where "ip_neigs o1 ip = Inr hs" using ip_neigs_ok [OF assms(2) v4ip2long_length [OF assms(1)]] by blast
  moreover note nm = net_match_iff [OF v4ip2long_lt [OF assms(1)]]
  moreover have "set (map (\<lambda>h. (ref_dev_id (hit_ref h), hit_ifName h, hit_net_ip h, hit_masklen h)) (ip_net_ifs o1 ip a)) =
      {(d, i, p, m). \<exists>dv f e. (d, dv, i, f) \<in> set (if_rows o1) \<and> \<not> ip_in_if ip f \<and> (p, e) \<in> set (if_addrs f) \<and>
         m = masklen e \<and> net_match a p m}"
    by (rule set_eqI) (force simp: set_ip_net_ifs own_hit_def ref_of_def)
  ultimately show ?thesis
    using assms(1) by (simp add: search_ip_info_def ip_ifs_rows own_hit_def ref_of_def concat_if_map comp_def case_prod_unfold)
qed

lemma ip_search_nets_witness:
  "\<exists>r. search_ip_info ex_file ''10.0.0.77'' = Inr (Some r) \<and>
     map (\<lambda>h. (ref_dev_id (hit_ref h), hit_ifName h)) (ii_ifs r) = []"
proof -
  have a: "v4ip2long ''10.0.0.77'' = Some 167772237"
    by (simp add: v4ip2long_def digits_upto_def is_digit_def code_def str_nat_def digit_val_def v4oct2long_def)
  have k: "ports_known ex_file" by code_simp
  have e: "[(d, i). (d, dv, i, f) \<leftarrow> if_rows ex_file, ip_in_if ''10.0.0.77'' f] = []" by code_simp
  show ?thesis using ip_search_nets [OF a k] unfolding e by (elim exE conjE, intro exI conjI)
qed

text \<open>
  C27: what the search for an address misses. The addresses to MACs are never looked up in the
  ARP tables of the file (the code reads the table of the interface that is called like the
  address), so without such an interface no MAC is reported; and no CDP neighbour is ever
  found, because the code compares the address with one character of the neighbour's.
\<close>

theorem offline_ip_blind:
  assumes "v4ip2long ip = Some a" "ports_known o1" "list_all (\<lambda>(d, ifs). oget ifs ip = None) (od_arp o1)"
  shows "\<exists>r. search_ip_info o1 ip = Inr (Some r) \<and> ii_macs r = [] \<and> filter (\<lambda>h. nh_source h = ''CDP'') (ii_neigs r) = []"
proof -
  obtain hs where hs: "ip_neigs o1 ip = Inr hs" "\<forall>h \<in> set hs. nh_source h = ''LLDP'' \<and> lldp_has_ip ip (nh_neighbour h)"
    using ip_neigs_ok [OF assms(2) v4ip2long_length [OF assms(1)]] by blast
  have skip: "fold (\<lambda>i acc. if oget ifs ip \<noteq> None then append_once acc m else acc) ks acc = acc"
    if "oget ifs ip = None" for ifs :: "(if_name, (string, string) obj) obj" and m ks acc
    using that by (induction ks arbitrary: acc) simp_all
  have "fold (\<lambda>(d, ifs) acc. fold (\<lambda>i acc. if oget ifs ip \<noteq> None then append_once acc (MacObj d) else acc) (okeys ifs) acc) tb acc = acc"
    if "list_all (\<lambda>(d, ifs). oget ifs ip = None) tb" for tb acc
    using that by (induction tb arbitrary: acc) (auto simp: skip)
  then have "ip_macs o1 ip = []" using assms(3) by (simp add: ip_macs_def)
  moreover have "filter (\<lambda>h. nh_source h = ''CDP'') hs = []" using hs(2) by (simp add: filter_empty_conv)
  ultimately show ?thesis using assms(1) hs(1) by (simp add: search_ip_info_def)
qed

lemma offline_ip_blind_witness:
  "(''rt'', ''Gi0'', ''10.0.0.2'', ''0200000000bb'') \<in> set (arp_rows ex_file) \<and>
   (\<exists>r. search_ip_info ex_file ''10.0.0.2'' = Inr (Some r) \<and> ii_macs r = [])"
proof -
  have a: "v4ip2long ''10.0.0.2'' = Some 167772162"
    by (simp add: v4ip2long_def digits_upto_def is_digit_def code_def str_nat_def digit_val_def v4oct2long_def)
  have k: "ports_known ex_file" by code_simp
  have n: "list_all (\<lambda>(d, ifs). oget ifs ''10.0.0.2'' = None) (od_arp ex_file)" by code_simp
  have m: "(''rt'', ''Gi0'', ''10.0.0.2'', ''0200000000bb'') \<in> set (arp_rows ex_file)" by code_simp
  obtain r where "search_ip_info ex_file ''10.0.0.2'' = Inr (Some r)" "ii_macs r = []"
    using offline_ip_blind [OF a k n] by (elim exE conjE)
  then show ?thesis by (intro conjI m exI)
qed

section \<open>The search for a text\<close>

lemma found_neis_ok:
  assumes "interfaces dv \<noteq> None \<or> ports = None"
  shows "\<exists>hs. found_neis reg src keys d dv ports = Inr hs \<and> (\<forall>h \<in> set hs. nei_match reg keys (nh_neighbour h))"
  unfolding found_neis_def
proof (rule gather_all, clarify, rule gather_all, clarify)
  fix p port n nei
  assume "(p, port) \<in> set (case ports of None \<Rightarrow> [] | Some ps \<Rightarrow> ps)"
  then obtain fs where "interfaces dv = Some fs" using assms by auto
  then show "\<exists>zs. (if nei_match reg keys nei then map_sum id (\<lambda>h. [h]) (found_nei src d dv p port n nei) else Inr []) = Inr zs \<and>
      (\<forall>h \<in> set zs. nei_match reg keys (nh_neighbour h))"
    by (simp add: found_nei_def)
qed

lemma found_neigs_ok:
  assumes "ports_known o1"
  shows "\<exists>hs. found_neigs reg o1 = Inr hs \<and> (\<forall>h \<in> set hs. nei_match reg lldp_keys (nh_neighbour h) \<or> nei_match reg cdp_keys (nh_neighbour h))"
  unfolding found_neigs_def
proof (rule gather_all, clarify)
  fix d dv assume "(d, dv) \<in> set (od_devs o1)"
  then have "interfaces dv \<noteq> None \<or> dev_lldp_ports dv = None" "interfaces dv \<noteq> None \<or> dev_cdp_ports dv = None"
    using assms by (auto simp: ports_known_def list_all_iff)
  from this [THEN found_neis_ok, of reg "''LLDP''" lldp_keys d] this [THEN found_neis_ok, of reg "''CDP''" cdp_keys d]
  show "\<exists>zs. (case found_neis reg ''LLDP'' lldp_keys d dv (dev_lldp_ports dv) of Inl e \<Rightarrow> Inl e
      | Inr ls \<Rightarrow> map_sum id (\<lambda>cs. ls @ cs) (found_neis reg ''CDP'' cdp_keys d dv (dev_cdp_ports dv))) = Inr zs \<and>
      (\<forall>h \<in> set zs. nei_match reg lldp_keys (nh_neighbour h) \<or> nei_match reg cdp_keys (nh_neighbour h))"
    by auto
qed

lemma set_found_ifs:
  "h \<in> set (found_ifs reg o1) \<longleftrightarrow> (\<exists>d dv i f. (d, dv, i, f) \<in> set (if_rows o1) \<and> if_match reg f \<and> h = own_hit d dv i f)"
  unfolding found_ifs_def in_concat_map Bex_pair prod.case in_if set_if_rows
  by (simp only: list.set insert_iff empty_iff) blast

lemma test_text_liti:
  "test_text (re_search (re_liti p)) v \<longleftrightarrow> (\<exists>s. v = Some s \<and> contains_ci s p) \<or> (v = None \<and> contains_ci ''undefined'' p)"
  by (cases v) (simp_all add: test_text_def undef_str_def search_liti)

definition opt_list :: "'a list option \<Rightarrow> 'a list" where
  "opt_list v = (case v of None \<Rightarrow> [] | Some xs \<Rightarrow> xs)"

lemma opt_some_list [simp]: "opt_list (some_list xs) = xs"
  by (simp add: opt_list_def some_list_def)

text \<open>The name, the description or the alias has the text; a text that is missing is tested as \<open>undefined\<close>.\<close>

definition if_texts :: "iface \<Rightarrow> string list" where
  "if_texts f = ifName f # (case ifDescr f of None \<Rightarrow> [] | Some s \<Rightarrow> [s]) @ (case ifAlias f of None \<Rightarrow> [] | Some s \<Rightarrow> [s])"

definition if_has_text :: "string \<Rightarrow> iface \<Rightarrow> bool" where
  "if_has_text text f \<longleftrightarrow> list_ex (\<lambda>s. contains_ci s text) (if_texts f)"

definition text_missing :: "iface \<Rightarrow> bool" where
  "text_missing f \<longleftrightarrow> ifDescr f = None \<or> ifAlias f = None"

lemma if_match_liti: "if_match (re_search (re_liti text)) f \<longleftrightarrow>
    if_has_text text f \<or> text_missing f \<and> contains_ci ''undefined'' text"
  unfolding if_match_def test_text_liti if_has_text_def if_texts_def text_missing_def by (cases "ifDescr f"; cases "ifAlias f") auto

lemma liti_contains: "re_search (re_liti text) = (\<lambda>s. contains_ci s text)"
  by (rule ext) (rule search_liti)

lemma found_ifs_keys:
  "set (map (\<lambda>h. (ref_dev_id (hit_ref h), hit_ifName h)) (found_ifs reg o1)) =
   {(d, i). \<exists>dv f. (d, dv, i, f) \<in> set (if_rows o1) \<and> if_match reg f}"
  by (rule set_eqI) (force simp: set_found_ifs own_hit_def ref_of_def)

section \<open>The front data of the file\<close>

definition in_tag :: "string \<Rightarrow> string list \<Rightarrow> bool" where
  "in_tag req tags \<longleftrightarrow> req = ''all'' \<or> (req = ''nodata'' \<and> tags = []) \<or> (req \<noteq> ''nodata'' \<and> req \<in> set tags)"

definition dev_tagged :: "od_device \<Rightarrow> bool" where
  "dev_tagged dv \<longleftrightarrow> od_sites dv \<noteq> None \<and> od_projects dv \<noteq> None"

lemma site_tag_match: "od_sites dv \<noteq> None \<Longrightarrow> tag_match (Some st) (od_sites dv) (od_sites dv) = Inr (in_tag st (opt_list (od_sites dv)), [])"
  by (auto simp: tag_match_def in_tag_def opt_list_def)

lemma proj_tag_match: "od_projects dv \<noteq> None \<Longrightarrow> pr \<noteq> ''nodata'' \<Longrightarrow>
    tag_match (Some pr) (od_projs dv) (od_projects dv) = Inr (in_tag pr (opt_list (od_projects dv)), [])"
  by (auto simp: tag_match_def in_tag_def opt_list_def)

lemma front_match_ok:
  "dev_tagged dv \<Longrightarrow> pr \<noteq> ''nodata'' \<Longrightarrow> front_match (Some st) (Some pr) dv =
     Inr (in_tag st (opt_list (od_sites dv)) \<and> in_tag pr (opt_list (od_projects dv)), [])"
  by (auto simp: front_match_def dev_tagged_def site_tag_match proj_tag_match split: bool.split)

lemma front_devs_ok:
  "list_all (\<lambda>(d, dv). dev_tagged dv) ds \<Longrightarrow> pr \<noteq> ''nodata'' \<Longrightarrow> front_devs (Some st) (Some pr) ds =
     Inr (filter (\<lambda>(d, dv). in_tag st (opt_list (od_sites dv)) \<and> in_tag pr (opt_list (od_projects dv))) ds, [])"
  by (induction ds) (simp_all add: front_match_ok split: prod.splits if_splits)

lemma front_match_nodata:
  "od_sites dv \<noteq> None \<Longrightarrow> od_projs dv = None \<Longrightarrow> front_match (Some st) (Some ''nodata'') dv =
     (if in_tag st (opt_list (od_sites dv)) then Inl TypeError else Inr (False, []))"
  by (auto simp: front_match_def tag_match_def in_tag_def opt_list_def)

lemma front_devs_nodata:
  "list_all (\<lambda>(d, dv). od_sites dv \<noteq> None \<and> od_projs dv = None) ds \<Longrightarrow>
   list_ex (\<lambda>(d, dv). in_tag st (opt_list (od_sites dv))) ds \<Longrightarrow> front_devs (Some st) (Some ''nodata'') ds = Inl TypeError"
  by (induction ds) (auto simp: front_match_nodata)

text \<open>
  The devices of a file have no \<open>dev_projs\<close>: asking for the devices without a project throws
  as soon as a device of the site is looked at.
\<close>

lemma nodata_front_throws:
  "list_all (\<lambda>(d, dv). od_sites dv \<noteq> None \<and> od_projs dv = None) (od_devs o1) \<Longrightarrow>
   list_ex (\<lambda>(d, dv). in_tag st (opt_list (od_sites dv))) (od_devs o1) \<Longrightarrow>
   offline_query compile bad o1 (OGetFront (Some st) (Some ''nodata'')) = Inl TypeError"
  by (simp add: offline_query_def get_front_def front_devs_nodata)

lemma front_devs_off_site:
  "list_all (\<lambda>(d, dv). od_sites dv \<noteq> None \<and> od_projs dv = None) ds \<Longrightarrow>
   \<not> list_ex (\<lambda>(d, dv). in_tag st (opt_list (od_sites dv))) ds \<Longrightarrow> front_devs (Some st) (Some ''nodata'') ds = Inr ([], [])"
  by (induction ds) (auto simp: front_match_nodata)

definition file_dev_ok :: "od_device \<Rightarrow> bool" where
  "file_dev_ok dv \<longleftrightarrow> dev_tagged dv \<and> od_projs dv = None"

definition in_location :: "string \<Rightarrow> string \<Rightarrow> dev_id \<times> od_device \<Rightarrow> bool" where
  "in_location st pr = (\<lambda>(d, dv). in_tag st (opt_list (od_sites dv)) \<and> in_tag pr (opt_list (od_projects dv)))"

lemma front_devs_all:
  assumes "list_all (\<lambda>(d, dv). file_dev_ok dv) ds" "\<not> (pr = ''nodata'' \<and> list_ex (\<lambda>(d, dv). in_tag st (opt_list (od_sites dv))) ds)"
  shows "front_devs (Some st) (Some pr) ds = Inr (filter (in_location st pr) ds, [])"
proof (cases "pr = ''nodata''")
  case True
  have t: "list_all (\<lambda>(d, dv). od_sites dv \<noteq> None \<and> od_projs dv = None) ds"
    using assms(1) by (auto simp: list_all_iff file_dev_ok_def dev_tagged_def)
  have n: "\<not> list_ex (\<lambda>(d, dv). in_tag st (opt_list (od_sites dv))) ds" using assms(2) True by blast
  then have "filter (in_location st pr) ds = []" by (auto simp: filter_empty_conv list_ex_iff in_location_def)
  with front_devs_off_site [OF t n] show ?thesis by (simp add: True)
next
  case False
  have "list_all (\<lambda>(d, dv). dev_tagged dv) ds" using assms(1) by (auto simp: list_all_iff file_dev_ok_def)
  from front_devs_ok [OF this False] show ?thesis by (simp add: in_location_def)
qed

text \<open>
  C29: the front data answered from the file are the devices of the wanted site and project, the layer 2
  links whose two ends are among them, and whole the networks with at least one end among them, with
  nothing else and without a dialog; but asked for the devices without a project the code throws as soon
  as the site has a device.
\<close>

theorem offline_front_selects:
  assumes "list_all (\<lambda>(d, dv). file_dev_ok dv) (od_devs o1)"
  shows "if pr = ''nodata'' \<and> list_ex (\<lambda>(d, dv). in_tag st (opt_list (od_sites dv))) (od_devs o1)
    then offline_query compile bad o1 (OGetFront (Some st) (Some pr)) = Inl TypeError
    else (\<exists>f. offline_query compile bad o1 (OGetFront (Some st) (Some pr)) = Inr (o1, Some (RFront f), []) \<and>
      sv_devs (front_server f) = map (\<lambda>(d, dv). (d, device.truncate dv)) (filter (in_location st pr) (od_devs o1)) \<and>
      sv_l2_links (front_server f) = filter (\<lambda>(k, l). has (sv_devs (front_server f)) (DevId (end0 l)) \<and>
        has (sv_devs (front_server f)) (DevId (end1 l))) (od_l2_links o1) \<and>
      sv_l3_links (front_server f) = filter (\<lambda>(k, m). list_ex (\<lambda>(ip, e). has (sv_devs (front_server f)) (l3_dev_id e)) m)
        (od_l3_links o1))"
proof (cases "pr = ''nodata'' \<and> list_ex (\<lambda>(d, dv). in_tag st (opt_list (od_sites dv))) (od_devs o1)")
  case True
  have "list_all (\<lambda>(d, dv). od_sites dv \<noteq> None \<and> od_projs dv = None) (od_devs o1)"
    using assms by (auto simp: list_all_iff file_dev_ok_def dev_tagged_def)
  with True nodata_front_throws show ?thesis by simp
next
  case False
  have has: "has (map (\<lambda>p. (fst p, device.truncate (snd p))) ds) k = has ds k" for ds :: "(dev_id, od_device) obj" and k
    by (simp add: has_iff okeys_def image_image case_prod_unfold)
  show ?thesis unfolding if_not_P [OF False]
    using front_devs_all [OF assms False]
    by (simp add: offline_query_def get_front_def front_server_def has front_l2_def front_l3_def case_prod_unfold comp_def)
qed

lemma offline_front_selects_witness:
  "\<exists>f. offline_query (\<lambda>p. None) id ex_file (OGetFront (Some ''1'') (Some ''7'')) = Inr (ex_file, Some (RFront f), []) \<and>
     okeys (sv_devs (front_server f)) = [''sw'']"
proof -
  have t: "list_all (\<lambda>(d, dv). file_dev_ok dv) (od_devs ex_file)" by code_simp
  have e: "okeys (map (\<lambda>(d, dv). (d, device.truncate dv)) (filter (in_location ''1'' ''7'') (od_devs ex_file))) = [''sw'']" by code_simp
  have n: "\<not> (''7'' = ''nodata'' \<and> list_ex (\<lambda>(d, dv). in_tag ''1'' (opt_list (od_sites dv))) (od_devs ex_file))" by simp
  from offline_front_selects [OF t, of "''7''" "''1''" "\<lambda>p. None" id, unfolded if_not_P [OF n]] e show ?thesis
    by (elim exE conjE, intro exI conjI) (assumption, simp only:)
qed

section \<open>Saving in the offline mode\<close>

lemma save_map_loc_gone:
  assumes "enable_save s" "\<not> default_map s" "oget (map_loc (map_data s)) d = None"
  shows "save_map (Some ''loc'') (Some d) None None s = s\<lparr>sent := sent s @ [DelKeyId ''loc'' d (file_key s)]\<rparr>"
  using assms by (simp add: save_map_def save_query_def Let_def md_item_def)

lemma save_map_tps_part:
  assumes "enable_save s" "\<not> default_map s"
  shows "save_map (Some ''tps'') None None None s = s\<lparr>sent := sent s @ [SaveKey ''tps'' (file_key s) (SAllTps (map_tps (map_data s)))]\<rparr>"
  using assms by (simp add: save_map_def save_query_def Let_def md_part_def)

definition save_view :: "app \<Rightarrow> query list \<times> bool \<times> string \<times> bool" where
  "save_view s = snd (stored_view s)"

lemma save_view_stored: "stored_view s = stored_view t \<Longrightarrow> save_view s = save_view t"
  by (simp add: save_view_def)

lemma save_view_simps [simp]:
  "save_view (set_tps k ot s) = save_view s" "save_view (s\<lparr>connections := c\<rparr>) = save_view s"
  "save_view (clear_link_objects k s) = save_view s"
  by (simp_all add: save_view_def) (simp add: stored_view_def set_tps_def Let_def)

lemma save_view_drop_link: "save_view (drop_link d lid s) = save_view s"
  by (simp add: drop_link_def Let_def split: option.split)

lemma device_to_list_done:
  "oget (devs s) d \<noteq> None \<Longrightarrow> \<exists>s'. (if to_list then device_to_list d s else Done s) = Done s' \<and> save_view s' = save_view s"
  by (auto simp: device_to_list_def save_view_def split: option.split)

text \<open>
  Once a change has been saved, removing a device from the map in the offline mode ends in
  an error dialog: of the two queries that are sent the first, which deletes the place of the
  device, is an action the offline mode does not have, and only the second is answered.
\<close>

theorem offline_removal_dialog:
  assumes "enable_save s" "\<not> default_map s" "oget (devs s) d \<noteq> None"
  shows "map (\<lambda>q. offline_query compile bad o1 (save_action q))
      (drop (length (sent s)) (sent (run_state (remove_from_map lc d to_list s)))) =
    [Inr (o1, None, [''OFFLINE Unimplemented action: del_map_key_id'']), Inr (o1, Some REmpty, [])]"
proof -
  define s1 where "s1 = save_map (Some ''loc'') (Some d) None None (s\<lparr>map_data := (map_data s)\<lparr>map_loc := odel d (map_loc (map_data s))\<rparr>\<rparr>)"
  have v1: "save_view s1 = (sent s @ [DelKeyId ''loc'' d (file_key s)], False, file_key s, True)"
    unfolding s1_def using assms by (subst save_map_loc_gone) (simp_all add: save_view_def stored_view_def)
  have "oget (devs s1) d \<noteq> None" using assms(3) by (simp add: s1_def save_map_def)
  then obtain s2 where s2: "(if to_list then device_to_list d s1 else Done s1) = Done s2" "save_view s2 = save_view s1"
    using device_to_list_done [of s1 d to_list] by blast
  define s4 where "s4 = fold (drop_link d) (okeys (connections (drop_device d (s2\<lparr>temp_devs := odel d (temp_devs s2)\<rparr>))))
    (drop_device d (s2\<lparr>temp_devs := odel d (temp_devs s2)\<rparr>))"
  have "save_view s4 = save_view s1"
    unfolding s4_def fold_view [of save_view, OF save_view_drop_link] using s2(2) by (simp add: save_view_def)
  then have s4: "enable_save s4" "\<not> default_map s4" "sent s4 = sent s @ [DelKeyId ''loc'' d (file_key s)]"
    using v1 by (simp_all add: save_view_def stored_view_def)
  have "run_state (remove_from_map lc d to_list s) = set_tps d None (resort_dev_list lc (save_map (Some ''tps'') None None None s4))"
    unfolding remove_from_map_def Let_def s1_def [symmetric] s2(1) by (simp add: s4_def)
  then show ?thesis
    using s4 by (simp add: save_map_tps_part set_tps_def resort_dev_list_def Let_def offline_query_def)
qed

lemma offline_removal_dialog_witness:
  "map (\<lambda>q. offline_query (\<lambda>p. None) id ex_file (save_action q))
      (sent (run_state (remove_from_map unit_cmp ''sw'' True (app0\<lparr>devs := [(''sw'', device0)]\<rparr>)))) =
    [Inr (ex_file, None, [''OFFLINE Unimplemented action: del_map_key_id'']), Inr (ex_file, Some REmpty, [])]"
  using offline_removal_dialog [of "app0\<lparr>devs := [(''sw'', device0)]\<rparr>" "''sw''" "\<lambda>p. None" id ex_file unit_cmp True]
  by (simp add: app0_def)

end
