(* ===== verification/Reports.thy ===== *)
theory Reports
  imports OfflineSearch IfStyle Sorting
begin

text \<open>
  The three report windows: the ports behind which more stations are seen than their mode
  explains (\<open>portMacReport\<close>), the inventory of the devices (\<open>inventoryWin\<close>) and the number of
  devices of every model (\<open>summaryWin\<close>). The model produces the rows of the tables; the buttons
  in them open windows of their own.
\<close>

section \<open>Ports with many MAC addresses\<close>

definition crowded :: "iface \<Rightarrow> bool" where
  "crowded f = (case macs_count f of None \<Rightarrow> False
     | Some n \<Rightarrow> ifOperStatus f = Some 1 \<and> if_l2_links f = None \<and>
         ((portMode f = Some 1 \<and> (((portVvid f = None \<or> portVvid f = Some 4096) \<and> 2 < n) \<or> 3 < n)) \<or>
          (portMode f = Some 2 \<and> 1 < n) \<or>
          (portMode f = Some 3 \<and> 2 < n) \<or>
          (portMode f \<noteq> Some 1 \<and> portMode f \<noteq> Some 2 \<and> portMode f \<noteq> Some 3 \<and> True)))"

definition report_ifs :: "device \<Rightarrow> exn + if_name list" where
  "report_ifs dv = gather (\<lambda>i. case oget (dev_ifs dv) i of
      None \<Rightarrow> Inl TypeError
    | Some f \<Rightarrow> Inr (if crowded f then [i] else [])) (interfaces_sorted dv)"

definition report_devs :: "(dev_id, device) obj \<Rightarrow> exn + (dev_id \<times> device \<times> if_name list) list" where
  "report_devs ds = gather (\<lambda>(d, dv).
     if interfaces dv = None then Inr []
     else map_sum id (\<lambda>fs. if 0 < length fs then [(d, dv, fs)] else []) (report_ifs dv)) ds"

datatype report_row =
    DevRow dev_id "string option"
  | IfRow dev_id if_name string "string option"

definition name_cmp :: "(string \<Rightarrow> string \<Rightarrow> int) \<Rightarrow> device \<Rightarrow> device \<Rightarrow> int" where
  "name_cmp lc a b = lc (undef_str (dev_short_name a)) (undef_str (dev_short_name b))"

definition report_rows :: "dev_id \<Rightarrow> device \<Rightarrow> if_name list \<Rightarrow> exn + report_row list" where
  "report_rows d dv fs = map_sum id (\<lambda>rs. DevRow d (dev_short_name dv) # rs)
     (gather (\<lambda>i. map_sum id (\<lambda>ls. [IfRow d i ls (ifAlias (if_of dv i))]) (int_labels i (Some dv))) fs)"

text \<open>\<open>None\<close> is the text that nothing was found, shown in place of the table.\<close>

definition portMacReport :: "(string \<Rightarrow> string \<Rightarrow> int) \<Rightarrow> (dev_id, device) obj \<Rightarrow> exn + report_row list option" where
  "portMacReport lc ds = (case report_devs ds of
      Inl e \<Rightarrow> Inl e
    | Inr rs \<Rightarrow>
        let ids = js_sort (\<lambda>a b. name_cmp lc (fst (snd a)) (fst (snd b))) rs
        in if 0 < length ids then map_sum id Some (gather (\<lambda>(d, dv, fs). report_rows d dv fs) ids)
           else Inr None)"

section \<open>Inventory\<close>

record inv_device = device +
  inv_sites :: "string list option"
  inv_sysObjectID :: "string option"
  inv_model_long :: "string option"
  invEntParent :: "(string, nat) obj option"
  invEntSwRev :: "(string, string) obj option"

text \<open>The tags of a device, each once, in the order of \<open>sort\<close> without a comparator.\<close>

definition dev_sites :: "inv_device \<Rightarrow> string list" where
  "dev_sites dv = (case inv_sites dv of None \<Rightarrow> []
     | Some ss \<Rightarrow> js_sort unit_cmp (foldl append_once [] ss))"

definition sites_text :: "inv_device \<Rightarrow> string" where
  "sites_text dv = join '','' (dev_sites dv)"

text \<open>
  The comparison of two devices: a list of keys, the first that differs decides with
  \<open>num_compare\<close>, and the names decide when none does. \<open>num_compare\<close> of an undefined key throws.
\<close>

definition inv_keys :: "string \<Rightarrow> inv_device \<Rightarrow> string option list" where
  "inv_keys order dv =
     (if order = ''site_model'' then [Some (sites_text dv), Some (dev_model_short dv), inv_sysObjectID dv]
      else if order = ''model_site'' then [Some (dev_model_short dv), inv_sysObjectID dv, Some (sites_text dv)]
      else [])"

fun keys_cmp :: "(string \<Rightarrow> string \<Rightarrow> int) \<Rightarrow> string option list \<Rightarrow> string option list \<Rightarrow> exn + int option" where
  "keys_cmp lc (x # xs) (y # ys) =
     (if x \<noteq> y then
        (case (x, y) of (Some a, Some b) \<Rightarrow> Inr (Some (num_compare lc a b)) | _ \<Rightarrow> Inl TypeError)
      else keys_cmp lc xs ys)"
| "keys_cmp lc xs ys = Inr None"

definition inv_cmp :: "(string \<Rightarrow> string \<Rightarrow> int) \<Rightarrow> string \<Rightarrow> inv_device \<Rightarrow> inv_device \<Rightarrow> exn + int" where
  "inv_cmp lc order a b = (case keys_cmp lc (inv_keys order a) (inv_keys order b) of
      Inl e \<Rightarrow> Inl e
    | Inr (Some c) \<Rightarrow> Inr c
    | Inr None \<Rightarrow> Inr (name_cmp lc (device.truncate a) (device.truncate b)))"

text \<open>
  Sorting with a comparator that may throw. Devices that agree on the keys before a missing one
  stand together in the order, so any sorting by comparisons compares two of them of which one
  has the key and one has not, and throws.
\<close>

definition cmp_value :: "exn + int \<Rightarrow> int" where
  "cmp_value r = (case r of Inl e \<Rightarrow> 0 | Inr c \<Rightarrow> c)"

definition inv_sort :: "(string \<Rightarrow> string \<Rightarrow> int) \<Rightarrow> string \<Rightarrow> (dev_id \<times> inv_device) list \<Rightarrow> exn + (dev_id \<times> inv_device) list" where
  "inv_sort lc order ds =
     (if list_ex (\<lambda>a. list_ex (\<lambda>b. isl (inv_cmp lc order (snd a) (snd b))) ds) ds then Inl TypeError
      else Inr (js_sort (\<lambda>a b. cmp_value (inv_cmp lc order (snd a) (snd b))) ds))"

text \<open>The version is the one of the first entity without a parent.\<close>

definition inv_version :: "inv_device \<Rightarrow> string" where
  "inv_version dv = (case invEntParent dv of None \<Rightarrow> ''''
     | Some ps \<Rightarrow> (case List.find (\<lambda>(k, p). p = 0) ps of None \<Rightarrow> ''''
       | Some (k, p) \<Rightarrow> (case invEntSwRev dv of None \<Rightarrow> ''''
         | Some revs \<Rightarrow> (case oget revs k of None \<Rightarrow> '''' | Some v \<Rightarrow> v))))"

record inv_row =
  ir_dev :: dev_id
  ir_sites :: "(string \<times> string list) list"
  ir_model :: string
  ir_title :: "string option"
  ir_color :: string
  ir_name :: "string option"
  ir_ip :: "string option"
  ir_version :: string

definition mk_inv_row :: "tag list \<Rightarrow> dev_id \<times> inv_device \<Rightarrow> exn + inv_row list" where
  "mk_inv_row tags e = (case e of (d, dv) \<Rightarrow>
     map_sum id (\<lambda>ts. [\<lparr>ir_dev = d, ir_sites = ts, ir_model = dev_model_short dv,
        ir_title = (if inv_model_long dv = Some ''Unknown'' then inv_sysObjectID dv else inv_model_long dv),
        ir_color = (if dev_overall_status dv = ''ok'' then ''black'' else ''red''),
        ir_name = dev_short_name dv, ir_ip = dev_data_ip dv, ir_version = inv_version dv\<rparr>])
       (gather (\<lambda>s. map_sum id (\<lambda>t. [t]) (get_tag (Tag ''root'' '''' '''' None tags) s)) (dev_sites dv)))"

definition inventoryWin :: "(string \<Rightarrow> string \<Rightarrow> int) \<Rightarrow> tag list \<Rightarrow> string \<Rightarrow> (dev_id, inv_device) obj \<Rightarrow> exn + inv_row list" where
  "inventoryWin lc tags order ds = (case inv_sort lc order ds of
      Inl e \<Rightarrow> Inl e
    | Inr ids \<Rightarrow> gather (mk_inv_row tags) ids)"

section \<open>Models\<close>

text \<open>
  An object with any strings as keys enumerates the keys that are array indices first, in
  ascending order, and the others as they were written.
\<close>

definition is_index :: "string \<Rightarrow> bool" where
  "is_index s \<longleftrightarrow> is_num s \<and> str_nat s < 2 ^ 32 - 1 \<and> nat_str (str_nat s) = s"

definition own_keys :: "string list \<Rightarrow> string list" where
  "own_keys ks = map nat_str (sort (map str_nat (filter is_index ks))) @ filter (\<lambda>k. \<not> is_index k) ks"

definition count_model :: "device \<Rightarrow> (string, nat) obj \<Rightarrow> (string, nat) obj" where
  "count_model dv num =
     (let model = dev_model_short dv; num = (if oget num model = None then oset model 0 num else num)
      in case oget num model of None \<Rightarrow> num | Some n \<Rightarrow> oset model (n + 1) num)"

definition devs_number :: "(dev_id, device) obj \<Rightarrow> (string, nat) obj" where
  "devs_number ds = fold (\<lambda>(d, dv). count_model dv) ds []"

definition num_of :: "(string, nat) obj \<Rightarrow> string \<Rightarrow> nat" where
  "num_of num m = (case oget num m of None \<Rightarrow> 0 | Some n \<Rightarrow> n)"

definition model_cmp :: "(string \<Rightarrow> string \<Rightarrow> int) \<Rightarrow> string \<Rightarrow> (string, nat) obj \<Rightarrow> string \<Rightarrow> string \<Rightarrow> int" where
  "model_cmp lc order num a b =
     (if order = ''model'' \<and> a \<noteq> b then num_compare lc a b
      else if order = ''number'' then int (num_of num a) - int (num_of num b)
      else lc a b)"

definition summaryWin :: "(string \<Rightarrow> string \<Rightarrow> int) \<Rightarrow> string \<Rightarrow> (dev_id, device) obj \<Rightarrow> (string \<times> nat) list" where
  "summaryWin lc order ds =
     (let num = devs_number ds
      in map (\<lambda>m. (m, num_of num m)) (js_sort (model_cmp lc order num) (own_keys (okeys num))))"

section \<open>The numbers of the summary\<close>

definition model_count :: "(dev_id, device) obj \<Rightarrow> string \<Rightarrow> nat" where
  "model_count ds m = length (filter (\<lambda>(d, dv). dev_model_short dv = m) ds)"

lemma oget_count_model:
  "oget (count_model dv num) m = (if m = dev_model_short dv then Some (num_of num m + 1) else oget num m)"
  by (auto simp: count_model_def num_of_def Let_def split: option.split)

lemma num_of_count_model: "num_of (count_model dv num) m = num_of num m + (if m = dev_model_short dv then 1 else 0)"
  by (simp add: num_of_def oget_count_model)

lemma count_model_keys:
  "set (okeys (count_model dv num)) = insert (dev_model_short dv) (set (okeys num))"
  "owf num \<Longrightarrow> owf (count_model dv num)"
  by (auto simp: count_model_def Let_def split: option.split)

lemma num_of_fold: "num_of (fold (\<lambda>(d, dv). count_model dv) ds num) m = num_of num m + model_count ds m"
  by (induction ds arbitrary: num) (auto simp: num_of_count_model model_count_def)

lemma keys_fold:
  "set (okeys (fold (\<lambda>(d, dv). count_model dv) ds num)) = set (okeys num) \<union> (\<lambda>(d, dv). dev_model_short dv) ` set ds"
  by (induction ds arbitrary: num) (auto simp: count_model_keys)

lemma owf_fold: "owf num \<Longrightarrow> owf (fold (\<lambda>(d, dv). count_model dv) ds num)"
  by (induction ds arbitrary: num) (auto simp: count_model_keys)

lemma devs_number_facts:
  "num_of (devs_number ds) m = model_count ds m"
  "set (okeys (devs_number ds)) = (\<lambda>(d, dv). dev_model_short dv) ` set ds"
  "distinct (okeys (devs_number ds))"
  using owf_fold [of "[]" ds] by (simp_all add: devs_number_def num_of_fold keys_fold owf_def) (simp add: num_of_def)

lemma mset_own_keys: "mset (own_keys ks) = mset ks"
proof -
  have "mset (map nat_str (sort (map str_nat (filter is_index ks)))) = image_mset nat_str (mset (map str_nat (filter is_index ks)))"
    by simp
  also have "\<dots> = mset (map (nat_str \<circ> str_nat) (filter is_index ks))" by (simp add: image_mset.compositionality)
  also have "map (nat_str \<circ> str_nat) (filter is_index ks) = filter is_index ks"
    by (rule map_idI) (auto simp: is_index_def simp del: nat_str.simps)
  finally show ?thesis by (simp add: own_keys_def mset_filter del: nat_str.simps)
qed

lemma own_keys_set: "set (own_keys ks) = set ks" "distinct (own_keys ks) = distinct ks"
  using mset_eq_setD [OF mset_own_keys] mset_eq_imp_distinct_iff [OF mset_own_keys] by blast+

lemma model_cmp_comparator:
  assumes "comparator lc"
  shows "comparator (model_cmp lc order num)"
proof (cases "order = ''model''")
  case True
  note nc = num_comparator [OF assms]
  have "model_cmp lc order num = num_compare lc"
    using comparator.refl [OF assms] comparator.refl [OF nc] by (auto simp: model_cmp_def True fun_eq_iff)
  then show ?thesis using nc by simp
next
  case False
  show ?thesis
  proof (cases "order = ''number''")
    case True
    then show ?thesis by unfold_locales (auto simp: model_cmp_def sgn_if)
  next
    case False
    with \<open>order \<noteq> ''model''\<close> have "model_cmp lc order num = lc" by (auto simp: model_cmp_def fun_eq_iff)
    then show ?thesis using assms by simp
  qed
qed

lemma sum_model_count: "finite S \<Longrightarrow> (\<lambda>(d, dv). dev_model_short dv) ` set ds \<subseteq> S \<Longrightarrow> (\<Sum>m \<in> S. model_count ds m) = length ds"
proof (induction ds)
  case (Cons e ds)
  have "model_count (e # ds) m = model_count ds m + (if m = dev_model_short (snd e) then 1 else 0)" for m
    by (auto simp: model_count_def case_prod_unfold)
  with Cons show ?case by (simp add: sum.distrib case_prod_unfold)
qed (simp add: model_count_def)

text \<open>
  The summary window has one row for every model of the devices, with the number of devices
  of that model, so that the numbers add up to the number of devices, and the rows are in the
  order chosen: by model, or by number.
\<close>

theorem summary_counts:
  assumes "comparator lc"
  shows "distinct (map fst (summaryWin lc order ds)) \<and>
    set (summaryWin lc order ds) = (\<lambda>(d, dv). (dev_model_short dv, model_count ds (dev_model_short dv))) ` set ds \<and>
    sum_list (map snd (summaryWin lc order ds)) = length ds \<and>
    (order = ''number'' \<longrightarrow> sorted (map snd (summaryWin lc order ds))) \<and>
    (order = ''model'' \<longrightarrow> sorted_wrt (\<lambda>a b. num_compare lc a b \<le> 0) (map fst (summaryWin lc order ds)))"
proof -
  let ?c = "model_cmp lc order (devs_number ds)"
  define ks where "ks = js_sort ?c (own_keys (okeys (devs_number ds)))"
  have rows: "summaryWin lc order ds = map (\<lambda>m. (m, model_count ds m)) ks"
    by (simp add: summaryWin_def Let_def ks_def devs_number_facts(1))
  have ks: "set ks = (\<lambda>(d, dv). dev_model_short dv) ` set ds" "distinct ks"
    by (simp_all add: ks_def own_keys_set devs_number_facts)
  have sorted: "sorted_wrt (\<lambda>a b. ?c a b \<le> 0) ks"
    unfolding ks_def by (rule comparator.sorted_js_sort [OF model_cmp_comparator [OF assms]])
  have "sorted (map (model_count ds) ks)" if "order = ''number''"
    using sorted that by (simp add: sorted_map model_cmp_def devs_number_facts(1))
  moreover have "sorted_wrt (\<lambda>a b. num_compare lc a b \<le> 0) ks" if "order = ''model''"
    using sorted by (rule sorted_wrt_mono_rel [rotated])
      (auto simp: model_cmp_def that comparator.refl [OF num_comparator [OF assms]] split: if_splits)
  ultimately show ?thesis
    unfolding rows using ks sum_model_count [of "set ks" ds]
    by (simp add: comp_def sum_list_distinct_conv_sum_set image_image case_prod_unfold)
qed

definition ex_models :: "(dev_id, device) obj" where
  "ex_models = [(''a'', device0\<lparr>dev_model_short := ''x2''\<rparr>), (''b'', device0\<lparr>dev_model_short := ''x1''\<rparr>),
     (''c'', device0\<lparr>dev_model_short := ''x2''\<rparr>)]"

lemma summary_counts_witness:
  "sum_list (map snd (summaryWin unit_cmp ''number'' ex_models)) = 3 \<and> distinct (map fst (summaryWin unit_cmp ''number'' ex_models))"
proof -
  have "length ex_models = 3" by (simp add: ex_models_def)
  with summary_counts [OF units.comparator_axioms, of "''number''" ex_models] show ?thesis by metis
qed

section \<open>The ports of the report\<close>

text \<open>
  How many stations a port of each mode may show: an access port one (and its phone), a trunk
  one, a hybrid port two; there is no such number for a port of another mode.
\<close>

definition port_limit :: "iface \<Rightarrow> nat option" where
  "port_limit f =
     (if portMode f = Some 1 then Some (if portVvid f = None \<or> portVvid f = Some 4096 then 2 else 3)
      else if portMode f = Some 2 then Some 1
      else if portMode f = Some 3 then Some 2
      else None)"

definition over_limit :: "iface \<Rightarrow> bool" where
  "over_limit f \<longleftrightarrow> (\<exists>n. macs_count f = Some n \<and> ifOperStatus f = Some 1 \<and> if_l2_links f = None \<and>
     (\<forall>k. port_limit f = Some k \<longrightarrow> k < n))"

lemma crowded_iff: "crowded f \<longleftrightarrow> over_limit f"
  by (auto simp: crowded_def over_limit_def port_limit_def split: option.splits if_splits)

definition names_known :: "device \<Rightarrow> bool" where
  "names_known dv \<longleftrightarrow> list_all (\<lambda>i. oget (dev_ifs dv) i \<noteq> None) (interfaces_sorted dv)"

definition crowded_ifs :: "device \<Rightarrow> if_name list" where
  "crowded_ifs dv = (if interfaces dv = None then [] else filter (\<lambda>i. crowded (if_of dv i)) (interfaces_sorted dv))"

lemma report_ifs_ok: "names_known dv \<Longrightarrow> interfaces dv \<noteq> None \<Longrightarrow> report_ifs dv = Inr (crowded_ifs dv)"
proof -
  assume n: "names_known dv" and i: "interfaces dv \<noteq> None"
  have "report_ifs dv = Inr (concat (map (\<lambda>i. if crowded (if_of dv i) then [i] else []) (interfaces_sorted dv)))"
    unfolding report_ifs_def by (rule gather_ok) (use n in \<open>auto simp: names_known_def list_all_iff if_of_def\<close>)
  moreover have "concat (map (\<lambda>i. if crowded (if_of dv i) then [i] else []) xs) = filter (\<lambda>i. crowded (if_of dv i)) xs" for xs
    by (induction xs) simp_all
  moreover have "crowded_ifs dv = filter (\<lambda>i. crowded (if_of dv i)) (interfaces_sorted dv)" using i by (auto simp: crowded_ifs_def)
  ultimately show ?thesis by simp
qed

lemma report_devs_ok:
  assumes "list_all (\<lambda>(d, dv). names_known dv) ds"
  shows "report_devs ds = Inr (map (\<lambda>(d, dv). (d, dv, crowded_ifs dv)) (filter (\<lambda>(d, dv). crowded_ifs dv \<noteq> []) ds))"
proof -
  have "report_devs ds = Inr (concat (map (\<lambda>e. if crowded_ifs (snd e) \<noteq> [] then [(fst e, snd e, crowded_ifs (snd e))] else []) ds))"
    unfolding report_devs_def
    by (rule gather_ok) (use assms in \<open>auto simp: list_all_iff report_ifs_ok crowded_ifs_def\<close>)
  then show ?thesis by (simp add: concat_if_map case_prod_unfold)
qed

definition if_html :: "device \<Rightarrow> if_name \<Rightarrow> string" where
  "if_html dv i = projr (int_labels i (Some dv))"

lemma int_labels_ok: "oget (dev_ifs dv) i \<noteq> None \<Longrightarrow> int_labels i (Some dv) = Inr (if_html dv i)"
  by (auto simp: if_html_def int_labels_def int_metrics_def)

definition block :: "dev_id \<times> device \<Rightarrow> report_row list" where
  "block e = DevRow (fst e) (dev_short_name (snd e)) #
     map (\<lambda>i. IfRow (fst e) i (if_html (snd e) i) (ifAlias (if_of (snd e) i))) (crowded_ifs (snd e))"

lemma report_rows_ok: "names_known dv \<Longrightarrow> report_rows d dv (crowded_ifs dv) = Inr (block (d, dv))"
proof -
  assume n: "names_known dv"
  have "gather (\<lambda>i. map_sum id (\<lambda>ls. [IfRow d i ls (ifAlias (if_of dv i))]) (int_labels i (Some dv))) (crowded_ifs dv) =
      Inr (concat (map (\<lambda>i. [IfRow d i (if_html dv i) (ifAlias (if_of dv i))]) (crowded_ifs dv)))"
    by (rule gather_ok) (use n in \<open>auto simp: names_known_def list_all_iff crowded_ifs_def int_labels_ok split: if_splits\<close>)
  then show ?thesis by (simp add: report_rows_def block_def)
qed

definition report_order :: "(string \<Rightarrow> string \<Rightarrow> int) \<Rightarrow> (dev_id, device) obj \<Rightarrow> (dev_id \<times> device) list" where
  "report_order lc ds = js_sort (\<lambda>a b. name_cmp lc (snd a) (snd b)) (filter (\<lambda>e. crowded_ifs (snd e) \<noteq> []) ds)"

lemma set_report_order: "set (report_order lc ds) = {e \<in> set ds. crowded_ifs (snd e) \<noteq> []}"
  by (auto simp: report_order_def)

lemma portMacReport_ok:
  assumes "list_all (\<lambda>(d, dv). names_known dv) ds"
  shows "portMacReport lc ds = Inr (if report_order lc ds = [] then None else Some (concat (map block (report_order lc ds))))"
proof -
  let ?f = "\<lambda>e. (fst e, snd e, crowded_ifs (snd e))"
  have "report_devs ds = Inr (map ?f (filter (\<lambda>e. crowded_ifs (snd e) \<noteq> []) ds))"
    using report_devs_ok [OF assms] by (simp add: case_prod_unfold)
  moreover have "js_sort (\<lambda>a b. name_cmp lc (fst (snd a)) (fst (snd b))) (map ?f (filter (\<lambda>e. crowded_ifs (snd e) \<noteq> []) ds)) =
      map ?f (report_order lc ds)"
    by (simp add: js_sort_map report_order_def)
  moreover have "gather (\<lambda>(d, dv, fs). report_rows d dv fs) (map ?f (report_order lc ds)) = Inr (concat (map block (report_order lc ds)))"
  proof -
    have "gather (\<lambda>(d, dv, fs). report_rows d dv fs) (map ?f (report_order lc ds)) =
        Inr (concat (map (\<lambda>(d, dv, fs). block (d, dv)) (map ?f (report_order lc ds))))"
      by (rule gather_ok) (use assms in \<open>auto simp: set_report_order list_all_iff report_rows_ok\<close>)
    then show ?thesis by (simp add: comp_def)
  qed
  ultimately show ?thesis by (simp add: portMacReport_def Let_def)
qed

lemma block_ifs: "[(d, i). IfRow d i l a \<leftarrow> concat (map block es)] = concat (map (\<lambda>e. map (Pair (fst e)) (crowded_ifs (snd e))) es)"
  by (induction es) (auto simp: block_def comp_def)

lemma block_devs: "[undef_str n. DevRow d n \<leftarrow> concat (map block es)] = map (\<lambda>e. undef_str (dev_short_name (snd e))) es"
  by (induction es) (auto simp: block_def comp_def)

lemma mset_concat_map: "mset (concat (map f xs)) = sum_mset (image_mset (\<lambda>x. mset (f x)) (mset xs))"
  by (induction xs) simp_all

lemma mset_concat_filter: "mset (concat (map f (filter (\<lambda>x. f x \<noteq> []) xs))) = mset (concat (map f xs))"
  by (induction xs) simp_all

text \<open>
  C32: the MAC report lists exactly the ports that are up, have no link and show more stations
  than their mode explains, every one under its device and the devices by name; when there is
  none it says so.
\<close>

theorem port_report_exact:
  assumes "comparator lc" "list_all (\<lambda>(d, dv). names_known dv) ds"
  shows "\<exists>rows. portMacReport lc ds = Inr rows \<and>
    mset [(d, i). IfRow d i l a \<leftarrow> opt_list rows] =
      mset [(d, i). (d, dv) \<leftarrow> ds, interfaces dv \<noteq> None, i \<leftarrow> interfaces_sorted dv, over_limit (if_of dv i)] \<and>
    sorted_wrt (\<lambda>a b. lc a b \<le> 0) [undef_str n. DevRow d n \<leftarrow> opt_list rows] \<and>
    (rows = None \<longleftrightarrow> [i. (d, dv) \<leftarrow> ds, interfaces dv \<noteq> None, i \<leftarrow> interfaces_sorted dv, over_limit (if_of dv i)] = [])"
proof -
  define rows where "rows = (if report_order lc ds = [] then None else Some (concat (map block (report_order lc ds))))"
  have rows: "opt_list rows = concat (map block (report_order lc ds))" by (simp add: rows_def opt_list_def)
  have ref: "[(d, i). (d, dv) \<leftarrow> ds, interfaces dv \<noteq> None, i \<leftarrow> interfaces_sorted dv, over_limit (if_of dv i)] =
      concat (map (\<lambda>e. map (Pair (fst e)) (crowded_ifs (snd e))) ds)" for ds
    by (induction ds) (auto simp: crowded_ifs_def crowded_iff concat_if_map)
  have m: "mset (concat (map (\<lambda>e. map (Pair (fst e)) (crowded_ifs (snd e))) (report_order lc ds))) =
      mset (concat (map (\<lambda>e. map (Pair (fst e)) (crowded_ifs (snd e))) ds))"
    using mset_concat_filter [of "\<lambda>e. map (Pair (fst e)) (crowded_ifs (snd e))" ds]
    by (simp add: mset_concat_map report_order_def)
  have so: "sorted_wrt (\<lambda>a b. lc a b \<le> 0) (map (\<lambda>e. undef_str (dev_short_name (snd e))) (report_order lc ds))"
    using comparator.sorted_js_sort [OF comparator.by_key [OF assms(1)],
        of "\<lambda>e. undef_str (dev_short_name (snd e))" "filter (\<lambda>e. crowded_ifs (snd e) \<noteq> []) ds"]
    by (simp add: report_order_def name_cmp_def sorted_wrt_map)
  have n: "report_order lc ds = [] \<longleftrightarrow> [i. (d, dv) \<leftarrow> ds, interfaces dv \<noteq> None, i \<leftarrow> interfaces_sorted dv, over_limit (if_of dv i)] = []"
    by (auto simp: set_empty [symmetric] set_report_order crowded_ifs_def crowded_iff simp del: set_empty split: if_splits)
  have r: "portMacReport lc ds = Inr rows" using portMacReport_ok [OF assms(2)] by (simp add: rows_def)
  have z: "rows = None \<longleftrightarrow> report_order lc ds = []" by (simp add: rows_def)
  show ?thesis
    unfolding ref by (intro exI [of _ rows] conjI r) (simp_all only: rows block_ifs block_devs m so z n)
qed

definition ex_access :: device where
  "ex_access = device0\<lparr>dev_short_name := Some ''sw'',
     interfaces := Some [(''p1'', iface0\<lparr>ifName := ''p1'', ifOperStatus := Some 1, macs_count := Some 5, portMode := Some 1\<rparr>)],
     interfaces_sorted := [''p1'']\<rparr>"

lemma port_report_exact_witness:
  "\<exists>rows. portMacReport unit_cmp [(''sw'', ex_access)] = Inr rows \<and> rows \<noteq> None"
proof -
  have k: "list_all (\<lambda>(d, dv). names_known dv) [(''sw'', ex_access)]" by code_simp
  have n: "[i. (d, dv) \<leftarrow> [(''sw'', ex_access)], interfaces dv \<noteq> None, i \<leftarrow> interfaces_sorted dv, over_limit (if_of dv i)] \<noteq> []"
    unfolding crowded_iff [symmetric] by code_simp
  obtain rows where "portMacReport unit_cmp [(''sw'', ex_access)] = Inr rows"
    "rows = None \<longleftrightarrow> [i. (d, dv) \<leftarrow> [(''sw'', ex_access)], interfaces dv \<noteq> None, i \<leftarrow> interfaces_sorted dv, over_limit (if_of dv i)] = []"
    using port_report_exact [OF units.comparator_axioms k] by (elim exE conjE)
  with n show ?thesis by (intro exI conjI) (assumption, simp only: not_False_eq_True)
qed

section \<open>When the inventory throws\<close>

lemma inv_cmp_throws:
  "isl (inv_cmp lc ''model_site'' a b) \<longleftrightarrow>
     dev_model_short a = dev_model_short b \<and> (inv_sysObjectID a = None) \<noteq> (inv_sysObjectID b = None)"
  by (cases "inv_sysObjectID a"; cases "inv_sysObjectID b") (auto simp: inv_cmp_def inv_keys_def)

text \<open>
  In the order by model the inventory throws exactly when two devices have the same model and
  only one of them an object identifier, as a virtual device has none; otherwise it sorts the
  devices, losing none.
\<close>

lemma inventory_throws_iff:
  "(inv_sort lc ''model_site'' ds = Inl TypeError \<longleftrightarrow> (\<exists>d a e b. (d, a) \<in> set ds \<and> (e, b) \<in> set ds \<and>
     dev_model_short a = dev_model_short b \<and> inv_sysObjectID a = None \<and> inv_sysObjectID b \<noteq> None)) \<and>
   (inv_sort lc ''model_site'' ds = Inl TypeError \<or> (\<exists>ids. inv_sort lc ''model_site'' ds = Inr ids \<and> mset ids = mset ds))"
proof -
  have "list_ex (\<lambda>a. list_ex (\<lambda>b. isl (inv_cmp lc ''model_site'' (snd a) (snd b))) ds) ds \<longleftrightarrow>
      (\<exists>d a e b. (d, a) \<in> set ds \<and> (e, b) \<in> set ds \<and> dev_model_short a = dev_model_short b \<and>
        (inv_sysObjectID a = None) \<noteq> (inv_sysObjectID b = None))"
    unfolding list_ex_iff inv_cmp_throws Bex_pair by simp
  also have "\<dots> \<longleftrightarrow> (\<exists>d a e b. (d, a) \<in> set ds \<and> (e, b) \<in> set ds \<and>
     dev_model_short a = dev_model_short b \<and> inv_sysObjectID a = None \<and> inv_sysObjectID b \<noteq> None)"
    by metis
  finally show ?thesis by (simp add: inv_sort_def)
qed

end
