(* ===== verification/VLinks.thy ===== *)
theory VLinks
  imports TextFns Selection MapOps Sync Reports
begin

text \<open>
  Virtual links and virtual devices, which users add to the map: creating a link between the
  interfaces of two devices (\<open>vLinksWindow\<close>), deleting links (\<open>wipe_l2_link\<close>,
  \<open>wipe_l2_link_by_dev_int\<close>), saving and deleting a virtual device (\<open>edit_vdev\<close>,
  \<open>get_vdev_row\<close>), and what the broker does with the queries these send. The page keeps the links
  twice: in \<open>l2_links\<close>, and by name in the list of each interface.
\<close>

section \<open>The page\<close>

definition if_exists :: "app \<Rightarrow> dev_id \<Rightarrow> if_name \<Rightarrow> bool" where
  "if_exists s d i = (case oget (devs s) d of None \<Rightarrow> False | Some dv \<Rightarrow> oget (dev_ifs dv) i \<noteq> None)"

text \<open>Reads and writes below are inside \<open>try\<close>: for an interface that is not there nothing happens.\<close>

definition if_list :: "app \<Rightarrow> dev_id \<Rightarrow> if_name \<Rightarrow> link_id list" where
  "if_list s d i = (case if_l2_links (if_of (dev_of s d) i) of None \<Rightarrow> [] | Some ls \<Rightarrow> ls)"

definition set_list :: "dev_id \<Rightarrow> if_name \<Rightarrow> link_id list option \<Rightarrow> app \<Rightarrow> app" where
  "set_list d i v s =
     (if if_exists s d i then set_if d i ((if_of (dev_of s d) i)\<lparr>if_l2_links := v\<rparr>) s else s)"

definition unlink_end :: "link_id \<Rightarrow> l2_end \<Rightarrow> app \<Rightarrow> app" where
  "unlink_end lid e s =
     (let d = DevId e; i = l2_ifName e; new_links = filter (\<lambda>l. l \<noteq> lid) (if_list s d i)
      in set_list d i (if 0 < length new_links then Some new_links else None) s)"

definition wipe_l2_link :: "link_id \<Rightarrow> app \<Rightarrow> app" where
  "wipe_l2_link lid s = (case oget (l2_links s) lid of
      None \<Rightarrow> s
    | Some l \<Rightarrow>
        let s = unlink_end lid (end1 l) (unlink_end lid (end0 l) s)
        in s\<lparr>l2_links := odel lid (l2_links s)\<rparr>)"

definition ends_at :: "dev_id \<Rightarrow> if_name \<Rightarrow> l2_link \<Rightarrow> bool" where
  "ends_at d i l \<longleftrightarrow> (DevId (end0 l) = d \<and> l2_ifName (end0 l) = i) \<or> (DevId (end1 l) = d \<and> l2_ifName (end1 l) = i)"

definition wipe_if :: "(l2_link \<Rightarrow> bool) \<Rightarrow> link_id \<Rightarrow> app \<Rightarrow> app" where
  "wipe_if P lid s = (case oget (l2_links s) lid of
      None \<Rightarrow> s
    | Some l \<Rightarrow> if P l then wipe_l2_link lid s else s)"

definition wipe_l2_link_by_dev_int :: "dev_id \<Rightarrow> if_name \<Rightarrow> app \<Rightarrow> app" where
  "wipe_l2_link_by_dev_int d i s = fold (wipe_if (ends_at d i)) (okeys (l2_links s)) s"

text \<open>
  Creating a link. The two ends are put in the order of the names of their devices, the name of
  the link is made of them, and nothing is sent when there is a link of that name.
\<close>

definition vlink_text :: "l2_end \<Rightarrow> l2_end \<Rightarrow> string" where
  "vlink_text p q = DevId p @ ''@'' @ l2_ifName p @ ''#'' @ DevId q @ ''@'' @ l2_ifName q"

definition new_vlink :: "(string \<Rightarrow> string \<Rightarrow> int) \<Rightarrow> l2_end \<Rightarrow> l2_end \<Rightarrow> app \<Rightarrow> exn + (link_id \<times> l2_link) option" where
  "new_vlink lc a b s =
     (let pairs = js_sort (\<lambda>a b. lc (DevId a) (DevId b)) [a, b]; p = pairs ! 0; q = pairs ! 1;
          lid = vlink_text p q
      in if \<not> if_exists s (DevId p) (l2_ifName p) \<or> \<not> if_exists s (DevId q) (l2_ifName q) then Inl TypeError
         else
           let up = (\<lambda>e. ifOperStatus (if_of (dev_of s (DevId e)) (l2_ifName e)) = Some 1);
               link = \<lparr>end0 = p, end1 = q, l2_status = (if \<not> up p \<or> \<not> up q then 2 else 1), l2_virtual = True\<rparr>
           in if oget (l2_links s) lid \<noteq> None then Inr None else Inr (Some (lid, link)))"

definition link_end :: "link_id \<Rightarrow> l2_end \<Rightarrow> app \<Rightarrow> app" where
  "link_end lid e s = set_list (DevId e) (l2_ifName e) (Some (append_once (if_list s (DevId e) (l2_ifName e)) lid)) s"

text \<open>The answer to the query that saves the link; the window then has the page drawn again.\<close>

definition vlink_saved :: "link_id \<times> l2_link \<Rightarrow> app \<Rightarrow> app" where
  "vlink_saved e s = (case e of (lid, l) \<Rightarrow>
     link_end lid (end1 l) (link_end lid (end0 l) (s\<lparr>l2_links := oset lid l (l2_links s)\<rparr>)))"

definition redraw_data :: "(string \<Rightarrow> string \<Rightarrow> int) \<Rightarrow> (string \<Rightarrow> int \<times> int) \<Rightarrow> app \<Rightarrow> app run" where
  "redraw_data lc text_size s = data_loaded lc text_size (loaded_data s) False s"

text \<open>
  Saving a virtual device. The interfaces are built anew from the form, before the query is sent
  and in the device object of the page itself; \<open>prev_ports\<close> are the names before that. The
  answer deletes the links of the ports that are gone, and when a port or the name is another
  one the page is drawn again. The name is kept trimmed and compared as it was typed. A form
  with a bad name is refused, one with a nameless port after the texts have been taken over.
\<close>

record vdev_form =
  vf_short_name :: string
  vf_model_short :: string
  vf_sysLocation :: string
  vf_data_ip :: string
  vf_ports :: "(if_name \<times> string) list"

definition vdev_iface :: "if_name \<Rightarrow> string \<Rightarrow> iface" where
  "vdev_iface n a = iface0\<lparr>ifName := n, ifAlias := Some a, ifDescr := Some n, ifAdminStatus := Some 1,
     ifOperStatus := Some 1, ifSpeed := Some 1000000000, ifHighSpeed := Some 1000, ifType := Some 6\<rparr>"

definition vdev_ifs :: "(if_name \<times> string) list \<Rightarrow> (if_name, iface) obj" where
  "vdev_ifs ports = foldl (\<lambda>ob (n, a). oset n (vdev_iface n a) ob) [] ports"

definition short_name_ok :: "string \<Rightarrow> bool" where
  "short_name_ok name = re_full (RSeq (RCls is_word) (RStar (RCls (\<lambda>c. is_word c \<or> c = CHR ''-'')))) name"

definition vdev_texts :: "vdev_form \<Rightarrow> device \<Rightarrow> device" where
  "vdev_texts form dv = dv\<lparr>dev_short_name := Some (trim (vf_short_name form)),
     dev_model_short := trim (vf_model_short form), dev_sysLocation := Some (trim (vf_sysLocation form)),
     dev_data_ip := Some (trim (vf_data_ip form))\<rparr>"

definition vdev_of_form :: "(string \<Rightarrow> string \<Rightarrow> int) \<Rightarrow> vdev_form \<Rightarrow> device \<Rightarrow> device" where
  "vdev_of_form lc form dv = (vdev_texts form dv)\<lparr>interfaces := Some (vdev_ifs (vf_ports form)),
     interfaces_sorted := js_sort (num_compare lc) (own_keys (okeys (vdev_ifs (vf_ports form))))\<rparr>"

definition vdev_saved :: "dev_id \<Rightarrow> device \<Rightarrow> if_name list \<Rightarrow> app \<Rightarrow> app" where
  "vdev_saved d dv prev_ports s =
     fold (\<lambda>p s. if fst (in_array (Some (interfaces_sorted dv)) (Some p)) then s else wipe_l2_link_by_dev_int d p s)
       prev_ports (s\<lparr>devs := oset d dv (devs s)\<rparr>)"

definition ports_changed :: "if_name list \<Rightarrow> if_name list \<Rightarrow> bool" where
  "ports_changed prev_ports new_ports \<longleftrightarrow>
     list_ex (\<lambda>p. \<not> fst (in_array (Some new_ports) (Some p))) prev_ports \<or>
     list_ex (\<lambda>p. \<not> fst (in_array (Some prev_ports) (Some p))) new_ports"

definition rename_listed :: "dev_id \<Rightarrow> string \<Rightarrow> app \<Rightarrow> app" where
  "rename_listed d name s = s\<lparr>dev_list := map (\<lambda>e. if fst e = d then (d, name) else e) (dev_list s)\<rparr>"

definition edit_vdev ::
    "(string \<Rightarrow> string \<Rightarrow> int) \<Rightarrow> (string \<Rightarrow> int \<times> int) \<Rightarrow> dev_id \<Rightarrow> vdev_form \<Rightarrow> app \<Rightarrow> app run" where
  "edit_vdev lc text_size d form s = (case oget (devs s) d of
      None \<Rightarrow> Threw TypeError s
    | Some dv \<Rightarrow>
        if \<not> short_name_ok (trim (vf_short_name form)) then Done s
        else if list_ex (\<lambda>(n, a). n = []) (vf_ports form) then Done (s\<lparr>devs := oset d (vdev_texts form dv) (devs s)\<rparr>)
        else let new = vdev_of_form lc form dv; name = vf_short_name form;
            s = vdev_saved d new (interfaces_sorted dv) s
        in if ports_changed (interfaces_sorted dv) (interfaces_sorted new) \<or> dev_short_name dv \<noteq> Some name
           then (if on_page s d then redraw_data lc text_size s else Done (rename_listed d name s))
           else Done s)"

text \<open>The device the query that saves it holds, if one is sent.\<close>

definition vdev_query :: "(string \<Rightarrow> string \<Rightarrow> int) \<Rightarrow> dev_id \<Rightarrow> vdev_form \<Rightarrow> app \<Rightarrow> device option" where
  "vdev_query lc d form s = (case oget (devs s) d of
      None \<Rightarrow> None
    | Some dv \<Rightarrow>
        if \<not> short_name_ok (trim (vf_short_name form)) \<or> list_ex (\<lambda>(n, a). n = []) (vf_ports form) then None
        else Some (vdev_of_form lc form dv))"

text \<open>Deleting a device: it leaves the map or the list, then its links are deleted.\<close>

definition from_dev_list :: "(string \<Rightarrow> string \<Rightarrow> int) \<Rightarrow> dev_id \<Rightarrow> app \<Rightarrow> app" where
  "from_dev_list lc d s = resort_dev_list lc (s\<lparr>dev_list := filter (\<lambda>e. fst e \<noteq> d) (dev_list s)\<rparr>)"

definition touches :: "dev_id \<Rightarrow> l2_link \<Rightarrow> bool" where
  "touches d l \<longleftrightarrow> DevId (end0 l) = d \<or> DevId (end1 l) = d"

definition forget_dev :: "dev_id \<Rightarrow> app \<Rightarrow> app" where
  "forget_dev d s = fold (wipe_if (touches d)) (okeys (l2_links s)) (s\<lparr>devs := odel d (devs s)\<rparr>)"

definition vdev_deleted :: "(string \<Rightarrow> string \<Rightarrow> int) \<Rightarrow> dev_id \<Rightarrow> app \<Rightarrow> app run" where
  "vdev_deleted lc d s =
     seq (if on_page s d then remove_from_map lc d False s else Done (from_dev_list lc d s)) (\<lambda>s. Done (forget_dev d s))"

text \<open>Deleting a device from the database, in its own window, does the same on the page.\<close>

definition dev_wiped :: "(string \<Rightarrow> string \<Rightarrow> int) \<Rightarrow> dev_id \<Rightarrow> app \<Rightarrow> app run" where
  "dev_wiped lc d s =
     seq (if on_page s d then remove_from_map lc d False s else Done (from_dev_list lc d s)) (\<lambda>s. Done (forget_dev d s))"

text \<open>
  The window for two selected devices: the texts of the interfaces to choose from (with a sign for a
  port that is down) below the first, empty choice, and the rows of the virtual links between the two, their
  interfaces in the order of the selection.
\<close>

definition port_option :: "iface \<Rightarrow> if_name \<Rightarrow> string" where
  "port_option f i = (if ifOperStatus f = Some 1 then ''&nbsp;'' else ''&#x21A7;'') @ '' '' @ escapeHtml i @
     (case ifAlias f of None \<Rightarrow> [] | Some a \<Rightarrow> if a \<noteq> [] then '' ('' @ escapeHtml a @ '')'' else [])"

definition port_options :: "device \<Rightarrow> (if_name \<times> string) list" where
  "port_options dv = map (\<lambda>i. (i, port_option (if_of dv i) i)) (interfaces_sorted dv)"

definition vlink_rows :: "app \<Rightarrow> dev_id \<Rightarrow> dev_id \<Rightarrow> (link_id \<times> if_name \<times> if_name) list" where
  "vlink_rows s a b = concat (map (\<lambda>(lid, l).
     if l2_virtual l \<and> ((DevId (end0 l) = a \<and> DevId (end1 l) = b) \<or> (DevId (end1 l) = a \<and> DevId (end0 l) = b))
     then [if DevId (end0 l) = a then (lid, l2_ifName (end0 l), l2_ifName (end1 l))
           else (lid, l2_ifName (end1 l), l2_ifName (end0 l))]
     else []) (l2_links s))"

section \<open>The store of virtual links\<close>

text \<open>What the queries do to the links the broker keeps, by name.\<close>

type_synonym vlinks = "link_id \<rightharpoonup> l2_link"

definition save_vlink :: "link_id \<times> l2_link \<Rightarrow> vlinks \<Rightarrow> vlinks" where
  "save_vlink e st = st(fst e \<mapsto> snd e)"

definition del_vlink :: "link_id \<Rightarrow> vlinks \<Rightarrow> vlinks" where
  "del_vlink lid st = st(lid := None)"

definition keep_vlinks :: "(l2_link \<Rightarrow> bool) \<Rightarrow> vlinks \<Rightarrow> vlinks" where
  "keep_vlinks P st lid = (case st lid of None \<Rightarrow> None | Some l \<Rightarrow> if P l then Some l else None)"

definition save_vdev :: "dev_id \<Rightarrow> device \<Rightarrow> vlinks \<Rightarrow> vlinks" where
  "save_vdev d dv st = keep_vlinks (\<lambda>l.
     \<not> ((DevId (end0 l) = d \<and> oget (dev_ifs dv) (l2_ifName (end0 l)) = None) \<or>
        (DevId (end1 l) = d \<and> oget (dev_ifs dv) (l2_ifName (end1 l)) = None))) st"

definition del_vdev :: "dev_id \<Rightarrow> vlinks \<Rightarrow> vlinks" where
  "del_vdev d st = keep_vlinks (\<lambda>l. \<not> touches d l) st"

end
