(* ===== verification/VLinkWin.thy ===== *)
theory VLinkWin
  imports VLinks
begin

text \<open>
  The window for virtual links (\<open>vLinksWindow\<close>): what it shows when, as devices are selected, the
  selection is locked, and links are created in it.
\<close>

section \<open>The window\<close>

text \<open>
  Nothing (when filling it threw), the hint to select two devices, or the table of two devices: their
  names, the ports to choose from, the links between them.
\<close>

datatype vlink_content =
    VlEmpty
  | VlHint
  | VlTable dev_id dev_id "string option \<times> string option" "(if_name \<times> string) list" "(if_name \<times> string) list"
      "(link_id \<times> if_name \<times> if_name) list"

definition ports_there :: "device \<Rightarrow> bool" where
  "ports_there dv = list_all (\<lambda>i. oget (dev_ifs dv) i \<noteq> None) (interfaces_sorted dv)"

definition fill_vlinks :: "app \<Rightarrow> exn option \<times> vlink_content" where
  "fill_vlinks s = (case dev_selected s of
      [a, b] \<Rightarrow> (case (oget (devs s) a, oget (devs s) b) of
          (Some da, Some db) \<Rightarrow>
            if ports_there da \<and> ports_there db
            then (None, VlTable a b (dev_short_name da, dev_short_name db) (port_options da) (port_options db) (vlink_rows s a b))
            else (Some TypeError, VlEmpty)
        | _ \<Rightarrow> (Some TypeError, VlEmpty))
    | _ \<Rightarrow> (None, VlHint))"

definition has_table :: "vlink_content \<Rightarrow> bool" where
  "has_table c = (case c of VlTable a b n l r rs \<Rightarrow> True | _ \<Rightarrow> False)"

text \<open>After a change of the selection only a window without a table is built anew.\<close>

definition vLinksWindow :: "bool \<Rightarrow> app \<Rightarrow> vlink_content option \<Rightarrow> exn option \<times> vlink_content option" where
  "vLinksWindow sel_changed s w =
     (if sel_changed \<and> (case w of None \<Rightarrow> True | Some c \<Rightarrow> has_table c) then (None, w)
      else (case fill_vlinks s of (x, c) \<Rightarrow> (x, Some c)))"

record vlink_page =
  vk_app :: app
  vk_win :: "vlink_content option"

definition selected :: "app \<Rightarrow> vlink_page \<Rightarrow> vlink_page" where
  "selected s p = p\<lparr>vk_app := s, vk_win := snd (vLinksWindow True s (vk_win p))\<rparr>"

text \<open>Locking the selection closes a window without a table.\<close>

definition lock_clicked :: "vlink_page \<Rightarrow> vlink_page" where
  "lock_clicked p =
     (let s = toggle_select (vk_app p)
      in p\<lparr>vk_app := s, vk_win := (case vk_win p of None \<Rightarrow> None
           | Some c \<Rightarrow> if \<not> allow_select s \<and> \<not> has_table c then None else Some c)\<rparr>)"

text \<open>
  The choices of the two lists, the empty one included; the button is black when both are made, and
  does nothing otherwise.
\<close>

definition button_black :: "if_name \<Rightarrow> if_name \<Rightarrow> bool" where
  "button_black l r \<longleftrightarrow> l \<noteq> [] \<and> r \<noteq> []"

definition create_clicked :: "(string \<Rightarrow> string \<Rightarrow> int) \<Rightarrow> dev_id \<Rightarrow> dev_id \<Rightarrow> if_name \<Rightarrow> if_name \<Rightarrow> app \<Rightarrow> exn + (link_id \<times> l2_link) option" where
  "create_clicked lc a b l r s =
     (let pairs = filter (\<lambda>e. l2_ifName e \<noteq> []) [\<lparr>DevId = a, l2_ifName = l\<rparr>, \<lparr>DevId = b, l2_ifName = r\<rparr>]
      in if length pairs = 2 then new_vlink lc (pairs ! 0) (pairs ! 1) s else Inr None)"

definition link_created :: "link_id \<times> l2_link \<Rightarrow> vlink_page \<Rightarrow> vlink_page" where
  "link_created e p = p\<lparr>vk_app := vlink_saved e (vk_app p), vk_win := None\<rparr>"

definition link_deleted :: "link_id \<Rightarrow> vlink_page \<Rightarrow> vlink_page" where
  "link_deleted lid p = p\<lparr>vk_app := wipe_l2_link lid (vk_app p), vk_win := None\<rparr>"

section \<open>What it shows when\<close>

inductive vlink_step :: "vlink_page \<Rightarrow> vlink_page \<Rightarrow> bool" where
  vk_device: "allow_select (vk_app p) \<Longrightarrow> oget (devs (vk_app p)) d \<noteq> None \<Longrightarrow> device_click ctrl shift d (vk_app p) = Some s \<Longrightarrow>
    vlink_step p (selected s p)"
| vk_workspace: "vlink_step p (selected (workspace_click (vk_app p)) p)"
| vk_interface: "interface_click ctrl i d (vk_app p) = Some (Done s) \<Longrightarrow> vlink_step p (selected s p)"
| vk_lock: "vlink_step p (lock_clicked p)"
| vk_button: "vlink_step p (p\<lparr>vk_win := snd (vLinksWindow False (vk_app p) (vk_win p))\<rparr>)"
| vk_close: "vlink_step p (p\<lparr>vk_win := None\<rparr>)"
| vk_create: "create_clicked lc a b l r (vk_app p) = Inr (Some e) \<Longrightarrow> vk_win p = Some (VlTable a b n ls rs rows) \<Longrightarrow>
    vlink_step p (link_created e p)"
| vk_delete: "vk_win p = Some (VlTable a b n ls rs rows) \<Longrightarrow> lid \<in> set (map fst rows) \<Longrightarrow> vlink_step p (link_deleted lid p)"
| vk_reload: "dev_selected s = [] \<Longrightarrow> bordered s = [] \<Longrightarrow> vlink_step p (p\<lparr>vk_app := s\<rparr>)"

definition window_ok :: "vlink_page \<Rightarrow> bool" where
  "window_ok p \<longleftrightarrow> borders_ok (vk_app p) \<and>
     (vk_win p = Some VlHint \<longrightarrow> length (dev_selected (vk_app p)) \<noteq> 2) \<and>
     (case vk_win p of Some (VlTable a b n ls rs rows) \<Rightarrow> a \<noteq> b | _ \<Rightarrow> True)"

lemma fill_hint: "snd (fill_vlinks s) = VlHint \<longleftrightarrow> length (dev_selected s) \<noteq> 2"
proof (cases "dev_selected s")
  case (Cons a xs)
  then show ?thesis
    by (cases xs; cases "tl xs") (auto simp: fill_vlinks_def split: option.split list.split)
qed (simp add: fill_vlinks_def)

lemma fill_table: "borders_ok s \<Longrightarrow> snd (fill_vlinks s) = VlTable a b n ls rs rows \<Longrightarrow> a \<noteq> b"
  by (auto simp: fill_vlinks_def borders_ok_def split: list.splits option.splits if_splits)

lemma window_opened: "borders_ok s \<Longrightarrow> window_ok \<lparr>vk_app = s, vk_win = Some (snd (fill_vlinks s))\<rparr>"
  using fill_hint [of s] fill_table [of s] by (auto simp: window_ok_def split: vlink_content.split)

lemma window_selected: "borders_ok s \<Longrightarrow> window_ok p \<Longrightarrow> window_ok (selected s p)"
  using window_opened [of s]
  by (auto simp: window_ok_def selected_def vLinksWindow_def has_table_def split: option.splits vlink_content.splits prod.split)

lemma link_saved_same: "dev_selected (vlink_saved e s) = dev_selected s" "bordered (vlink_saved e s) = bordered s" "page (vlink_saved e s) = page s"
  by (cases e; simp add: vlink_saved_def link_end_def set_list_def set_if_def)+

lemma wiped_same: "dev_selected (wipe_l2_link lid s) = dev_selected s" "bordered (wipe_l2_link lid s) = bordered s" "page (wipe_l2_link lid s) = page s"
  by (simp add: wipe_l2_link_def unlink_end_def set_list_def set_if_def Let_def split: option.split)+

text \<open>
  The hint never stands while two devices are selected, and the table is of two different ones, whatever
  is clicked.
\<close>

lemma window_step:
  assumes "vlink_step p p'" "window_ok p"
  shows "window_ok p'"
  using assms(1)
proof cases
  case (vk_device d ctrl shift s)
  then have "borders_ok s" using borders_step [OF on_device] assms(2) by (auto simp: window_ok_def)
  with vk_device assms(2) show ?thesis by (simp add: window_selected)
next
  case vk_workspace
  have "borders_ok (workspace_click (vk_app p))" using borders_step [OF on_workspace] assms(2) by (simp add: window_ok_def)
  with vk_workspace assms(2) show ?thesis by (simp add: window_selected)
next
  case (vk_interface ctrl i d s)
  have "borders_ok (vk_app p)" using assms(2) by (simp add: window_ok_def)
  from borders_step [OF on_interface [OF vk_interface(2)] this] have "borders_ok s" by simp
  with vk_interface assms(2) show ?thesis by (simp add: window_selected)
next
  case vk_lock
  have b: "borders_ok (toggle_select (vk_app p))" using borders_step [OF on_lock] assms(2) by (simp add: window_ok_def)
  have "allow_select (toggle_select (vk_app p)) \<Longrightarrow> dev_selected (toggle_select (vk_app p)) = dev_selected (vk_app p)"
    by (auto simp: toggle_select_def no_borders_def Let_def)
  with vk_lock b assms(2) show ?thesis
    by (auto simp: window_ok_def lock_clicked_def Let_def has_table_def split: option.splits vlink_content.splits if_splits)
next
  case vk_button
  then show ?thesis using window_opened [of "vk_app p"] assms(2)
    by (cases "fill_vlinks (vk_app p)") (simp add: window_ok_def vLinksWindow_def)
next
  case vk_close
  with assms(2) show ?thesis by (simp add: window_ok_def)
next
  case (vk_create lc a b l r e)
  with assms(2) show ?thesis by (auto simp: window_ok_def link_created_def borders_ok_def link_saved_same on_page_def)
next
  case (vk_delete a b n ls rs rows lid)
  with assms(2) show ?thesis by (auto simp: window_ok_def link_deleted_def borders_ok_def wiped_same on_page_def)
next
  case (vk_reload s)
  with assms(2) show ?thesis by (auto simp: window_ok_def borders_ok_def)
qed

text \<open>The button creates a link exactly when it is black, and then between the two devices of the table.\<close>

lemma created_when_black: "create_clicked lc a b l r s =
    (if button_black l r then new_vlink lc \<lparr>DevId = a, l2_ifName = l\<rparr> \<lparr>DevId = b, l2_ifName = r\<rparr> s else Inr None)"
  by (simp add: create_clicked_def button_black_def)

text \<open>A selected device that is deleted stays selected: the window then throws and stays empty.\<close>

lemma forgotten_selected: "dev_selected (forget_dev d s) = dev_selected s"
proof -
  have "dev_selected (fold (wipe_if P) ks u) = dev_selected u" for P ks u
    by (intro fold_view [of dev_selected]) (simp add: wipe_if_def wiped_same split: option.split)
  then show ?thesis by (simp add: forget_dev_def)
qed

lemma forget_gone: "oget (devs (forget_dev d s)) d = None"
proof -
  have "oget (devs (set_list e i v u)) d = None" if "oget (devs u) d = None" for e i v u
    using that by (auto simp: set_list_def set_if_def if_exists_def split: option.splits)
  then have w: "oget (devs (wipe_l2_link lid u)) d = None" if "oget (devs u) d = None" for lid u
    using that by (simp add: wipe_l2_link_def unlink_end_def Let_def split: option.split)
  have "oget (devs u) d = None \<Longrightarrow> oget (devs (fold (wipe_if P) ks u)) d = None" for P ks u
    by (induction ks arbitrary: u) (simp_all add: wipe_if_def w split: option.split)
  then show ?thesis by (simp add: forget_dev_def)
qed

lemma deleted_stays_selected:
  assumes "dev_selected s = [a, b]"
  shows "dev_selected (forget_dev a s) = [a, b] \<and> vLinksWindow False (forget_dev a s) w = (Some TypeError, Some VlEmpty)"
  by (simp add: vLinksWindow_def fill_vlinks_def forgotten_selected forget_gone assms)

end
