(* ===== verification/Files.thy ===== *)
theory Files
  imports Sync TextFns
begin

text \<open>
  The layout files of a location: the address of the page (\<open>getUrlParameter\<close>, the start of
  \<open>myReady\<close>, \<open>selectLocation\<close>), the window of the layouts (\<open>showFileWindow\<close>, \<open>get_file_row\<close>) with
  all its actions, and what the server does with its queries (\<open>http-ajax.go\<close>).
\<close>

section \<open>The address\<close>

text \<open>
  \<open>decodeURIComponent\<close>: an escape below 128 is one character, a higher one starts a sequence of escapes
  that has to be a well-formed UTF-8 sequence. Of such a sequence the model has the characters below
  256; those of a higher one stand as the bytes of the sequence.
\<close>

definition hex_digit :: "char \<Rightarrow> nat" where
  "hex_digit c = (if is_digit c then digit_val c else code (lower c) - 87)"

fun pct :: "string \<Rightarrow> (nat \<times> string) option" where
  "pct (c # h # l # s) = (if c = CHR 0x25 \<and> is_hex h \<and> is_hex l then Some (16 * hex_digit h + hex_digit l, s) else None)"
| "pct s = None"

fun cont_bytes :: "nat \<Rightarrow> string \<Rightarrow> (nat list \<times> string) option" where
  "cont_bytes 0 s = Some ([], s)"
| "cont_bytes (Suc n) s = (case pct s of None \<Rightarrow> None
     | Some (b, r) \<Rightarrow> if 128 \<le> b \<and> b < 192 then map_option (\<lambda>(bs, t). (b # bs, t)) (cont_bytes n r) else None)"

definition utf8_more :: "nat \<Rightarrow> nat option" where
  "utf8_more b = (if b < 128 then Some 0 else if 194 \<le> b \<and> b < 224 then Some 1 else if 224 \<le> b \<and> b < 240 then Some 2
     else if 240 \<le> b \<and> b < 245 then Some 3 else None)"

text \<open>No overlong forms, no surrogates, nothing above \<open>10FFFF\<close>.\<close>

fun utf8_range :: "nat \<Rightarrow> nat list \<Rightarrow> bool" where
  "utf8_range b [] = True"
| "utf8_range b (c # cs) = ((b = 224 \<longrightarrow> 160 \<le> c) \<and> (b = 237 \<longrightarrow> c < 160) \<and> (b = 240 \<longrightarrow> 144 \<le> c) \<and> (b = 244 \<longrightarrow> c < 144))"

lemma pct_shorter: "pct s = Some (b, r) \<Longrightarrow> length r < length s"
  by (induction s rule: pct.induct) (auto split: if_splits)

lemma cont_shorter: "cont_bytes n s = Some (bs, t) \<Longrightarrow> length t \<le> length s"
proof (induction n arbitrary: s bs t)
  case (Suc n)
  then show ?case using pct_shorter [of s] by (fastforce split: option.splits if_splits)
qed simp

definition utf8_char :: "nat \<Rightarrow> nat list \<Rightarrow> string" where
  "utf8_char b bs = (case bs of [c] \<Rightarrow> if b < 196 then [char_of (64 * (b - 192) + (c - 128))] else map char_of (b # bs)
     | _ \<Rightarrow> map char_of (b # bs))"

text \<open>One character of the text, escaped or not.\<close>

definition uri_char :: "string \<Rightarrow> (string \<times> string) option" where
  "uri_char s = (case s of [] \<Rightarrow> None | c # r \<Rightarrow> if c \<noteq> CHR 0x25 then Some ([c], r)
     else (case pct s of None \<Rightarrow> None | Some (b, r) \<Rightarrow> (case utf8_more b of None \<Rightarrow> None
       | Some n \<Rightarrow> (case cont_bytes n r of None \<Rightarrow> None
         | Some (bs, t) \<Rightarrow> if utf8_range b bs then Some (utf8_char b bs, t) else None))))"

lemma uri_char_shorter: "uri_char s = Some (x, t) \<Longrightarrow> length t < length s"
  by (auto simp: uri_char_def split: list.splits if_splits option.splits dest!: pct_shorter cont_shorter)

function decode_uri :: "string \<Rightarrow> exn + string" where
  "decode_uri s = (if s = [] then Inr [] else case uri_char s of None \<Rightarrow> Inl URIError
     | Some (x, t) \<Rightarrow> map_sum id ((@) x) (decode_uri t))"
  by pat_completeness auto
termination by (relation "measure length") (auto dest: uri_char_shorter)

declare decode_uri.simps [simp del]

text \<open>
  The value of a parameter of the address; \<open>None\<close> is the \<open>false\<close> for one that is absent without
  a default. A parameter without a value is \<open>true\<close>; all its uses treat it like the word.
\<close>

fun find_param :: "string \<Rightarrow> string list \<Rightarrow> string option \<Rightarrow> exn + string option" where
  "find_param n [] def = Inr def"
| "find_param n (v # vs) def =
     (case split_on CHR ''='' v of
        [] \<Rightarrow> find_param n vs def
      | name # rest \<Rightarrow> if name = n then (case rest of [] \<Rightarrow> Inr (Some ''true'') | x # _ \<Rightarrow> map_sum id Some (decode_uri x))
                       else find_param n vs def)"

definition getUrlParameter :: "string \<Rightarrow> string \<Rightarrow> string option \<Rightarrow> exn + string option" where
  "getUrlParameter search sParam defval = find_param sParam (split_on CHR ''&'' (tl search)) defval"

text \<open>What the page asks for when it starts.\<close>

datatype front_req = Front string string string bool | Shared string

definition param_or :: "string \<Rightarrow> string \<Rightarrow> string \<Rightarrow> exn + string" where
  "param_or search n def = map_sum id (\<lambda>v. case v of None \<Rightarrow> def | Some t \<Rightarrow> t) (getUrlParameter search n (Some def))"

definition start_query :: "string \<Rightarrow> exn + front_req" where
  "start_query search =
     (case getUrlParameter search ''shared'' None of
        Inl e \<Rightarrow> Inl e
      | Inr (Some k) \<Rightarrow> Inr (Shared k)
      | Inr None \<Rightarrow> (case param_or search ''site'' ''l3'' of Inl e \<Rightarrow> Inl e
          | Inr st \<Rightarrow> (case param_or search ''proj'' ''all'' of Inl e \<Rightarrow> Inl e
              | Inr pj \<Rightarrow> (case param_or search ''file_key'' [] of Inl e \<Rightarrow> Inl e
                  | Inr fk \<Rightarrow> (case param_or search ''load_default'' [] of Inl e \<Rightarrow> Inl e
                      | Inr ld \<Rightarrow> Inr (Front st pj fk (ld \<noteq> [] \<and> fk = [])))))))"

text \<open>The addresses the page goes to; \<open>dbg\<close> is \<open>DEBUG\<close>.\<close>

definition debug_part :: "bool \<Rightarrow> string" where
  "debug_part dbg = (if dbg then ''&debug'' else [])"

definition front_url :: "string \<Rightarrow> string \<Rightarrow> string \<Rightarrow> bool \<Rightarrow> string" where
  "front_url st pj fk dbg = ''?action=get_front&site='' @ st @ ''&proj='' @ pj @ ''&file_key='' @ fk @ debug_part dbg"

definition main_url :: "string \<Rightarrow> string \<Rightarrow> bool \<Rightarrow> string" where
  "main_url st pj dbg = ''?action=get_front&site='' @ st @ ''&proj='' @ pj @ debug_part dbg"

definition default_url :: "string \<Rightarrow> string \<Rightarrow> bool \<Rightarrow> string" where
  "default_url st pj dbg = ''?action=get_front&site='' @ st @ ''&proj='' @ pj @ ''&file_key=&load_default=1'' @ debug_part dbg"

definition shared_url :: "string \<Rightarrow> string" where
  "shared_url k = ''?shared='' @ k"

text \<open>
  The button of \<open>selectLocation\<close>: one site, and one project or several that are not \<open>all\<close>; \<open>Inl\<close> names
  the box that flashes red.
\<close>

definition location_go :: "string list \<Rightarrow> string list \<Rightarrow> bool \<Rightarrow> string + string" where
  "location_go sites projs dbg =
     (if length sites \<noteq> 1 then Inl ''selected_site''
      else if projs = [] then Inl ''selected_proj''
      else if length projs > 1 \<and> (''all'' \<in> set projs \<or> ''none'' \<in> set projs) then Inl ''selected_proj''
      else Inr (front_url (sites ! 0) (join '','' projs) [] dbg))"

section \<open>The page and its window of layouts\<close>

text \<open>
  A layout as the list of the page has it; the page with the window: \<open>fp_rows\<close> are the rows of
  the open window with the text of their input (\<open>None\<close> is the main layout, which has none) and
  \<open>file_saved\<close> is the time of the last save, 0 before any.
\<close>

record file_info =
  fi_name :: "string option"
  fi_time :: "int option"
  fi_shared :: "string option"

definition file_info0 :: file_info where
  "file_info0 = \<lparr>fi_name = None, fi_time = None, fi_shared = None\<rparr>"

record files_page =
  fp_app :: app
  proj :: string
  fp_shared :: "string option"
  files_list :: "(string, file_info) obj"
  fp_rows :: "(string, string option) obj"
  has_default_map :: bool
  is_default_owner :: bool
  file_saved :: int

datatype file_btn = BLoad | BCopyLink | BUnshare | BShare | BSaveInto | BErase | BTrash | BDefault

record file_row =
  fr_key :: string
  fr_current :: bool
  fr_time :: "int option"
  fr_name :: "string option"
  fr_buttons :: "file_btn list"

definition row_buttons :: "files_page \<Rightarrow> string \<Rightarrow> file_info \<Rightarrow> file_btn list" where
  "row_buttons p fk fi =
     (let s = fp_app p in
        [BLoad] @ (if fi_shared fi \<noteq> None then [BCopyLink, BUnshare] else [BShare]) @
        (if fk \<noteq> file_key s \<or> (fk = [] \<and> file_key s = [] \<and> default_map s) then [BSaveInto] else []) @
        [BErase, BTrash] @ (if fk = [] \<and> \<not> is_default_owner p \<and> \<not> default_map s then [BDefault] else []))"

definition get_file_row :: "files_page \<Rightarrow> string \<Rightarrow> exn + file_row" where
  "get_file_row p fk = (case oget (files_list p) fk of None \<Rightarrow> Inl TypeError
     | Some fi \<Rightarrow> Inr \<lparr>fr_key = fk, fr_current = (fk = file_key (fp_app p)),
         fr_time = (if fk = file_key (fp_app p) \<and> file_saved p \<noteq> 0 then Some (file_saved p) else fi_time fi),
         fr_name = (if fk = [] then None else Some (case fi_name fi of None \<Rightarrow> [] | Some n \<Rightarrow> n)),
         fr_buttons = row_buttons p fk fi\<rparr>)"

text \<open>A row that is built again replaces the old one in its place, with the stored name in its input.\<close>

definition put_row :: "string \<Rightarrow> files_page \<Rightarrow> exn + files_page" where
  "put_row fk p = map_sum id (\<lambda>r. p\<lparr>fp_rows := oset fk (fr_name r) (fp_rows p)\<rparr>) (get_file_row p fk)"

text \<open>Whose default layout the top of the window tells of: one's own, or another's to load.\<close>

datatype default_note = OwnDefault | LoadDefault | NoDefault

definition default_note_of :: "files_page \<Rightarrow> default_note" where
  "default_note_of p = (if is_default_owner p then OwnDefault
     else if has_default_map p \<and> \<not> default_map (fp_app p) then LoadDefault else NoDefault)"

definition showFileWindow :: "files_page \<Rightarrow> exn + files_page" where
  "showFileWindow p = map_sum id (\<lambda>rs. p\<lparr>fp_rows := map (\<lambda>r. (fr_key r, fr_name r)) rs\<rparr>)
     (gather (\<lambda>fk. map_sum id (\<lambda>r. [r]) (get_file_row p fk)) (sort (okeys (files_list p))))"

section \<open>The queries of the window\<close>

datatype file_query =
    NewMap string "map_data option"
  | RenameMap string string
  | ShareMap string
  | UnshareMap string
  | DelMap string
  | SetDefault
  | StoreMap query

datatype file_answer = AOk | AKey string | AFile string file_info

text \<open>
  A new layout, a copy of the current one or an empty one, under the name in the foot of the
  window: \<open>Inl\<close> is what flashes red, the input or a row. The row of the main layout has no input,
  whose value then reads as the word undefined.
\<close>

definition row_text :: "string option \<Rightarrow> string" where
  "row_text v = toLower (trim (undef_str v))"

definition same_name_row :: "(string, string option) obj \<Rightarrow> string \<Rightarrow> string option" where
  "same_name_row rows n = map_option fst (find (\<lambda>(fk, v). row_text v = toLower n) rows)"

definition new_file :: "string \<Rightarrow> bool \<Rightarrow> files_page \<Rightarrow> string option + file_query" where
  "new_file val copy p =
     (let new_name = trim val in
        if new_name = [] then Inl None
        else (case same_name_row (fp_rows p) new_name of
            Some fk \<Rightarrow> Inl (Some fk)
          | None \<Rightarrow> Inr (NewMap new_name (if copy then Some (map_data (fp_app p)) else None))))"

definition new_file_done :: "string \<Rightarrow> file_info \<Rightarrow> files_page \<Rightarrow> exn + files_page" where
  "new_file_done fk fi p = put_row fk (p\<lparr>files_list := oset fk fi (files_list p)\<rparr>)"

text \<open>Half a second after the last key in the input of a row.\<close>

definition row_input :: "string \<Rightarrow> string \<Rightarrow> files_page \<Rightarrow> files_page" where
  "row_input fk val p = p\<lparr>fp_rows := oset fk (Some val) (fp_rows p)\<rparr>"

definition rename_file :: "string \<Rightarrow> string \<Rightarrow> file_query option" where
  "rename_file fk val = (let new_name = trim val in if new_name = [] then None else Some (RenameMap fk new_name))"

text \<open>Writing a field of an entry that is not in the list throws.\<close>

definition set_info :: "string \<Rightarrow> (file_info \<Rightarrow> file_info) \<Rightarrow> files_page \<Rightarrow> exn + files_page" where
  "set_info fk f p = (case oget (files_list p) fk of None \<Rightarrow> Inl TypeError
     | Some fi \<Rightarrow> Inr (p\<lparr>files_list := oset fk (f fi) (files_list p)\<rparr>))"

definition rename_done :: "string \<Rightarrow> string \<Rightarrow> files_page \<Rightarrow> exn + files_page" where
  "rename_done fk n p = set_info fk (\<lambda>fi. fi\<lparr>fi_name := Some n\<rparr>) p"

definition then_row :: "string \<Rightarrow> exn + files_page \<Rightarrow> exn + files_page" where
  "then_row fk r = (case r of Inl e \<Rightarrow> Inl e | Inr p \<Rightarrow> put_row fk p)"

definition share_done :: "string \<Rightarrow> string \<Rightarrow> files_page \<Rightarrow> exn + files_page" where
  "share_done fk k p = then_row fk (set_info fk (\<lambda>fi. fi\<lparr>fi_shared := Some k\<rparr>) p)"

definition unshare_done :: "string \<Rightarrow> files_page \<Rightarrow> exn + files_page" where
  "unshare_done fk p = then_row fk (set_info fk (\<lambda>fi. fi\<lparr>fi_shared := None\<rparr>) p)"

text \<open>The text copied to the clipboard; \<open>here\<close> is the address of the page without parameters.\<close>

definition copied_link :: "string \<Rightarrow> files_page \<Rightarrow> string \<Rightarrow> string" where
  "copied_link here p fk = here @ shared_url (undef_str (case oget (files_list p) fk of None \<Rightarrow> None | Some fi \<Rightarrow> fi_shared fi))"

text \<open>What the questions before clearing and deleting a layout warn of.\<close>

datatype file_warning = WCurrent | WShared

definition is_shared :: "files_page \<Rightarrow> string \<Rightarrow> bool" where
  "is_shared p fk = (case oget (files_list p) fk of None \<Rightarrow> False | Some fi \<Rightarrow> fi_shared fi \<noteq> None)"

definition erase_warnings :: "files_page \<Rightarrow> string \<Rightarrow> file_warning list" where
  "erase_warnings p fk = (if is_shared p fk then [WShared] else [])"

definition trash_warnings :: "files_page \<Rightarrow> string \<Rightarrow> file_warning list" where
  "trash_warnings p fk = (if fk = file_key (fp_app p) then [WCurrent] else []) @ erase_warnings p fk"

text \<open>
  Saving into another layout and clearing one go through \<open>save_map\<close>, which sends nothing while
  the layout of another user is shown by a link; a save of the layout on the page (\<open>None\<close>) sets the time.
\<close>

definition save_into :: "string \<Rightarrow> files_page \<Rightarrow> files_page" where
  "save_into fk p = p\<lparr>fp_app := save_map None None (Some fk) None (fp_app p)\<rparr>"

definition erase_file :: "string \<Rightarrow> files_page \<Rightarrow> files_page" where
  "erase_file fk p = p\<lparr>fp_app := save_map None None (Some fk) (Some None) (fp_app p)\<rparr>"

definition saved_done :: "int \<Rightarrow> string option \<Rightarrow> files_page \<Rightarrow> files_page" where
  "saved_done now fk p =
     (let p = p\<lparr>fp_app := save_done fk (fp_app p)\<rparr> in if fk = None then p\<lparr>file_saved := now\<rparr> else p)"

text \<open>After deleting: \<open>Inl\<close> is the address the page goes to when the current layout is gone.\<close>

definition trash_done :: "bool \<Rightarrow> string \<Rightarrow> files_page \<Rightarrow> string + (exn + files_page)" where
  "trash_done dbg fk p =
     (if fk = file_key (fp_app p) then Inl (main_url (site (fp_app p)) (proj p) dbg)
      else Inr (if fk \<noteq> [] then Inr (p\<lparr>fp_rows := odel fk (fp_rows p), files_list := odel fk (files_list p)\<rparr>)
                else put_row [] (p\<lparr>files_list := oset [] file_info0 (files_list p)\<rparr>)))"

definition default_done :: "files_page \<Rightarrow> exn + files_page" where
  "default_done p = (if fp_shared p = None \<and> file_key (fp_app p) = [] then showFileWindow (p\<lparr>is_default_owner := True\<rparr>) else Inr p)"

section \<open>Opening the page\<close>

text \<open>The part of the answer to \<open>get_front\<close> that is about layouts; the rest of it is drawn elsewhere.\<close>

record front_part =
  ft_map :: map_data
  ft_site :: "string option"
  ft_proj :: "string option"
  ft_files :: "(string, file_info) obj"
  ft_default_map :: bool
  ft_is_owner :: bool
  ft_has_default :: bool

text \<open>
  The page after the answer: a layout opened by a link is not saved and not edited. \<open>a\<close> is the
  page with the network drawn. The key of a layout that is not in the list throws when its name is read.
\<close>

definition shown_title :: "front_part \<Rightarrow> string \<Rightarrow> exn + string option" where
  "shown_title ft fk =
     (if fk = [] then Inr (if ft_default_map ft then Some ''default'' else if ft_is_owner ft then Some ''own default'' else None)
      else (case oget (ft_files ft) fk of None \<Rightarrow> Inl TypeError | Some fi \<Rightarrow> Inr (fi_name fi)))"

definition open_page :: "app \<Rightarrow> front_req \<Rightarrow> front_part \<Rightarrow> exn + files_page" where
  "open_page a rq ft =
     (let a = a\<lparr>map_data := ft_map ft, default_map := ft_default_map ft, sent := [], g_unsaved := False\<rparr>;
          page = (\<lambda>a pj sh. \<lparr>fp_app = a, proj = pj, fp_shared = sh, files_list = ft_files ft, fp_rows = [],
             has_default_map = ft_has_default ft, is_default_owner = ft_is_owner ft, file_saved = 0\<rparr>)
      in case rq of
          Shared k \<Rightarrow> Inr (page (a\<lparr>site := undef_str (ft_site ft), enable_save := False, movementLock := True,
             file_key := ''I n v @ l ! d''\<rparr>) (undef_str (ft_proj ft)) (Some k))
        | Front st pj fk ld \<Rightarrow> map_sum id (\<lambda>_. page (a\<lparr>site := st, enable_save := True, file_key := fk\<rparr>) pj None) (shown_title ft fk))"

section \<open>The server\<close>

text \<open>
  What the server keeps of one location (\<open>sv_site\<close>, \<open>sv_proj\<close>): the entries of every user, the links (the key of a link
  leads to a layout of a user) and the default layout with its owner. An entry is shown once it has data.
\<close>

record entry =
  en_data :: "map_data option"
  en_name :: "string option"
  en_time :: "int option"
  en_shared :: "string option"

definition entry0 :: entry where
  "entry0 = \<lparr>en_data = None, en_name = None, en_time = None, en_shared = None\<rparr>"

record server =
  sv_site :: string
  sv_proj :: string
  entries :: "string \<Rightarrow> (string, entry) obj"
  links :: "(string, string \<times> string) obj"
  default_owner :: "string option"
  default_data :: map_data

definition entry_of :: "server \<Rightarrow> string \<Rightarrow> string \<Rightarrow> entry" where
  "entry_of sv u fk = (case oget (entries sv u) fk of None \<Rightarrow> entry0 | Some e \<Rightarrow> e)"

definition set_entry :: "string \<Rightarrow> string \<Rightarrow> (entry \<Rightarrow> entry) \<Rightarrow> server \<Rightarrow> server" where
  "set_entry u fk f sv = sv\<lparr>entries := (entries sv)(u := oset fk (f (entry_of sv u fk)) (entries sv u))\<rparr>"

definition entry_info :: "string \<Rightarrow> entry \<Rightarrow> file_info" where
  "entry_info fk e = \<lparr>fi_name = (if fk = [] then Some [] else en_name e), fi_time = en_time e, fi_shared = en_shared e\<rparr>"

definition sv_files :: "server \<Rightarrow> string \<Rightarrow> (string, file_info) obj" where
  "sv_files sv u =
     (let fs = map (\<lambda>(fk, e). (fk, entry_info fk e)) (filter (\<lambda>(fk, e). en_data e \<noteq> None) (entries sv u))
      in if has fs [] then fs else oset [] (file_info0\<lparr>fi_name := Some []\<rparr>) fs)"

text \<open>The keys the server draws; the main layout has the empty key.\<close>

definition key10 :: "string \<Rightarrow> bool" where
  "key10 k \<longleftrightarrow> length k = 10 \<and> list_all (\<lambda>c. is_word c \<and> c \<noteq> CHR ''_'') k"

definition file_key_ok :: "string \<Rightarrow> bool" where
  "file_key_ok fk \<longleftrightarrow> fk = [] \<or> key10 fk"

text \<open>
  \<open>get_front\<close>: the main layout of a user who has none is the default one; \<open>None\<close> is an error message.
\<close>

definition sv_front :: "server \<Rightarrow> string \<Rightarrow> front_req \<Rightarrow> front_part option" where
  "sv_front sv u rq =
     (let answer = (\<lambda>m dm st pj. Some \<lparr>ft_map = (case m of None \<Rightarrow> map_data0 | Some m \<Rightarrow> m), ft_site = st, ft_proj = pj,
            ft_files = sv_files sv u, ft_default_map = dm, ft_is_owner = (default_owner sv = Some u),
            ft_has_default = (default_owner sv \<noteq> None \<and> default_owner sv \<noteq> Some u)\<rparr>)
      in case rq of
          Shared k \<Rightarrow> if \<not> key10 k then None else (case oget (links sv) k of None \<Rightarrow> None
            | Some (owner, fk) \<Rightarrow> answer (en_data (entry_of sv owner fk)) False (Some (sv_site sv)) (Some (sv_proj sv)))
        | Front st pj fk ld \<Rightarrow>
            if st \<noteq> sv_site sv \<or> pj \<noteq> sv_proj sv \<or> \<not> file_key_ok fk then None
            else (let m = en_data (entry_of sv u fk)
              in if fk = [] \<and> (m = None \<or> ld)
                 then (if default_owner sv \<noteq> None then answer (Some (default_data sv)) True None None
                       else if ld then None else answer None False None None)
                 else answer m False None None))"

text \<open>
  The queries about layouts of user \<open>u\<close> at time \<open>now\<close>; \<open>k\<close> is the key the server draws, one that
  is not in use. \<open>None\<close> is an error, after which nothing has changed. The owner of the default
  layout, or whoever saves when there is none, stores it together with the own main layout.
\<close>

fun query_file :: "query \<Rightarrow> string" where
  "query_file (SaveKeyId key i fk v) = fk"
| "query_file (DelKeyId key i fk) = fk"
| "query_file (SaveKey key fk v) = fk"
| "query_file (DelKey key fk) = fk"
| "query_file (SaveMap fk v) = fk"

fun query_json_ok :: "query \<Rightarrow> bool" where
  "query_json_ok (SaveKeyId key i fk (SColor c)) = False"
| "query_json_ok q = True"

definition sv_default :: "string \<Rightarrow> string \<Rightarrow> map_data \<Rightarrow> server \<Rightarrow> server" where
  "sv_default u fk m sv =
     (if fk = [] \<and> (default_owner sv = None \<or> default_owner sv = Some u) then sv\<lparr>default_owner := Some u, default_data := m\<rparr> else sv)"

definition sv_store :: "string \<Rightarrow> int \<Rightarrow> query \<Rightarrow> server \<Rightarrow> server" where
  "sv_store u now q sv =
     (let fk = query_file q;
          old = (case en_data (entry_of sv u fk) of None \<Rightarrow> map_data0 | Some m \<Rightarrow> m);
          m = store_query q (\<lambda>_. old) fk
      in sv_default u fk m (set_entry u fk (\<lambda>e. e\<lparr>en_data := Some m, en_time := Some now\<rparr>) sv))"

definition sv_unlink :: "string \<Rightarrow> string \<Rightarrow> server \<Rightarrow> server" where
  "sv_unlink u fk sv = (case en_shared (entry_of sv u fk) of None \<Rightarrow> sv | Some k \<Rightarrow> sv\<lparr>links := odel k (links sv)\<rparr>)"

fun sv_query :: "string \<Rightarrow> string \<Rightarrow> int \<Rightarrow> file_query \<Rightarrow> server \<Rightarrow> (file_answer \<times> server) option" where
  "sv_query u k now (NewMap n m) sv =
     (let m = (case m of None \<Rightarrow> map_data0 | Some m \<Rightarrow> m)
      in Some (AFile k \<lparr>fi_name = Some n, fi_time = Some now, fi_shared = None\<rparr>,
           set_entry u k (\<lambda>e. e\<lparr>en_data := Some m, en_time := Some now, en_name := Some n\<rparr>) sv))"
| "sv_query u k now (RenameMap fk n) sv =
     (if \<not> file_key_ok fk \<or> \<not> list_ex is_word n then None
      else Some (AOk, set_entry u fk (\<lambda>e. e\<lparr>en_name := Some n\<rparr>) sv))"
| "sv_query u k now (ShareMap fk) sv =
     (if \<not> file_key_ok fk then None
      else Some (AKey k, set_entry u fk (\<lambda>e. e\<lparr>en_shared := Some k\<rparr>) (sv\<lparr>links := oset k (u, fk) (links sv)\<rparr>)))"
| "sv_query u k now (UnshareMap fk) sv =
     (if \<not> file_key_ok fk \<or> en_shared (entry_of sv u fk) = None then None
      else Some (AOk, set_entry u fk (\<lambda>e. e\<lparr>en_shared := None\<rparr>) (sv_unlink u fk sv)))"
| "sv_query u k now (DelMap fk) sv =
     (if \<not> file_key_ok fk then None
      else (let sv' = sv_unlink u fk sv;
                sv' = sv'\<lparr>entries := (entries sv')(u := odel fk (entries sv' u))\<rparr>
            in Some (AOk, if fk = [] \<and> default_owner sv = Some u then sv'\<lparr>default_owner := None\<rparr> else sv')))"
| "sv_query u k now SetDefault sv =
     (case en_data (entry_of sv u []) of None \<Rightarrow> None
      | Some m \<Rightarrow> Some (AOk, sv\<lparr>default_owner := Some u, default_data := m\<rparr>))"
| "sv_query u k now (StoreMap q) sv =
     (if \<not> file_key_ok (query_file q) \<or> \<not> query_json_ok q then None else Some (AOk, sv_store u now q sv))"

definition drawn_key :: "string \<Rightarrow> string \<Rightarrow> file_query \<Rightarrow> server \<Rightarrow> bool" where
  "drawn_key u k q sv \<longleftrightarrow> key10 k \<and> (case q of NewMap n m \<Rightarrow> en_data (entry_of sv u k) = None
     | ShareMap fk \<Rightarrow> oget (links sv) k = None | _ \<Rightarrow> True)"

end
