(* ===== verification/FileRuns.thy ===== *)
theory FileRuns
  imports Files
begin

text \<open>
  Runs of the window of layouts against the server (\<open>file_step\<close>), with other users at work at
  the same time: the list on the page stays the one of the server, links open what they were made
  for and nothing once they are closed; and where the code loses a layout.
\<close>

section \<open>The steps\<close>

text \<open>
  \<open>u\<close> is the user of the page. A query is answered before the next action. A page is changed
  (\<open>s'\<close>) only in what it shows of its layout before \<open>save_map\<close> sends the change.
\<close>

definition same_file :: "app \<Rightarrow> app \<Rightarrow> bool" where
  "same_file s s' \<longleftrightarrow> file_key s' = file_key s \<and> enable_save s' = enable_save s \<and> default_map s' = default_map s \<and> site s' = site s"

inductive file_step :: "string \<Rightarrow> server \<times> files_page \<Rightarrow> server \<times> files_page \<Rightarrow> bool" for u where
  fs_window: "showFileWindow p = Inr p' \<Longrightarrow> file_step u (sv, p) (sv, p')"
| fs_type: "fk \<noteq> [] \<Longrightarrow> has (fp_rows p) fk \<Longrightarrow> file_step u (sv, p) (sv, row_input fk val p)"
| fs_rename: "oget (fp_rows p) fk = Some (Some val) \<Longrightarrow> rename_file fk val = Some (RenameMap fk n) \<Longrightarrow>
    fk \<noteq> [] \<Longrightarrow> has (files_list p) fk \<Longrightarrow>
    sv_query u k now (RenameMap fk n) sv = Some (ans, sv') \<Longrightarrow> rename_done fk n p = Inr p' \<Longrightarrow> file_step u (sv, p) (sv', p')"
| fs_new: "new_file val copy p = Inr q \<Longrightarrow> drawn_key u k q sv \<Longrightarrow> sv_query u k now q sv = Some (AFile fk fi, sv') \<Longrightarrow>
    new_file_done fk fi p = Inr p' \<Longrightarrow> file_step u (sv, p) (sv', p')"
| fs_share: "has (files_list p) fk \<Longrightarrow> \<not> is_shared p fk \<Longrightarrow> drawn_key u k (ShareMap fk) sv \<Longrightarrow>
    sv_query u k now (ShareMap fk) sv = Some (AKey k', sv') \<Longrightarrow> share_done fk k' p = Inr p' \<Longrightarrow> file_step u (sv, p) (sv', p')"
| fs_unshare: "is_shared p fk \<Longrightarrow> sv_query u k now (UnshareMap fk) sv = Some (ans, sv') \<Longrightarrow>
    unshare_done fk p = Inr p' \<Longrightarrow> file_step u (sv, p) (sv', p')"
| fs_edit: "same_file (fp_app p) s' \<Longrightarrow> sent (save_map key i None None s') = sent s' @ [q] \<Longrightarrow>
    sv_query u k now (StoreMap q) sv = Some (ans, sv') \<Longrightarrow>
    file_step u (sv, p) (sv', saved_done now None (p\<lparr>fp_app := save_map key i None None s'\<rparr>))"
| fs_into: "has (files_list p) fk \<Longrightarrow> sent (fp_app (save_into fk p)) = sent (fp_app p) @ [q] \<Longrightarrow>
    sv_query u k now (StoreMap q) sv = Some (ans, sv') \<Longrightarrow> file_step u (sv, p) (sv', saved_done now (Some fk) (save_into fk p))"
| fs_erase: "has (files_list p) fk \<Longrightarrow> sent (fp_app (erase_file fk p)) = sent (fp_app p) @ [q] \<Longrightarrow>
    sv_query u k now (StoreMap q) sv = Some (ans, sv') \<Longrightarrow> file_step u (sv, p) (sv', saved_done now (Some fk) (erase_file fk p))"
| fs_trash: "has (files_list p) fk \<Longrightarrow> sv_query u k now (DelMap fk) sv = Some (ans, sv') \<Longrightarrow>
    trash_done dbg fk p = Inr (Inr p') \<Longrightarrow> file_step u (sv, p) (sv', p')"
| fs_trash_current: "has (files_list p) fk \<Longrightarrow> sv_query u k now (DelMap fk) sv = Some (ans, sv') \<Longrightarrow>
    trash_done dbg fk p = Inl url \<Longrightarrow> start_query url = Inr rq \<Longrightarrow> sv_front sv' u rq = Some ft \<Longrightarrow> open_page a rq ft = Inr p' \<Longrightarrow>
    file_step u (sv, p) (sv', p')"
| fs_default: "sv_query u k now SetDefault sv = Some (ans, sv') \<Longrightarrow> default_done p = Inr p' \<Longrightarrow> file_step u (sv, p) (sv', p')"
| fs_open: "start_query url = Inr rq \<Longrightarrow> sv_front sv u rq = Some ft \<Longrightarrow> open_page a rq ft = Inr p' \<Longrightarrow> file_step u (sv, p) (sv, p')"
| fs_other: "v \<noteq> u \<Longrightarrow> drawn_key v k q sv \<Longrightarrow> sv_query v k now q sv = Some (ans, sv') \<Longrightarrow> file_step u (sv, p) (sv', p)"

section \<open>What the server keeps\<close>

text \<open>
  Every link that is recorded with a layout leads to it; of the layouts of \<open>u\<close> other than the main
  one, those with data have a name, the others neither name nor link, and the links to them are recorded.
\<close>

definition links_ok :: "server \<Rightarrow> bool" where
  "links_ok sv \<longleftrightarrow> (\<forall>v fk k. en_shared (entry_of sv v fk) = Some k \<longrightarrow> oget (links sv) k = Some (v, fk))"

definition files_ok :: "string \<Rightarrow> server \<Rightarrow> bool" where
  "files_ok u sv \<longleftrightarrow> owf (entries sv u) \<and>
     (\<forall>fk. has (entries sv u) fk \<longrightarrow> file_key_ok fk) \<and>
     (\<forall>fk. fk \<noteq> [] \<longrightarrow> (en_data (entry_of sv u fk) \<noteq> None \<longleftrightarrow> en_name (entry_of sv u fk) \<noteq> None)) \<and>
     (\<forall>fk. fk \<noteq> [] \<longrightarrow> en_shared (entry_of sv u fk) \<noteq> None \<longrightarrow> en_data (entry_of sv u fk) \<noteq> None) \<and>
     (\<forall>fk k. fk \<noteq> [] \<longrightarrow> oget (links sv) k = Some (u, fk) \<longrightarrow> en_shared (entry_of sv u fk) = Some k)"

text \<open>The list on the page: the layouts with data and the main one, with their names and links.\<close>

definition lists :: "string \<Rightarrow> server \<Rightarrow> (string, file_info) obj \<Rightarrow> bool" where
  "lists u sv fl \<longleftrightarrow> owf fl \<and> (\<forall>fk. has fl fk \<longleftrightarrow> fk = [] \<or> en_data (entry_of sv u fk) \<noteq> None) \<and>
     (\<forall>fk fi. oget fl fk = Some fi \<longrightarrow> fk \<noteq> [] \<longrightarrow> fi_name fi = en_name (entry_of sv u fk) \<and> fi_shared fi = en_shared (entry_of sv u fk)) \<and>
     (\<forall>fi k. oget fl [] = Some fi \<longrightarrow> fi_shared fi = Some k \<longrightarrow> en_shared (entry_of sv u []) = Some k)"

definition agrees :: "string \<Rightarrow> server \<times> files_page \<Rightarrow> bool" where
  "agrees u = (\<lambda>(sv, p). links_ok sv \<and> files_ok u sv \<and> lists u sv (files_list p) \<and>
     (enable_save (fp_app p) \<longrightarrow> has (files_list p) (file_key (fp_app p))))"

lemma entry_set [simp]:
  "entry_of (set_entry u fk f sv) v fk' = (if v = u \<and> fk' = fk then f (entry_of sv u fk) else entry_of sv v fk')"
  by (auto simp: entry_of_def set_entry_def)

lemma entry_fields [simp]:
  "entry_of (sv\<lparr>links := l\<rparr>) v fk = entry_of sv v fk" "entry_of (sv\<lparr>default_owner := d\<rparr>) v fk = entry_of sv v fk"
  "entry_of (sv\<lparr>default_owner := d, default_data := m\<rparr>) v fk = entry_of sv v fk"
  "entry_of (sv_default u fk' m sv) v fk = entry_of sv v fk" "entry_of (sv_unlink u fk' sv) v fk = entry_of sv v fk"
  by (auto simp: entry_of_def sv_default_def sv_unlink_def split: option.split)

lemma links_fields [simp]:
  "links (set_entry u fk f sv) = links sv" "links (sv_default u fk m sv) = links sv"
  by (simp_all add: set_entry_def sv_default_def)

lemma entries_fields [simp]:
  "entries (sv_default u fk m sv) = entries sv" "entries (sv_unlink u fk sv) = entries sv"
  "entries (set_entry u fk f sv) v = (if v = u then oset fk (f (entry_of sv u fk)) (entries sv u) else entries sv v)"
  by (auto simp: sv_default_def sv_unlink_def set_entry_def split: option.split)

lemma links_unlink: "oget (links (sv_unlink u fk sv)) k = (if en_shared (entry_of sv u fk) = Some k then None else oget (links sv) k)"
  by (simp add: sv_unlink_def split: option.split)

lemma key10_nonempty: "key10 k \<Longrightarrow> k \<noteq> []"
  by (auto simp: key10_def)

text \<open>What a query does to the entries and the links, in one place.\<close>

definition query_fit :: "string \<Rightarrow> string \<Rightarrow> file_query \<Rightarrow> server \<Rightarrow> bool" where
  "query_fit u k q sv \<longleftrightarrow> (case q of NewMap n m \<Rightarrow> drawn_key u k q sv
     | ShareMap fk \<Rightarrow> drawn_key u k q sv \<and> (fk = [] \<or> en_data (entry_of sv u fk) \<noteq> None \<and> en_shared (entry_of sv u fk) = None)
     | StoreMap q \<Rightarrow> query_file q = [] \<or> en_data (entry_of sv u (query_file q)) \<noteq> None
     | RenameMap fk n \<Rightarrow> fk = [] \<or> en_data (entry_of sv u fk) \<noteq> None
     | _ \<Rightarrow> True)"

lemma entry_del: "entry_of (sv\<lparr>entries := (entries sv)(u := odel fk (entries sv u))\<rparr>) v fk' =
    (if v = u \<and> fk' = fk then entry0 else entry_of sv v fk')"
  by (simp add: entry_of_def)

lemma entry_deleted:
  assumes "sv_query u k now (DelMap fk) sv = Some (ans, sv')"
  shows "entry_of sv' v fk' = (if v = u \<and> fk' = fk then entry0 else entry_of sv v fk')"
    "oget (links sv') k' = (if en_shared (entry_of sv u fk) = Some k' then None else oget (links sv) k')"
    "entries sv' v = (if v = u then odel fk (entries sv u) else entries sv v)"
proof -
  let ?s = "(sv_unlink u fk sv)\<lparr>entries := (entries (sv_unlink u fk sv))(u := odel fk (entries (sv_unlink u fk sv) u))\<rparr>"
  have sv': "sv' = ?s \<or> sv' = ?s\<lparr>default_owner := None\<rparr>" using assms by (simp add: Let_def split: if_splits)
  show "entry_of sv' v fk' = (if v = u \<and> fk' = fk then entry0 else entry_of sv v fk')"
    using sv' entry_del [of "sv_unlink u fk sv" u fk v fk'] by (elim disjE) (simp_all only: entry_fields)
  show "oget (links sv') k' = (if en_shared (entry_of sv u fk) = Some k' then None else oget (links sv) k')"
    using sv' links_unlink [of u fk sv k'] by auto
  show "entries sv' v = (if v = u then odel fk (entries sv u) else entries sv v)" using sv' by auto
qed

lemma entry0_simps [simp]: "en_data entry0 = None" "en_name entry0 = None" "en_shared entry0 = None"
  by (simp_all add: entry0_def)

lemma links_inj:
  assumes "links_ok sv" "en_shared (entry_of sv v fk) = Some k" "en_shared (entry_of sv v' fk') = Some k"
  shows "v = v' \<and> fk = fk'"
proof -
  have "oget (links sv) k = Some (v, fk)" "oget (links sv) k = Some (v', fk')" using assms unfolding links_ok_def by blast+
  then show ?thesis by simp
qed

lemma unlinked_ok:
  assumes ok: "links_ok sv"
    and e: "\<And>a j c. en_shared (entry_of sv' a j) = Some c \<Longrightarrow> en_shared (entry_of sv a j) = Some c \<and> \<not> (a = v \<and> j = fk)"
    and l: "\<And>c. oget (links sv') c = (if en_shared (entry_of sv v fk) = Some c then None else oget (links sv) c)"
  shows "links_ok sv'"
  unfolding links_ok_def
proof (intro allI impI)
  fix a j c
  assume "en_shared (entry_of sv' a j) = Some c"
  from e [OF this] have s: "en_shared (entry_of sv a j) = Some c" "\<not> (a = v \<and> j = fk)" by blast+
  then have "oget (links sv) c = Some (a, j)" using ok unfolding links_ok_def by blast
  then show "oget (links sv') c = Some (a, j)" using links_inj [OF ok s(1), of v fk] s(2) by (auto simp: l)
qed

lemma query_links_ok:
  assumes ok: "links_ok sv" and run: "sv_query v k now q sv = Some (ans, sv')" and dr: "drawn_key v k q sv"
  shows "links_ok sv'"
proof (cases q)
  case (DelMap fk)
  note d = entry_deleted [OF run [unfolded DelMap]]
  show ?thesis by (rule unlinked_ok [OF ok, of sv' v fk]) (auto simp: d split: if_splits)
next
  case (UnshareMap fk)
  with run show ?thesis by (intro unlinked_ok [OF ok, of sv' v fk]) (auto simp: links_unlink split: if_splits)
next
  case (ShareMap fk)
  then show ?thesis using ok run dr by (auto simp: links_ok_def drawn_key_def split: if_splits)
qed (use ok run in \<open>auto simp: links_ok_def Let_def sv_store_def split: if_splits option.splits\<close>)

lemma has_oset [simp]: "has (oset k v ps) j \<longleftrightarrow> j = k \<or> has ps j"
  by (auto simp: has_def)

lemma has_odel [simp]: "has (odel k ps) j \<longleftrightarrow> j \<noteq> k \<and> has ps j"
  by (auto simp: has_def)

lemma other_files_ok:
  assumes ok: "links_ok sv" "files_ok u sv" and run: "sv_query v k now q sv = Some (ans, sv')" and v: "v \<noteq> u" and dr: "drawn_key v k q sv"
  shows "files_ok u sv' \<and> entry_of sv' u = entry_of sv u"
proof -
  have e: "entries sv' u = entries sv u"
    using run v entry_deleted(3) [of v k now _ sv ans sv' u]
    by (cases q) (auto simp: Let_def sv_store_def simp del: sv_query.simps(5) split: if_splits option.splits)
  then have "entry_of sv' u fk = entry_of sv u fk" for fk by (simp add: entry_of_def)
  moreover have "oget (links sv) k' = Some (u, fk)" if "oget (links sv') k' = Some (u, fk)" for k' fk
    using run v that entry_deleted(2) [of v k now _ sv ans sv' k']
    by (cases q) (auto simp: Let_def sv_store_def links_unlink simp del: sv_query.simps(5) split: if_splits option.splits)
  ultimately show ?thesis using ok e by (auto simp: files_ok_def)
qed

lemma own_files_ok:
  assumes ok: "links_ok sv" "files_ok u sv" and run: "sv_query u k now q sv = Some (ans, sv')" and fit: "query_fit u k q sv"
  shows "files_ok u sv'"
proof (cases q)
  case (DelMap fk)
  note d = entry_deleted [OF run [unfolded DelMap]]
  have "en_shared (entry_of sv u fk) = Some c" if "oget (links sv) c = Some (u, fk)" "fk \<noteq> []" for c
    using ok(2) that by (auto simp: files_ok_def)
  then show ?thesis using ok(2) by (auto simp: files_ok_def d split: if_splits)
next
  case (UnshareMap fk)
  then have sv': "sv' = set_entry u fk (\<lambda>e. e\<lparr>en_shared := None\<rparr>) (sv_unlink u fk sv)" using run by (simp split: if_splits)
  have "en_shared (entry_of sv u fk) = Some c" if "oget (links sv) c = Some (u, fk)" "fk \<noteq> []" for c
    using ok(2) that by (auto simp: files_ok_def)
  moreover have "file_key_ok fk" using run UnshareMap by (simp split: if_splits)
  ultimately show ?thesis using ok(2) by (auto simp: files_ok_def sv' links_unlink split: if_splits)
next
  case (NewMap n m)
  then have "key10 k" "en_data (entry_of sv u k) = None" using fit by (simp_all add: query_fit_def drawn_key_def)
  with NewMap ok(2) run show ?thesis using key10_nonempty [of k]
    by (auto simp: files_ok_def file_key_ok_def Let_def split: if_splits)
next
  case (ShareMap fk)
  then show ?thesis using ok(2) run fit by (auto simp: files_ok_def query_fit_def drawn_key_def split: if_splits)
next
  case (StoreMap q')
  then show ?thesis using ok(2) run fit by (auto simp: files_ok_def query_fit_def sv_store_def Let_def split: if_splits)
next
  case (RenameMap fk n)
  then show ?thesis using ok(2) run fit by (auto simp: files_ok_def query_fit_def split: if_splits)
next
  case SetDefault
  then show ?thesis using ok(2) run by (auto simp: files_ok_def split: option.splits)
qed

section \<open>The list of the page\<close>

lemma has_oget: "has ps k \<longleftrightarrow> (\<exists>v. oget ps k = Some v)"
  by (auto simp: has_def)

lemma row_exists: "has (files_list p) fk \<Longrightarrow> \<exists>r. get_file_row p fk = Inr r \<and> fr_key r = fk"
  by (auto simp: get_file_row_def has_oget)

lemma put_row_ok: "put_row fk p = Inr p' \<Longrightarrow> files_list p' = files_list p \<and> fp_app p' = fp_app p"
  by (cases "get_file_row p fk") (auto simp: put_row_def)

lemma show_ok: "showFileWindow p = Inr p' \<Longrightarrow> files_list p' = files_list p \<and> fp_app p' = fp_app p"
  unfolding showFileWindow_def by (cases "gather (\<lambda>fk. map_sum id (\<lambda>r. [r]) (get_file_row p fk)) (sort (okeys (files_list p)))") auto

lemma set_info_ok: "set_info fk f p = Inr p' \<Longrightarrow> fp_app p' = fp_app p \<and>
    (\<exists>fi. oget (files_list p) fk = Some fi \<and> files_list p' = oset fk (f fi) (files_list p))"
  by (auto simp: set_info_def split: option.splits)

lemma then_row_ok: "then_row fk (set_info fk f p) = Inr p' \<Longrightarrow> fp_app p' = fp_app p \<and>
    (\<exists>fi. oget (files_list p) fk = Some fi \<and> files_list p' = oset fk (f fi) (files_list p))"
  using set_info_ok [of fk f p] by (auto simp: then_row_def dest!: put_row_ok split: sum.splits)

lemma in_fst: "(k, v) \<in> set ps \<Longrightarrow> k \<in> fst ` set ps"
  by force

lemma oget_map_filter:
  "owf ps \<Longrightarrow> oget (map (\<lambda>(k, v). (k, f k v)) (filter (\<lambda>(k, v). P v) ps)) k =
    (case oget ps k of None \<Rightarrow> None | Some v \<Rightarrow> if P v then Some (f k v) else None)"
  by (induction ps) (auto simp: owf_def okeys_def map_of_eq_None_iff split: option.splits dest: map_of_SomeD in_fst)

lemma sv_files_lists:
  assumes "files_ok u sv" shows "lists u sv (sv_files sv u)"
proof -
  define fs where "fs = map (\<lambda>(fk, e). (fk, entry_info fk e)) (filter (\<lambda>(fk, e). en_data e \<noteq> None) (entries sv u))"
  have w: "owf (entries sv u)" using assms by (simp add: files_ok_def)
  have fw: "owf fs" using w by (simp add: fs_def owf_def okeys_def case_prod_beta comp_def distinct_map_filter)
  have get: "oget fs fk = (if en_data (entry_of sv u fk) = None then None else Some (entry_info fk (entry_of sv u fk)))" for fk
    unfolding fs_def oget_map_filter [OF w] entry_of_def by (simp split: option.split)
  have "sv_files sv u = (if has fs [] then fs else oset [] (file_info0\<lparr>fi_name := Some []\<rparr>) fs)"
    by (simp add: sv_files_def fs_def Let_def)
  then show ?thesis using fw by (auto simp: lists_def has_def get entry_info_def file_info0_def split: if_splits)
qed

lemma lists_keep:
  assumes "lists u sv fl" "\<And>fk. en_data (entry_of sv' u fk) = en_data (entry_of sv u fk) \<and>
    en_name (entry_of sv' u fk) = en_name (entry_of sv u fk) \<and> en_shared (entry_of sv' u fk) = en_shared (entry_of sv u fk)"
  shows "lists u sv' fl"
  using assms by (simp add: lists_def)

lemma lists_change:
  assumes l: "lists u sv fl" and e: "\<And>j. j \<noteq> fk \<Longrightarrow> entry_of sv' u j = entry_of sv u j"
    and d: "fk = [] \<or> en_data (entry_of sv' u fk) \<noteq> None"
    and n: "fk \<noteq> [] \<Longrightarrow> fi_name fi = en_name (entry_of sv' u fk)"
    and s: "fi_shared fi = en_shared (entry_of sv' u fk) \<or> (fk = [] \<and> fi_shared fi = None)"
  shows "lists u sv' (oset fk fi fl)"
  unfolding lists_def
proof (intro conjI allI impI)
  show "owf (oset fk fi fl)" using l by (simp add: lists_def)
  show "has (oset fk fi fl) j \<longleftrightarrow> j = [] \<or> en_data (entry_of sv' u j) \<noteq> None" for j
    using l d e [of j] by (cases "j = fk") (auto simp: lists_def)
  show "fi_name f = en_name (entry_of sv' u j)" "fi_shared f = en_shared (entry_of sv' u j)"
    if "oget (oset fk fi fl) j = Some f" "j \<noteq> []" for j f
    using that l n s e [of j] by (auto simp: lists_def split: if_splits)
  show "en_shared (entry_of sv' u []) = Some c" if "oget (oset fk fi fl) [] = Some f" "fi_shared f = Some c" for f c
    using that l s e [of "[]"] by (auto simp: lists_def split: if_splits)
qed

lemma listsD:
  assumes "lists u sv fl" "oget fl fk = Some fi"
  shows "fk = [] \<or> en_data (entry_of sv u fk) \<noteq> None" "fk \<noteq> [] \<Longrightarrow> fi_name fi = en_name (entry_of sv u fk)"
    "fi_shared fi = en_shared (entry_of sv u fk) \<or> (fk = [] \<and> fi_shared fi = None)"
proof -
  have "has fl fk" using assms(2) by (simp add: has_def)
  then show "fk = [] \<or> en_data (entry_of sv u fk) \<noteq> None" using assms(1) by (simp add: lists_def)
  show "fk \<noteq> [] \<Longrightarrow> fi_name fi = en_name (entry_of sv u fk)" using assms by (simp add: lists_def)
  show "fi_shared fi = en_shared (entry_of sv u fk) \<or> (fk = [] \<and> fi_shared fi = None)"
    using assms by (cases "fk = []"; cases "fi_shared fi") (auto simp: lists_def)
qed

lemma files_okD:
  assumes "files_ok u sv" "fk \<noteq> []"
  shows "en_data (entry_of sv u fk) \<noteq> None \<longleftrightarrow> en_name (entry_of sv u fk) \<noteq> None"
    "en_shared (entry_of sv u fk) \<noteq> None \<Longrightarrow> en_data (entry_of sv u fk) \<noteq> None"
  using assms unfolding files_ok_def by blast+

lemma front_files: "sv_front sv u rq = Some ft \<Longrightarrow> ft_files ft = sv_files sv u"
  by (auto simp: sv_front_def Let_def split: front_req.splits option.splits if_splits prod.splits)

lemma open_ok:
  assumes ok: "links_ok sv" "files_ok u sv" and f: "sv_front sv u rq = Some ft" and o1: "open_page a rq ft = Inr p"
  shows "agrees u (sv, p)"
proof (cases rq)
  case (Shared k)
  with o1 ok sv_files_lists [OF ok(2)] show ?thesis by (auto simp: agrees_def open_page_def Let_def front_files [OF f])
next
  case (Front st pj fk ld)
  have l: "lists u sv (ft_files ft)" using sv_files_lists [OF ok(2)] by (simp add: front_files [OF f])
  have "has (ft_files ft) fk" if "shown_title ft fk = Inr x" for x
    using that l by (auto simp: shown_title_def lists_def has_def split: if_splits option.splits)
  with Front o1 ok l show ?thesis
    by (cases "shown_title ft fk") (auto simp: agrees_def open_page_def Let_def)
qed

lemma default_ok: "default_done p = Inr p' \<Longrightarrow> files_list p' = files_list p \<and> fp_app p' = fp_app p"
  by (auto simp: default_done_def dest!: show_ok split: if_splits)

lemma agrees_same_page:
  assumes "agrees u (sv', p)" "files_list p' = files_list p" "enable_save (fp_app p') = enable_save (fp_app p)"
    "file_key (fp_app p') = file_key (fp_app p)"
  shows "agrees u (sv', p')"
  using assms by (simp add: agrees_def)

lemma store_agrees:
  assumes ag: "agrees u (sv, p)" and run: "sv_query u k now (StoreMap q) sv = Some (ans, sv')" and fk: "has (files_list p) (query_file q)"
  shows "agrees u (sv', p)"
proof -
  have l: "links_ok sv" "files_ok u sv" "lists u sv (files_list p)" using ag by (simp_all add: agrees_def)
  have sv': "sv' = sv_store u now q sv" using run by (simp split: if_splits)
  have d: "query_file q = [] \<or> en_data (entry_of sv u (query_file q)) \<noteq> None" using l(3) fk by (simp add: lists_def)
  then have "files_ok u sv'" using own_files_ok [OF l(1,2) run] by (simp add: query_fit_def)
  moreover have "links_ok sv'" using l(1) by (auto simp: links_ok_def sv' sv_store_def Let_def)
  moreover have "lists u sv' (files_list p)"
    using l(3) d by (auto simp: lists_def sv' sv_store_def Let_def)
  ultimately show ?thesis using ag by (simp add: agrees_def)
qed

lemma saved_done_fields [simp]:
  "files_list (saved_done now fk p) = files_list p" "enable_save (fp_app (saved_done now fk p)) = enable_save (fp_app p)"
  "file_key (fp_app (saved_done now fk p)) = file_key (fp_app p)"
  by (auto simp: saved_done_def save_done_def Let_def)

lemma sent_query:
  assumes "sent (save_map key i fk md s) = sent s @ [q]"
  shows "query_file q = (case fk of None \<Rightarrow> file_key s | Some f \<Rightarrow> f) \<and> enable_save s"
  using assms by (auto simp: save_map_def save_query_def Let_def split: if_splits option.splits)

lemma into_app:
  "fp_app (save_into fk p) = save_map None None (Some fk) None (fp_app p)"
  "fp_app (erase_file fk p) = save_map None None (Some fk) (Some None) (fp_app p)"
  by (simp_all add: save_into_def erase_file_def)

lemma share_agrees:
  assumes ag: "agrees u (sv, p)" and fk: "has (files_list p) fk" "\<not> is_shared p fk" and dr: "drawn_key u k (ShareMap fk) sv"
    and run: "sv_query u k now (ShareMap fk) sv = Some (AKey k', sv')" and p': "share_done fk k' p = Inr p'"
  shows "agrees u (sv', p')"
proof -
  have l: "links_ok sv" "files_ok u sv" "lists u sv (files_list p)" using ag by (simp_all add: agrees_def)
  from then_row_ok [OF p' [unfolded share_done_def]] obtain fi where
    fi: "fp_app p' = fp_app p" "oget (files_list p) fk = Some fi" "files_list p' = oset fk (fi\<lparr>fi_shared := Some k'\<rparr>) (files_list p)" by blast
  note fd = listsD [OF l(3) fi(2)]
  have "fi_shared fi = None" using fk(2) fi(2) by (simp add: is_shared_def)
  with fd have "query_fit u k (ShareMap fk) sv" using dr by (auto simp: query_fit_def)
  moreover have "lists u sv' (files_list p')"
    unfolding fi(3) by (rule lists_change [OF l(3)]) (use run fd in \<open>auto split: if_splits\<close>)
  ultimately show ?thesis
    using own_files_ok [OF l(1,2) run] query_links_ok [OF l(1) run dr] ag fi by (auto simp: agrees_def)
qed

lemma unshare_agrees:
  assumes ag: "agrees u (sv, p)" and run: "sv_query u k now (UnshareMap fk) sv = Some (ans, sv')" and p': "unshare_done fk p = Inr p'"
  shows "agrees u (sv', p')"
proof -
  have l: "links_ok sv" "files_ok u sv" "lists u sv (files_list p)" using ag by (simp_all add: agrees_def)
  from then_row_ok [OF p' [unfolded unshare_done_def]] obtain fi where
    fi: "fp_app p' = fp_app p" "oget (files_list p) fk = Some fi" "files_list p' = oset fk (fi\<lparr>fi_shared := None\<rparr>) (files_list p)" by blast
  note fd = listsD [OF l(3) fi(2)]
  have "lists u sv' (files_list p')"
    unfolding fi(3) by (rule lists_change [OF l(3)]) (use run fd in \<open>auto split: if_splits\<close>)
  moreover have "links_ok sv'" using run by (intro unlinked_ok [OF l(1), of sv' u fk]) (auto simp: links_unlink split: if_splits)
  ultimately show ?thesis
    using own_files_ok [OF l(1,2) run] ag fi by (auto simp: agrees_def query_fit_def)
qed

lemma rename_agrees:
  assumes ag: "agrees u (sv, p)" and fk: "fk \<noteq> []" and run: "sv_query u k now (RenameMap fk n) sv = Some (ans, sv')"
    and p': "rename_done fk n p = Inr p'"
  shows "agrees u (sv', p')"
proof -
  have l: "links_ok sv" "files_ok u sv" "lists u sv (files_list p)" using ag by (simp_all add: agrees_def)
  from set_info_ok [OF p' [unfolded rename_done_def]] obtain fi where
    fi: "fp_app p' = fp_app p" "oget (files_list p) fk = Some fi" "files_list p' = oset fk (fi\<lparr>fi_name := Some n\<rparr>) (files_list p)" by blast
  note fd = listsD [OF l(3) fi(2)]
  have nm: "en_data (entry_of sv u fk) \<noteq> None" using fd(1) fk by simp
  have sv': "sv' = set_entry u fk (\<lambda>e. e\<lparr>en_name := Some n\<rparr>) sv" using run by (auto split: if_splits)
  have "lists u sv' (files_list p')"
    unfolding fi(3) by (rule lists_change [OF l(3)]) (use sv' fd fk in auto)
  moreover have "links_ok sv'" using l(1) by (auto simp: sv' links_ok_def)
  ultimately show ?thesis
    using own_files_ok [OF l(1,2) run] ag fi nm by (auto simp: agrees_def query_fit_def)
qed

lemma new_agrees:
  assumes ag: "agrees u (sv, p)" and new: "new_file val copy p = Inr q" and dr: "drawn_key u k q sv"
    and run: "sv_query u k now q sv = Some (AFile fk fi, sv')" and p': "new_file_done fk fi p = Inr p'"
  shows "agrees u (sv', p')"
proof -
  have l: "links_ok sv" "files_ok u sv" "lists u sv (files_list p)" using ag by (simp_all add: agrees_def)
  obtain n m where q: "q = NewMap n m" using new by (auto simp: new_file_def Let_def split: if_splits option.splits)
  have k: "k \<noteq> []" "en_data (entry_of sv u k) = None" using dr key10_nonempty by (auto simp: q drawn_key_def)
  then have "en_shared (entry_of sv u k) = None" using files_okD(2) [OF l(2) k(1)] by blast
  moreover have f: "fp_app p' = fp_app p" "files_list p' = oset fk fi (files_list p)"
    using put_row_ok [OF p' [unfolded new_file_done_def]] by simp_all
  ultimately have "lists u sv' (files_list p')"
    unfolding f(2) using run by (intro lists_change [OF l(3)]) (auto simp: q Let_def)
  then show ?thesis
    using own_files_ok [OF l(1,2) run] query_links_ok [OF l(1) run dr] ag f dr by (auto simp: agrees_def query_fit_def q)
qed

lemma trash_agrees:
  assumes ag: "agrees u (sv, p)" and fk: "has (files_list p) fk" and run: "sv_query u k now (DelMap fk) sv = Some (ans, sv')"
    and p': "trash_done dbg fk p = Inr (Inr p')"
  shows "agrees u (sv', p')"
proof -
  have l: "links_ok sv" "files_ok u sv" "lists u sv (files_list p)" using ag by (simp_all add: agrees_def)
  note d = entry_deleted [OF run]
  have ne: "fk \<noteq> file_key (fp_app p)" using p' by (auto simp: trash_done_def split: if_splits)
  have s: "links_ok sv'" "files_ok u sv'"
    using own_files_ok [OF l(1,2) run] by (auto intro!: unlinked_ok [OF l(1), of sv' u fk] simp: d query_fit_def split: if_splits)
  show ?thesis
  proof (cases "fk = []")
    case True
    then have f: "fp_app p' = fp_app p" "files_list p' = oset [] file_info0 (files_list p)"
      using p' ne by (auto simp: trash_done_def dest!: put_row_ok)
    have "lists u sv' (files_list p')"
      unfolding f(2) by (rule lists_change [OF l(3)]) (auto simp: d True file_info0_def)
    with s ag f show ?thesis by (auto simp: agrees_def)
  next
    case False
    then have p': "p' = p\<lparr>fp_rows := odel fk (fp_rows p), files_list := odel fk (files_list p)\<rparr>"
      using p' ne by (auto simp: trash_done_def)
    have "lists u sv' (files_list p')"
      using l(3) False by (auto simp: lists_def p' d split: if_splits)
    with s ag ne show ?thesis by (auto simp: agrees_def p')
  qed
qed

lemma step_agrees: "file_step u x y \<Longrightarrow> agrees u x \<Longrightarrow> agrees u y"
proof (induction rule: file_step.induct)
  case (fs_window p p' sv)
  then show ?case using show_ok [OF fs_window(1)] by (intro agrees_same_page [OF fs_window(2)]) auto
next
  case (fs_type fk p sv val)
  show ?case by (rule agrees_same_page [OF fs_type(3)]) (simp_all add: row_input_def)
next
  case fs_rename
  then show ?case using rename_agrees by blast
next
  case fs_new
  then show ?case using new_agrees by blast
next
  case fs_share
  then show ?case using share_agrees by blast
next
  case fs_unshare
  then show ?case using unshare_agrees by blast
next
  case (fs_edit p s' key i q k now sv ans sv')
  have "agrees u (sv', p)"
    using fs_edit sent_query [OF fs_edit(2)] by (intro store_agrees [OF fs_edit(4,3)]) (auto simp: agrees_def same_file_def)
  then show ?case
    by (rule agrees_same_page) (use fs_edit(1) in \<open>auto simp: same_file_def\<close>)
next
  case (fs_into p fk q k now sv ans sv')
  have "agrees u (sv', p)"
    using fs_into(1) sent_query [OF fs_into(2) [unfolded into_app]]
    by (intro store_agrees [OF fs_into(4,3)]) simp
  then show ?case by (rule agrees_same_page) (simp_all add: save_into_def)
next
  case (fs_erase p fk q k now sv ans sv')
  have "agrees u (sv', p)"
    using fs_erase(1) sent_query [OF fs_erase(2) [unfolded into_app]]
    by (intro store_agrees [OF fs_erase(4,3)]) simp
  then show ?case by (rule agrees_same_page) (simp_all add: erase_file_def)
next
  case fs_trash
  then show ?case using trash_agrees by blast
next
  case (fs_trash_current p fk k now sv ans sv' dbg url rq ft a p')
  then have l: "links_ok sv" "files_ok u sv" by (simp_all add: agrees_def)
  have "links_ok sv'"
    using entry_deleted [OF fs_trash_current(2)] by (auto intro!: unlinked_ok [OF l(1), of sv' u fk] split: if_splits)
  moreover have "files_ok u sv'" using own_files_ok [OF l fs_trash_current(2)] by (simp add: query_fit_def)
  ultimately show ?case using open_ok fs_trash_current by blast
next
  case (fs_default k now sv ans sv' p p')
  then have l: "links_ok sv" "files_ok u sv" by (simp_all add: agrees_def)
  obtain m where sv': "sv' = sv\<lparr>default_owner := Some u, default_data := m\<rparr>" using fs_default(1) by (auto split: option.splits)
  have "links_ok sv'" using l(1) unfolding links_ok_def sv' by simp
  moreover have "files_ok u sv'" using own_files_ok [OF l fs_default(1)] by (simp add: query_fit_def)
  moreover have "lists u sv' (files_list p)"
  proof (rule lists_keep)
    show "lists u sv (files_list p)" using fs_default(3) by (simp add: agrees_def)
  qed (simp add: sv')
  ultimately have ag: "agrees u (sv', p)" using fs_default(3) by (simp add: agrees_def)
  show ?case by (rule agrees_same_page [OF ag]) (simp_all add: default_ok [OF fs_default(2)])
next
  case fs_open
  then show ?case using open_ok by (auto simp: agrees_def)
next
  case (fs_other v k q sv now ans sv' p)
  then have l: "links_ok sv" "files_ok u sv" "lists u sv (files_list p)" by (simp_all add: agrees_def)
  have "links_ok sv'" by (rule query_links_ok [OF l(1) fs_other(3,2)])
  moreover have "files_ok u sv'" "lists u sv' (files_list p)"
    using other_files_ok [OF l(1,2) fs_other(3,1,2)] l(3) by (auto simp: lists_def)
  ultimately show ?case using fs_other(4) by (simp add: agrees_def)
qed

lemma run_agrees: "(file_step u)\<^sup>*\<^sup>* x y \<Longrightarrow> agrees u x \<Longrightarrow> agrees u y"
  by (induction rule: rtranclp_induct) (simp_all add: step_agrees)

definition shown_link :: "files_page \<Rightarrow> string \<Rightarrow> string option" where
  "shown_link p fk = (case oget (files_list p) fk of None \<Rightarrow> None | Some fi \<Rightarrow> fi_shared fi)"

lemma show_window: "\<exists>p'. showFileWindow p = Inr p' \<and> okeys (fp_rows p') = sort (okeys (files_list p))"
proof -
  define T where "T fk = (case get_file_row p fk of Inr r \<Rightarrow> r | Inl e \<Rightarrow> undefined)" for fk
  have r: "get_file_row p fk = Inr (T fk) \<and> fr_key (T fk) = fk" if "fk \<in> set (okeys (files_list p))" for fk
    using row_exists [of p fk] that by (auto simp: T_def has_iff)
  have "gather (\<lambda>fk. map_sum id (\<lambda>r. [r]) (get_file_row p fk)) (sort (okeys (files_list p))) = Inr (map T (sort (okeys (files_list p))))"
    using gather_ok [of "sort (okeys (files_list p))" "\<lambda>fk. map_sum id (\<lambda>r. [r]) (get_file_row p fk)" "\<lambda>fk. [T fk]"] r
    by (simp add: concat_map_singleton)
  moreover have "map (fr_key \<circ> T) (sort (okeys (files_list p))) = sort (okeys (files_list p))"
    using r by (intro map_idI) simp
  ultimately show ?thesis by (simp add: showFileWindow_def okeys_def comp_def)
qed

lemma agrees_means:
  assumes "agrees u (sv', p')"
  shows "has (files_list p') fk \<longleftrightarrow> fk = [] \<or> en_data (entry_of sv' u fk) \<noteq> None"
    "oget (files_list p') fk = Some fi \<Longrightarrow> fk \<noteq> [] \<Longrightarrow> fi_name fi = en_name (entry_of sv' u fk)"
    "shown_link p' fk = Some k \<Longrightarrow> oget (links sv') k = Some (u, fk)"
    "fk \<noteq> [] \<Longrightarrow> oget (links sv') k = Some (u, fk) \<Longrightarrow> shown_link p' fk = Some k"
proof -
  have l: "links_ok sv'" "files_ok u sv'" "lists u sv' (files_list p')" using assms by (simp_all add: agrees_def)
  show h: "has (files_list p') fk \<longleftrightarrow> fk = [] \<or> en_data (entry_of sv' u fk) \<noteq> None" for fk using l(3) by (simp add: lists_def)
  show "oget (files_list p') fk = Some fi \<Longrightarrow> fk \<noteq> [] \<Longrightarrow> fi_name fi = en_name (entry_of sv' u fk)" using listsD(2) [OF l(3)] .
  show "shown_link p' fk = Some k \<Longrightarrow> oget (links sv') k = Some (u, fk)"
    using l(1) listsD(3) [OF l(3), of fk] unfolding links_ok_def by (auto simp: shown_link_def split: option.splits)
  show "shown_link p' fk = Some k" if k: "fk \<noteq> []" "oget (links sv') k = Some (u, fk)"
  proof -
    have s: "en_shared (entry_of sv' u fk) = Some k" using l(2) k unfolding files_ok_def by blast
    then have "en_data (entry_of sv' u fk) \<noteq> None" using files_okD(2) [OF l(2) k(1)] by simp
    then obtain fi where fi: "oget (files_list p') fk = Some fi" using h [of fk] by (auto simp: has_oget)
    from listsD(3) [OF l(3) fi] s k(1) fi show ?thesis by (simp add: shown_link_def)
  qed
qed

text \<open>
  C30: whatever the user does in the window of layouts and on the map, and whatever other users do
  meanwhile: the window lists exactly the layouts the server has, with their names, it can always be
  opened, and the links it shows work; for a layout other than the main one they are all that work.
\<close>

theorem file_list_exact:
  assumes "links_ok sv" "files_ok u sv" "sv_front sv u rq = Some ft" "open_page a rq ft = Inr p"
    and "(file_step u)\<^sup>*\<^sup>* (sv, p) (sv', p')"
  shows "(\<exists>w. showFileWindow p' = Inr w \<and> okeys (fp_rows w) = sort (okeys (files_list p'))) \<and>
    (has (files_list p') fk \<longleftrightarrow> fk = [] \<or> en_data (entry_of sv' u fk) \<noteq> None) \<and>
    (fk \<noteq> [] \<longrightarrow> oget (files_list p') fk = Some fi \<longrightarrow> fi_name fi = en_name (entry_of sv' u fk)) \<and>
    (shown_link p' fk = Some k \<longrightarrow> oget (links sv') k = Some (u, fk)) \<and>
    (fk \<noteq> [] \<longrightarrow> oget (links sv') k = Some (u, fk) \<longrightarrow> shown_link p' fk = Some k)"
proof -
  have ag: "agrees u (sv', p')" by (rule run_agrees [OF assms(5) open_ok [OF assms(1-4)]])
  note m = agrees_means [OF ag]
  show ?thesis by (intro conjI impI show_window m(1)) (erule (1) m(2) | erule m(3) | erule (1) m(4))+
qed

definition ex_srv :: server where
  "ex_srv = \<lparr>sv_site = ''7'', sv_proj = ''all'', entries = (\<lambda>_. []), links = [], default_owner = None, default_data = map_data0\<rparr>"

definition ex_rq :: front_req where
  "ex_rq = Front ''7'' ''all'' [] False"

definition ex_ft :: front_part where
  "ex_ft = \<lparr>ft_map = map_data0, ft_site = None, ft_proj = None, ft_files = [([], \<lparr>fi_name = Some [], fi_time = None, fi_shared = None\<rparr>)],
     ft_default_map = False, ft_is_owner = False, ft_has_default = False\<rparr>"

definition ex_pg :: files_page where
  "ex_pg = \<lparr>fp_app = app0\<lparr>site := ''7''\<rparr>, proj = ''all'', fp_shared = None, files_list = ft_files ex_ft, fp_rows = [],
     has_default_map = False, is_default_owner = False, file_saved = 0\<rparr>"

text \<open>A copy of the main layout under the name \<open>Plan\<close>, then with a link.\<close>

definition ex_pg1 :: files_page where
  "ex_pg1 = ex_pg\<lparr>files_list := files_list ex_pg @ [(''aaaaaaaaaa'', \<lparr>fi_name = Some ''Plan'', fi_time = Some 5, fi_shared = None\<rparr>)],
     fp_rows := [(''aaaaaaaaaa'', Some ''Plan'')]\<rparr>"

definition ex_srv1 :: server where
  "ex_srv1 = set_entry ''ann'' ''aaaaaaaaaa'' (\<lambda>e. e\<lparr>en_data := Some map_data0, en_time := Some 5, en_name := Some ''Plan''\<rparr>) ex_srv"

definition ex_pg2 :: files_page where
  "ex_pg2 = ex_pg1\<lparr>files_list := files_list ex_pg @ [(''aaaaaaaaaa'', \<lparr>fi_name = Some ''Plan'', fi_time = Some 5, fi_shared = Some ''bbbbbbbbbb''\<rparr>)]\<rparr>"

definition ex_srv2 :: server where
  "ex_srv2 = set_entry ''ann'' ''aaaaaaaaaa'' (\<lambda>e. e\<lparr>en_shared := Some ''bbbbbbbbbb''\<rparr>) (ex_srv1\<lparr>links := [(''bbbbbbbbbb'', (''ann'', ''aaaaaaaaaa''))]\<rparr>)"

lemma ex_start: "links_ok ex_srv" "files_ok ''ann'' ex_srv" "sv_front ex_srv ''ann'' ex_rq = Some ex_ft" "open_page app0 ex_rq ex_ft = Inr ex_pg"
  by (simp_all add: links_ok_def files_ok_def entry_of_def entry0_def ex_srv_def owf_def has_def sv_front_def ex_rq_def file_key_ok_def
    sv_files_def file_info0_def ex_ft_def open_page_def shown_title_def ex_pg_def app0_def map_data0_def Let_def)

lemma ex_keys: "key10 ''aaaaaaaaaa''" "key10 ''bbbbbbbbbb''"
  by code_simp+

lemma ex_new:
  "new_file ''Plan'' True ex_pg = Inr (NewMap ''Plan'' (Some map_data0))" "drawn_key ''ann'' ''aaaaaaaaaa'' (NewMap ''Plan'' (Some map_data0)) ex_srv"
  "sv_query ''ann'' ''aaaaaaaaaa'' 5 (NewMap ''Plan'' (Some map_data0)) ex_srv =
     Some (AFile ''aaaaaaaaaa'' \<lparr>fi_name = Some ''Plan'', fi_time = Some 5, fi_shared = None\<rparr>, ex_srv1)"
  "new_file_done ''aaaaaaaaaa'' \<lparr>fi_name = Some ''Plan'', fi_time = Some 5, fi_shared = None\<rparr> ex_pg = Inr ex_pg1"
proof -
  show "new_file ''Plan'' True ex_pg = Inr (NewMap ''Plan'' (Some map_data0))" by code_simp
  show "drawn_key ''ann'' ''aaaaaaaaaa'' (NewMap ''Plan'' (Some map_data0)) ex_srv"
    by (simp add: drawn_key_def ex_keys entry_of_def ex_srv_def entry0_def)
qed (simp_all add: ex_srv1_def Let_def new_file_done_def put_row_def get_file_row_def ex_pg1_def ex_pg_def ex_ft_def)

lemma ex_share:
  "has (files_list ex_pg1) ''aaaaaaaaaa''" "\<not> is_shared ex_pg1 ''aaaaaaaaaa''" "drawn_key ''ann'' ''bbbbbbbbbb'' (ShareMap ''aaaaaaaaaa'') ex_srv1"
  "sv_query ''ann'' ''bbbbbbbbbb'' 6 (ShareMap ''aaaaaaaaaa'') ex_srv1 = Some (AKey ''bbbbbbbbbb'', ex_srv2)"
  "share_done ''aaaaaaaaaa'' ''bbbbbbbbbb'' ex_pg1 = Inr ex_pg2"
  by (simp_all add: ex_pg1_def ex_pg_def ex_ft_def has_def is_shared_def drawn_key_def ex_keys ex_srv1_def ex_srv2_def set_entry_def ex_srv_def
    entry_of_def entry0_def file_key_ok_def share_done_def then_row_def set_info_def put_row_def get_file_row_def ex_pg2_def)

lemma ex_run: "(file_step ''ann'')\<^sup>*\<^sup>* (ex_srv, ex_pg) (ex_srv2, ex_pg2)"
  using fs_new [OF ex_new] fs_share [OF ex_share] by (meson rtranclp.rtrancl_into_rtrancl rtranclp.rtrancl_refl)

lemma file_list_exact_witness: "has (files_list ex_pg2) ''aaaaaaaaaa'' \<and> oget (links ex_srv2) ''bbbbbbbbbb'' = Some (''ann'', ''aaaaaaaaaa'')"
  using file_list_exact [OF ex_start ex_run, of "''aaaaaaaaaa''" undefined "''bbbbbbbbbb''"]
  by (simp add: shown_link_def ex_pg2_def ex_pg1_def ex_pg_def ex_ft_def has_def)

section \<open>Addresses\<close>

text \<open>Text that needs no escapes: no \<open>%\<close>, no \<open>&\<close> and no \<open>=\<close>.\<close>

definition plain :: "string \<Rightarrow> bool" where
  "plain s \<longleftrightarrow> CHR 0x25 \<notin> set s \<and> CHR ''&'' \<notin> set s \<and> CHR ''='' \<notin> set s"

lemma decode_plain: "CHR 0x25 \<notin> set s \<Longrightarrow> decode_uri s = Inr s"
proof (induction s)
  case Nil
  then show ?case by (simp add: decode_uri.simps)
next
  case (Cons c s)
  then have "uri_char (c # s) = Some ([c], s)" by (auto simp: uri_char_def)
  with Cons show ?case by (simp add: decode_uri.simps [of "c # s"])
qed

lemma split_eq: "plain n \<Longrightarrow> plain v \<Longrightarrow> split_on CHR ''='' (n @ CHR ''='' # v) = [n, v]"
  using split_on_append [of "CHR ''=''" n v] split_on_free [of "CHR ''=''" v] by (simp add: plain_def)

text \<open>The parameters of an address as pairs, then its flags.\<close>

definition pair_text :: "string \<times> string \<Rightarrow> string" where
  "pair_text = (\<lambda>(n, v). n @ CHR ''='' # v)"

definition url_of :: "(string \<times> string) list \<Rightarrow> string list \<Rightarrow> string" where
  "url_of ps flags = CHR ''?'' # join ''&'' (map pair_text ps @ flags)"

definition url_ok :: "(string \<times> string) list \<Rightarrow> string list \<Rightarrow> bool" where
  "url_ok ps flags \<longleftrightarrow> ps \<noteq> [] \<and> list_all (\<lambda>(n, v). plain n \<and> plain v) ps \<and> list_all plain flags"

lemma find_flags: "list_all plain flags \<Longrightarrow> m \<notin> set flags \<Longrightarrow> find_param m flags df = Inr df"
  by (induction flags) (auto simp: plain_def split_on_free)

lemma find_pairs:
  "list_all (\<lambda>(n, v). plain n \<and> plain v) ps \<Longrightarrow> list_all plain flags \<Longrightarrow> m \<notin> set flags \<Longrightarrow>
     find_param m (map pair_text ps @ flags) df = Inr (case oget ps m of None \<Rightarrow> df | Some v \<Rightarrow> Some v)"
proof (induction ps)
  case (Cons x ps)
  obtain n v where x: "x = (n, v)" by (cases x)
  with Cons.prems(1) have "split_on CHR ''='' (pair_text x) = [n, v]" "decode_uri v = Inr v"
    using split_eq [of n v] decode_plain [of v] by (simp_all add: pair_text_def plain_def)
  with Cons x show ?case by simp
qed (simp add: find_flags)

lemma url_read:
  assumes "url_ok ps flags" "m \<notin> set flags"
  shows "getUrlParameter (url_of ps flags) m df = Inr (case oget ps m of None \<Rightarrow> df | Some v \<Rightarrow> Some v)"
proof -
  have "\<forall>x \<in> set (map pair_text ps @ flags). CHR ''&'' \<notin> set x"
    using assms(1) by (auto simp: url_ok_def pair_text_def plain_def list_all_iff)
  then have "split_on CHR ''&'' (tl (url_of ps flags)) = map pair_text ps @ flags"
    using split_on_join [of "map pair_text ps @ flags" "CHR ''&''"] assms(1) by (simp add: url_of_def url_ok_def)
  then show ?thesis using find_pairs [of ps flags m df] assms by (simp add: getUrlParameter_def url_ok_def)
qed

lemma plain_simps: "plain []" "plain (c # s) \<longleftrightarrow> c \<noteq> CHR 0x25 \<and> c \<noteq> CHR ''&'' \<and> c \<noteq> CHR ''='' \<and> plain s"
  "plain (s @ t) \<longleftrightarrow> plain s \<and> plain t"
  by (auto simp: plain_def)

lemma urls:
  "front_url st pj fk dbg = url_of [(''action'', ''get_front''), (''site'', st), (''proj'', pj), (''file_key'', fk)] (if dbg then [''debug''] else [])"
  "main_url st pj dbg = url_of [(''action'', ''get_front''), (''site'', st), (''proj'', pj)] (if dbg then [''debug''] else [])"
  "default_url st pj dbg = url_of [(''action'', ''get_front''), (''site'', st), (''proj'', pj), (''file_key'', []), (''load_default'', ''1'')]
     (if dbg then [''debug''] else [])"
  "shared_url k = url_of [(''shared'', k)] []"
  by (simp_all add: front_url_def main_url_def default_url_def shared_url_def url_of_def pair_text_def debug_part_def)

lemma urls_read:
  assumes "plain st" "plain pj" "plain fk"
  shows "start_query (front_url st pj fk dbg) = Inr (Front st pj fk False)" "start_query (main_url st pj dbg) = Inr (Front st pj [] False)"
    "start_query (default_url st pj dbg) = Inr (Front st pj [] True)" "start_query (shared_url fk) = Inr (Shared fk)"
  unfolding urls start_query_def param_or_def
  by (simp_all add: url_read url_ok_def assms plain_simps)

lemma plain_key: "key10 k \<Longrightarrow> plain k"
proof -
  have n: "\<not> is_word (CHR 0x25)" "\<not> is_word (CHR ''&'')" "\<not> is_word (CHR ''='')" by code_simp+
  assume "key10 k"
  then have "\<forall>c \<in> set k. is_word c" by (simp add: key10_def list_all_iff)
  with n show "plain k" unfolding plain_def by blast
qed

text \<open>The place chosen in \<open>selectLocation\<close> is the one the page starts with.\<close>

lemma plain_join: "list_all plain xs \<Longrightarrow> plain (join '','' xs)"
  by (induction "'',''" xs rule: join.induct) (simp_all add: plain_simps)

lemma location_read:
  assumes "location_go sites projs dbg = Inr url" "list_all plain sites" "list_all plain projs"
  shows "start_query url = Inr (Front (sites ! 0) (join '','' projs) [] False)"
proof -
  have "sites \<noteq> []" "url = front_url (sites ! 0) (join '','' projs) [] dbg"
    using assms(1) by (auto simp: location_go_def split: if_splits)
  moreover have "plain (sites ! 0)" using assms(2) calculation(1) by (cases sites) simp_all
  ultimately show ?thesis using urls_read(1) plain_join [OF assms(3)] by (simp add: plain_simps)
qed

section \<open>Links\<close>

definition keyed :: "server \<Rightarrow> bool" where
  "keyed sv \<longleftrightarrow> (\<forall>k. oget (links sv) k \<noteq> None \<longrightarrow> key10 k)"

lemma keyed_unlink: "keyed sv \<Longrightarrow> (\<And>k. oget (links sv') k \<noteq> None \<Longrightarrow> oget (links sv) k \<noteq> None) \<Longrightarrow> keyed sv'"
  by (auto simp: keyed_def)

lemma query_keyed:
  assumes "sv_query v k now q sv = Some (ans, sv')" "keyed sv" "\<And>fk. q = ShareMap fk \<Longrightarrow> key10 k"
  shows "keyed sv'"
proof (cases q)
  case (DelMap fk)
  with entry_deleted(2) [of v k now fk sv ans sv'] assms show ?thesis by (intro keyed_unlink [OF assms(2)]) (auto split: if_splits)
qed (use assms in \<open>auto simp: keyed_def links_unlink Let_def sv_store_def split: if_splits option.splits\<close>)

lemma step_keyed: "file_step u x y \<Longrightarrow> keyed (fst x) \<Longrightarrow> keyed (fst y)"
proof (induction rule: file_step.induct)
  case fs_new
  then show ?case using query_keyed by (fastforce simp: drawn_key_def)
next
  case fs_share
  then show ?case using query_keyed by (fastforce simp: drawn_key_def)
next
  case fs_other
  then show ?case using query_keyed by (fastforce simp: drawn_key_def)
qed (use query_keyed in \<open>fastforce+\<close>)

lemma run_keyed: "(file_step u)\<^sup>*\<^sup>* x y \<Longrightarrow> keyed (fst x) \<Longrightarrow> keyed (fst y)"
  by (induction rule: rtranclp_induct) (auto dest: step_keyed)

text \<open>
  C40: a link the window offers to copy leads whoever opens it to the layout as it is stored then, and
  not to one they could change; after the link is closed it leads nowhere.
\<close>

theorem shared_link_opens:
  assumes "links_ok sv" "files_ok u sv" "keyed sv" "sv_front sv u rq = Some ft" "open_page a rq ft = Inr p"
    and "(file_step u)\<^sup>*\<^sup>* (sv, p) (sv', p')" "shown_link p' fk = Some k"
  shows "start_query (drop (length here) (copied_link here p' fk)) = Inr (Shared k) \<and>
    (\<exists>ft' w. sv_front sv' v (Shared k) = Some ft' \<and> open_page b (Shared k) ft' = Inr w \<and>
       map_data (fp_app w) = (case en_data (entry_of sv' u fk) of None \<Rightarrow> map_data0 | Some m \<Rightarrow> m) \<and>
       sent (save_map key i fk' md (fp_app w)) = []) \<and>
    (sv_query u k' now (UnshareMap fk) sv' = Some (ans, sv'') \<longrightarrow> sv_front sv'' v (Shared k) = None)"
proof -
  have ag: "agrees u (sv', p')" by (rule run_agrees [OF assms(6) open_ok [OF assms(1,2,4,5)]])
  have l: "oget (links sv') k = Some (u, fk)" by (rule agrees_means(3) [OF ag assms(7)])
  have "keyed sv'" using run_keyed [OF assms(6)] assms(3) by simp
  with l have k: "key10 k" by (simp add: keyed_def)
  obtain fi where fi: "oget (files_list p') fk = Some fi" "fi_shared fi = Some k"
    using assms(7) by (auto simp: shown_link_def split: option.splits)
  have "start_query (drop (length here) (copied_link here p' fk)) = Inr (Shared k)"
    using fi urls_read(4) [OF plain_key plain_key plain_key, OF k k k] by (simp add: copied_link_def undef_str_def)
  moreover have "\<exists>ft' w. sv_front sv' v (Shared k) = Some ft' \<and> open_page b (Shared k) ft' = Inr w \<and>
      map_data (fp_app w) = (case en_data (entry_of sv' u fk) of None \<Rightarrow> map_data0 | Some m \<Rightarrow> m) \<and> sent (save_map key i fk' md (fp_app w)) = []"
    using k l by (simp add: sv_front_def Let_def open_page_def save_map_def)
  moreover have "sv_front sv'' v (Shared k) = None" if "sv_query u k' now (UnshareMap fk) sv' = Some (ans, sv'')"
  proof -
    have "en_shared (entry_of sv' u fk) = Some k" using listsD(3) [OF _ fi(1)] ag fi(2) by (auto simp: agrees_def)
    with that have "oget (links sv'') k = None" by (auto simp: links_unlink split: if_splits)
    then show ?thesis by (simp add: sv_front_def)
  qed
  ultimately show ?thesis by blast
qed

lemma shared_link_opens_witness:
  "\<exists>ft w. sv_front ex_srv2 ''bob'' (Shared ''bbbbbbbbbb'') = Some ft \<and> open_page app0 (Shared ''bbbbbbbbbb'') ft = Inr w \<and>
     map_data (fp_app w) = map_data0"
proof -
  have sl: "shown_link ex_pg2 ''aaaaaaaaaa'' = Some ''bbbbbbbbbb''" by (simp add: shown_link_def ex_pg2_def ex_pg1_def ex_pg_def ex_ft_def)
  have ky: "keyed ex_srv" by (simp add: keyed_def ex_srv_def)
  have d: "en_data (entry_of ex_srv2 ''ann'' ''aaaaaaaaaa'') = Some map_data0" by (simp add: ex_srv2_def ex_srv1_def)
  note opens = shared_link_opens [OF ex_start(1,2) ky ex_start(3,4) ex_run sl, where v = "''bob''" and b = app0 and key = None
    and i = None and fk' = None and md = None and here = "[]"]
  show ?thesis using conjunct1 [OF conjunct2 [OF opens]] d by auto
qed

section \<open>What goes wrong\<close>

text \<open>
  The main layout that was never saved is not listed again once the page is opened anew, although a
  link to it was made: made once more, only the second link can be closed.
\<close>

lemma lost_link:
  assumes "en_data (entry_of sv u []) = None" "owf (entries sv u)" "k1 \<noteq> k2" "key10 k1"
    "sv_query u k1 t1 (ShareMap []) sv = Some (a1, sv1)" "sv_query u k2 t2 (ShareMap []) sv1 = Some (a2, sv2)"
    "sv_query u k3 t3 (UnshareMap []) sv2 = Some (a3, sv3)"
  shows "oget (sv_files sv1 u) [] = Some (file_info0\<lparr>fi_name := Some []\<rparr>)" "sv_front sv3 v (Shared k1) \<noteq> None"
proof -
  have w: "owf (oset [] (entry_of sv u []\<lparr>en_shared := Some k1\<rparr>) (entries sv u))" using assms(2) by simp
  have "sv1 = set_entry u [] (\<lambda>e. e\<lparr>en_shared := Some k1\<rparr>) (sv\<lparr>links := oset k1 (u, []) (links sv)\<rparr>)" using assms(5) by (simp add: file_key_ok_def)
  moreover have "entries (sv\<lparr>links := oset k1 (u, []) (links sv)\<rparr>) = entries sv" by simp
  ultimately show "oget (sv_files sv1 u) [] = Some (file_info0\<lparr>fi_name := Some []\<rparr>)"
    using assms(1) w by (simp add: sv_files_def Let_def has_def oget_map_filter)
  show "sv_front sv3 v (Shared k1) \<noteq> None"
    using assms(3-7) by (auto simp: sv_front_def file_key_ok_def links_unlink Let_def split: if_splits)
qed

text \<open>Nothing is saved from a page opened by a link; the buttons for saving into a layout and clearing one do nothing there.\<close>

lemma shared_buttons_inert:
  "\<not> enable_save (fp_app p) \<Longrightarrow> sent (fp_app (save_into fk p)) = sent (fp_app p) \<and> sent (fp_app (erase_file fk p)) = sent (fp_app p)"
  by (simp add: into_app save_map_def)

text \<open>A new layout cannot be called \<open>undefined\<close>: that is how the row of the main one reads.\<close>

lemma undefined_refused:
  assumes "has (files_list p) []" "showFileWindow p = Inr p'" "toLower (trim val) = ''undefined''"
  shows "\<exists>fk. new_file val copy p' = Inl (Some fk)"
proof -
  obtain w where w: "showFileWindow p = Inr w" "okeys (fp_rows w) = sort (okeys (files_list p))" using show_window by blast
  have "[] \<in> set (okeys (fp_rows p'))" using w assms(1,2) by (simp add: has_iff)
  moreover have "oget (fp_rows p') [] = Some v \<Longrightarrow> v = None" for v
  proof -
    have "\<forall>(fk, v) \<in> set (fp_rows p'). fk = [] \<longrightarrow> v = None"
    proof -
      obtain rs where rs: "gather (\<lambda>fk. map_sum id (\<lambda>r. [r]) (get_file_row p fk)) (sort (okeys (files_list p))) = Inr rs"
        "fp_rows p' = map (\<lambda>r. (fr_key r, fr_name r)) rs"
        using assms(2) by (cases "gather (\<lambda>fk. map_sum id (\<lambda>r. [r]) (get_file_row p fk)) (sort (okeys (files_list p)))")
          (auto simp: showFileWindow_def)
      have "fr_key r = [] \<longrightarrow> fr_name r = None" if "r \<in> set rs" for r
        using that unfolding gather_set [OF rs(1)] by (auto simp: get_file_row_def split: option.splits)
      with rs(2) show ?thesis by auto
    qed
    then show "oget (fp_rows p') [] = Some v \<Longrightarrow> v = None" by (auto dest: map_of_SomeD)
  qed
  ultimately obtain v where "([], None) \<in> set (fp_rows p')" by (metis map_of_SomeD oget_None_iff option.exhaust)
  moreover have "row_text None = ''undefined''" by code_simp
  ultimately have "find (\<lambda>(fk, v). row_text v = toLower (trim val)) (fp_rows p') \<noteq> None"
    using assms(3) by (auto simp: find_None_iff)
  moreover have "trim val \<noteq> []" using assms(3) by (auto simp: toLower_def)
  ultimately show ?thesis by (auto simp: new_file_def same_name_row_def Let_def)
qed

text \<open>
  C21: when the default layout of another user is shown and saved into an additional layout, the page
  forgets that the main layout is not stored yet: the next change stores only itself in it, and opened
  again the main layout has lost everything else.
\<close>

theorem save_into_loses_default:
  assumes "default_map (fp_app p)" "file_key (fp_app p) = []" "enable_save (fp_app p)" "fk \<noteq> []" "en_data (entry_of sv u []) = None"
    and "sv_query u k now (StoreMap (save_query (fp_app p) None None (Some fk) None)) sv = Some (ans, sv1)"
    and "s = set_loc d x y (fp_app (saved_done now (Some fk) (save_into fk p)))"
  shows "map_data s = map_data (set_loc d x y (fp_app p)) \<and>
    en_data (entry_of (sv_store u now' (save_query s (Some ''loc'') (Some d) None None) sv1) u []) =
      Some (map_data0\<lparr>map_loc := [(d, \<lparr>loc_x = x, loc_y = y\<rparr>)]\<rparr>)"
proof -
  have q: "save_query (fp_app p) None None (Some fk) None = SaveMap fk (SMap (Some (map_data (fp_app p))))"
    by (simp add: save_query_def Let_def)
  have sv1: "en_data (entry_of sv1 u []) = None"
    using assms(4-6) by (auto simp: q sv_store_def Let_def split: if_splits)
  have s: "default_map s = False" "file_key s = []" "map_data s = map_data (set_loc d x y (fp_app p))"
    using assms(2) by (simp_all add: assms(7) set_loc_def Let_def saved_done_def save_done_def into_app)
  have "md_item (map_data s) ''loc'' d = Some (SLoc \<lparr>loc_x = x, loc_y = y\<rparr>)"
    by (simp add: s(3) set_loc_def Let_def md_item_def)
  then have "save_query s (Some ''loc'') (Some d) None None = SaveKeyId ''loc'' d [] (SLoc \<lparr>loc_x = x, loc_y = y\<rparr>)"
    by (simp add: save_query_def Let_def s)
  then show ?thesis using s sv1 by (simp add: sv_store_def Let_def map_data0_def)
qed

lemma save_into_loses_default_witness:
  "\<exists>sv1 s. en_data (entry_of (sv_store ''ann'' 7 (save_query s (Some ''loc'') (Some ''sw1'') None None) sv1) ''ann'' []) =
     Some (map_data0\<lparr>map_loc := [(''sw1'', \<lparr>loc_x = 10, loc_y = 20\<rparr>)]\<rparr>) \<and> oget (map_loc (map_data s)) ''sw2'' \<noteq> None"
proof -
  let ?p = "ex_pg\<lparr>fp_app := app0\<lparr>default_map := True, map_data := map_data0\<lparr>map_loc := [(''sw2'', \<lparr>loc_x = 1, loc_y = 2\<rparr>)]\<rparr>\<rparr>\<rparr>"
  have "sv_query ''ann'' k 6 (StoreMap (save_query (fp_app ?p) None None (Some ''aaaaaaaaaa'') None)) ex_srv1 =
      Some (AOk, sv_store ''ann'' 6 (save_query (fp_app ?p) None None (Some ''aaaaaaaaaa'') None) ex_srv1)" for k
    by (simp add: save_query_def Let_def file_key_ok_def ex_keys)
  from save_into_loses_default [OF _ _ _ _ _ this refl, where d = "''sw1''" and x = 10 and y = 20 and now' = 7]
  show ?thesis
    by (simp add: app0_def ex_srv1_def ex_srv_def entry_of_def entry0_def set_entry_def) (fastforce simp: set_loc_def Let_def)
qed

end
