(* ===== verification/Windows.thy ===== *)
theory Windows
  imports FileRuns Tags
begin

text \<open>
  The windows of the page (\<open>createWindow\<close>), the small one for the vendor of a MAC address
  (\<open>macVendorWindow\<close>), the texts shown beside a MAC or an address (\<open>mac_info\<close>, \<open>ip_info\<close>), and the
  window in which the location and the projects are chosen (\<open>selectLocation\<close>).
\<close>

section \<open>Windows\<close>

text \<open>The open windows by their id, with what \<open>position\<close> holds, which dragging a window changes.\<close>

record 'p window =
  wn_title :: string
  wn_position :: 'p

type_synonym 'p desk = "(string, 'p window) obj"

definition close_window :: "string \<Rightarrow> 'p desk \<Rightarrow> 'p desk" where
  "close_window win_id desk = odel win_id desk"

definition createWindow :: "'p \<Rightarrow> string \<Rightarrow> string \<Rightarrow> 'p option \<Rightarrow> 'p desk \<Rightarrow> 'p desk" where
  "createWindow topmost win_id title opt_position desk =
     (let position = (case oget desk win_id of None \<Rightarrow> topmost | Some w \<Rightarrow> wn_position w)
      in close_window win_id desk @ [(win_id, \<lparr>wn_title = title,
           wn_position = (case opt_position of None \<Rightarrow> position | Some p \<Rightarrow> p)\<rparr>)])"

definition drag_window :: "string \<Rightarrow> 'p \<Rightarrow> 'p desk \<Rightarrow> 'p desk" where
  "drag_window win_id p desk = (case oget desk win_id of None \<Rightarrow> desk | Some w \<Rightarrow> oset win_id (w\<lparr>wn_position := p\<rparr>) desk)"

lemma create_owf: "owf desk \<Longrightarrow> owf (createWindow topmost win_id title q desk)"
proof -
  assume "owf desk"
  then have "owf (odel win_id desk)" by simp
  moreover have "win_id \<notin> set (okeys (odel win_id desk))" by simp
  moreover have "okeys (xs @ [(k, v)]) = okeys xs @ [k]" for xs :: "(string \<times> 'a window) list" and k v by (simp add: okeys_def)
  ultimately show ?thesis by (simp add: createWindow_def close_window_def Let_def owf_def)
qed

lemma oget_snoc: "oget (ps @ [(k, v)]) j = (case oget ps j of None \<Rightarrow> if j = k then Some v else None | Some x \<Rightarrow> Some x)"
  by (simp add: map_add_def split: option.split)

text \<open>There is one window of an id; opened again it stands where it stood, and the others stay.\<close>

lemma create_again: "oget desk win_id = Some w \<Longrightarrow>
    oget (createWindow topmost win_id title None desk) j = (if j = win_id then Some \<lparr>wn_title = title, wn_position = wn_position w\<rparr> else oget desk j)"
  by (auto simp: createWindow_def close_window_def Let_def oget_snoc simp del: map_of_append split: option.split)

section \<open>The vendor of a MAC address\<close>

datatype vendor_result = Unchanged | FieldRed | VendorNotFound | Vendor string

text \<open>\<open>answer\<close> is the answer of the server, \<open>None\<close> for one with \<open>not_found\<close>.\<close>

definition macVendorWindow :: "(string \<Rightarrow> string option) \<Rightarrow> string \<Rightarrow> vendor_result" where
  "macVendorWindow answer mac =
     (if mac_match mac = None then FieldRed
      else case answer mac of None \<Rightarrow> VendorNotFound | Some corp \<Rightarrow> Vendor corp)"

section \<open>Texts beside an address\<close>

record mac_tip =
  mt_corp :: "string option"
  mt_ports :: "nat option"
  mt_mac_ips :: "string list option"
  mt_any :: bool

datatype tip_row =
    TipMac string | TipVendor string | TipPorts nat | TipIps string
  | TipIp string | TipHost string | TipSite "string \<times> string list" | TipNet string | TipDns string | TipArp string
  | TipWhois string

text \<open>\<open>mt_any\<close> and \<open>it_any\<close>: the answer has any field at all. \<open>None\<close> is the text that nothing is found.\<close>

definition mac_tooltip :: "(string \<Rightarrow> string \<Rightarrow> int) \<Rightarrow> string \<Rightarrow> mac_tip \<Rightarrow> tip_row list option" where
  "mac_tooltip lc mac m =
     (if \<not> mt_any m then None
      else Some ([TipMac (format_mac mac ''canonic'')] @
        (case mt_corp m of None \<Rightarrow> [] | Some c \<Rightarrow> [TipVendor c]) @
        (case mt_ports m of None \<Rightarrow> [] | Some n \<Rightarrow> [TipPorts n]) @
        (case mt_mac_ips m of None \<Rightarrow> [] | Some xs \<Rightarrow> [TipIps (join '', '' (js_sort (num_compare lc) xs))])))"

record ip_tip =
  it_hostname :: "string option"
  it_site :: "string option"
  it_net :: "string option"
  it_dns :: "string option"
  it_arp :: "(string \<times> string option) option"
  it_whois :: "string option"
  it_any :: bool

definition ip_tooltip :: "tag list \<Rightarrow> string \<Rightarrow> ip_tip \<Rightarrow> exn + tip_row list option" where
  "ip_tooltip sites ip r =
     (if \<not> it_any r then Inr None
      else case (case it_site r of None \<Rightarrow> Inr []
          | Some st \<Rightarrow> map_sum id (\<lambda>t. [TipSite t]) (get_tag (Tag ''root'' '''' '''' None sites) st)) of
        Inl x \<Rightarrow> Inl x
      | Inr site_rows \<Rightarrow> Inr (Some ([TipIp ip] @
          (case it_hostname r of None \<Rightarrow> [] | Some h \<Rightarrow> [TipHost h]) @ site_rows @
          (case it_net r of None \<Rightarrow> [] | Some n \<Rightarrow> [TipNet n]) @
          (case it_dns r of None \<Rightarrow> [] | Some n \<Rightarrow> [TipDns n]) @
          (case it_arp r of None \<Rightarrow> []
            | Some (m, v) \<Rightarrow> [TipArp (format_mac m ''canonic'' @ ''  '' @ (case v of None \<Rightarrow> [] | Some x \<Rightarrow> x))]) @
          (case it_whois r of None \<Rightarrow> [] | Some w \<Rightarrow> [TipWhois (whois w)]))))"

section \<open>Choosing the location\<close>

text \<open>
  What is chosen in the two trees, and what the head of the window shows. The trees answer with the
  nodes that are selected; when they are ready the window selects the location of the page and \<open>proj\<close> as
  it stands, which is no node when it is a list of several.
\<close>

datatype shown_tag = NotChosen | TagShown "string \<times> string list"

record location_win =
  lw_sites :: "string list"
  lw_projs :: "string list"
  lw_site_shown :: "shown_tag list"
  lw_projs_shown :: "shown_tag list"

definition has_node :: "tag list \<Rightarrow> string \<Rightarrow> bool" where
  "has_node ts i = list_ex (\<lambda>t. i \<in> tag_ids t) ts"

definition tags_of :: "tag list \<Rightarrow> string list \<Rightarrow> exn + shown_tag list" where
  "tags_of ts is = gather (\<lambda>i. map_sum id (\<lambda>t. [TagShown t]) (get_tag (Tag ''root'' '''' '''' None ts) i)) is"

text \<open>The head of the page itself.\<close>

definition page_tags :: "tag list \<Rightarrow> tag list \<Rightarrow> string \<Rightarrow> string \<Rightarrow> exn + shown_tag list \<times> shown_tag list" where
  "page_tags sites projects st pj = (case tags_of sites [st] of
      Inl x \<Rightarrow> Inl x
    | Inr a \<Rightarrow> map_sum id (\<lambda>b. (a, b)) (tags_of projects (split_on CHR '','' pj)))"

definition open_location :: "tag list \<Rightarrow> tag list \<Rightarrow> string \<Rightarrow> string \<Rightarrow> exn + location_win" where
  "open_location sites projects st pj = map_sum id (\<lambda>(a, b). \<lparr>
       lw_sites = (if has_node sites st then [st] else []),
       lw_projs = (if has_node projects pj then [pj] else []),
       lw_site_shown = a, lw_projs_shown = b\<rparr>) (page_tags sites projects st pj)"

definition site_selected :: "tag list \<Rightarrow> string list \<Rightarrow> location_win \<Rightarrow> exn + location_win" where
  "site_selected sites nodes w =
     (let w = w\<lparr>lw_sites := nodes, lw_site_shown := []\<rparr>
      in if nodes = [] then Inr (w\<lparr>lw_site_shown := [NotChosen]\<rparr>)
         else if length nodes > 1 then Inr w
         else map_sum id (\<lambda>a. w\<lparr>lw_site_shown := a\<rparr>) (tags_of sites [nodes ! 0]))"

definition proj_selected :: "tag list \<Rightarrow> string list \<Rightarrow> location_win \<Rightarrow> exn + location_win" where
  "proj_selected projects nodes w =
     (if nodes = [] then Inr (w\<lparr>lw_projs := [], lw_projs_shown := [NotChosen]\<rparr>)
      else map_sum id (\<lambda>b. w\<lparr>lw_projs := nodes, lw_projs_shown := b\<rparr>) (tags_of projects nodes))"

section \<open>Going to the location that is shown\<close>

inductive loc_reach :: "tag list \<Rightarrow> tag list \<Rightarrow> string \<Rightarrow> string \<Rightarrow> location_win \<Rightarrow> bool"
  for sites projects st pj where
  lr_open: "open_location sites projects st pj = Inr w \<Longrightarrow> loc_reach sites projects st pj w"
| lr_site: "loc_reach sites projects st pj w \<Longrightarrow> site_selected sites nodes w = Inr w' \<Longrightarrow> loc_reach sites projects st pj w'"
| lr_proj: "loc_reach sites projects st pj w \<Longrightarrow> proj_selected projects nodes w = Inr w' \<Longrightarrow> loc_reach sites projects st pj w'"

inductive_cases loc_reachE: "loc_reach sites projects st pj w"

lemma tags_of_one: "tags_of ts [i] = Inr a \<longleftrightarrow> (\<exists>t. get_tag (Tag ''root'' '''' '''' None ts) i = Inr t \<and> a = [TagShown t])"
  by (auto simp: tags_of_def map_sum_Inr split: sum.splits)

text \<open>The head shows what is chosen, wherever exactly one site and at least one project are chosen.\<close>

lemma head_shows:
  assumes "loc_reach sites projects st pj w" "CHR '','' \<notin> \<Union> (set (map (\<lambda>t. \<Union> (set ` tag_ids t)) projects))"
  shows "(length (lw_sites w) = 1 \<longrightarrow> tags_of sites [lw_sites w ! 0] = Inr (lw_site_shown w)) \<and>
    (lw_projs w \<noteq> [] \<longrightarrow> tags_of projects (lw_projs w) = Inr (lw_projs_shown w))"
  using assms(1)
proof induction
  case (lr_open w)
  from lr_open obtain a b where ab: "page_tags sites projects st pj = Inr (a, b)"
      "w = \<lparr>lw_sites = (if has_node sites st then [st] else []), lw_projs = (if has_node projects pj then [pj] else []),
         lw_site_shown = a, lw_projs_shown = b\<rparr>"
    by (auto simp: open_location_def map_sum_Inr)
  then have t: "tags_of sites [st] = Inr a" "tags_of projects (split_on CHR '','' pj) = Inr b"
    by (auto simp: page_tags_def map_sum_Inr split: sum.splits)
  have "split_on CHR '','' pj = [pj]" if "has_node projects pj"
    using that assms(2) by (intro split_on_free) (auto simp: has_node_def list_ex_iff)
  with ab t show ?case by auto
next
  case (lr_site w nodes w')
  then show ?case
    by (auto simp: site_selected_def Let_def map_sum_Inr split: if_splits)
next
  case (lr_proj w nodes w')
  then show ?case
    by (auto simp: proj_selected_def map_sum_Inr split: if_splits)
qed

text \<open>
  When the button of the window for locations is accepted, the page it goes to starts with the chosen
  location and projects, and shows in its head the tags the head of the window showed.
\<close>

theorem location_reopens:
  assumes "loc_reach sites projects st pj w" "location_go (lw_sites w) (lw_projs w) dbg = Inr url"
    and "CHR '','' \<notin> \<Union> (set (map (\<lambda>t. \<Union> (set ` tag_ids t)) projects))"
    and "list_all plain (lw_sites w)" "list_all plain (lw_projs w)" "list_all (\<lambda>i. CHR '','' \<notin> set i) (lw_projs w)"
  shows "start_query url = Inr (Front (lw_sites w ! 0) (join '','' (lw_projs w)) [] False) \<and>
    page_tags sites projects (lw_sites w ! 0) (join '','' (lw_projs w)) = Inr (lw_site_shown w, lw_projs_shown w)"
proof -
  have g: "length (lw_sites w) = 1" "lw_projs w \<noteq> []" using assms(2) by (auto simp: location_go_def split: if_splits)
  have "split_on CHR '','' (join '','' (lw_projs w)) = lw_projs w"
    using split_on_join [OF g(2)] assms(6) by (simp add: list_all_iff)
  with head_shows [OF assms(1,3)] g
  have "page_tags sites projects (lw_sites w ! 0) (join '','' (lw_projs w)) = Inr (lw_site_shown w, lw_projs_shown w)"
    by (simp add: page_tags_def)
  with location_read [OF assms(2,4,5)] show ?thesis by simp
qed

text \<open>
  On a page with several projects the head of the window shows them, but none is selected in the tree:
  the button refuses what is shown.
\<close>

lemma several_not_selected:
  assumes "open_location sites projects st pj = Inr w" "CHR '','' \<in> set pj"
    and "CHR '','' \<notin> \<Union> (set (map (\<lambda>t. \<Union> (set ` tag_ids t)) projects))" "has_node sites st"
  shows "location_go (lw_sites w) (lw_projs w) dbg = Inl ''selected_proj'' \<and>
    tags_of projects (split_on CHR '','' pj) = Inr (lw_projs_shown w)"
proof -
  have "\<not> has_node projects pj" using assms(2,3) by (auto simp: has_node_def list_ex_iff)
  with assms(1,4) show ?thesis
    by (auto simp: open_location_def map_sum_Inr page_tags_def location_go_def split: sum.splits)
qed

definition ex_projects :: "tag list" where
  "ex_projects = [Tag ''7'' ''Core'' '''' (Some 8) [Tag ''8'' ''Edge'' '''' (Some 4) []]]"

definition ex_location :: location_win where
  "ex_location = \<lparr>lw_sites = [''1''], lw_projs = [''7'', ''8''], lw_site_shown = [TagShown (''North'', [''North''])],
     lw_projs_shown = [TagShown (''Core'', [''Core'']), TagShown (''Core:Edge'', [''Edge''])]\<rparr>"

lemma ex_location_steps:
  "case open_location [Tag ''1'' ''North'' '''' None []] ex_projects ''1'' ''7'' of Inl e \<Rightarrow> False
     | Inr w \<Rightarrow> proj_selected ex_projects [''7'', ''8''] w = Inr ex_location"
  by code_simp

lemma location_reopens_witness:
  "location_go (lw_sites ex_location) (lw_projs ex_location) False = Inr ''?action=get_front&site=1&proj=7,8&file_key='' \<and>
   start_query ''?action=get_front&site=1&proj=7,8&file_key='' = Inr (Front ''1'' ''7,8'' [] False)"
proof -
  have g: "location_go (lw_sites ex_location) (lw_projs ex_location) False = Inr ''?action=get_front&site=1&proj=7,8&file_key=''"
    by code_simp
  have p: "list_all plain (lw_sites ex_location)" "list_all plain (lw_projs ex_location)"
    "list_all (\<lambda>i. CHR '','' \<notin> set i) (lw_projs ex_location)" "join '','' (lw_projs ex_location) = ''7,8''" "lw_sites ex_location ! 0 = ''1''"
    by code_simp+
  have c: "CHR '','' \<notin> \<Union> (set (map (\<lambda>t. \<Union> (set ` tag_ids t)) ex_projects))" by (simp add: ex_projects_def)
  obtain w where w: "open_location [Tag ''1'' ''North'' '''' None []] ex_projects ''1'' ''7'' = Inr w"
      "proj_selected ex_projects [''7'', ''8''] w = Inr ex_location"
    using ex_location_steps by (cases "open_location [Tag ''1'' ''North'' '''' None []] ex_projects ''1'' ''7''") (simp_all only: sum.case)
  have "loc_reach [Tag ''1'' ''North'' '''' None []] ex_projects ''1'' ''7'' ex_location"
    by (rule lr_proj [OF lr_open [OF w(1)] w(2)])
  from location_reopens [OF this g c p(1-3)] g show ?thesis by (simp only: p)
qed

end
