(* ===== verification/IfWindow.thy ===== *)
theory IfWindow
  imports Reports
begin

text \<open>
  The window of an interface (\<open>interface_win\<close>): the answer it opens on, the lines of its head, the
  tunnel, the addresses with their links, the graphs, and the parts under its buttons: the
  neighbours of CDP and LLDP, the tables of MACs and ARP entries, and the section of the interface in
  the configuration of its device. The model gives what the window shows, in the order it is
  appended; the positions and styles and the button of the debug mode are left out.
\<close>

section \<open>The answer\<close>

text \<open>
  What \<open>get_device\<close> sends of the interfaces beyond \<open>iface\<close>, by interface, the names of the
  VLANs and the text of the configuration. The tables \<open>macs\<close> and \<open>arp\<close> of the interfaces are those of
  \<open>od_device\<close>, which the offline answer fills.
\<close>

record if_more =
  ifIndex :: "string option"
  ifDelay :: "nat option"
  tunnelEncap :: "nat option"
  tunnelSec :: "nat option"
  tunnelSrc :: "string option"
  tunnelDst :: "string option"
  tunnelSrcDecoded :: "string option"
  tunnelDstDecoded :: "string option"

definition if_more0 :: if_more where
  "if_more0 = \<lparr>ifIndex = None, ifDelay = None, tunnelEncap = None, tunnelSec = None, tunnelSrc = None,
     tunnelDst = None, tunnelSrcDecoded = None, tunnelDstDecoded = None\<rparr>"

record full_device = od_device +
  fd_more :: "(if_name, if_more) obj"
  fd_vlanNames :: "(string, string) obj option"
  fd_config :: "string option"

datatype dev_answer = AnsFail | AnsDev full_device

definition more_of :: "full_device \<Rightarrow> if_name \<Rightarrow> if_more" where
  "more_of dv i = (case oget (fd_more dv) i of None \<Rightarrow> if_more0 | Some m \<Rightarrow> m)"

section \<open>The head\<close>

record tunnel_line =
  tl_encap :: string
  tl_encap_title :: string
  tl_sec :: string
  tl_sec_title :: string
  tl_src :: string
  tl_src_title :: string
  tl_dst :: string
  tl_dst_title :: string

definition encap_names :: "(nat \<times> string \<times> string) list" where
  "encap_names = [(1, ''Oth'', ''Encap: Other''), (2, ''Dir'', ''Encap: Direct''), (3, ''GRE'', ''Encap: GRE''),
     (4, ''Min'', ''Encap: Minimal''), (5, ''L2TP'', ''Encap: L2TP''), (6, ''PPTP'', ''Encap: PPTP''),
     (7, ''L2F'', ''Encap: L2F''), (8, ''UDP'', ''Encap: UDP''), (9, ''ATMP'', ''Encap: ATMP'')]"

definition sec_names :: "(nat \<times> string \<times> string) list" where
  "sec_names = [(1, ''None'', ''Sec: None''), (2, ''IPsec'', ''Sec: IPsec''), (3, ''Other'', ''Sec: Other'')]"

definition num_str :: "nat option \<Rightarrow> string" where
  "num_str v = undef_str (num_opt v)"

text \<open>A zero encapsulation is as good as none; \<open>Unknwon\<close> is how the source spells it.\<close>

definition tunnel_part :: "iface \<Rightarrow> if_more \<Rightarrow> tunnel_line option" where
  "tunnel_part f m = (case tunnelEncap m of
      None \<Rightarrow> None
    | Some n \<Rightarrow>
        if n = 0 then None
        else
          let (encap, encap_title) = (case oget encap_names n of None \<Rightarrow> (''Unk'', ''Unknown: '' @ nat_str n) | Some p \<Rightarrow> p);
              (sec, sec_title) = (case Option.bind (tunnelSec m) (oget sec_names) of
                 None \<Rightarrow> (''Unk'', ''Unknown: '' @ num_str (tunnelSec m)) | Some p \<Rightarrow> p);
              (src, src_title) = (case tunnelSrcDecoded m of
                 None \<Rightarrow> (''Unk'', ''Unknwon: '' @ undef_str (tunnelSrc m))
               | Some a \<Rightarrow> (a, a @ (case tunnelSrcIfName f of None \<Rightarrow> [] | Some i \<Rightarrow> '' ('' @ i @ '')'')));
              (dst, dst_title) = (case tunnelDstDecoded m of
                 None \<Rightarrow> (''Unk'', ''Unknwon: '' @ undef_str (tunnelDst m)) | Some a \<Rightarrow> (a, a))
          in Some \<lparr>tl_encap = encap, tl_encap_title = encap_title, tl_sec = sec, tl_sec_title = sec_title,
               tl_src = src, tl_src_title = src_title, tl_dst = dst, tl_dst_title = dst_title\<rparr>)"

text \<open>The line of an address: its text, the address of its popup, the links, what the button copies.\<close>

record ip_line =
  il_text :: string
  il_info :: string
  il_links :: "(string \<times> string) list"
  il_copy :: string

definition ip_links :: "string \<Rightarrow> (string \<times> string) list" where
  "ip_links ip = [(''SSH'', ''ssh://'' @ ip), (''TELNET'', ''telnet://'' @ ip), (''HTTP'', ''http://'' @ ip @ ''/''),
     (''HTTPS'', ''https://'' @ ip @ ''/''), (''IPDB'', ''/ipdb/?action=link&ip='' @ ip)]"

definition mk_ip_line :: "string \<times> ip_entry \<Rightarrow> ip_line" where
  "mk_ip_line p = (case p of (ip, e) \<Rightarrow> \<lparr>il_text = ip @ ''/'' @ nat_str (masklen e), il_info = ip,
     il_links = ip_links ip, il_copy = ip\<rparr>)"

definition ip_lines :: "(string \<Rightarrow> string \<Rightarrow> int) \<Rightarrow> (string, ip_entry) obj \<Rightarrow> ip_line list" where
  "ip_lines lc tab = concat (map (\<lambda>ip. case oget tab ip of None \<Rightarrow> [] | Some e \<Rightarrow> [mk_ip_line (ip, e)])
     (js_sort (num_compare lc) (okeys tab)))"

datatype win_item =
    WLabels string "string option"
  | WName string string "(nat \<times> string) option"
  | WTunnel tunnel_line
  | WAlias "string option"
  | WIps "ip_line list"
  | WGraph string bool

definition delay_title :: "nat \<Rightarrow> string" where
  "delay_title n = ''Cisco DLY: '' @ nat_str n @ ''\<newline>Config delay: '' @ nat_str (n div 10)"

definition name_line :: "if_name \<Rightarrow> iface \<Rightarrow> if_more \<Rightarrow> labels \<Rightarrow> win_item" where
  "name_line i f m im = WName (if ifDescr f \<noteq> Some [] then (case ifDescr f of None \<Rightarrow> [] | Some t \<Rightarrow> t) else i)
     (case oget im ''02_speed'' of None \<Rightarrow> ''n/d'' | Some l \<Rightarrow> short_text l)
     (map_option (\<lambda>n. (n div 10, delay_title n)) (ifDelay m))"

text \<open>
  A label is missing only with its interface, which was checked: the exceptions of \<open>int_metrics\<close> and
  \<open>int_labels\<close> cannot leave this function, and the model passes them on.
\<close>

definition head_items :: "(string \<Rightarrow> string \<Rightarrow> int) \<Rightarrow> bool \<Rightarrow> full_device \<Rightarrow> if_name \<Rightarrow> iface \<Rightarrow> exn + win_item list" where
  "head_items lc offline dv i f =
     (let d = device.truncate dv; m = more_of dv i
      in case (int_metrics i (Some d), int_labels i (Some d)) of
          (Inr im, Inr ls) \<Rightarrow> Inr
            ([WLabels ls (ifIndex m), name_line i f m im] @
             (case tunnel_part f m of None \<Rightarrow> [] | Some t \<Rightarrow> [WTunnel t]) @
             [WAlias (ifAlias f)] @
             (case ips f of None \<Rightarrow> [] | Some tab \<Rightarrow> [WIps (ip_lines lc tab)]) @
             (if dev_virtual dv \<or> offline then [] else [WGraph ''int_io'' False, WGraph ''int_pkts'' True]))
        | (Inl e, _) \<Rightarrow> Inl e
        | (_, Inl e) \<Rightarrow> Inl e)"

section \<open>The parts under the buttons\<close>

record nei_line =
  nl_proto :: string
  nl_cells :: "(string option \<times> string) list"
  nl_json :: string

datatype tab_rows =
    NeiRows "nei_line list"
  | MacRows "(string \<times> string \<times> string \<times> string) list"
  | ArpRows "(string \<times> string \<times> string) list"
  | ConfigText string

datatype tab_label = LCdp | LLldp | LMacs string | LArp nat | LConfig

record tab =
  tab_label :: tab_label
  tab_part :: string
  tab_open :: bool
  tab_rows :: tab_rows

definition noted :: "string \<Rightarrow> string option \<Rightarrow> string" where
  "noted label v = (case v of None \<Rightarrow> [] | Some t \<Rightarrow> label @ t)"

definition cdp_row :: "dev_id \<Rightarrow> if_name \<Rightarrow> neighbour \<Rightarrow> nei_line" where
  "cdp_row d i n =
     (let t = oget (nei_text n)
      in \<lparr>nl_proto = ''CDP'',
          nl_cells = [(t ''cdpRemAddrDecoded'', noted ''CAPS: '' (t ''cdpRemCapsDecoded'')),
            (t ''cdpRemDevId'', noted ''SW: '' (t ''cdpRemSoftware'')),
            (t ''cdpRemIfName'', noted ''Platform: '' (t ''cdpRemPlatform''))],
          nl_json = ''nei_cdp_json_'' @ i @ ''@'' @ d @ ''_'' @ undef_str (t ''cdpRemIfName'') @ ''@'' @ undef_str (t ''cdpRemDevId'')\<rparr>)"

text \<open>The first of the management addresses, whatever its key.\<close>

definition lldp_ip :: "neighbour \<Rightarrow> string" where
  "lldp_ip n = (case RemMgmtAddr n of None \<Rightarrow> ''no IP'' | Some [] \<Rightarrow> ''no IP'' | Some ((k, a) # m) \<Rightarrow> a)"

definition lldp_row :: "dev_id \<Rightarrow> if_name \<Rightarrow> neighbour \<Rightarrow> nei_line" where
  "lldp_row d i n =
     (let t = oget (nei_text n)
      in \<lparr>nl_proto = ''LLDP'',
          nl_cells = [(Some (lldp_ip n), noted ''CAPS: '' (t ''RemSysCapsDecoded'')),
            (Some (case t ''RemSysName'' of None \<Rightarrow> ''no name advertized'' | Some s \<Rightarrow> s), noted ''Descr: '' (t ''RemSysDescr'')),
            (t ''RemPortId'', noted ''PortDescr: '' (t ''RemPortDescr''))],
          nl_json = ''nei_json_'' @ i @ ''@'' @ d @ ''_'' @ undef_str (t ''RemPortId'') @ ''@'' @ undef_str (t ''RemChassisId'')\<rparr>)"

text \<open>
  The condition of the CDP part reads \<open>cdp_ports[cdp_portIndex]["neighbours"]\<close> at once; the one of the LLDP
  part checks every level first.
\<close>

definition cdp_found :: "device \<Rightarrow> iface \<Rightarrow> exn + (string, neighbour) obj option" where
  "cdp_found dv f = (case cdp_portIndex f of
      None \<Rightarrow> Inr None
    | Some ix \<Rightarrow> (case Option.bind (dev_cdp_ports dv) (\<lambda>ps. oget ps ix) of
        None \<Rightarrow> Inl TypeError
      | Some p \<Rightarrow> Inr (port_neighbours p)))"

definition lldp_found :: "device \<Rightarrow> iface \<Rightarrow> (string, neighbour) obj option" where
  "lldp_found dv f = port_neigs (dev_lldp_ports dv) (lldp_portIndex f)"

definition vlan_name :: "full_device \<Rightarrow> string \<Rightarrow> string" where
  "vlan_name dv vlan = (case fd_vlanNames dv of None \<Rightarrow> [] | Some ns \<Rightarrow> if_undef (oget ns vlan) [])"

text \<open>A row of the table of MACs: the VLAN, its name, the MAC as shown and as it is searched for.\<close>

definition mac_rows_of :: "(string \<Rightarrow> string \<Rightarrow> int) \<Rightarrow> full_device \<Rightarrow> (string, string list) obj \<Rightarrow> (string \<times> string \<times> string \<times> string) list" where
  "mac_rows_of lc dv tab = concat (map (\<lambda>vlan. case oget tab vlan of
       None \<Rightarrow> []
     | Some ms \<Rightarrow> map (\<lambda>mac. (vlan, vlan_name dv vlan, format_mac mac ''canonic'', mac)) (js_sort unit_cmp ms))
     (js_sort (num_compare lc) (okeys tab)))"

definition arp_rows_of :: "(string \<Rightarrow> string \<Rightarrow> int) \<Rightarrow> (string, string) obj \<Rightarrow> (string \<times> string \<times> string) list" where
  "arp_rows_of lc tab = concat (map (\<lambda>ip. case oget tab ip of
       None \<Rightarrow> [] | Some mac \<Rightarrow> [(ip, format_mac mac ''canonic'', mac)])
     (js_sort (num_compare lc) (okeys tab)))"

subsection \<open>The configuration\<close>

text \<open>
  \<open>new RegExp("^[Ii]nterface " + escapeRegex(descr) + "$")\<close> and \<open>new RegExp("^ ")\<close>, and the loop over
  the lines. The escaped text is always a pattern of ordinary characters.
\<close>

definition sect_reg :: "string \<Rightarrow> re" where
  "sect_reg descr = RSeq (RCls (\<lambda>c. c = CHR ''I'' \<or> c = CHR ''i'')) (RSeq (re_lit ''nterface '')
     (case lit_pattern (escapeRegex descr) of None \<Rightarrow> re.REmpty | Some p \<Rightarrow> re_lit p))"

definition sect_space :: re where
  "sect_space = re_lit '' ''"

definition config_step :: "string \<Rightarrow> string \<Rightarrow> string list \<times> bool \<Rightarrow> string list \<times> bool" where
  "config_step descr line st = (case st of (if_lines, if_sect) \<Rightarrow>
     if re_full (sect_reg descr) line then (if_lines @ [line], True)
     else if if_sect then
       if re_prefix sect_space line then (if_lines @ [line], True) else (if_lines, False)
     else (if_lines, if_sect))"

definition config_lines :: "string \<Rightarrow> string \<Rightarrow> string list" where
  "config_lines descr config = fst (fold (config_step descr) (split_on CHR 0x0A config) ([], False))"

definition config_of :: "full_device \<Rightarrow> iface \<Rightarrow> string list" where
  "config_of dv f = (case (fd_config dv, ifDescr f) of
      (Some cfg, Some descr) \<Rightarrow> if descr \<noteq> [] then config_lines descr cfg else []
    | _ \<Rightarrow> [])"

subsection \<open>All parts\<close>

text \<open>
  \<open>shows\<close> are the parts of the window that are open in \<open>win_parts\<close>; a window seen for the first time
  opens none.
\<close>

definition mk_tab :: "(string, (string, bool) obj) obj \<Rightarrow> string \<Rightarrow> tab_label \<Rightarrow> string \<Rightarrow> tab_rows \<Rightarrow> tab" where
  "mk_tab win_parts win_id l part rows = \<lparr>tab_label = l, tab_part = part, tab_open = get_win_part win_parts win_id part False, tab_rows = rows\<rparr>"

definition if_win_id :: "dev_id \<Rightarrow> if_name \<Rightarrow> string" where
  "if_win_id d i = ''int_win_'' @ i @ ''@'' @ d"

definition if_tabs :: "(string \<Rightarrow> string \<Rightarrow> int) \<Rightarrow> (string, (string, bool) obj) obj \<Rightarrow> full_device \<Rightarrow> dev_id \<Rightarrow> if_name \<Rightarrow> iface \<Rightarrow>
    (string, neighbour) obj option \<Rightarrow> tab list" where
  "if_tabs lc win_parts dv d i f cdp =
     (let mk = mk_tab win_parts (if_win_id d i)
      in (case cdp of None \<Rightarrow> [] | Some ns \<Rightarrow> [mk LCdp ''cdp'' (NeiRows (map (\<lambda>(k, n). cdp_row d i n) ns))]) @
         (case lldp_found (device.truncate dv) f of None \<Rightarrow> [] | Some ns \<Rightarrow> [mk LLldp ''lldp'' (NeiRows (map (\<lambda>(k, n). lldp_row d i n) ns))]) @
         (case oget (od_if_macs dv) i of None \<Rightarrow> [] | Some tab \<Rightarrow> [mk (LMacs (num_str (macs_count f))) ''macs'' (MacRows (mac_rows_of lc dv tab))]) @
         (case oget (od_if_arp dv) i of None \<Rightarrow> [] | Some tab \<Rightarrow> [mk (LArp (hash_length tab)) ''arp'' (ArpRows (arp_rows_of lc tab))]) @
         (if config_of dv f \<noteq> [] then [mk LConfig ''config'' (ConfigText (join [CHR 0x0A] (config_of dv f)))] else []))"

text \<open>
  The whole function: what is left of the data, and the dialogs, the contents and the parts that were
  shown when it ended. The device of the answer replaces the one of the page before the window is made.
\<close>

record if_window =
  iw_devs :: "(dev_id, device) obj"
  iw_dialogs :: "string list"
  iw_title :: "string option"
  iw_items :: "win_item list"
  iw_tabs :: "tab list"

definition no_window :: "(dev_id, device) obj \<Rightarrow> if_window" where
  "no_window ds = \<lparr>iw_devs = ds, iw_dialogs = [], iw_title = None, iw_items = [], iw_tabs = []\<rparr>"

definition interface_win :: "(string \<Rightarrow> string \<Rightarrow> int) \<Rightarrow> (string, (string, bool) obj) obj \<Rightarrow> bool \<Rightarrow> (dev_id, device) obj \<Rightarrow>
    dev_id \<Rightarrow> if_name \<Rightarrow> dev_answer \<Rightarrow> if_window run" where
  "interface_win lc win_parts offline ds d i ans = (case ans of
      AnsFail \<Rightarrow> Halt ((no_window ds)\<lparr>iw_dialogs := [''no device'']\<rparr>)
    | AnsDev dv \<Rightarrow> (case interfaces dv of
        None \<Rightarrow> Threw TypeError (no_window ds)
      | Some fs \<Rightarrow> (case oget fs i of
          None \<Rightarrow> Halt ((no_window ds)\<lparr>iw_dialogs := [''no interface'']\<rparr>)
        | Some f \<Rightarrow>
            let w = (no_window (oset d (device.truncate dv) ds))\<lparr>iw_title := Some (undef_str (dev_short_name dv) @ '': '' @ i)\<rparr>
            in case head_items lc offline dv i f of
                Inl e \<Rightarrow> Threw e w
              | Inr its \<Rightarrow>
                  let w = w\<lparr>iw_items := its\<rparr>
                  in case cdp_found (device.truncate dv) f of
                      Inl e \<Rightarrow> Threw e w
                    | Inr cdp \<Rightarrow> Done (w\<lparr>iw_tabs := if_tabs lc win_parts dv d i f cdp\<rparr>))))"

section \<open>Facts: the configuration\<close>

definition if_head :: "string \<Rightarrow> string \<Rightarrow> bool" where
  "if_head descr line \<longleftrightarrow> line = ''Interface '' @ descr \<or> line = ''interface '' @ descr"

definition indented :: "string \<Rightarrow> bool" where
  "indented line \<longleftrightarrow> (\<exists>t. line = CHR '' '' # t)"

lemma sect_reg_iff: "re_full (sect_reg descr) line \<longleftrightarrow> if_head descr line"
  by (auto simp: re_full_lang sect_reg_def if_head_def)

lemma sect_space_iff: "re_prefix sect_space line \<longleftrightarrow> indented line"
  unfolding sect_space_def re_prefix_lit indented_def by simp

lemma head_not_indented: "if_head descr line \<Longrightarrow> \<not> indented line"
  by (auto simp: if_head_def indented_def)

text \<open>The reference: every line that opens the section of the interface, with the indented lines after it.\<close>

function sections :: "string \<Rightarrow> string list \<Rightarrow> string list" where
  "sections descr [] = []"
| "sections descr (l # ls) =
     (if if_head descr l then l # takeWhile indented ls @ sections descr (dropWhile indented ls)
      else sections descr ls)"
  by pat_completeness auto
termination
  by (relation "measure (\<lambda>(d, ls). length ls)") (auto simp: le_imp_less_Suc length_dropWhile_le)

lemma sections_skip: "sections descr (dropWhile indented ls) = sections descr ls"
  by (induction ls) (auto dest: head_not_indented)

lemma config_fold: "fst (fold (config_step descr) ls (out, sect)) =
    out @ (if sect then takeWhile indented ls else []) @ sections descr (if sect then dropWhile indented ls else ls)"
proof (induction ls arbitrary: out sect)
  case (Cons l ls)
  have step: "config_step descr l (out, sect) =
      (if if_head descr l \<or> (sect \<and> indented l) then (out @ [l], True) else (out, False))" for sect
    by (auto simp: config_step_def sect_reg_iff sect_space_iff)
  show ?case using head_not_indented [of descr l]
    by (cases "if_head descr l"; cases "sect"; cases "indented l") (simp_all add: step Cons.IH sections_skip)
qed simp

lemma config_lines_sections: "config_lines descr cfg = sections descr (split_on CHR 0x0A cfg)"
  by (simp add: config_lines_def config_fold)

lemma sections_append:
  assumes "list_all indented ls" "ms = [] \<or> \<not> indented (hd ms)"
  shows "takeWhile indented (ls @ ms) = ls" "dropWhile indented (ls @ ms) = ms"
proof -
  have "takeWhile indented ms = [] \<and> dropWhile indented ms = ms" using assms(2) by (cases ms) auto
  then show "takeWhile indented (ls @ ms) = ls" "dropWhile indented (ls @ ms) = ms"
    using assms(1) by (induction ls) auto
qed

text \<open>
  A configuration made of blocks: a line that is not indented, and indented lines below it.
\<close>

definition block_lines :: "string \<times> string list \<Rightarrow> string list" where
  "block_lines b = fst b # snd b"

definition block_ok :: "string \<times> string list \<Rightarrow> bool" where
  "block_ok b \<longleftrightarrow> \<not> indented (fst b) \<and> list_all indented (snd b) \<and> list_all (\<lambda>l. CHR 0x0A \<notin> set l) (block_lines b)"

lemma sections_blocks: "list_all block_ok bs \<Longrightarrow>
    sections descr (concat (map block_lines bs)) = concat (map block_lines (filter (\<lambda>b. if_head descr (fst b)) bs))"
proof (induction bs)
  case (Cons b bs)
  obtain h ls where b: "b = (h, ls)" by (cases b)
  have "concat (map block_lines bs) = [] \<or> \<not> indented (hd (concat (map block_lines bs)))" using Cons.prems
    by (cases bs) (simp_all add: block_ok_def block_lines_def)
  moreover have "list_all indented ls" using Cons.prems by (simp add: b block_ok_def)
  ultimately have cut: "takeWhile indented (ls @ concat (map block_lines bs)) = ls"
      "dropWhile indented (ls @ concat (map block_lines bs)) = concat (map block_lines bs)"
    by (rule sections_append [rotated])+
  have "sections descr (ls @ concat (map block_lines bs)) = sections descr (concat (map block_lines bs))"
    using sections_skip [of descr "ls @ concat (map block_lines bs)"] unfolding cut by simp
  moreover have "block_lines b = h # ls" by (simp add: b block_lines_def)
  ultimately show ?case using Cons cut by (simp add: b)
qed simp

section \<open>Facts: how the window ends\<close>

lemma metrics_ok: "oget (dev_ifs d) i = Some f \<Longrightarrow> \<exists>im ls. int_metrics i (Some d) = Inr im \<and> int_labels i (Some d) = Inr ls"
  by (simp add: int_metrics_def int_labels_def)

lemma head_items_ok: "interfaces dv = Some fs \<Longrightarrow> oget fs i = Some f \<Longrightarrow> \<exists>its. head_items lc offline dv i f = Inr its"
  using metrics_ok [of "device.truncate dv" i f] by (auto simp: head_items_def Let_def dev_ifs_def device.truncate_def)

lemma interface_win_Done:
  assumes "interface_win lc wp offline ds d i (AnsDev dv) = Done w"
  obtains fs f cdp where "interfaces dv = Some fs" "oget fs i = Some f" "cdp_found (device.truncate dv) f = Inr cdp"
    "iw_tabs w = if_tabs lc wp dv d i f cdp" "iw_devs w = oset d (device.truncate dv) ds"
  using assms by (auto simp: interface_win_def Let_def no_window_def split: option.splits sum.splits)

text \<open>The port of CDP the interface names is not in the answer.\<close>

definition cdp_lost :: "device \<Rightarrow> iface \<Rightarrow> bool" where
  "cdp_lost d f \<longleftrightarrow> (\<exists>ix. cdp_portIndex f = Some ix \<and> (case dev_cdp_ports d of None \<Rightarrow> True | Some ps \<Rightarrow> \<not> has ps ix))"

lemma cdp_found_lost: "cdp_found d f = (if cdp_lost d f then Inl TypeError else Inr (port_neigs (dev_cdp_ports d) (cdp_portIndex f)))"
  by (auto simp: cdp_found_def cdp_lost_def has_def port_neigs_def split: option.splits)

lemma truncate_fields [simp]: "dev_cdp_ports (device.truncate dv) = dev_cdp_ports dv" "dev_lldp_ports (device.truncate dv) = dev_lldp_ports dv"
    "interfaces (device.truncate dv) = interfaces dv"
  by (simp_all add: device.truncate_def)

lemma window_opens:
  assumes "interfaces dv = Some fs" "oget fs i = Some f"
  shows "if cdp_lost (device.truncate dv) f
     then \<exists>its. interface_win lc wp offline ds d i (AnsDev dv) = Threw TypeError \<lparr>iw_devs = oset d (device.truncate dv) ds, iw_dialogs = [],
       iw_title = Some (undef_str (dev_short_name dv) @ '': '' @ i), iw_items = its, iw_tabs = []\<rparr> \<and> its \<noteq> []
     else \<exists>w. interface_win lc wp offline ds d i (AnsDev dv) = Done w"
proof -
  obtain its where its: "head_items lc offline dv i f = Inr its" using head_items_ok [OF assms, of lc offline] by blast
  then have "its \<noteq> []" by (auto simp: head_items_def Let_def split: sum.splits)
  with assms its show ?thesis by (simp add: interface_win_def cdp_found_lost no_window_def Let_def)
qed

section \<open>Facts: the tables\<close>

lemma mset_concat_opt: "distinct ks \<Longrightarrow> set ks = set (okeys tab) \<Longrightarrow> owf tab \<Longrightarrow>
    mset (concat (map (\<lambda>k. case oget tab k of None \<Rightarrow> [] | Some v \<Rightarrow> f k v) ks)) = mset (concat (map (\<lambda>(k, v). f k v) tab))"
proof -
  assume h: "distinct ks" "set ks = set (okeys tab)" "owf tab"
  let ?g = "\<lambda>k. case oget tab k of None \<Rightarrow> [] | Some v \<Rightarrow> f k v"
  have "mset ks = mset (okeys tab)" using h by (simp add: owf_def set_eq_iff_mset_eq_distinct)
  then have "mset (concat (map ?g ks)) = mset (concat (map ?g (okeys tab)))"
    unfolding mset_concat by (metis (no_types) mset_map sum_mset_sum_list)
  also have "map ?g (okeys tab) = map (\<lambda>(k, v). f k v) tab"
    using h(3) by (auto simp: okeys_def owf_def)
  finally show ?thesis .
qed


definition tab_pairs :: "(string, string list) obj \<Rightarrow> (string \<times> string) list" where
  "tab_pairs tab = [(v, m). (v, ms) \<leftarrow> tab, m \<leftarrow> ms]"

abbreviation mac_row_pair :: "string \<times> string \<times> string \<times> string \<Rightarrow> string \<times> string" where
  "mac_row_pair r \<equiv> (fst r, snd (snd (snd r)))"

lemma mac_rows_pairs:
  assumes "owf tab"
  shows "mset (map mac_row_pair (mac_rows_of lc dv tab)) = mset (tab_pairs tab)"
proof -
  let ?f = "\<lambda>v ms. map (\<lambda>mac. (v, mac)) (js_sort unit_cmp ms)"
  have keys: "distinct (js_sort (num_compare lc) (okeys tab))" "set (js_sort (num_compare lc) (okeys tab)) = set (okeys tab)"
    using assms by (simp_all add: owf_def)
  have "map mac_row_pair (mac_rows_of lc dv tab) =
      concat (map (\<lambda>v. case oget tab v of None \<Rightarrow> [] | Some ms \<Rightarrow> ?f v ms) (js_sort (num_compare lc) (okeys tab)))"
    by (simp add: mac_rows_of_def map_concat comp_def option.case_distrib [of "map mac_row_pair"] cong: option.case_cong)
  then have "mset (map mac_row_pair (mac_rows_of lc dv tab)) = mset (concat (map (\<lambda>(v, ms). ?f v ms) tab))"
    by (simp only: mset_concat_opt [OF keys assms])
  also have "\<dots> = mset (tab_pairs tab)"
    by (induction tab) (auto simp: tab_pairs_def)
  finally show ?thesis .
qed

lemma mac_rows_shown: "r \<in> set (mac_rows_of lc dv tab) \<Longrightarrow> \<exists>v m. r = (v, vlan_name dv v, format_mac m ''canonic'', m)"
  by (auto simp: mac_rows_of_def split: option.splits)

lemma arp_rows_pairs:
  assumes "owf tab"
  shows "mset (map (\<lambda>r. (fst r, snd (snd r))) (arp_rows_of lc tab)) = mset tab"
proof -
  have keys: "distinct (js_sort (num_compare lc) (okeys tab))" "set (js_sort (num_compare lc) (okeys tab)) = set (okeys tab)"
    using assms by (simp_all add: owf_def)
  have "map (\<lambda>r. (fst r, snd (snd r))) (arp_rows_of lc tab) =
      concat (map (\<lambda>v. case oget tab v of None \<Rightarrow> [] | Some m \<Rightarrow> [(v, m)]) (js_sort (num_compare lc) (okeys tab)))"
    by (simp add: arp_rows_of_def map_concat comp_def option.case_distrib [of "map (\<lambda>r. (fst r, snd (snd r)))"] cong: option.case_cong)
  then have "mset (map (\<lambda>r. (fst r, snd (snd r))) (arp_rows_of lc tab)) = mset (concat (map (\<lambda>(v, m). [(v, m)]) tab))"
    by (simp only: mset_concat_opt [OF keys assms])
  also have "\<dots> = mset tab" by (induction tab) auto
  finally show ?thesis .
qed

lemma sorted_blocks:
  assumes "sorted_wrt R ks" "\<And>x. R x x" "\<And>k x. x \<in> set (f k) \<Longrightarrow> key x = k"
  shows "sorted_wrt (\<lambda>a b. R (key a) (key b)) (concat (map f ks))"
  using assms(1)
proof (induction ks)
  case (Cons k ks)
  have "sorted_wrt (\<lambda>a b. R (key a) (key b)) (f k)"
    by (rule sorted_wrt_mono_rel [of _ "\<lambda>a b. True"]) (use assms(2,3) in \<open>auto simp: sorted_wrt_true\<close>)
  with Cons assms(3) show ?case by (auto simp: sorted_wrt_append)
qed simp

lemma num_refl: "comparator lc \<Longrightarrow> num_compare lc x x \<le> 0"
  using comparator.total [OF num_comparator, of lc x x] by simp

lemma mac_rows_sorted:
  "comparator lc \<Longrightarrow> sorted_wrt (\<lambda>a b. num_compare lc (fst a) (fst b) \<le> 0) (mac_rows_of lc dv tab)"
  unfolding mac_rows_of_def
  by (rule sorted_blocks [OF comparator.sorted_js_sort [OF num_comparator] num_refl])
    (auto split: option.splits)

lemma arp_rows_sorted:
  "comparator lc \<Longrightarrow> sorted_wrt (\<lambda>a b. num_compare lc (fst a) (fst b) \<le> 0) (arp_rows_of lc tab)"
  unfolding arp_rows_of_def
  by (rule sorted_blocks [OF comparator.sorted_js_sort [OF num_comparator] num_refl])
    (auto split: option.splits)

section \<open>Facts: the parts\<close>

definition part_rows :: "string \<Rightarrow> if_window \<Rightarrow> tab_rows list" where
  "part_rows part w = map tab_rows (filter (\<lambda>t. tab_part t = part) (iw_tabs w))"

lemma parts_shown:
  assumes "interface_win lc wp offline ds d i (AnsDev dv) = Done w"
  shows "part_rows ''macs'' w = (case oget (od_if_macs dv) i of None \<Rightarrow> [] | Some tab \<Rightarrow> [MacRows (mac_rows_of lc dv tab)])"
    and "part_rows ''arp'' w = (case oget (od_if_arp dv) i of None \<Rightarrow> [] | Some tab \<Rightarrow> [ArpRows (arp_rows_of lc tab)])"
    and "interfaces dv = Some fs \<Longrightarrow> oget fs i = Some f \<Longrightarrow> part_rows ''config'' w =
      (if config_of dv f \<noteq> [] then [ConfigText (join [CHR 0x0A] (config_of dv f))] else [])"
  using assms
  by (rule interface_win_Done; simp add: part_rows_def if_tabs_def mk_tab_def Let_def split: option.splits)+

section \<open>Facts: the offline answer\<close>

lemma attach_fold: "oget (fold (attach tables) ks att) j =
    (if j \<in> set ks then (case Option.bind tables (\<lambda>t. oget t j) of None \<Rightarrow> oget att j | Some v \<Rightarrow> Some v) else oget att j)"
  by (induction ks arbitrary: att) (auto simp: attach_def split: option.splits)

lemma attach_if_fold:
  "od_if_macs (fold (attach_if o1 d) ks dv) = fold (attach (oget (od_macs o1) d)) ks (od_if_macs dv)"
  "od_if_arp (fold (attach_if o1 d) ks dv) = fold (attach (oget (od_arp o1) d)) ks (od_if_arp dv)"
  "device.truncate (fold (attach_if o1 d) ks dv) = device.truncate dv"
  by (induction ks arbitrary: dv) (simp_all add: attach_if_def device.truncate_def)

text \<open>A device of the file as the window gets it: the offline answer, with the rest of its fields.\<close>

definition offline_device :: "od_device \<Rightarrow> (if_name, if_more) obj \<Rightarrow> (string, string) obj option \<Rightarrow> string option \<Rightarrow> full_device" where
  "offline_device dv extra names cfg = od_device.extend dv (full_device.fields extra names cfg)"

lemma offline_device_fields [simp]:
  "od_if_macs (offline_device dv extra names cfg) = od_if_macs dv"
  "od_if_arp (offline_device dv extra names cfg) = od_if_arp dv"
  "interfaces (offline_device dv extra names cfg) = interfaces dv"
  by (simp_all add: offline_device_def od_device.defs)

text \<open>
  The table the file has for an interface. The devices of a file start without attached tables; the
  offline answers attach only what the file has.
\<close>

definition file_tab :: "(dev_id, (if_name, 'v) obj) obj \<Rightarrow> dev_id \<Rightarrow> if_name \<Rightarrow> 'v option" where
  "file_tab tables d i = Option.bind (oget tables d) (\<lambda>t. oget t i)"

definition from_tables :: "(dev_id, (if_name, 'v) obj) obj \<Rightarrow> dev_id \<Rightarrow> (if_name, 'v) obj \<Rightarrow> bool" where
  "from_tables tables d att \<longleftrightarrow> list_all (\<lambda>i. oget att i = file_tab tables d i) (okeys att)"

definition attached_ok :: "od \<Rightarrow> bool" where
  "attached_ok o1 \<longleftrightarrow> list_all (\<lambda>(d, dv). from_tables (od_macs o1) d (od_if_macs dv) \<and> from_tables (od_arp o1) d (od_if_arp dv)) (od_devs o1)"

lemma from_tablesD: "from_tables tables d att \<Longrightarrow> oget att i = None \<or> oget att i = file_tab tables d i"
  by (auto simp: from_tables_def list_all_iff oget_None_iff)

lemma attach_from_tables:
  assumes "from_tables tables d att"
  shows "oget (fold (attach (oget tables d)) ks att) j = (if j \<in> set ks then file_tab tables d j else oget att j)"
  using from_tablesD [OF assms, of j] by (auto simp: attach_fold file_tab_def split: option.split)

lemma from_tables_iff: "from_tables tables d att \<longleftrightarrow> (\<forall>i. oget att i = None \<or> oget att i = file_tab tables d i)"
proof -
  have "i \<in> set (okeys att) \<longleftrightarrow> oget att i \<noteq> None" for i by (simp add: oget_None_iff)
  then show ?thesis unfolding from_tables_def list_all_iff by blast
qed

lemma attach_keeps:
  assumes "from_tables tables d att"
  shows "from_tables tables d (fold (attach (oget tables d)) ks att)"
  using assms unfolding from_tables_iff [of _ _ "fold f ks att" for f] attach_from_tables [OF assms] from_tables_iff [of _ _ att] by simp

lemma get_device_attached:
  assumes "attached_ok o1" "get_device o1 d = Inr (o2, dv)"
  shows "attached_ok o2" and "from_tables (od_macs o1) d (od_if_macs dv)" and "from_tables (od_arp o1) d (od_if_arp dv)"
    and "interfaces dv = Some fs \<Longrightarrow> oget fs i \<noteq> None \<Longrightarrow>
      oget (od_if_macs dv) i = file_tab (od_macs o1) d i \<and> oget (od_if_arp dv) i = file_tab (od_arp o1) d i"
proof -
  obtain dv0 where g0: "oget (od_devs o1) d = Some dv0" using assms(2) by (cases "oget (od_devs o1) d") (simp_all add: get_device_def)
  have g: "o2 = o1\<lparr>od_devs := oset d dv (od_devs o1)\<rparr>" "dv = fold (attach_if o1 d) (okeys (dev_ifs (device.truncate dv0))) dv0"
    using assms(2) unfolding get_device_def g0 option.case Let_def by (elim Inr_inject [THEN Pair_inject], simp only:)+
  have "(d, dv0) \<in> set (od_devs o1)" using g0 by (rule map_of_SomeD)
  then have t: "from_tables (od_macs o1) d (od_if_macs dv0)" "from_tables (od_arp o1) d (od_if_arp dv0)"
    using assms(1) by (auto simp: attached_ok_def list_all_iff)
  show m: "from_tables (od_macs o1) d (od_if_macs dv)" "from_tables (od_arp o1) d (od_if_arp dv)"
    using t by (simp_all add: g(2) attach_if_fold attach_keeps)
  have "x \<in> set (oset k v ps) \<Longrightarrow> x = (k, v) \<or> x \<in> set ps" for x k v and ps :: "(dev_id, od_device) obj"
    by (induction k v ps rule: oset.induct) (auto split: if_splits)
  from this [of _ d dv "od_devs o1"] show "attached_ok o2" using assms(1) m by (fastforce simp: attached_ok_def g(1) list_all_iff)
  show "oget (od_if_macs dv) i = file_tab (od_macs o1) d i \<and> oget (od_if_arp dv) i = file_tab (od_arp o1) d i"
    if "interfaces dv = Some fs" "oget fs i \<noteq> None"
  proof -
    have "interfaces dv0 = Some fs"
      using attach_if_fold(3) [of o1 d "okeys (dev_ifs (device.truncate dv0))" dv0] that(1) truncate_fields(3)
      by (metis g(2))
    then have "i \<in> set (okeys (dev_ifs (device.truncate dv0)))"
      using that(2) by (simp add: dev_ifs_def oget_None_iff)
    then show ?thesis by (simp add: g(2) attach_if_fold attach_from_tables [OF t(1)] attach_from_tables [OF t(2)])
  qed
qed

lemma offline_attached:
  assumes "offline_query compile bad o1 q = Inr (o2, r, msgs)" "attached_ok o1"
  shows "attached_ok o2"
proof (cases q)
  case (OGetDevice d)
  with assms get_device_attached(1) [OF assms(2), of d] show ?thesis by (auto simp: offline_query_def map_sum_Inr)
qed (use assms in \<open>auto simp: offline_query_def answer_def map_sum_Inr split: option.splits\<close>)

section \<open>Clicks on the buttons, reloading and closing\<close>

text \<open>
  A button shows or hides its part and remembers that; the reload button opens the window anew with
  the parts as remembered (and the scroll position, which is not modelled); closing forgets all.
\<close>

type_synonym parts = "(string, (string, bool) obj) obj"

definition tab_click :: "string \<Rightarrow> string \<Rightarrow> parts \<times> if_window \<Rightarrow> parts \<times> if_window" where
  "tab_click win_id part pw = (case pw of (wp, w) \<Rightarrow>
     let state = (\<not> get_win_part wp win_id part False)
     in (set_win_part win_id part state wp,
         w\<lparr>iw_tabs := map (\<lambda>t. if tab_part t = part then t\<lparr>tab_open := state\<rparr> else t) (iw_tabs w)\<rparr>))"

definition close_win :: "string \<Rightarrow> parts \<Rightarrow> parts" where
  "close_win win_id wp = odel win_id wp"

lemma get_set_win_part: "get_win_part (set_win_part win k v wp) win' k' df =
    (if win' = win \<and> k' = k then v else get_win_part wp win' k' df)"
  by (auto simp: get_win_part_def set_win_part_def Let_def split: option.splits)

definition set_open :: "(string \<Rightarrow> bool) \<Rightarrow> if_window \<Rightarrow> if_window" where
  "set_open shown_part w = w\<lparr>iw_tabs := map (\<lambda>t. t\<lparr>tab_open := shown_part (tab_part t)\<rparr>) (iw_tabs w)\<rparr>"

lemma tab_click_open:
  assumes "w = set_open (\<lambda>p. get_win_part wp win p False) w0"
  shows "tab_click win part (wp, w) = (set_win_part win part (\<not> get_win_part wp win part False) wp,
    set_open (\<lambda>p. get_win_part (set_win_part win part (\<not> get_win_part wp win part False) wp) win p False) w0)"
  by (auto simp: assms tab_click_def set_open_def Let_def get_set_win_part)

lemma tab_clicks_open:
  assumes "w = set_open (\<lambda>p. get_win_part wp win p False) w0" "fold (tab_click win) ps (wp, w) = (wp', w')"
  shows "w' = set_open (\<lambda>p. get_win_part wp' win p False) w0"
  using assms
proof (induction ps arbitrary: wp w)
  case (Cons p ps)
  show ?case
    by (rule Cons.IH [OF refl]) (use Cons.prems tab_click_open [OF Cons.prems(1), of p] in simp)
qed simp

lemma if_tabs_open: "if_tabs lc wp dv d i f cdp =
    map (\<lambda>t. t\<lparr>tab_open := get_win_part wp (if_win_id d i) (tab_part t) False\<rparr>) (if_tabs lc [] dv d i f cdp)"
  by (simp add: if_tabs_def mk_tab_def Let_def split: option.split)

lemma interface_win_open: "interface_win lc [] offline ds d i ans = Done w0 \<Longrightarrow>
    interface_win lc wp offline ds d i ans = Done (set_open (\<lambda>p. get_win_part wp (if_win_id d i) p False) w0)"
  using if_tabs_open [of lc wp]
  by (auto simp: interface_win_def set_open_def no_window_def Let_def split: dev_answer.splits option.splits sum.splits)

lemma interface_win_fresh: "interface_win lc wp offline ds d i ans = Done w \<Longrightarrow> \<exists>w0. interface_win lc [] offline ds d i ans = Done w0"
  by (auto simp: interface_win_def no_window_def Let_def split: dev_answer.splits option.splits sum.splits)

lemma window_reload:
  assumes "interface_win lc wp offline ds d i ans = Done w" "fold (tab_click (if_win_id d i)) ps (wp, w) = (wp', w')"
  shows "interface_win lc wp' offline ds d i ans = Done w'"
proof -
  obtain w0 where w0: "interface_win lc [] offline ds d i ans = Done w0" using interface_win_fresh [OF assms(1)] by blast
  have "w = set_open (\<lambda>p. get_win_part wp (if_win_id d i) p False) w0"
    using assms(1) interface_win_open [OF w0, of wp] by simp
  from tab_clicks_open [OF this assms(2)] interface_win_open [OF w0, of wp'] show ?thesis by simp
qed

lemma closed_forgets: "interface_win lc (close_win (if_win_id d i) wp) offline ds d i ans = Done w \<Longrightarrow> t \<in> set (iw_tabs w) \<Longrightarrow> \<not> tab_open t"
proof -
  assume h: "interface_win lc (close_win (if_win_id d i) wp) offline ds d i ans = Done w" "t \<in> set (iw_tabs w)"
  obtain w0 where "interface_win lc [] offline ds d i ans = Done w0" using interface_win_fresh [OF h(1)] by blast
  from interface_win_open [OF this, of "close_win (if_win_id d i) wp"] h show ?thesis
    by (auto simp: set_open_def close_win_def get_win_part_def)
qed

section \<open>Properties\<close>

text \<open>
  C16: The part with the configuration shows, of a configuration made of blocks, the blocks of this interface
  and nothing else, line by line and in their order; without such a block the window has no such part.
\<close>

theorem config_tab_exact:
  assumes "interface_win lc wp offline ds d i (AnsDev dv) = Done w" "interfaces dv = Some fs" "oget fs i = Some f"
    "ifDescr f = Some descr" "descr \<noteq> []" "list_all block_ok bs" "bs \<noteq> []"
    "fd_config dv = Some (join [CHR 0x0A] (concat (map block_lines bs)))"
  defines "own \<equiv> filter (\<lambda>b. if_head descr (fst b)) bs"
  shows "part_rows ''config'' w = (if own = [] then [] else [ConfigText (join [CHR 0x0A] (concat (map block_lines own)))])"
proof -
  have ls: "concat (map block_lines bs) \<noteq> []" using assms(7) by (cases bs) (simp_all add: block_lines_def)
  have free: "\<forall>l \<in> set (concat (map block_lines bs)). CHR 0x0A \<notin> set l"
    using assms(6) by (auto simp: block_ok_def list_all_iff)
  have "config_of dv f = concat (map block_lines own)"
    using assms(4,5,8) by (simp add: config_of_def config_lines_sections split_on_join [OF ls free] sections_blocks [OF assms(6)] own_def)
  moreover have "concat (map block_lines own) = [] \<longleftrightarrow> own = []" by (cases own) (simp_all add: block_lines_def)
  ultimately show ?thesis using parts_shown(3) [OF assms(1-3)] by simp
qed

text \<open>
  C14: Offline, whatever was asked before, the window of an interface lists exactly the MACs the file has for
  it, each once and in the order of VLANs, as \<open>format_mac\<close> prints them, and has no such part when the file has
  no table of MACs for it; and likewise the ARP entries, in the order of the addresses.
\<close>

theorem offline_if_window:
  assumes "comparator lc" "attached_ok o1" "get_device o1 d = Inr (o2, dv)"
    "interface_win lc wp True ds d i (AnsDev (offline_device dv extra names cfg)) = Done w"
    "pred_option owf (file_tab (od_macs o1) d i)" "pred_option owf (file_tab (od_arp o1) d i)"
  shows "(case file_tab (od_macs o1) d i of
      None \<Rightarrow> part_rows ''macs'' w = []
    | Some macs \<Rightarrow> \<exists>rows. part_rows ''macs'' w = [MacRows rows] \<and> mset (map mac_row_pair rows) = mset (tab_pairs macs) \<and>
        sorted_wrt (\<lambda>a b. num_compare lc (fst a) (fst b) \<le> 0) rows \<and>
        (\<forall>r \<in> set rows. fst (snd (snd r)) = format_mac (snd (snd (snd r))) ''canonic'')) \<and>
    (case file_tab (od_arp o1) d i of
      None \<Rightarrow> part_rows ''arp'' w = []
    | Some arp \<Rightarrow> \<exists>arps. part_rows ''arp'' w = [ArpRows arps] \<and> mset (map (\<lambda>r. (fst r, snd (snd r))) arps) = mset arp \<and>
        sorted_wrt (\<lambda>a b. num_compare lc (fst a) (fst b) \<le> 0) arps)"
proof -
  obtain fs f where "interfaces dv = Some fs" "oget fs i = Some f"
    using interface_win_Done [OF assms(4)] by (metis offline_device_fields(3))
  with get_device_attached(4) [OF assms(2,3)]
  have t: "oget (od_if_macs dv) i = file_tab (od_macs o1) d i" "oget (od_if_arp dv) i = file_tab (od_arp o1) d i" by simp_all
  show ?thesis
    using parts_shown(1,2) [OF assms(4)] mac_rows_pairs arp_rows_pairs mac_rows_sorted [OF assms(1)] arp_rows_sorted [OF assms(1)] assms(5,6)
    by (auto simp: t dest: mac_rows_shown split: option.split)
qed

text \<open>
  Whatever buttons of the window are clicked, reloading it with an unchanged answer gives the window as
  it stands on the page.
\<close>

theorem reload_keeps_window:
  assumes "interface_win lc wp offline ds d i ans = Done w" "fold (tab_click (if_win_id d i)) ps (wp, w) = (wp', w')"
  shows "interface_win lc wp' offline ds d i ans = Done w'"
  using assms by (rule window_reload)

text \<open>
  A missing CDP port, and nothing else, stops the window of an interface of the answer: the head is there
  and every button is missing, those of the tables and of the configuration too.
\<close>

theorem lost_cdp_port_stops:
  assumes "interfaces dv = Some fs" "oget fs i = Some f"
  shows "if cdp_lost (device.truncate dv) f
     then \<exists>w. interface_win lc wp offline ds d i (AnsDev dv) = Threw TypeError w \<and> iw_items w \<noteq> [] \<and> iw_tabs w = []
     else \<exists>w. interface_win lc wp offline ds d i (AnsDev dv) = Done w"
proof (cases "cdp_lost (device.truncate dv) f")
  case True
  with window_opens [OF assms, where lc = lc and wp = wp and offline = offline and ds = ds and d = d]
  show ?thesis by fastforce
next
  case False
  with window_opens [OF assms, where lc = lc and wp = wp and offline = offline and ds = ds and d = d]
  show ?thesis by simp
qed


section \<open>An example\<close>

definition ex_if :: iface where
  "ex_if = iface0\<lparr>ifName := ''Gi0/1'', ifDescr := Some ''Gi0/1'', macs_count := Some 3, cdp_portIndex := Some ''7''\<rparr>"

definition ex_od_dev :: od_device where
  "ex_od_dev = device.extend (device0\<lparr>dev_short_name := Some ''sw'', interfaces := Some [(''Gi0/1'', ex_if)],
      dev_cdp_ports := Some [(''7'', \<lparr>port_ifName = None, port_neighbours = None\<rparr>)]\<rparr>)
    (od_device.fields ''sw'' None None None [] [] [] [])"

definition ex_od :: od where
  "ex_od = \<lparr>od_devs = [(''d'', ex_od_dev)], od_macs = [(''d'', [(''Gi0/1'', [(''10'', [''0a0000000002'', ''0a0000000001'']), (''9'', [''0a0000000003''])])])],
     od_arp = [(''d'', [(''Gi0/1'', [(''10.0.0.10'', ''0a0000000001''), (''10.0.0.9'', ''0a0000000002'')])])],
     od_l2_links = [], od_l3_links = [], od_maps = [], od_site_tags = [], od_proj_tags = []\<rparr>"

definition ex_blocks :: "(string \<times> string list) list" where
  "ex_blocks = [(''interface Gi0/10'', ['' shutdown'']), (''interface Gi0/1'', ['' no shutdown'', '' mtu 9000'']), (''end'', [])]"

definition ex_answer :: full_device where
  "ex_answer = offline_device (fst (the (case get_device ex_od ''d'' of Inl e \<Rightarrow> None | Inr (o2, dv) \<Rightarrow> Some (dv, o2)))) [] None
     (Some (join [CHR 0x0A] (concat (map block_lines ex_blocks))))"

definition run_win :: "if_window run \<Rightarrow> if_window option" where
  "run_win r = (case r of Done w \<Rightarrow> Some w | _ \<Rightarrow> None)"

lemma run_win_Some: "run_win r = Some w \<Longrightarrow> r = Done w"
  by (cases r) (auto simp: run_win_def)

definition ex_run :: "if_window run" where
  "ex_run = interface_win unit_cmp [] True [] ''d'' ''Gi0/1'' (AnsDev ex_answer)"

lemma ex_run_ok: "\<exists>w. ex_run = Done w"
proof -
  have "run_win ex_run \<noteq> None" by code_simp
  then show ?thesis using run_win_Some by blast
qed

lemma config_tab_exact_witness:
  "\<exists>w. ex_run = Done w \<and> part_rows ''config'' w = [ConfigText ''interface Gi0/1\<newline> no shutdown\<newline> mtu 9000'']"
proof -
  obtain w where w: "ex_run = Done w" using ex_run_ok by blast
  have fs: "interfaces ex_answer = Some [(''Gi0/1'', ex_if)]" "oget [(''Gi0/1'', ex_if)] ''Gi0/1'' = Some ex_if"
    "ifDescr ex_if = Some ''Gi0/1''" "list_all block_ok ex_blocks" "ex_blocks \<noteq> []"
    "fd_config ex_answer = Some (join [CHR 0x0A] (concat (map block_lines ex_blocks)))"
    by (code_simp, code_simp, code_simp, simp add: ex_blocks_def block_ok_def block_lines_def indented_def, code_simp, code_simp)
  have own: "filter (\<lambda>b. if_head ''Gi0/1'' (fst b)) ex_blocks = [(''interface Gi0/1'', ['' no shutdown'', '' mtu 9000''])]" by code_simp
  have "part_rows ''config'' w = [ConfigText ''interface Gi0/1\<newline> no shutdown\<newline> mtu 9000'']"
    using config_tab_exact [OF w [unfolded ex_run_def] fs(1,2,3) _ fs(4,5,6)] by (simp add: own block_lines_def)
  with w show ?thesis by blast
qed

lemma offline_if_window_witness:
  "\<exists>w rows. ex_run = Done w \<and> part_rows ''macs'' w = [MacRows rows] \<and>
     mset (map mac_row_pair rows) = {#(''9'', ''0a0000000003''), (''10'', ''0a0000000001''), (''10'', ''0a0000000002'')#}"
proof -
  obtain w where w: "ex_run = Done w" using ex_run_ok by blast
  have "get_device ex_od ''d'' \<noteq> Inl TypeError" by code_simp
  then obtain o2 dv where dv: "get_device ex_od ''d'' = Inr (o2, dv)"
    by (cases "get_device ex_od ''d''") (auto simp: get_device_def Let_def split: option.splits)
  have ans: "ex_answer = offline_device dv [] None (Some (join [CHR 0x0A] (concat (map block_lines ex_blocks))))"
    by (simp add: ex_answer_def dv)
  have t: "file_tab (od_macs ex_od) ''d'' ''Gi0/1'' = Some [(''10'', [''0a0000000002'', ''0a0000000001'']), (''9'', [''0a0000000003''])]"
      "file_tab (od_arp ex_od) ''d'' ''Gi0/1'' = Some [(''10.0.0.10'', ''0a0000000001''), (''10.0.0.9'', ''0a0000000002'')]"
    by code_simp+
  have "attached_ok ex_od" by code_simp
  from offline_if_window [OF units.comparator_axioms this dv w [unfolded ex_run_def ans]] w t show ?thesis
    by (fastforce simp: owf_def tab_pairs_def)
qed

lemma reload_keeps_window_witness:
  "\<exists>w wp' w'. ex_run = Done w \<and> fold (tab_click (if_win_id ''d'' ''Gi0/1'')) [''macs'', ''arp'', ''macs''] ([], w) = (wp', w') \<and>
     interface_win unit_cmp wp' True [] ''d'' ''Gi0/1'' (AnsDev ex_answer) = Done w'"
proof -
  obtain w where w: "ex_run = Done w" using ex_run_ok by blast
  obtain wp' w' where f: "fold (tab_click (if_win_id ''d'' ''Gi0/1'')) [''macs'', ''arp'', ''macs''] ([], w) = (wp', w')"
    by (cases "fold (tab_click (if_win_id ''d'' ''Gi0/1'')) [''macs'', ''arp'', ''macs''] ([], w)")
  from reload_keeps_window [OF w [unfolded ex_run_def] f] w f show ?thesis by blast
qed

lemma lost_cdp_port_stops_witness:
  "\<exists>w. interface_win unit_cmp [] True [] ''d'' ''Gi0/1'' (AnsDev (ex_answer\<lparr>dev_cdp_ports := Some []\<rparr>)) = Threw TypeError w \<and> iw_tabs w = []"
proof -
  have d: "interfaces (ex_answer\<lparr>dev_cdp_ports := Some []\<rparr>) = Some [(''Gi0/1'', ex_if)]" "oget [(''Gi0/1'', ex_if)] ''Gi0/1'' = Some ex_if"
    by code_simp+
  have l: "cdp_lost (device.truncate (ex_answer\<lparr>dev_cdp_ports := Some []\<rparr>)) ex_if"
    by (simp add: cdp_lost_def ex_if_def has_def device.truncate_def)
  from lost_cdp_port_stops [OF d, where lc = unit_cmp and wp = "[]" and offline = True and ds = "[]" and d = "''d''"] l
  show ?thesis by auto
qed

end
