(* ===== verification/TopTalkers.thy ===== *)
theory TopTalkers
  imports IfStyle Sorting TextFns IpAddr
begin

text \<open>
  The table of the busiest flows in the window of a device (\<open>device_win\<close>): which rows of the SNMP tables
  make a record, the records, the cells of a row and the sorting of the table by its headers.
\<close>

section \<open>Records\<close>

text \<open>
  The SNMP tables of the device by name: numbers, and addresses as hexadecimal text. A row of
  \<open>topTalkersInIf\<close> makes a record when every other table has it; the test stops at the first that has
  not, and a table that is missing throws.
\<close>

record talk_tables =
  tk_InIf :: "(string, nat) obj"
  tk_nums :: "(string, (string, nat) obj) obj"
  tk_hexs :: "(string, (string, string) obj) obj"

definition talk_attrs :: "string list" where
  "talk_attrs = [''topTalkersBytes'', ''topTalkersDstIp'', ''topTalkersDstPort'', ''topTalkersFirst'', ''topTalkersLast'',
     ''topTalkersOutIf'', ''topTalkersProto'', ''topTalkersSrcIp'', ''topTalkersSrcPort'', ''topTalkersPkts'']"

definition attr_there :: "talk_tables \<Rightarrow> string \<Rightarrow> string \<Rightarrow> exn + bool" where
  "attr_there t a key = (case (oget (tk_nums t) a, oget (tk_hexs t) a) of
      (Some tab, _) \<Rightarrow> Inr (has tab key)
    | (None, Some tab) \<Rightarrow> Inr (has tab key)
    | (None, None) \<Rightarrow> Inl TypeError)"

fun full_row :: "talk_tables \<Rightarrow> string \<Rightarrow> string list \<Rightarrow> exn + bool" where
  "full_row t key [] = Inr True"
| "full_row t key (a # as) = (case attr_there t a key of
      Inl e \<Rightarrow> Inl e
    | Inr b \<Rightarrow> if b then full_row t key as else Inr False)"

definition tnum :: "talk_tables \<Rightarrow> string \<Rightarrow> string \<Rightarrow> nat" where
  "tnum t key a = (case Option.bind (oget (tk_nums t) a) (\<lambda>tab. oget tab key) of None \<Rightarrow> 0 | Some n \<Rightarrow> n)"

definition thex :: "talk_tables \<Rightarrow> string \<Rightarrow> string \<Rightarrow> string" where
  "thex t key a = (case Option.bind (oget (tk_hexs t) a) (\<lambda>tab. oget tab key) of None \<Rightarrow> [] | Some s \<Rightarrow> s)"

definition in_if :: "talk_tables \<Rightarrow> string \<Rightarrow> nat" where
  "in_if t key = (case oget (tk_InIf t) key of None \<Rightarrow> 0 | Some n \<Rightarrow> n)"

text \<open>The key of a flow, by which a second row of the same flow is skipped: seven texts one after another.\<close>

definition rec_key_of :: "talk_tables \<Rightarrow> string \<Rightarrow> string" where
  "rec_key_of t key = thex t key ''topTalkersSrcIp'' @ nat_str (tnum t key ''topTalkersSrcPort'') @
     thex t key ''topTalkersDstIp'' @ nat_str (tnum t key ''topTalkersDstPort'') @ nat_str (in_if t key) @
     nat_str (tnum t key ''topTalkersOutIf'') @ nat_str (tnum t key ''topTalkersProto'')"

record flow =
  fl_InIf :: nat
  fl_OutIf :: nat
  fl_SrcIP :: string
  fl_DstIP :: string
  fl_SrcPort :: nat
  fl_DstPort :: nat
  fl_Proto :: nat
  fl_duration :: int
  fl_Bytes :: nat
  fl_Pkts :: nat
  fl_divider :: nat
  fl_Speed :: string
  fl_Pps :: string
  fl_rec_key :: string

text \<open>
  \<open>Math.round\<close> of a quotient: the half goes up. The quotients are doubles; for numerators below \<open>2 ^ 52\<close>
  rounding the exact quotient gives the same.
\<close>

definition js_round :: "int \<Rightarrow> int \<Rightarrow> int" where
  "js_round a b = (2 * a + b) div (2 * b)"

definition mk_flow :: "talk_tables \<Rightarrow> string \<Rightarrow> flow" where
  "mk_flow t key =
     (let n = tnum t key;
          duration = js_round (int (n ''topTalkersLast'') - int (n ''topTalkersFirst'')) 100;
          divider = (if duration \<le> 0 then 1 else nat duration)
      in \<lparr>fl_InIf = in_if t key, fl_OutIf = n ''topTalkersOutIf'', fl_SrcIP = hex2ip (thex t key ''topTalkersSrcIp''),
          fl_DstIP = hex2ip (thex t key ''topTalkersDstIp''), fl_SrcPort = n ''topTalkersSrcPort'', fl_DstPort = n ''topTalkersDstPort'',
          fl_Proto = n ''topTalkersProto'', fl_duration = duration, fl_Bytes = n ''topTalkersBytes'', fl_Pkts = n ''topTalkersPkts'',
          fl_divider = divider,
          fl_Speed = kmg (nat_str (nat (js_round (int (n ''topTalkersBytes'' * 8)) (int divider)))) '' '' @ ''bps'',
          fl_Pps = kmg (nat_str (nat (js_round (int (n ''topTalkersPkts'')) (int divider)))) '' '' @ ''pps'',
          fl_rec_key = rec_key_of t key\<rparr>)"

fun talk_loop :: "talk_tables \<Rightarrow> string list \<Rightarrow> string list \<Rightarrow> exn + flow list" where
  "talk_loop t dupes [] = Inr []"
| "talk_loop t dupes (key # keys) = (case full_row t key talk_attrs of
      Inl e \<Rightarrow> Inl e
    | Inr full \<Rightarrow>
        if \<not> full \<or> rec_key_of t key \<in> set dupes then talk_loop t dupes keys
        else map_sum id ((#) (mk_flow t key)) (talk_loop t (rec_key_of t key # dupes) keys))"

definition talk_records :: "talk_tables \<Rightarrow> exn + flow list" where
  "talk_records t = talk_loop t [] (okeys (tk_InIf t))"

section \<open>Cells\<close>

definition protocols :: "(nat \<times> string) list" where
  "protocols = [(1, ''ICMP''), (2, ''IGMP''), (6, ''TCP''), (8, ''EGP''), (9, ''IGP''), (17, ''UDP''), (47, ''GRE''), (50, ''ESP''),
     (51, ''AH''), (88, ''EIGRP''), (89, ''OSPF''), (94, ''IPIP''), (115, ''L2TP'')]"

definition port_names :: "(nat \<times> string) list" where
  "port_names = [(0, ''None''), (20, ''FTPd''), (21, ''FTPc''), (22, ''SSH''), (23, ''Telnet''), (25, ''SMTP''), (53, ''DNS''),
     (67, ''BOOTPs''), (68, ''BOOTPc''), (69, ''TFTP''), (80, ''HTTP''), (88, ''KRBRS''), (110, ''POP3''), (123, ''NTP''),
     (137, ''NetBIOS-ns''), (138, ''NetBIOS-dt''), (139, ''NetBIOS-ss''), (143, ''IMAP''), (161, ''SNMP''), (162, ''SNMPtr''),
     (389, ''LDAP''), (443, ''HTTPS''), (445, ''MS-DS''), (500, ''ISAKMP''), (514, ''Syslog''), (515, ''PRN''), (554, ''RTSP''),
     (636, ''LDAPS''), (873, ''RSYNC''), (993, ''IMAPS''), (995, ''POP3S''), (1352, ''Lotus''), (1433, ''MSSQLs''),
     (1434, ''MSSQLm''), (1560, ''1C''), (1701, ''L2TP''), (1812, ''RADAUTH''), (1813, ''RADACCT''), (2049, ''NFS''),
     (3306, ''MySQL''), (3128, ''Squid''), (3389, ''MSRDP''), (4500, ''Ipsec''), (5650, ''RMS''), (6568, ''Anydesk'')]"

text \<open>A cell with a name in place of a number has the number as its title.\<close>

record num_cell =
  nc_text :: string
  nc_title :: "string option"
  nc_gray :: bool

definition proto_cell :: "nat \<Rightarrow> num_cell" where
  "proto_cell p = (case oget protocols p of
      None \<Rightarrow> \<lparr>nc_text = nat_str p, nc_title = None, nc_gray = False\<rparr>
    | Some s \<Rightarrow> \<lparr>nc_text = s, nc_title = Some (nat_str p), nc_gray = False\<rparr>)"

definition port_cell :: "nat \<Rightarrow> nat \<Rightarrow> num_cell" where
  "port_cell proto p =
     (let has_ports = (proto = 6 \<or> proto = 17)
      in case (if has_ports then oget port_names p else None) of
          None \<Rightarrow> \<lparr>nc_text = nat_str p, nc_title = None, nc_gray = \<not> has_ports\<rparr>
        | Some s \<Rightarrow> \<lparr>nc_text = s, nc_title = Some (nat_str p), nc_gray = False\<rparr>)"

text \<open>
  The cell of an interface: index 0 is the device itself, shown as the first interface with the address
  (with a star), or as local; other indexes are looked up by the device's names.
\<close>

datatype if_cell = LocalCell | UnknCell nat | NameCell if_name | IfCell string if_name string

definition own_if :: "device \<Rightarrow> string \<Rightarrow> if_name option" where
  "own_if dv ip = map_option fst (List.find (\<lambda>(i, f). case ips f of None \<Rightarrow> False | Some a \<Rightarrow> has a ip) (dev_ifs dv))"

definition flow_if :: "device \<Rightarrow> (string, if_name) obj option \<Rightarrow> nat \<Rightarrow> string \<Rightarrow> exn + if_cell" where
  "flow_if dv names ix ip =
     (let found = (if ix = 0 then own_if dv ip else None)
      in if found = None \<and> ix = 0 then Inr LocalCell
         else
           let name = (case found of Some i \<Rightarrow> Inr (Some i)
                 | None \<Rightarrow> (case names of None \<Rightarrow> Inl TypeError | Some ns \<Rightarrow> Inr (oget ns (nat_str ix))))
           in case name of
               Inl e \<Rightarrow> Inl e
             | Inr None \<Rightarrow> Inr (UnknCell ix)
             | Inr (Some i) \<Rightarrow> (case interfaces dv of
                   None \<Rightarrow> Inl TypeError
                 | Some fs \<Rightarrow> (case oget fs i of
                     None \<Rightarrow> Inr (NameCell i)
                   | Some f \<Rightarrow> Inr (IfCell (i @ (if ix = 0 then ''*'' else [])) i (case ifAlias f of None \<Rightarrow> [] | Some s \<Rightarrow> s)))))"

text \<open>The title of a duration, also of one below zero, of which \<open>wdhm\<close> drops the weeks.\<close>

definition duration_title :: "int \<Rightarrow> (nat \<times> unit_of_time) list" where
  "duration_title d = wdhm (nat (if 0 \<le> d then d else d mod (7 * 24 * 60 * 60)))"

record flow_row =
  fw_flow :: flow
  fw_in :: if_cell
  fw_src :: string
  fw_sport :: num_cell
  fw_proto :: num_cell
  fw_dport :: num_cell
  fw_dst :: string
  fw_out :: if_cell
  fw_bytes :: string
  fw_speed :: string
  fw_duration :: "(nat \<times> unit_of_time) list"
  fw_pps :: string
  fw_pkts :: string

definition mk_flow_row :: "device \<Rightarrow> (string, if_name) obj option \<Rightarrow> flow \<Rightarrow> exn + flow_row list" where
  "mk_flow_row dv names r = (case flow_if dv names (fl_InIf r) (fl_SrcIP r) of
      Inl e \<Rightarrow> Inl e
    | Inr inif \<Rightarrow> (case flow_if dv names (fl_OutIf r) (fl_DstIP r) of
        Inl e \<Rightarrow> Inl e
      | Inr outif \<Rightarrow> Inr [\<lparr>fw_flow = r, fw_in = inif, fw_src = fl_SrcIP r, fw_sport = port_cell (fl_Proto r) (fl_SrcPort r),
          fw_proto = proto_cell (fl_Proto r), fw_dport = port_cell (fl_Proto r) (fl_DstPort r), fw_dst = fl_DstIP r,
          fw_out = outif, fw_bytes = kmg (nat_str (fl_Bytes r)) '' '', fw_speed = fl_Speed r,
          fw_duration = duration_title (fl_duration r), fw_pps = fl_Pps r, fw_pkts = nat_str (fl_Pkts r) @ '' pkts''\<rparr>]))"

section \<open>Sorting by the headers\<close>

text \<open>
  \<open>SpeedNum\<close> and \<open>PpsNum\<close> are quotients by the same divider that \<open>Speed\<close> and \<open>Pps\<close> show, rounded to a
  double: \<open>dbl_quot a b = (m, e)\<close> is the double \<open>m / 2 ^ e\<close>. The sign of a difference of doubles is that
  of the exact difference. The table keeps its order and, per header, whether it is the one.
\<close>

definition dbl_quot :: "nat \<Rightarrow> nat \<Rightarrow> nat \<times> nat" where
  "dbl_quot a b =
     (if 2 ^ 52 * b \<le> a then let k = bit_len (a div b) - 53 in (div_even a (b * 2 ^ k) * 2 ^ k, 0)
      else let e = dbl_exp a b 0 in (div_even (a * 2 ^ e) b, e))"

definition dbl_diff :: "nat \<times> nat \<Rightarrow> nat \<times> nat \<Rightarrow> int" where
  "dbl_diff x y = int (fst x * 2 ^ snd y) - int (fst y * 2 ^ snd x)"

definition flow_field :: "string \<Rightarrow> flow \<Rightarrow> string" where
  "flow_field order r =
     (if order = ''InIf'' then nat_str (fl_InIf r) else if order = ''OutIf'' then nat_str (fl_OutIf r)
      else if order = ''SrcIP'' then fl_SrcIP r else if order = ''DstIP'' then fl_DstIP r else ''undefined'')"

definition flow_cmp :: "(string \<Rightarrow> string \<Rightarrow> int) \<Rightarrow> string \<Rightarrow> flow \<Rightarrow> flow \<Rightarrow> int" where
  "flow_cmp lc order a b =
     (if order = ''Bytes'' then int (fl_Bytes b) - int (fl_Bytes a)
      else if order = ''SpeedNum'' then dbl_diff (dbl_quot (fl_Bytes b * 8) (fl_divider b)) (dbl_quot (fl_Bytes a * 8) (fl_divider a))
      else if order = ''PpsNum'' then dbl_diff (dbl_quot (fl_Pkts b) (fl_divider b)) (dbl_quot (fl_Pkts a) (fl_divider a))
      else let c = num_compare lc (flow_field order a) (flow_field order b)
           in if c \<noteq> 0 then c else int (fl_Bytes b) - int (fl_Bytes a))"

record talk_table =
  tt_order :: string
  tt_flags :: "(string, bool) obj"
  tt_rows :: "flow_row list"

definition sort_fields :: "string list" where
  "sort_fields = [''InIf'', ''SrcIP'', ''DstIP'', ''OutIf'', ''Bytes'', ''SpeedNum'', ''PpsNum'']"

definition resort :: "(string \<Rightarrow> string \<Rightarrow> int) \<Rightarrow> talk_table \<Rightarrow> talk_table" where
  "resort lc t = t\<lparr>tt_rows := js_sort (\<lambda>a b. flow_cmp lc (tt_order t) (fw_flow a) (fw_flow b)) (tt_rows t),
     tt_flags := map (\<lambda>(k, v). (k, k = tt_order t)) (tt_flags t)\<rparr>"

text \<open>A header without a field, or the one the table is sorted by, does nothing.\<close>

definition head_click :: "(string \<Rightarrow> string \<Rightarrow> int) \<Rightarrow> string \<Rightarrow> talk_table \<Rightarrow> talk_table" where
  "head_click lc fld t = (case oget (tt_flags t) fld of
      None \<Rightarrow> t
    | Some state \<Rightarrow>
        if state then t
        else resort lc (t\<lparr>tt_flags := oset fld (\<not> state) (tt_flags t), tt_order := fld\<rparr>))"

definition talk_table_of :: "(string \<Rightarrow> string \<Rightarrow> int) \<Rightarrow> device \<Rightarrow> (string, if_name) obj option \<Rightarrow> talk_tables \<Rightarrow> exn + talk_table" where
  "talk_table_of lc dv names t = (case talk_records t of
      Inl e \<Rightarrow> Inl e
    | Inr rs \<Rightarrow> map_sum id (\<lambda>rows. resort lc \<lparr>tt_order = ''Bytes'', tt_flags = map (\<lambda>k. (k, False)) sort_fields, tt_rows = rows\<rparr>)
        (gather (mk_flow_row dv names) rs))"

section \<open>Facts: the records\<close>

definition tables_ok :: "talk_tables \<Rightarrow> bool" where
  "tables_ok t \<longleftrightarrow> list_all (\<lambda>a. oget (tk_nums t) a \<noteq> None \<or> oget (tk_hexs t) a \<noteq> None) talk_attrs"

definition in_table :: "talk_tables \<Rightarrow> string \<Rightarrow> string \<Rightarrow> bool" where
  "in_table t key a = (case (oget (tk_nums t) a, oget (tk_hexs t) a) of
      (Some tab, _) \<Rightarrow> has tab key | (None, Some tab) \<Rightarrow> has tab key | (None, None) \<Rightarrow> False)"

definition complete_row :: "talk_tables \<Rightarrow> string \<Rightarrow> bool" where
  "complete_row t key \<longleftrightarrow> list_all (in_table t key) talk_attrs"

lemma full_row_ok:
  "list_all (\<lambda>a. oget (tk_nums t) a \<noteq> None \<or> oget (tk_hexs t) a \<noteq> None) as \<Longrightarrow> full_row t key as = Inr (list_all (in_table t key) as)"
  by (induction "as") (auto simp: attr_there_def in_table_def split: option.splits)

lemma full_row_complete: "tables_ok t \<Longrightarrow> full_row t key talk_attrs = Inr (complete_row t key)"
  by (simp add: full_row_ok tables_ok_def complete_row_def)

text \<open>The rows that are shown: of the complete ones, those whose key no earlier one has.\<close>

fun first_rows :: "talk_tables \<Rightarrow> string set \<Rightarrow> string list \<Rightarrow> string list" where
  "first_rows t seen [] = []"
| "first_rows t seen (k # ks) =
     (if complete_row t k \<and> rec_key_of t k \<notin> seen then k # first_rows t (insert (rec_key_of t k) seen) ks
      else first_rows t seen ks)"

lemma talk_loop_first: "tables_ok t \<Longrightarrow> talk_loop t seen ks = Inr (map (mk_flow t) (first_rows t (set seen) ks))"
  by (induction ks arbitrary: seen) (auto simp: full_row_complete)

lemma first_rows_sub: "k \<in> set (first_rows t seen ks) \<Longrightarrow> k \<in> set ks"
  by (induction t seen ks rule: first_rows.induct) (auto split: if_splits)

lemma first_rows_keys: "rec_key_of t ` set (first_rows t seen ks) = rec_key_of t ` {k \<in> set ks. complete_row t k} - seen"
proof (induction ks arbitrary: seen)
  case (Cons k ks)
  have "{x \<in> set (k # ks). complete_row t x} = (if complete_row t k then {k} else {}) \<union> {x \<in> set ks. complete_row t x}" by auto
  then show ?case using Cons by (auto simp del: first_rows.simps(1))
qed simp

lemma first_rows_distinct: "distinct (map (rec_key_of t) (first_rows t seen ks))"
proof (induction ks arbitrary: seen)
  case (Cons k ks)
  have "rec_key_of t k \<notin> rec_key_of t ` set (first_rows t (insert (rec_key_of t k) seen) ks)"
    by (simp add: first_rows_keys)
  then show ?case using Cons by auto
qed simp

lemma mk_flow_key [simp]: "fl_rec_key (mk_flow t k) = rec_key_of t k"
  by (simp add: mk_flow_def Let_def)

lemma talk_records_first: "tables_ok t \<Longrightarrow> talk_records t = Inr (map (mk_flow t) (first_rows t {} (okeys (tk_InIf t))))"
  using talk_loop_first [of t "[]"] by (simp add: talk_records_def)

lemma key_once: "distinct (map f xs) \<Longrightarrow> v \<in> f ` set xs \<Longrightarrow> length (filter (\<lambda>x. f x = v) xs) = 1"
proof (induction xs)
  case (Cons x xs)
  then show ?case by (cases "f x = v") (auto simp: filter_empty_conv image_iff)
qed simp

lemma record_once:
  assumes "tables_ok t" "k \<in> set (okeys (tk_InIf t))" "complete_row t k"
  shows "\<exists>rs. talk_records t = Inr rs \<and> length (filter (\<lambda>r. fl_rec_key r = rec_key_of t k) rs) = 1"
proof -
  let ?ks = "first_rows t {} (okeys (tk_InIf t))"
  have "length (filter (\<lambda>x. rec_key_of t x = rec_key_of t k) ?ks) = 1"
    by (rule key_once [OF first_rows_distinct]) (use assms(2,3) in \<open>auto simp: first_rows_keys\<close>)
  then have "length (filter (\<lambda>r. fl_rec_key r = rec_key_of t k) (map (mk_flow t) ?ks)) = 1"
    by (simp add: filter_map comp_def)
  with talk_records_first [OF assms(1)] show ?thesis by (intro exI conjI)
qed

section \<open>Facts: the sorting\<close>

lemma doubles: "comparator (\<lambda>a b. dbl_diff (f b) (f a))"
  using quotients [of "\<lambda>a. 2 ^ snd (f a)" "\<lambda>a. fst (f a)"] by (simp add: dbl_diff_def)

lemma flow_comparator:
  assumes "comparator lc"
  shows "comparator (flow_cmp lc order)"
proof -
  have num: "comparator (\<lambda>a b. num_compare lc (flow_field order a) (flow_field order b))"
    by (rule comparator.by_key [OF num_comparator [OF assms]])
  note larger = larger_first [of fl_Bytes]
  consider "order = ''Bytes''" | "order = ''SpeedNum''" | "order = ''PpsNum''"
    | "order \<noteq> ''Bytes'' \<and> order \<noteq> ''SpeedNum'' \<and> order \<noteq> ''PpsNum''" by blast
  then have "comparator (\<lambda>a b. flow_cmp lc order a b)"
  proof cases
    case 1
    then show ?thesis using larger by (simp add: flow_cmp_def)
  next
    case 2
    then show ?thesis using doubles [of "\<lambda>a. dbl_quot (fl_Bytes a * 8) (fl_divider a)"] by (simp add: flow_cmp_def)
  next
    case 3
    then show ?thesis using doubles [of "\<lambda>a. dbl_quot (fl_Pkts a) (fl_divider a)"] by (simp add: flow_cmp_def)
  next
    case 4
    then show ?thesis using then_by [OF num larger] by (simp add: flow_cmp_def Let_def)
  qed
  then show ?thesis .
qed

definition flow_le :: "(string \<Rightarrow> string \<Rightarrow> int) \<Rightarrow> string \<Rightarrow> flow_row \<Rightarrow> flow_row \<Rightarrow> bool" where
  "flow_le lc order a b \<longleftrightarrow> flow_cmp lc order (fw_flow a) (fw_flow b) \<le> 0"

lemma resort_sorted:
  assumes "comparator lc"
  shows "sorted_wrt (flow_le lc order) (js_sort (\<lambda>a b. flow_cmp lc order (fw_flow a) (fw_flow b)) rows)"
  unfolding flow_le_def
  by (rule comparator.sorted_js_sort [OF comparator.by_key [OF flow_comparator [OF assms]]])

text \<open>
  What holds of the table between clicks: the rows of the start, in the order the table is sorted by, of
  which exactly the header is marked.
\<close>

definition table_inv :: "(string \<Rightarrow> string \<Rightarrow> int) \<Rightarrow> flow_row multiset \<Rightarrow> talk_table \<Rightarrow> bool" where
  "table_inv lc rows t \<longleftrightarrow> mset (tt_rows t) = rows \<and> sorted_wrt (flow_le lc (tt_order t)) (tt_rows t) \<and>
     tt_order t \<in> set sort_fields \<and> tt_flags t = map (\<lambda>k. (k, k = tt_order t)) sort_fields"

lemma resort_inv:
  assumes "comparator lc" "map fst (tt_flags t) = sort_fields" "tt_order t \<in> set sort_fields"
  shows "table_inv lc (mset (tt_rows t)) (resort lc t)"
proof -
  have "map (\<lambda>(k, v). (k, k = tt_order t)) (tt_flags t) = map (\<lambda>k. (k, k = tt_order t)) sort_fields"
    unfolding assms(2) [symmetric] by (simp add: case_prod_unfold)
  with assms(3) show ?thesis using resort_sorted [OF assms(1), of "tt_order t" "tt_rows t"]
    by (simp add: table_inv_def resort_def)
qed

lemma keys_oset_old: "has ps k \<Longrightarrow> map fst (oset k v ps) = map fst ps"
  by (induction k v ps rule: oset.induct) (auto simp: has_def split: if_splits)

lemma head_click_inv [js_inv]:
  assumes "comparator lc" "table_inv lc rows t"
  shows "table_inv lc rows (head_click lc fld t)"
proof (cases "oget (tt_flags t) fld")
  case (Some state)
  let ?t = "t\<lparr>tt_flags := oset fld (\<not> state) (tt_flags t), tt_order := fld\<rparr>"
  have flags: "map fst (tt_flags t) = sort_fields" and rows: "mset (tt_rows t) = rows"
    using assms(2) by (simp_all add: table_inv_def comp_def)
  have "fld \<in> set sort_fields"
    using oget_in_okeys [OF Some] by (simp add: okeys_def flags)
  moreover have "map fst (tt_flags ?t) = sort_fields"
    using keys_oset_old [of "tt_flags t" fld "\<not> state"] Some by (simp add: has_def flags)
  ultimately have "table_inv lc (mset (tt_rows ?t)) (resort lc ?t)"
    by (intro resort_inv) (use assms(1) in simp_all)
  with assms(2) Some rows show ?thesis by (cases state) (simp_all add: head_click_def)
qed (use assms(2) in \<open>simp add: head_click_def\<close>)

lemma gather_flow_rows: "gather (mk_flow_row dv names) rs = Inr rows \<Longrightarrow> map fw_flow rows = rs"
  by (induction rs arbitrary: rows) (auto simp: mk_flow_row_def split: sum.splits)

lemma table_start:
  assumes "comparator lc" "talk_table_of lc dv names t = Inr tab"
  shows "\<exists>rs rows. talk_records t = Inr rs \<and> image_mset fw_flow rows = mset rs \<and> table_inv lc rows tab"
proof -
  obtain rs rows where r: "talk_records t = Inr rs" "gather (mk_flow_row dv names) rs = Inr rows"
      "tab = resort lc \<lparr>tt_order = ''Bytes'', tt_flags = map (\<lambda>k. (k, False)) sort_fields, tt_rows = rows\<rparr>"
    using assms(2) by (auto simp: talk_table_of_def map_sum_Inr split: sum.splits)
  have flows: "map fw_flow rows = rs" by (rule gather_flow_rows [OF r(2)])
  have "table_inv lc (mset rows) tab"
    unfolding r(3) using resort_inv [OF assms(1), of "\<lparr>tt_order = ''Bytes'', tt_flags = map (\<lambda>k. (k, False)) sort_fields, tt_rows = rows\<rparr>"]
    by (simp add: comp_def) (simp add: sort_fields_def)
  moreover have "image_mset fw_flow (mset rows) = mset rs" by (simp flip: flows mset_map)
  ultimately show ?thesis using r(1) by blast
qed

lemma clicks_inv:
  assumes "comparator lc"
  shows "table_inv lc rows t \<Longrightarrow> table_inv lc rows (fold (head_click lc) flds t)"
  by (induction flds arbitrary: t) (simp_all add: head_click_inv [OF assms])

text \<open>With all tables, the names and the interfaces there, the table is made.\<close>

lemma flow_if_ok: "interfaces dv \<noteq> None \<Longrightarrow> names \<noteq> None \<Longrightarrow> \<exists>c. flow_if dv names ix ip = Inr c"
  by (auto simp: flow_if_def Let_def split: option.splits)

lemma talk_table_ok:
  assumes "tables_ok t" "interfaces dv \<noteq> None" "names \<noteq> None"
  shows "\<exists>tab. talk_table_of lc dv names t = Inr tab"
proof -
  have "\<exists>ys. gather (mk_flow_row dv names) rs = Inr ys \<and> (\<forall>y \<in> set ys. True)" for rs
  proof (rule gather_all)
    show "\<exists>zs. mk_flow_row dv names r = Inr zs \<and> (\<forall>z \<in> set zs. True)" for r
      using flow_if_ok [OF assms(2,3), of "fl_InIf r" "fl_SrcIP r"] flow_if_ok [OF assms(2,3), of "fl_OutIf r" "fl_DstIP r"]
      by (auto simp: mk_flow_row_def)
  qed
  with talk_records_first [OF assms(1)] show ?thesis by (auto simp: talk_table_of_def map_sum_Inr)
qed

section \<open>Properties\<close>

text \<open>
  C15: Whatever headers are clicked, the table holds exactly the records, sorted by the column of its order,
  whose header is the only one marked.
\<close>

theorem talkers_sorted:
  assumes "comparator lc" "talk_table_of lc dv names t = Inr tab"
  shows "\<exists>rs. talk_records t = Inr rs \<and> mset (map fw_flow (tt_rows (fold (head_click lc) flds tab))) = mset rs \<and>
    sorted_wrt (flow_le lc (tt_order (fold (head_click lc) flds tab))) (tt_rows (fold (head_click lc) flds tab)) \<and>
    tt_flags (fold (head_click lc) flds tab) = map (\<lambda>k. (k, k = tt_order (fold (head_click lc) flds tab))) sort_fields \<and>
    tt_order (fold (head_click lc) flds tab) \<in> set sort_fields"
proof -
  obtain rs rows where r: "talk_records t = Inr rs" "image_mset fw_flow rows = mset rs" "table_inv lc rows tab"
    using table_start [OF assms] by blast
  from clicks_inv [OF assms(1) r(3), of flds] r(1,2) show ?thesis
    by (simp add: table_inv_def)
qed

text \<open>
  Two flows between the same ends whose interface indexes read the same one after the other, such as
  1 and 12 or 11 and 2, are shown as one: the table has a single row for both.
\<close>

theorem flows_merged:
  assumes "tables_ok t" "k1 \<in> set (okeys (tk_InIf t))" "k2 \<in> set (okeys (tk_InIf t))" "complete_row t k1" "complete_row t k2"
    "\<And>a. a \<in> {''topTalkersSrcIp'', ''topTalkersDstIp''} \<Longrightarrow> thex t k1 a = thex t k2 a"
    "\<And>a. a \<in> {''topTalkersSrcPort'', ''topTalkersDstPort'', ''topTalkersProto''} \<Longrightarrow> tnum t k1 a = tnum t k2 a"
    "nat_str (in_if t k1) @ nat_str (tnum t k1 ''topTalkersOutIf'') = nat_str (in_if t k2) @ nat_str (tnum t k2 ''topTalkersOutIf'')"
  shows "\<exists>rs. talk_records t = Inr rs \<and> length (filter (\<lambda>r. fl_rec_key r \<in> {rec_key_of t k1, rec_key_of t k2}) rs) = 1"
proof -
  have "rec_key_of t k1 = rec_key_of t k2"
    using assms(6,7) assms(8) by (simp add: rec_key_of_def)
  then show ?thesis using record_once [OF assms(1,2,4)] by simp
qed

section \<open>An example\<close>

definition ex_talk :: talk_tables where
  "ex_talk = \<lparr>tk_InIf = [(''0'', 1), (''1'', 11), (''2'', 3)],
     tk_nums = [(''topTalkersBytes'', [(''0'', 5), (''1'', 9), (''2'', 7)]), (''topTalkersDstPort'', [(''0'', 43), (''1'', 43), (''2'', 53)]),
       (''topTalkersFirst'', [(''0'', 0), (''1'', 0), (''2'', 0)]), (''topTalkersLast'', [(''0'', 100), (''1'', 100), (''2'', 90)]),
       (''topTalkersOutIf'', [(''0'', 12), (''1'', 2), (''2'', 12)]), (''topTalkersProto'', [(''0'', 6), (''1'', 6), (''2'', 17)]),
       (''topTalkersSrcPort'', [(''0'', 40), (''1'', 40), (''2'', 41)]), (''topTalkersPkts'', [(''0'', 5), (''1'', 100), (''2'', 50)])],
     tk_hexs = [(''topTalkersDstIp'', [(''0'', ''0a000001''), (''1'', ''0a000001''), (''2'', ''0a000001'')]),
       (''topTalkersSrcIp'', [(''0'', ''0a000002''), (''1'', ''0a000002''), (''2'', ''0a000003'')])]\<rparr>"

definition ex_talk_table :: "exn + talk_table" where
  "ex_talk_table = talk_table_of unit_cmp (device0\<lparr>interfaces := Some []\<rparr>) (Some []) ex_talk"

lemma talkers_sorted_witness:
  "\<exists>tab. ex_talk_table = Inr tab \<and> length (tt_rows (fold (head_click unit_cmp) [''SrcIP'', ''SpeedNum''] tab)) = 2"
proof -
  have ok: "tables_ok ex_talk" by code_simp
  obtain tab where tab: "ex_talk_table = Inr tab"
    unfolding ex_talk_table_def using talk_table_ok [OF ok, of "device0\<lparr>interfaces := Some []\<rparr>" "Some []" unit_cmp] by auto
  have n: "length (first_rows ex_talk {} (okeys (tk_InIf ex_talk))) = 2" by code_simp
  obtain rs where rs: "talk_records ex_talk = Inr rs"
      "mset (map fw_flow (tt_rows (fold (head_click unit_cmp) [''SrcIP'', ''SpeedNum''] tab))) = mset rs"
    using talkers_sorted [OF units.comparator_axioms tab [unfolded ex_talk_table_def], of "[''SrcIP'', ''SpeedNum'']"] by blast
  have "length rs = 2" using n rs(1) talk_records_first [OF ok] by (metis Inr_inject length_map)
  with mset_eq_length [OF rs(2)] tab show ?thesis by (intro exI [of _ tab]) simp
qed

lemma flows_merged_witness:
  "\<exists>rs. talk_records ex_talk = Inr rs \<and> length (filter (\<lambda>r. fl_rec_key r \<in> {rec_key_of ex_talk ''0'', rec_key_of ex_talk ''1''}) rs) = 1"
proof (rule flows_merged)
  show "tables_ok ex_talk" by code_simp
  show "''0'' \<in> set (okeys (tk_InIf ex_talk))" "''1'' \<in> set (okeys (tk_InIf ex_talk))" by code_simp+
  show "complete_row ex_talk ''0''" "complete_row ex_talk ''1''" by code_simp+
  have "list_all (\<lambda>a. thex ex_talk ''0'' a = thex ex_talk ''1'' a) [''topTalkersSrcIp'', ''topTalkersDstIp'']" by code_simp
  then show "thex ex_talk ''0'' a = thex ex_talk ''1'' a" if "a \<in> {''topTalkersSrcIp'', ''topTalkersDstIp''}" for a
    using that by auto
  have "list_all (\<lambda>a. tnum ex_talk ''0'' a = tnum ex_talk ''1'' a) [''topTalkersSrcPort'', ''topTalkersDstPort'', ''topTalkersProto'']" by code_simp
  then show "tnum ex_talk ''0'' a = tnum ex_talk ''1'' a" if "a \<in> {''topTalkersSrcPort'', ''topTalkersDstPort'', ''topTalkersProto''}" for a
    using that by auto
  show "nat_str (in_if ex_talk ''0'') @ nat_str (tnum ex_talk ''0'' ''topTalkersOutIf'') = nat_str (in_if ex_talk ''1'') @ nat_str (tnum ex_talk ''1'' ''topTalkersOutIf'')"
    by code_simp
qed

end
