(* ===== verification/Entities.thy ===== *)
theory Entities
  imports Reports
begin

text \<open>
  The tree of the hardware of a device (\<open>inv_ent\<close>): every entity names its parent, the window of the
  device shows those without a parent and below each its children. Proved: for a hardware table
  that is a forest every entity is shown exactly once.
\<close>

section \<open>The tree\<close>

record ents =
  invEntName :: "(string, string) obj option"
  invEntDescr :: "(string, string) obj option"
  invEntFwRev :: "(string, string) obj option"
  invEntHwRev :: "(string, string) obj option"
  invEntSwRevs :: "(string, string) obj option"
  invEntMfg :: "(string, string) obj option"
  invEntModel :: "(string, string) obj option"
  invEntSerial :: "(string, string) obj option"
  invEntType :: "(string, nat) obj option"
  invEntParents :: "(string, nat) obj"
  invEntOrder :: "(string, int) obj option"

text \<open>A field the table has is taken as text, so that a missing entry shows as the word undefined.\<close>

definition ent_text :: "(string, string) obj option \<Rightarrow> string \<Rightarrow> string" where
  "ent_text tab key = (case tab of None \<Rightarrow> [] | Some m \<Rightarrow> trim (undef_str (oget m key)))"

definition ent_types :: "string list" where
  "ent_types = [''Other'', ''Unknown'', ''Chassis'', ''Backplane'', ''Container'', ''PSU'', ''FAN'', ''Sensor'', ''Module'',
     ''Port'', ''Stack'', ''CPU'']"

definition ent_type_text :: "nat option \<Rightarrow> string" where
  "ent_type_text t = (case t of None \<Rightarrow> ''Undef''
     | Some n \<Rightarrow> if 1 \<le> n \<and> n \<le> length ent_types then ent_types ! (n - 1) else nat_str n)"

text \<open>The lines of the box of an entity, and its title.\<close>

definition ent_lines :: "ents \<Rightarrow> string \<Rightarrow> string list" where
  "ent_lines e key =
     (let descr = ent_text (invEntDescr e) key; serial = ent_text (invEntSerial e) key;
          hw_rev = ent_text (invEntHwRev e) key; fw_rev = ent_text (invEntFwRev e) key; sw_rev = ent_text (invEntSwRevs e) key;
          mfg = ent_text (invEntMfg e) key; model = ent_text (invEntModel e) key;
          revision_a = (if hw_rev \<noteq> [] then [''HW Rev: '' @ hw_rev] else []) @
            (if fw_rev \<noteq> [] then [''FW Rev: '' @ fw_rev] else []) @ (if sw_rev \<noteq> [] then [''SW Rev: '' @ sw_rev] else []);
          model_a = (if mfg \<noteq> [] then [mfg] else []) @ (if model \<noteq> [] then [model] else [])
      in [ent_text (invEntName e) key] @ (if descr \<noteq> [] then [descr] else []) @
         [''Type: '' @ ent_type_text (case invEntType e of None \<Rightarrow> None | Some m \<Rightarrow> oget m key) @
            (if serial \<noteq> [] then '' Serial: '' @ serial else [])] @
         (if revision_a \<noteq> [] then [join '', '' revision_a] else []) @
         (if model_a \<noteq> [] then [join '' '' model_a] else []))"

definition ent_children :: "ents \<Rightarrow> string \<Rightarrow> string list" where
  "ent_children e key = map fst (filter (\<lambda>(child, p). Some p = js_number key) (invEntParents e))"

text \<open>
  Sorting by \<open>invEntOrder\<close>; an entity without an order compares as equal to all (\<open>NaN\<close>), and when
  there is no table of orders comparing throws.
\<close>

definition order_cmp :: "(string, int) obj \<Rightarrow> string \<Rightarrow> string \<Rightarrow> int" where
  "order_cmp ord a b = (case (oget ord a, oget ord b) of (Some x, Some y) \<Rightarrow> x - y | _ \<Rightarrow> 0)"

definition sort_children :: "ents \<Rightarrow> string list \<Rightarrow> exn + string list" where
  "sort_children e cs = (case invEntOrder e of
      None \<Rightarrow> if length cs > 1 then Inl TypeError else Inr cs
    | Some ord \<Rightarrow> Inr (js_sort (order_cmp ord) cs))"

text \<open>
  \<open>EntCut\<close> is the empty box beyond 101 levels, after an error message. The number is the level,
  which is the indentation.
\<close>

datatype ent_tree = EntCut | Ent string nat "string list" "ent_tree list"

function inv_ent :: "ents \<Rightarrow> string \<Rightarrow> nat \<Rightarrow> exn + ent_tree" where
  "inv_ent e key level =
     (if level > 100 then Inr EntCut
      else (case sort_children e (ent_children e key) of
          Inl x \<Rightarrow> Inl x
        | Inr cs \<Rightarrow> map_sum id (Ent key level (ent_lines e key))
            (gather (\<lambda>c. map_sum id (\<lambda>t. [t]) (inv_ent e c (level + 1))) cs)))"
  by pat_completeness auto
termination by (relation "measure (\<lambda>(e, key, level). 101 - level)") auto

declare inv_ent.simps [simp del]

definition inventory_tab :: "ents \<Rightarrow> exn + ent_tree list" where
  "inventory_tab e = gather (\<lambda>(key, p). if p = 0 then map_sum id (\<lambda>t. [t]) (inv_ent e key 0) else Inr []) (invEntParents e)"

section \<open>Every entity once\<close>

text \<open>The entities of a tree with their levels, from top to bottom, and whether nothing is cut off.\<close>

fun tree_items :: "ent_tree \<Rightarrow> (string \<times> nat) list" where
  "tree_items EntCut = []"
| "tree_items (Ent key n ls ts) = (key, n) # concat (map tree_items ts)"

fun whole :: "ent_tree \<Rightarrow> bool" where
  "whole EntCut = False"
| "whole (Ent key n ls ts) = list_all whole ts"

text \<open>
  A forest: the entities are numbered from 1, each has no parent (0) or one of the table, and
  \<open>d\<close> is the number of its ancestors, at most 100.
\<close>

definition par :: "ents \<Rightarrow> string \<Rightarrow> nat" where
  "par e key = (case oget (invEntParents e) key of None \<Rightarrow> 0 | Some p \<Rightarrow> p)"

definition ent_keys :: "ents \<Rightarrow> string set" where
  "ent_keys e = set (okeys (invEntParents e))"

definition up :: "ents \<Rightarrow> string \<Rightarrow> string" where
  "up e key = nat_str (par e key)"

definition forest :: "ents \<Rightarrow> (string \<Rightarrow> nat) \<Rightarrow> bool" where
  "forest e d \<longleftrightarrow> owf (invEntParents e) \<and> invEntOrder e \<noteq> None \<and>
     (\<forall>key \<in> ent_keys e. js_number key = Some (str_nat key) \<and> nat_str (str_nat key) = key \<and>
        str_nat key \<noteq> 0 \<and> d key \<le> 100 \<and>
        (if par e key = 0 then d key = 0 else up e key \<in> ent_keys e \<and> d key = d (up e key) + 1))"

text \<open>An entity is below those it reaches by going up to their level.\<close>

definition below :: "ents \<Rightarrow> (string \<Rightarrow> nat) \<Rightarrow> string \<Rightarrow> string \<Rightarrow> bool" where
  "below e d key j \<longleftrightarrow> j \<in> ent_keys e \<and> d key \<le> d j \<and> (up e ^^ (d j - d key)) j = key"

lemma forestD:
  assumes "forest e d" "key \<in> ent_keys e"
  shows "js_number key = Some (str_nat key)" "nat_str (str_nat key) = key" "str_nat key \<noteq> 0" "d key \<le> 100"
    "par e key = 0 \<longleftrightarrow> d key = 0" "par e key \<noteq> 0 \<Longrightarrow> up e key \<in> ent_keys e \<and> d key = d (up e key) + 1"
  using assms by (auto simp: forest_def split: if_splits)

lemma oget_owf: "owf ps \<Longrightarrow> oget ps k = Some v \<longleftrightarrow> (k, v) \<in> set ps"
  by (simp add: owf_def okeys_def)

lemma children_set:
  assumes "forest e d" "key \<in> ent_keys e"
  shows "set (ent_children e key) = {c \<in> ent_keys e. par e c \<noteq> 0 \<and> up e c = key}"
proof (rule set_eqI)
  fix c
  have owf: "owf (invEntParents e)" using assms(1) by (simp add: forest_def)
  have "c \<in> set (ent_children e key) \<longleftrightarrow> (c, str_nat key) \<in> set (invEntParents e)"
    by (force simp: ent_children_def forestD(1) [OF assms])
  also have "\<dots> \<longleftrightarrow> oget (invEntParents e) c = Some (str_nat key)" by (simp add: oget_owf [OF owf])
  also have "\<dots> \<longleftrightarrow> c \<in> ent_keys e \<and> par e c = str_nat key"
    using forestD(3) [OF assms] by (auto simp: par_def ent_keys_def oget_None_iff [symmetric] dest: oget_in_okeys split: option.splits)
  also have "\<dots> \<longleftrightarrow> c \<in> ent_keys e \<and> par e c \<noteq> 0 \<and> up e c = key"
    using forestD(2,3) [OF assms] by (auto simp: up_def simp del: nat_str.simps)
  finally show "c \<in> set (ent_children e key) \<longleftrightarrow> c \<in> {c \<in> ent_keys e. par e c \<noteq> 0 \<and> up e c = key}" by simp
qed

lemma children_distinct: "forest e d \<Longrightarrow> distinct (ent_children e key)"
  by (simp add: ent_children_def forest_def owf_def okeys_def distinct_map_filter)

lemma up_iter:
  assumes "forest e d" "j \<in> ent_keys e"
  shows "m \<le> d j \<Longrightarrow> (up e ^^ m) j \<in> ent_keys e \<and> d ((up e ^^ m) j) = d j - m"
proof (induction m)
  case (Suc m)
  then have m: "(up e ^^ m) j \<in> ent_keys e" "d ((up e ^^ m) j) = d j - m" by simp_all
  with Suc.prems have "par e ((up e ^^ m) j) \<noteq> 0" using forestD(5) [OF assms(1) m(1)] by simp
  with forestD(6) [OF assms(1) m(1)] m have "up e ((up e ^^ m) j) \<in> ent_keys e" "d j - m = d (up e ((up e ^^ m) j)) + 1" by simp_all
  then show ?case by simp
qed (simp add: assms(2))

lemma below_step:
  assumes "forest e d" "key \<in> ent_keys e"
  shows "below e d key j \<longleftrightarrow> j = key \<or> (\<exists>c \<in> set (ent_children e key). below e d c j)"
proof
  assume b: "below e d key j"
  show "j = key \<or> (\<exists>c \<in> set (ent_children e key). below e d c j)"
  proof (cases "d j - d key")
    case (Suc m)
    let ?c = "(up e ^^ m) j"
    have c: "?c \<in> ent_keys e" "d ?c = d j - m" "up e ?c = key"
      using up_iter [OF assms(1), of j m] b Suc by (simp_all add: below_def)
    then have "par e ?c \<noteq> 0" using forestD(5) [OF assms(1) c(1)] Suc by simp
    moreover have "d j - (d j - m) = m" using Suc by simp
    then have "below e d ?c j" using b c(2) by (simp add: below_def)
    ultimately show ?thesis using c by (auto simp: children_set [OF assms])
  next
    case 0
    with b show ?thesis by (metis below_def funpow_0)
  qed
next
  assume "j = key \<or> (\<exists>c \<in> set (ent_children e key). below e d c j)"
  then show "below e d key j"
  proof
    assume "\<exists>c \<in> set (ent_children e key). below e d c j"
    then obtain c where c: "c \<in> ent_keys e" "par e c \<noteq> 0" "up e c = key" "below e d c j"
      by (auto simp: children_set [OF assms])
    have "d c = d key + 1" using forestD(6) [OF assms(1) c(1,2)] c(3) by simp
    then have "d j - d key = Suc (d j - d c)" "d key \<le> d j" using c(4) by (auto simp: below_def)
    then show ?thesis using c by (simp add: below_def)
  qed (use assms(2) in \<open>simp add: below_def\<close>)
qed

lemma below_unique: "below e d a j \<Longrightarrow> below e d b j \<Longrightarrow> d a = d b \<Longrightarrow> a = b"
  by (auto simp: below_def)

lemma distinct_concat_map:
  assumes "distinct xs" "\<And>x. x \<in> set xs \<Longrightarrow> distinct (f x)"
    "\<And>x y z. x \<in> set xs \<Longrightarrow> y \<in> set xs \<Longrightarrow> z \<in> set (f x) \<Longrightarrow> z \<in> set (f y) \<Longrightarrow> x = y"
  shows "distinct (concat (map f xs))"
  using assms
proof (induction xs)
  case (Cons x xs)
  have "distinct (concat (map f xs))" by (rule Cons.IH) (use Cons.prems in auto)
  moreover have "set (f x) \<inter> set (concat (map f xs)) = {}" using Cons.prems(1) Cons.prems(3) [of x] by fastforce
  ultimately show ?case using Cons.prems(2) [of x] by simp
qed simp

definition shows_below :: "ents \<Rightarrow> (string \<Rightarrow> nat) \<Rightarrow> string \<Rightarrow> ent_tree \<Rightarrow> bool" where
  "shows_below e d key t \<longleftrightarrow> distinct (map fst (tree_items t)) \<and> set (tree_items t) = (\<lambda>j. (j, d j)) ` {j. below e d key j} \<and> whole t"

lemma map_items: "map fst (concat (map tree_items ts)) = concat (map (\<lambda>t. map fst (tree_items t)) ts)"
  by (simp add: map_concat comp_def)

text \<open>Trees of different entities of one level have nothing in common.\<close>

lemma trees_apart:
  assumes "distinct cs" "\<And>c. c \<in> set cs \<Longrightarrow> shows_below e d c (T c)" "\<And>c. c \<in> set cs \<Longrightarrow> d c = n"
  shows "distinct (map fst (concat (map tree_items (map T cs))))"
    "set (concat (map tree_items (map T cs))) = (\<lambda>j. (j, d j)) ` {j. \<exists>c \<in> set cs. below e d c j}"
proof -
  have m: "c \<in> set cs \<Longrightarrow> set (map fst (tree_items (T c))) = {j. below e d c j}" for c
    using assms(2) [of c] by (auto simp: shows_below_def image_image)
  have "distinct (concat (map (\<lambda>c. map fst (tree_items (T c))) cs))"
    using assms m below_unique [of e d] by (intro distinct_concat_map) (auto simp: shows_below_def)
  then show "distinct (map fst (concat (map tree_items (map T cs))))" unfolding map_items by (simp add: comp_def)
  show "set (concat (map tree_items (map T cs))) = (\<lambda>j. (j, d j)) ` {j. \<exists>c \<in> set cs. below e d c j}"
    using assms(2) by (auto simp: shows_below_def)
qed

lemma gather_each:
  assumes "\<And>c. c \<in> set cs \<Longrightarrow> f c = Inr (T c)"
  shows "gather (\<lambda>c. map_sum id (\<lambda>t. [t]) (f c)) cs = Inr (map T cs)"
proof -
  have "gather (\<lambda>c. map_sum id (\<lambda>t. [t]) (f c)) cs = Inr (concat (map (\<lambda>c. [T c]) cs))"
    by (rule gather_ok) (simp add: assms)
  then show ?thesis by (simp add: concat_map_singleton)
qed

lemma inv_ent_shows:
  assumes f: "forest e d"
  shows "key \<in> ent_keys e \<Longrightarrow> \<exists>t. inv_ent e key (d key) = Inr t \<and> shows_below e d key t"
proof (induction "100 - d key" arbitrary: key rule: less_induct)
  case less
  obtain ord where ord: "invEntOrder e = Some ord" using f by (auto simp: forest_def)
  define cs where "cs = js_sort (order_cmp ord) (ent_children e key)"
  have cs: "c \<in> set cs \<longleftrightarrow> c \<in> ent_keys e \<and> par e c \<noteq> 0 \<and> up e c = key" for c
    by (simp add: cs_def children_set [OF f less.prems])
  have "\<exists>t. inv_ent e c (d key + 1) = Inr t \<and> shows_below e d c t \<and> d c = d key + 1" if c: "c \<in> set cs" for c
  proof -
    have k: "c \<in> ent_keys e" "par e c \<noteq> 0" "up e c = key" using c cs by auto
    have "d c = d key + 1" "d c \<le> 100" using forestD(4,6) [OF f k(1)] k(2,3) by auto
    with less.hyps [of c] k(1) show ?thesis by simp
  qed
  then obtain T where T: "\<And>c. c \<in> set cs \<Longrightarrow> inv_ent e c (d key + 1) = Inr (T c)"
    "\<And>c. c \<in> set cs \<Longrightarrow> shows_below e d c (T c)" "\<And>c. c \<in> set cs \<Longrightarrow> d c = d key + 1"
    by metis
  let ?t = "Ent key (d key) (ent_lines e key) (map T cs)"
  have "\<not> d key > 100" using forestD(4) [OF f less.prems] by simp
  then have "inv_ent e key (d key) = Inr ?t"
    using gather_each [of cs "\<lambda>c. inv_ent e c (d key + 1)" T] T(1)
    by (simp add: inv_ent.simps [of e key] sort_children_def ord cs_def [symmetric])
  moreover have "shows_below e d key ?t"
  proof -
    have "distinct cs" by (simp add: cs_def children_distinct [OF f])
    note apart = trees_apart [OF this T(2,3)]
    have b: "below e d key j \<longleftrightarrow> j = key \<or> (\<exists>c \<in> set cs. below e d c j)" for j
      using below_step [OF f less.prems] by (simp add: cs_def)
    have "\<not> below e d c key" if "c \<in> set cs" for c using T(3) [OF that] by (auto simp: below_def)
    moreover have "fst ` set (concat (map tree_items (map T cs))) = {j. \<exists>c \<in> set cs. below e d c j}"
      by (simp only: apart(2) image_image fst_conv image_ident)
    ultimately have "key \<notin> fst ` set (concat (map tree_items (map T cs)))" by blast
    moreover have "list_all whole (map T cs)" using T(2) by (auto simp: list_all_iff shows_below_def)
    moreover have "{j. below e d key j} = insert key {j. \<exists>c \<in> set cs. below e d c j}" using b by blast
    ultimately show ?thesis
      unfolding shows_below_def tree_items.simps whole.simps list.set list.map distinct.simps set_map fst_conv
      using apart by simp
  qed
  ultimately show ?case by blast
qed

text \<open>
  C12: when the hardware table of a device is a forest of at most 101 levels, its window shows every
  entity of the table exactly once, on the level of its ancestors, and cuts nothing off.
\<close>

theorem inventory_complete:
  assumes "forest e d"
  shows "\<exists>ts. inventory_tab e = Inr ts \<and> distinct (map fst (concat (map tree_items ts))) \<and>
    set (concat (map tree_items ts)) = (\<lambda>j. (j, d j)) ` ent_keys e \<and> list_all whole ts"
proof -
  define roots where "roots = map fst (filter (\<lambda>(key, p). p = 0) (invEntParents e))"
  have owf: "owf (invEntParents e)" using assms by (simp add: forest_def)
  have r: "c \<in> set roots \<longleftrightarrow> c \<in> ent_keys e \<and> d c = 0" for c
  proof -
    have "c \<in> set roots \<longleftrightarrow> (c, 0) \<in> set (invEntParents e)" by (force simp: roots_def)
    also have "\<dots> \<longleftrightarrow> oget (invEntParents e) c = Some 0" by (simp add: oget_owf [OF owf])
    also have "\<dots> \<longleftrightarrow> c \<in> ent_keys e \<and> par e c = 0"
      by (cases "oget (invEntParents e) c") (auto simp: par_def ent_keys_def oget_None_iff dest: oget_in_okeys)
    also have "\<dots> \<longleftrightarrow> c \<in> ent_keys e \<and> d c = 0" using forestD(5) [OF assms] by blast
    finally show ?thesis .
  qed
  then obtain T where T: "\<And>c. c \<in> set roots \<Longrightarrow> inv_ent e c 0 = Inr (T c)" "\<And>c. c \<in> set roots \<Longrightarrow> shows_below e d c (T c)"
    using inv_ent_shows [OF assms] by metis
  have "inventory_tab e = gather (\<lambda>c. map_sum id (\<lambda>t. [t]) (inv_ent e c 0)) roots"
  proof -
    have "gather (\<lambda>(key, p). if p = 0 then g key else Inr []) ps = gather g (map fst (filter (\<lambda>(key, p). p = 0) ps))"
      for g :: "string \<Rightarrow> exn + ent_tree list" and ps :: "(string \<times> nat) list"
      by (induction ps) (auto split: sum.splits if_splits)
    then show ?thesis unfolding inventory_tab_def roots_def by (rule trans) (rule refl)
  qed
  also have "\<dots> = Inr (map T roots)" by (rule gather_each) (rule T(1))
  finally have run: "inventory_tab e = Inr (map T roots)" .
  have "distinct roots" using owf by (simp add: roots_def owf_def okeys_def distinct_map_filter)
  note apart = trees_apart [OF this T(2), of 0]
  have "(\<exists>c \<in> set roots. below e d c j) \<longleftrightarrow> j \<in> ent_keys e" for j
    using up_iter [OF assms, of j "d j"] by (auto simp: r below_def)
  then have "{j. \<exists>c \<in> set roots. below e d c j} = ent_keys e" by blast
  then show ?thesis using run apart r T(2) by (auto simp: list_all_iff shows_below_def)
qed

definition ex_ents :: ents where
  "ex_ents = \<lparr>invEntName = None, invEntDescr = None, invEntFwRev = None, invEntHwRev = None, invEntSwRevs = None,
     invEntMfg = None, invEntModel = None, invEntSerial = None, invEntType = None,
     invEntParents = [(''1'', 0), (''2'', 1), (''3'', 1)], invEntOrder = Some []\<rparr>"

lemma inventory_complete_witness:
  "\<exists>ts. inventory_tab ex_ents = Inr ts \<and> set (concat (map tree_items ts)) = {(''1'', 0), (''2'', 1), (''3'', 1)}"
proof -
  have n: "js_number ''1'' = Some 1" "js_number ''2'' = Some 2" "js_number ''3'' = Some 3"
    "str_nat ''1'' = 1" "str_nat ''2'' = 2" "str_nat ''3'' = 3" "nat_str 1 = ''1''" "nat_str 2 = ''2''" "nat_str 3 = ''3''"
    by code_simp+
  have "forest ex_ents (\<lambda>k. if k = ''1'' then 0 else 1)"
    using n by (simp add: forest_def ex_ents_def ent_keys_def owf_def par_def up_def del: nat_str.simps)
  from inventory_complete [OF this] show ?thesis by (auto simp: ent_keys_def ex_ents_def)
qed

end
