(* ===== verification/Graphs.thy ===== *)
theory Graphs
  imports TextFns Model
begin

text \<open>
  The graphs of a device or an interface: the range of time each shows, the buttons, the wheel and
  the mouse that change it, and the queries for the pictures (\<open>$.fn.graph\<close>). A change is made to
  all graphs of the same group. Times are in seconds; the picture comes with the range it shows.
\<close>

section \<open>Ranges\<close>

text \<open>
  A bound is a time, \<open>now\<close>, or a text with the distance to the other bound or to the present:
  \<open>end-<n>\<close> with a unit, \<open>now-<n>\<close>.
\<close>

datatype gtime =
    At int
  | Now
  | EndMinus int string
  | NowMinus int

fun gtime_text :: "gtime \<Rightarrow> string" where
  "gtime_text (At t) = int_str t"
| "gtime_text Now = ''now''"
| "gtime_text (EndMinus n u) = ''end-'' @ int_str n @ u"
| "gtime_text (NowMinus n) = ''now-'' @ int_str n"

type_synonym range = "gtime \<times> gtime"

record image =
  im_file :: string
  im_start :: int
  im_end :: int
  im_graph_width :: int

text \<open>A range that ends after the present is shown as one of its length that ends now.\<close>

definition clip_now :: "int \<Rightarrow> int \<Rightarrow> int \<Rightarrow> range" where
  "clip_now now s e = (if e > now then (EndMinus (e - s) [], Now) else (At s, At e))"

definition page_left :: "image \<Rightarrow> range" where
  "page_left im = (let offset = im_end im - im_start im in (At (im_start im - offset), At (im_end im - offset)))"

definition quarter_left :: "image \<Rightarrow> range" where
  "quarter_left im = (let offset = (im_end im - im_start im) div 4 in (At (im_start im - offset), At (im_end im - offset)))"

definition quarter_right :: "int \<Rightarrow> image \<Rightarrow> range" where
  "quarter_right now im = (let offset = (im_end im - im_start im) div 4 in clip_now now (im_start im + offset) (im_end im + offset))"

definition page_right :: "int \<Rightarrow> image \<Rightarrow> range" where
  "page_right now im = (let offset = im_end im - im_start im in clip_now now (im_start im + offset) (im_end im + offset))"

definition to_now :: "image \<Rightarrow> range" where
  "to_now im = (EndMinus (im_end im - im_start im) [], Now)"

definition im_center :: "image \<Rightarrow> int" where
  "im_center im = im_start im + (im_end im - im_start im) div 2"

definition zoom_in :: "int \<Rightarrow> image \<Rightarrow> range option" where
  "zoom_in now im = (let q = (im_end im - im_start im) div 4; s = im_center im - q; e = im_center im + q in
     if e - s < 300 then None else Some (clip_now now s e))"

definition zoom_out :: "int \<Rightarrow> image \<Rightarrow> range" where
  "zoom_out now im = (let diff = im_end im - im_start im in clip_now now (im_center im - diff) (im_center im + diff))"

text \<open>The buttons with a fixed length: half of it, and the range they ask for up to now.\<close>

definition range_btns :: "(string \<times> int \<times> gtime) list" where
  "range_btns = [(''1H'', 1800, EndMinus 1 ''h''), (''12H'', 60 * 60 * 12 div 2, EndMinus 12 ''h''),
     (''1D'', 60 * 60 * 24 div 2, EndMinus 1 ''d''), (''1W'', 60 * 60 * 24 * 7 div 2, EndMinus 7 ''d''),
     (''1M'', 60 * 60 * 24 * 31 div 2, EndMinus 31 ''d'')]"

definition range_btn :: "int \<Rightarrow> gtime \<Rightarrow> int \<Rightarrow> range option \<Rightarrow> image \<Rightarrow> range" where
  "range_btn half_range now_start now cur im =
     (let s = im_center im - half_range; e = im_center im + half_range in
      if e > now then (EndMinus (e - s) [], Now)
      else if map_option snd cur = Some Now then (now_start, Now)
      else (At s, At e))"

text \<open>
  The time at a place of the picture; \<open>x\<close> pixels from its left side. The picture is at least a
  pixel wide.
\<close>

definition pos_time :: "image \<Rightarrow> int \<Rightarrow> int" where
  "pos_time im x = im_start im + (im_end im - im_start im) * x div im_graph_width im"

definition wheel_half :: "image \<Rightarrow> int \<Rightarrow> int option" where
  "wheel_half im wheel_count =
     (if wheel_count = 0 then None
      else if wheel_count > 0 then
        (let half = (im_end im - im_start im) div (4 * wheel_count) in if half < 150 then None else Some half)
      else Some \<bar>(im_end im - im_start im) * wheel_count\<bar>)"

definition wheel_range :: "int \<Rightarrow> image \<Rightarrow> int \<Rightarrow> int \<Rightarrow> range option" where
  "wheel_range now im x wheel_count = map_option (\<lambda>half.
     let s = pos_time im x - half; e = pos_time im x + half in
     if e \<ge> now then (NowMinus (e - s), Now) else (At s, At e)) (wheel_half im wheel_count)"

definition mouse_range :: "image \<Rightarrow> int \<Rightarrow> int \<Rightarrow> int \<times> int" where
  "mouse_range im md_x x = (let w = x - md_x; left = (if w < 0 then x else md_x); w = (if w < 0 then - w else w)
     in (pos_time im left, pos_time im (left + w)))"

section \<open>The graphs of the page\<close>

text \<open>
  What the page remembers of the parts of a window (\<open>win_parts\<close>): whether a graph is shown, and
  its size.
\<close>

record win_part =
  part_show :: "bool option"
  part_WxH :: "string option"

definition win_part0 :: win_part where
  "win_part0 = \<lparr>part_show = None, part_WxH = None\<rparr>"

text \<open>The state of the area of a picture that follows the mouse.\<close>

record time_div =
  wheel_count :: "int option"
  wheel_x :: "int option"
  md :: bool
  md_x :: int
  md_range :: "(int \<times> int) option"

definition time_div0 :: time_div where
  "time_div0 = \<lparr>wheel_count = None, wheel_x = None, md = False, md_x = 0, md_range = None\<rparr>"

text \<open>
  A graph: \<open>g_part\<close> are the window and the key of its part, \<open>g_cpus\<close> the list of processors of a
  load graph with their names and keys as further fields.
\<close>

record graph =
  g_type :: string
  g_dev :: dev_id
  g_int :: if_name
  g_part :: "(string \<times> string) option"
  g_hide :: bool
  g_max :: "string option"
  g_cpus :: "string option"
  g_cpu_fields :: "(string \<times> string) list"
  g_sync :: string
  g_shown :: bool
  g_range :: "range option"
  g_size :: "(string \<times> string) option"
  g_compact :: bool
  g_im :: "image option"
  g_empty :: bool
  g_time :: time_div

record gquery =
  gq_type :: string
  gq_dev :: string
  gq_max :: "string option"
  gq_size :: "string \<times> string"
  gq_compact :: bool
  gq_range :: "(string \<times> string) option"
  gq_int :: "string option"
  gq_cpus :: "(string \<times> string) list"

text \<open>
  \<open>gp_safe\<close> are the fields of the devices the queries use: \<open>safe_dev_id\<close>, and \<open>safe_if_name\<close> of
  the interfaces.
\<close>

record gpage =
  graphs :: "graph list"
  gp_safe :: "(dev_id, string \<times> (if_name, string) obj) obj"
  gp_parts :: "(string, (string, win_part) obj) obj"
  gp_compact :: bool
  gp_sent :: "(nat \<times> gquery) list"

definition graph_part :: "graph \<Rightarrow> gpage \<Rightarrow> win_part" where
  "graph_part g p = (case g_part g of None \<Rightarrow> win_part0 | Some (w, k) \<Rightarrow> get_win_part (gp_parts p) w k win_part0)"

definition is_int_graph :: "graph \<Rightarrow> bool" where
  "is_int_graph g \<longleftrightarrow> g_type g = ''int_io'' \<or> g_type g = ''int_pkts''"

text \<open>The name of the group.\<close>

definition sync_name :: "graph \<Rightarrow> string" where
  "sync_name g = ''sync_'' @ g_dev g @ (if is_int_graph g then ''_int_'' @ g_int g else [])"

text \<open>The name becomes a class; one with blanks becomes several. Looking for it looks for one class.\<close>

function classes :: "string \<Rightarrow> string list" where
  "classes [] = []"
| "classes (c # s) = (if is_class_sep c then classes s
     else (c # takeWhile (\<lambda>c. \<not> is_class_sep c) s) # classes (dropWhile (\<lambda>c. \<not> is_class_sep c) s))"
  by pat_completeness auto
termination by (relation "measure length") (simp_all add: less_Suc_eq_le length_dropWhile_le)

definition has_class :: "string \<Rightarrow> graph \<Rightarrow> bool" where
  "has_class c g \<longleftrightarrow> c \<in> set (classes (g_sync g))"

definition part_size :: "win_part \<Rightarrow> string \<times> string" where
  "part_size w = (let a = split_on CHR ''x'' (case part_WxH w of None \<Rightarrow> ''500x70'' | Some t \<Rightarrow> t) in (a ! 0, a ! 1))"

definition graph_size :: "graph \<Rightarrow> gpage \<Rightarrow> string \<times> string" where
  "graph_size g p = (case g_size g of Some wh \<Rightarrow> wh | None \<Rightarrow> part_size (graph_part g p))"

definition cpu_fields :: "graph \<Rightarrow> (string \<times> string) list" where
  "cpu_fields g = (case g_cpus g of None \<Rightarrow> [] | Some l \<Rightarrow> (''cpu_list'', l) #
     concat (map (\<lambda>k. case oget (g_cpu_fields g) k of None \<Rightarrow> [] | Some v \<Rightarrow> [(k, v)])
       (concat (map (\<lambda>i. [''cpu_name'' @ i, ''cpu_key'' @ i]) (split_on CHR '','' l)))))"

definition graph_query :: "graph \<Rightarrow> gpage \<Rightarrow> exn + gquery" where
  "graph_query g p = (case oget (gp_safe p) (g_dev g) of
      None \<Rightarrow> Inl TypeError
    | Some (sd, ifs) \<Rightarrow>
        let q = \<lparr>gq_type = g_type g, gq_dev = sd, gq_max = g_max g, gq_size = graph_size g p,
              gq_compact = (g_compact g \<or> gp_compact p),
              gq_range = map_option (\<lambda>(s, e). (gtime_text s, gtime_text e)) (g_range g), gq_int = None, gq_cpus = []\<rparr>
        in if is_int_graph g then (case oget ifs (g_int g) of
              None \<Rightarrow> Inl TypeError
            | Some si \<Rightarrow> Inr (q\<lparr>gq_int := Some si\<rparr>))
           else if g_type g = ''cpu'' then Inr (q\<lparr>gq_cpus := cpu_fields g\<rparr>)
           else Inr q)"

definition graph_update :: "nat \<Rightarrow> gpage \<Rightarrow> gpage run" where
  "graph_update i p = (case graph_query (graphs p ! i) p of
      Inl e \<Rightarrow> Threw e p
    | Inr q \<Rightarrow> Done (p\<lparr>gp_sent := gp_sent p @ [(i, q)]\<rparr>))"

text \<open>\<open>$("." + sync).each(...).trigger("graph_update")\<close>: first all are changed, then all updated.\<close>

definition sync_set :: "string \<Rightarrow> (graph \<Rightarrow> graph) \<Rightarrow> gpage \<Rightarrow> gpage run" where
  "sync_set sync f p =
     (let sel = filter (\<lambda>i. has_class sync (graphs p ! i)) [0..<length (graphs p)]
      in each graph_update sel (p\<lparr>graphs := map (\<lambda>g. if has_class sync g then f g else g) (graphs p)\<rparr>))"

definition set_graph :: "nat \<Rightarrow> graph \<Rightarrow> gpage \<Rightarrow> gpage" where
  "set_graph i g p = p\<lparr>graphs := (graphs p)[i := g]\<rparr>"

definition set_range :: "nat \<Rightarrow> range \<Rightarrow> gpage \<Rightarrow> gpage run" where
  "set_range i r p = sync_set (g_sync (graphs p ! i)) (\<lambda>g. g\<lparr>g_range := Some r\<rparr>) p"

text \<open>Making a graph: \<open>g0\<close> has the fields of the options; the picture is asked for at once.\<close>

definition fresh_graph :: "graph \<Rightarrow> gpage \<Rightarrow> graph" where
  "fresh_graph g0 p = g0\<lparr>g_sync := sync_name g0, g_range := None, g_size := None, g_compact := False, g_im := None,
     g_empty := False, g_time := time_div0,
     g_shown := (case part_show (graph_part g0 p) of None \<Rightarrow> \<not> g_hide g0 | Some b \<Rightarrow> b)\<rparr>"

definition graph_new :: "graph \<Rightarrow> gpage \<Rightarrow> gpage run" where
  "graph_new g0 p = graph_update (length (graphs p)) (p\<lparr>graphs := graphs p @ [fresh_graph g0 p]\<rparr>)"

text \<open>
  The windows the graphs are in. A window that is closed takes its graphs with it: their timers find
  them gone, the answers to their queries go nowhere. The page keeps what it remembers of the parts
  of the window, except when it is closed with the cross. Opening or reloading a window
  (\<open>device_win\<close>, \<open>interface_win\<close>) closes the one that is there and makes the graphs \<open>gs\<close> anew.
\<close>

definition in_window :: "string \<Rightarrow> graph \<Rightarrow> bool" where
  "in_window w g \<longleftrightarrow> map_option fst (g_part g) = Some w"

definition close_graphs :: "string \<Rightarrow> gpage \<Rightarrow> gpage" where
  "close_graphs w p = p\<lparr>graphs := filter (\<lambda>g. \<not> in_window w g) (graphs p)\<rparr>"

definition window_closed :: "string \<Rightarrow> gpage \<Rightarrow> gpage" where
  "window_closed w p = close_graphs w (p\<lparr>gp_parts := odel w (gp_parts p)\<rparr>)"

definition window_opened :: "string \<Rightarrow> graph list \<Rightarrow> gpage \<Rightarrow> gpage run" where
  "window_opened w gs p = each graph_new gs (close_graphs w p)"

text \<open>The answer: no data empties the graph, a picture is shown with its range.\<close>

definition graph_answer :: "nat \<Rightarrow> image option \<Rightarrow> gpage \<Rightarrow> gpage" where
  "graph_answer i res p = (let g = graphs p ! i in
     set_graph i (case res of None \<Rightarrow> g\<lparr>g_empty := True\<rparr> | Some im \<Rightarrow> g\<lparr>g_im := Some im\<rparr>) p)"

definition graph_fold :: "nat \<Rightarrow> gpage \<Rightarrow> gpage" where
  "graph_fold i p =
     (let g = graphs p ! i; new_state = (\<not> g_shown g); p = set_graph i (g\<lparr>g_shown := new_state\<rparr>) p
      in case g_part g of None \<Rightarrow> p
         | Some (w, k) \<Rightarrow> p\<lparr>gp_parts := set_win_part w k ((graph_part g p)\<lparr>part_show := Some new_state\<rparr>) (gp_parts p)\<rparr>)"

definition size_select :: "nat \<Rightarrow> string \<Rightarrow> gpage \<Rightarrow> gpage run" where
  "size_select i val p =
     (let g = graphs p ! i; a = split_on CHR ''x'' val;
          p = (case g_part g of None \<Rightarrow> p
             | Some (w, k) \<Rightarrow> p\<lparr>gp_parts := set_win_part w k ((graph_part g p)\<lparr>part_WxH := Some val\<rparr>) (gp_parts p)\<rparr>)
      in sync_set (g_sync g) (\<lambda>g. g\<lparr>g_size := Some (a ! 0, a ! 1)\<rparr>) p)"

definition compact_box :: "nat \<Rightarrow> bool \<Rightarrow> gpage \<Rightarrow> gpage run" where
  "compact_box i b p = sync_set (g_sync (graphs p ! i)) (\<lambda>g. g\<lparr>g_compact := b\<rparr>) (p\<lparr>gp_compact := b\<rparr>)"

text \<open>The buttons below a picture. Before the first picture there is no range to start from.\<close>

datatype button = PageLeft | QuarterLeft | QuarterRight | PageRight | ToNow | ZoomIn | ZoomOut | RangeBtn nat

fun button_range :: "int \<Rightarrow> range option \<Rightarrow> button \<Rightarrow> image \<Rightarrow> range option" where
  "button_range now cur PageLeft im = Some (page_left im)"
| "button_range now cur QuarterLeft im = Some (quarter_left im)"
| "button_range now cur QuarterRight im = Some (quarter_right now im)"
| "button_range now cur PageRight im = Some (page_right now im)"
| "button_range now cur ToNow im = Some (to_now im)"
| "button_range now cur ZoomIn im = zoom_in now im"
| "button_range now cur ZoomOut im = Some (zoom_out now im)"
| "button_range now cur (RangeBtn n) im =
     (if n < length range_btns then (case range_btns ! n of (t, half, start) \<Rightarrow> Some (range_btn half start now cur im)) else None)"

definition click_button :: "int \<Rightarrow> nat \<Rightarrow> button \<Rightarrow> gpage \<Rightarrow> gpage run" where
  "click_button now i b p = (let g = graphs p ! i in
     case g_im g of None \<Rightarrow> Threw TypeError p
     | Some im \<Rightarrow> (case button_range now (g_range g) b im of None \<Rightarrow> Done p | Some r \<Rightarrow> set_range i r p))"

text \<open>
  The wheel changes the zoom; the picture is asked for a second after the last turn, unless the
  mouse moves before. \<open>wheel_x\<close> is the pending timer, with the place its event was at.
\<close>

definition set_time :: "nat \<Rightarrow> time_div \<Rightarrow> gpage \<Rightarrow> gpage" where
  "set_time i t p = set_graph i ((graphs p ! i)\<lparr>g_time := t\<rparr>) p"

definition wheel :: "int \<Rightarrow> nat \<Rightarrow> bool \<Rightarrow> int \<Rightarrow> gpage \<Rightarrow> gpage run" where
  "wheel now i up x p = (let g = graphs p ! i; t = g_time g in
     case g_im g of None \<Rightarrow> Threw TypeError p
     | Some im \<Rightarrow>
         let count = (case wheel_count t of None \<Rightarrow> 0 | Some c \<Rightarrow> c); count = (if up then count + 1 else count - 1);
             t = t\<lparr>wheel_count := Some count, wheel_x := None\<rparr>
         in Done (set_time i (case wheel_range now im x count of None \<Rightarrow> t | Some r \<Rightarrow> t\<lparr>wheel_x := Some x\<rparr>) p))"

definition wheel_timer :: "int \<Rightarrow> nat \<Rightarrow> gpage \<Rightarrow> gpage run" where
  "wheel_timer now i p = (let g = graphs p ! i; t = g_time g in
     case (wheel_x t, g_im g) of
       (Some x, Some im) \<Rightarrow>
         let count = (case wheel_count t of None \<Rightarrow> 0 | Some c \<Rightarrow> c); p = set_time i (t\<lparr>wheel_x := None\<rparr>) p
         in (case wheel_range now im x count of
               None \<Rightarrow> Done p
             | Some r \<Rightarrow> set_range i r (set_time i (t\<lparr>wheel_x := None, wheel_count := None\<rparr>) p))
     | _ \<Rightarrow> Done p)"

definition no_wheel :: "time_div \<Rightarrow> time_div" where
  "no_wheel t = t\<lparr>wheel_x := None, wheel_count := None\<rparr>"

definition mouse_down :: "nat \<Rightarrow> int \<Rightarrow> gpage \<Rightarrow> gpage" where
  "mouse_down i x p = set_time i (no_wheel ((g_time (graphs p ! i))\<lparr>md := True, md_x := x\<rparr>)) p"

definition mouse_move :: "nat \<Rightarrow> int \<Rightarrow> gpage \<Rightarrow> gpage run" where
  "mouse_move i x p = (let g = graphs p ! i; t = no_wheel (g_time g) in
     case g_im g of None \<Rightarrow> Threw TypeError (set_time i t p)
     | Some im \<Rightarrow> Done (set_time i (if md t then t\<lparr>md_range := Some (mouse_range im (md_x t) x)\<rparr> else t) p))"

definition mouse_out :: "nat \<Rightarrow> gpage \<Rightarrow> gpage" where
  "mouse_out i p = set_time i (no_wheel (g_time (graphs p ! i))) p"

text \<open>Releasing the button over a picture asks for what was selected; over the page it ends every selection.\<close>

definition page_mouse_up :: "gpage \<Rightarrow> gpage" where
  "page_mouse_up p = p\<lparr>graphs := map (\<lambda>g. g\<lparr>g_time := (g_time g)\<lparr>md := False, md_range := None\<rparr>\<rparr>) (graphs p)\<rparr>"

definition mouse_up :: "nat \<Rightarrow> gpage \<Rightarrow> gpage run" where
  "mouse_up i p = (let t = g_time (graphs p ! i) in
     if md t then (case md_range t of
         None \<Rightarrow> Done p
       | Some (s, e) \<Rightarrow> if e - s > 300 then set_range i (At s, At e) p else Done p)
     else Done p)"

end
