(* ===== verification/DevWindow.thy ===== *)
theory DevWindow
  imports IfWindow TopTalkers Entities Graphs
begin

text \<open>
  The window of a device (\<open>device_win\<close>): the answer it opens on, the status and the lines of the head, the
  form for the name of a model, the pictures of the loads, and the parts under its buttons: the
  interfaces, the hardware (theory \<open>Entities\<close>), the flows (theory \<open>TopTalkers\<close>), the locations and
  projects, and the configuration. All buttons and parts are appended at the end, so a part that throws
  takes all with it.
\<close>

section \<open>The answer\<close>

record cpu =
  cpu_name :: string
  cpu_graph_key :: string
  cpu_load :: string

text \<open>
  The further fields of the device: \<open>dw_if_safe\<close> has the \<open>safe_if_name\<close> of the interfaces with a
  \<open>_graph_prefix\<close>; the locations and projects come with what they were derived from.
\<close>

record win_device = full_device +
  dw_sysName :: "string option"
  dw_sysObjectID :: "string option"
  dw_model_long :: "string option"
  dw_sysDescr :: "string option"
  dw_last_error :: "string option"
  dw_CPUs :: "(string, cpu) obj option"
  dw_memoryUsed :: "nat option"
  dw_memorySize :: "nat option"
  dw_if_safe :: "(if_name, string) obj"
  dw_ents :: "ents option"
  dw_talkers :: "talk_tables option"
  dw_ifName :: "(string, if_name) obj option"
  dw_sites :: "(string \<times> string) list option"
  dw_projects :: "(string \<times> string) list option"

section \<open>The head\<close>

text \<open>The status: the label, the meaning with the error that is quoted, the colour.\<close>

datatype meaning = InWork | Failed string | Paused | Warned string | OtherStatus string string

record status_line =
  sl_short :: string
  sl_long :: meaning
  sl_color :: string

definition mk_status :: "win_device \<Rightarrow> status_line" where
  "mk_status dv =
     (let st = dev_overall_status dv; err = undef_str (dw_last_error dv)
      in if st = ''ok'' then \<lparr>sl_short = ''Ok'', sl_long = InWork, sl_color = ''lightgreen''\<rparr>
         else if st = ''error'' then \<lparr>sl_short = ''ERR'', sl_long = Failed err, sl_color = ''red''\<rparr>
         else if st = ''pause'' then \<lparr>sl_short = ''PAU'', sl_long = Paused, sl_color = ''gray''\<rparr>
         else if st = ''warn'' then \<lparr>sl_short = ''WRN'', sl_long = Warned err, sl_color = ''orange''\<rparr>
         else \<lparr>sl_short = st, sl_long = OtherStatus st err, sl_color = ''purple''\<rparr>)"

record dev_head =
  dh_status :: status_line
  dh_ago :: string
  dh_sysName :: string
  dh_copy :: "string option"
  dh_sysLoc :: string
  dh_uptime :: string
  dh_ip :: string
  dh_links :: "(string \<times> string) list"
  dh_model :: string
  dh_model_title :: "string option"
  dh_oid_href :: "string option"
  dh_sysDescr :: "string option"
  dh_edit :: bool

text \<open>\<open>now\<close> is the time of the browser in seconds; without a time of the last data the difference is \<open>NaN\<close>.\<close>

definition mk_head :: "int \<Rightarrow> bool \<Rightarrow> win_device \<Rightarrow> dev_head" where
  "mk_head now offline dv =
     (let ip = undef_str (dev_data_ip dv); oid = undef_str (dw_sysObjectID dv); known = (dev_model_short dv \<noteq> ''Unknown'')
      in \<lparr>dh_status = mk_status dv,
          dh_ago = (case dev_last_seen dv of None \<Rightarrow> ''NaN days'' | Some t \<Rightarrow> time_diff (now - t)),
          dh_sysName = ''sysName: '' @ undef_str (dw_sysName dv), dh_copy = dev_short_name dv,
          dh_sysLoc = ''sysLoc: '' @ undef_str (dev_sysLocation dv), dh_uptime = ''Uptime: '' @ undef_str (dev_sysUpTimeStr dv),
          dh_ip = '' IP: '' @ ip @ '' '', dh_links = ip_links ip,
          dh_model = (if known then dev_model_short dv else oid), dh_model_title = dw_model_long dv,
          dh_oid_href = (if known then None else Some (''https://oidref.com/'' @ (case oid of [] \<Rightarrow> [] | c # r \<Rightarrow> if c = CHR ''.'' then r else oid))),
          dh_sysDescr = dw_sysDescr dv, dh_edit = (\<not> dev_virtual dv \<and> \<not> offline)\<rparr>)"

section \<open>The name of a model\<close>

text \<open>
  The form below the line of the model: whether it is shown, its two fields, what the undo button puts
  back, and the text and title of the line. The edit button hides a visible form and asks for the stored
  names otherwise; every answer toggles the form.
\<close>

record oid_form =
  of_visible :: bool
  of_short :: string
  of_long :: string
  of_saved_short :: string
  of_saved_long :: string
  of_line :: "string \<times> string option"

definition mk_form :: "win_device \<Rightarrow> oid_form" where
  "mk_form dv =
     (let known = (dev_model_short dv \<noteq> ''Unknown''); short = (if known then dev_model_short dv else []);
          long = (if known then (case dw_model_long dv of None \<Rightarrow> [] | Some s \<Rightarrow> s) else [])
      in \<lparr>of_visible = False, of_short = short, of_long = long, of_saved_short = short, of_saved_long = long,
          of_line = (if known then dev_model_short dv else undef_str (dw_sysObjectID dv), dw_model_long dv)\<rparr>)"

definition re_filled :: re where
  "re_filled = (let ns = RCls (\<lambda>c. \<not> is_space c) in RSeq ns (RSeq re_dots ns))"

datatype oid_query = GetSysoid "string option" | SetSysoid string string "string option"

definition edit_click :: "win_device \<Rightarrow> oid_form \<Rightarrow> oid_form \<times> oid_query list" where
  "edit_click dv f = (if of_visible f then (f\<lparr>of_visible := False\<rparr>, []) else (f, [GetSysoid (dw_sysObjectID dv)]))"

definition get_answer :: "string \<Rightarrow> string \<Rightarrow> oid_form \<Rightarrow> oid_form" where
  "get_answer short long f = f\<lparr>of_short := short, of_long := long, of_saved_short := short, of_saved_long := long,
     of_visible := (\<not> of_visible f)\<rparr>"

definition undo_click :: "oid_form \<Rightarrow> oid_form" where
  "undo_click f = f\<lparr>of_short := of_saved_short f, of_long := of_saved_long f\<rparr>"

definition typed :: "string \<Rightarrow> string \<Rightarrow> oid_form \<Rightarrow> oid_form" where
  "typed short long f = f\<lparr>of_short := short, of_long := long\<rparr>"

text \<open>The fields that are refused flash; otherwise the values of the fields at the click are sent.\<close>

definition bad_fields :: "oid_form \<Rightarrow> string list" where
  "bad_fields f = (if re_full re_filled (of_short f) then [] else [''sysoid_short'']) @
     (if re_full re_filled (of_long f) then [] else [''sysoid_long''])"

definition save_click :: "win_device \<Rightarrow> oid_form \<Rightarrow> string list \<times> oid_query list" where
  "save_click dv f = (if bad_fields f \<noteq> [] then (bad_fields f, []) else ([], [SetSysoid (of_short f) (of_long f) (dw_sysObjectID dv)]))"

definition set_answer :: "string \<Rightarrow> string \<Rightarrow> win_device \<times> oid_form \<Rightarrow> win_device \<times> oid_form" where
  "set_answer short long df = (case df of (dv, f) \<Rightarrow>
     (dv\<lparr>dev_model_short := short, dw_model_long := Some long\<rparr>, f\<lparr>of_line := (short, Some long)\<rparr>))"

section \<open>The pictures of the loads\<close>

text \<open>
  \<open>encodeURIComponent\<close>, for code points below 256: those from 128 are two bytes of UTF-8.
\<close>

definition hex_upper :: "nat \<Rightarrow> char" where
  "hex_upper n = (''0123456789ABCDEF'') ! (n mod 16)"

definition percent :: "nat \<Rightarrow> string" where
  "percent b = [CHR ''%'', hex_upper (b div 16), hex_upper (b mod 16)]"

definition unreserved :: "char \<Rightarrow> bool" where
  "unreserved c \<longleftrightarrow> is_digit c \<or> (code CHR ''a'' \<le> code (lower c) \<and> code (lower c) \<le> code CHR ''z'') \<or> c \<in> set ''-_.!~*()'' \<or> c = CHR 0x27"

definition encode_char :: "char \<Rightarrow> string" where
  "encode_char c = (if unreserved c then [c] else if code c < 128 then percent (code c)
     else percent (192 + code c div 64) @ percent (128 + code c mod 64))"

definition encodeURIComponent :: "string \<Rightarrow> string" where
  "encodeURIComponent s = concat (map encode_char s)"

record load_part =
  lp_src :: string
  lp_title :: "string list"
  lp_open :: bool
  lp_graph :: graph

definition big_graph :: "string \<Rightarrow> dev_id \<Rightarrow> string \<Rightarrow> string option \<Rightarrow> string option \<Rightarrow> (string \<times> string) list \<Rightarrow> graph" where
  "big_graph ty d win_id mx cpus flds = \<lparr>g_type = ty, g_dev = d, g_int = [], g_part = Some (win_id, ty), g_hide = False,
     g_max = mx, g_cpus = cpus, g_cpu_fields = flds, g_sync = [], g_shown = True, g_range = None, g_size = None,
     g_compact = False, g_im = None, g_empty = False, g_time = time_div0\<rparr>"

definition cpu_part :: "string \<Rightarrow> parts \<Rightarrow> string \<Rightarrow> dev_id \<Rightarrow> string \<Rightarrow> (string, cpu) obj \<Rightarrow> load_part" where
  "cpu_part now wp win_id d safe cs =
     \<lparr>lp_src = ''graph?type=cpu&max=100&small&dev_id='' @ safe @ ''&cpu_list='' @ join '','' (okeys cs) @ ''&'' @ now @
        concat (map (\<lambda>(i, c). ''&cpu_name'' @ i @ ''='' @ encodeURIComponent (cpu_name c) @
          ''&cpu_key'' @ i @ ''='' @ encodeURIComponent (cpu_graph_key c)) cs),
      lp_title = [''1 Min Load:\<newline>'' @ join ''\<newline>'' (map (\<lambda>(i, c). cpu_name c @ '': '' @ cpu_load c @ ''%'') cs)],
      lp_open = get_win_part wp win_id ''show_cpu_graph'' False,
      lp_graph = big_graph ''cpu'' d win_id (Some ''100'') (Some (join '','' (okeys cs)))
        (concat (map (\<lambda>(i, c). [(''cpu_name'' @ i, cpu_name c), (''cpu_key'' @ i, cpu_graph_key c)]) cs))\<rparr>"

text \<open>The title of the memory is a sentence with the memory used and, when it is known, the whole; the model has the two numbers.\<close>

definition mem_part :: "string \<Rightarrow> parts \<Rightarrow> string \<Rightarrow> dev_id \<Rightarrow> string \<Rightarrow> nat \<Rightarrow> nat option \<Rightarrow> load_part" where
  "mem_part now wp win_id d safe used sz =
     \<lparr>lp_src = ''graph?type=mem&small&dev_id='' @ safe @ (case sz of None \<Rightarrow> [] | Some n \<Rightarrow> ''&max='' @ nat_str n) @ ''&'' @ now,
      lp_title = GMK used # (case sz of None \<Rightarrow> [] | Some n \<Rightarrow> [GMK n]),
      lp_open = get_win_part wp win_id ''show_mem_graph'' False,
      lp_graph = big_graph ''mem'' d win_id (map_option nat_str sz) None []\<rparr>"

definition load_parts :: "string \<Rightarrow> parts \<Rightarrow> string \<Rightarrow> bool \<Rightarrow> dev_id \<Rightarrow> win_device \<Rightarrow> load_part list" where
  "load_parts now wp win_id offline d dv =
     (case dw_CPUs dv of None \<Rightarrow> [] | Some cs \<Rightarrow> if offline then [] else [cpu_part now wp win_id d (od_safe_id dv) cs]) @
     (case dw_memoryUsed dv of None \<Rightarrow> [] | Some n \<Rightarrow> if offline then [] else [mem_part now wp win_id d (od_safe_id dv) n (dw_memorySize dv)])"

section \<open>The parts under the buttons\<close>

text \<open>The row of an interface: its pictures, with the largest rates of the scales, the labels, the alias.\<close>

record dev_if_line =
  dl_if :: if_name
  dl_imgs :: "string list"
  dl_labels :: string
  dl_alias :: "string option"

definition io_max :: "iface \<Rightarrow> nat" where
  "io_max f = (case ifSpeed f of
      Some n \<Rightarrow> if 10000000 \<le> n \<and> n \<noteq> 4294967295 then n
        else (case ifHighSpeed f of Some h \<Rightarrow> if 10 \<le> h then h * 1000000 else 10000000 | None \<Rightarrow> 10000000)
    | None \<Rightarrow> (case ifHighSpeed f of Some h \<Rightarrow> if 10 \<le> h then h * 1000000 else 10000000 | None \<Rightarrow> 10000000))"

definition pkts_max :: "iface \<Rightarrow> nat" where
  "pkts_max f = io_max f div 15000"

definition if_imgs :: "string \<Rightarrow> bool \<Rightarrow> win_device \<Rightarrow> if_name \<Rightarrow> iface \<Rightarrow> string list" where
  "if_imgs now offline dv i f = (case oget (dw_if_safe dv) i of
      None \<Rightarrow> []
    | Some safe \<Rightarrow>
        if offline then []
        else let gsrc = ''graph?small&dev_id='' @ od_safe_id dv @ ''&int='' @ safe @ ''&'' @ now
          in [gsrc @ ''&type=int_io&max='' @ nat_str (io_max f), gsrc @ ''&type=int_pkts&max='' @ nat_str (pkts_max f)])"

definition dev_if_row :: "string \<Rightarrow> bool \<Rightarrow> win_device \<Rightarrow> if_name \<Rightarrow> exn + dev_if_line list" where
  "dev_if_row now offline dv i = (case oget (dev_ifs (device.truncate dv)) i of
      None \<Rightarrow> Inl TypeError
    | Some f \<Rightarrow> map_sum id (\<lambda>ls. [\<lparr>dl_if = i, dl_imgs = if_imgs now offline dv i f, dl_labels = ls, dl_alias = ifAlias f\<rparr>])
        (int_labels i (Some (device.truncate dv))))"

text \<open>
  A location or project: its tag, the address its button leads to (none for the current one), what it is
  based on, and the address of that.
\<close>

record tag_line =
  tr_tag :: "string \<times> string list"
  tr_go :: "string option"
  tr_by :: string
  tr_href :: string

definition based_cmp :: "(string \<Rightarrow> string \<Rightarrow> int) \<Rightarrow> string \<times> string \<Rightarrow> string \<times> string \<Rightarrow> int" where
  "based_cmp lc a b = (if fst a \<noteq> fst b then num_compare lc (fst a) (fst b) else num_compare lc (snd a) (snd b))"

definition tag_row :: "tag list \<Rightarrow> string \<Rightarrow> (string \<Rightarrow> string) \<Rightarrow> string \<times> string \<Rightarrow> exn + tag_line list" where
  "tag_row tags cur addr p = (case p of (t, by) \<Rightarrow>
     map_sum id (\<lambda>g. [\<lparr>tr_tag = g, tr_go = (if t = cur then None else Some (addr t)), tr_by = by,
        tr_href = ''/ipdb/?action=link&ip='' @ hd (split_on CHR ''/'' by)\<rparr>]) (get_tag (Tag ''root'' '''' '''' None tags) t))"

definition front_addr :: "string \<Rightarrow> string \<Rightarrow> string" where
  "front_addr st pr = ''?action=get_front&site='' @ st @ ''&proj='' @ pr @ ''&file_key=''"

definition site_rows :: "(string \<Rightarrow> string \<Rightarrow> int) \<Rightarrow> tag list \<Rightarrow> string \<Rightarrow> string \<Rightarrow> (string \<times> string) list \<Rightarrow> exn + tag_line list" where
  "site_rows lc tags st pr ss = gather (tag_row tags st (\<lambda>t. front_addr t pr)) (js_sort (based_cmp lc) ss)"

definition proj_rows :: "(string \<Rightarrow> string \<Rightarrow> int) \<Rightarrow> tag list \<Rightarrow> string \<Rightarrow> string \<Rightarrow> (string \<times> string) list \<Rightarrow> exn + tag_line list" where
  "proj_rows lc tags st pr ps = gather (tag_row tags pr (\<lambda>t. front_addr st t)) (js_sort (based_cmp lc) ps)"

datatype dev_rows =
    DIfs "dev_if_line list"
  | DInventory "ent_tree list"
  | DTalkers talk_table
  | DSites "tag_line list"
  | DProjs "tag_line list"
  | DConfig string

record dev_part =
  dp_key :: string
  dp_open :: bool
  dp_rows :: dev_rows

text \<open>
  The page the window is made on: the comparison of texts, the time in whole seconds and rounded (which
  the addresses of pictures carry), the state of the parts, whether it is
  offline, the tags, and the location and project of the map.
\<close>

record win_env =
  we_lc :: "string \<Rightarrow> string \<Rightarrow> int"
  we_now :: int
  we_stamp :: int
  we_parts :: parts
  we_offline :: bool
  we_sites :: "tag list"
  we_projs :: "tag list"
  we_site :: string
  we_proj :: string

definition dev_win_id :: "dev_id \<Rightarrow> string" where
  "dev_win_id d = ''dev_win_'' @ d"

definition opt_part :: "win_env \<Rightarrow> dev_id \<Rightarrow> string \<Rightarrow> ('a \<Rightarrow> dev_rows) \<Rightarrow> (exn + 'a) option \<Rightarrow> exn + dev_part list" where
  "opt_part e d key mk o1 = (case o1 of None \<Rightarrow> Inr []
     | Some r \<Rightarrow> map_sum id (\<lambda>x. [\<lparr>dp_key = key, dp_open = get_win_part (we_parts e) (dev_win_id d) key False, dp_rows = mk x\<rparr>]) r)"

definition dev_parts :: "win_env \<Rightarrow> dev_id \<Rightarrow> win_device \<Rightarrow> exn + dev_part list" where
  "dev_parts e d dv = pieces
     [opt_part e d ''interfaces'' DIfs (Some (gather (dev_if_row (int_str (we_stamp e)) (we_offline e) dv) (interfaces_sorted dv))),
      opt_part e d ''inventory'' DInventory (map_option inventory_tab (dw_ents dv)),
      opt_part e d ''toptalkers'' DTalkers (map_option (talk_table_of (we_lc e) (device.truncate dv) (dw_ifName dv)) (dw_talkers dv)),
      opt_part e d ''sites'' DSites (map_option (site_rows (we_lc e) (we_sites e) (we_site e) (we_proj e)) (dw_sites dv)),
      opt_part e d ''projects'' DProjs (map_option (proj_rows (we_lc e) (we_projs e) (we_site e) (we_proj e)) (dw_projects dv)),
      opt_part e d ''config'' DConfig (map_option Inr (fd_config dv))]"

section \<open>The window\<close>

datatype win_answer = WinFail | WinDev win_device

record dev_window =
  dvw_devs :: "(dev_id, device) obj"
  dvw_dialogs :: "string list"
  dvw_title :: "string option"
  dvw_head :: "dev_head option"
  dvw_form :: "oid_form option"
  dvw_loads :: "load_part list"
  dvw_parts :: "dev_part list"

definition dev_window0 :: "(dev_id, device) obj \<Rightarrow> dev_window" where
  "dev_window0 ds = \<lparr>dvw_devs = ds, dvw_dialogs = [], dvw_title = None, dvw_head = None, dvw_form = None, dvw_loads = [], dvw_parts = []\<rparr>"

definition device_win :: "win_env \<Rightarrow> (dev_id, device) obj \<Rightarrow> dev_id \<Rightarrow> win_answer \<Rightarrow> dev_window run" where
  "device_win e ds d ans = (case ans of
      WinFail \<Rightarrow> Halt ((dev_window0 ds)\<lparr>dvw_dialogs := [''no device'']\<rparr>)
    | WinDev dv \<Rightarrow>
        let h = mk_head (we_now e) (we_offline e) dv;
            w = (dev_window0 (oset d (device.truncate dv) ds))\<lparr>dvw_title := dev_short_name dv, dvw_head := Some h,
              dvw_form := (if dh_edit h then Some (mk_form dv) else None),
              dvw_loads := load_parts (int_str (we_stamp e)) (we_parts e) (dev_win_id d) (we_offline e) d dv\<rparr>
        in case dev_parts e d dv of
            Inl x \<Rightarrow> Threw x w
          | Inr ps \<Rightarrow> Done (w\<lparr>dvw_parts := ps\<rparr>))"


section \<open>Facts: the parts\<close>

text \<open>Whether the window has all its parts or none.\<close>

lemma device_win_cases:
  "case dev_parts e d dv of
     Inl x \<Rightarrow> \<exists>w. device_win e ds d (WinDev dv) = Threw x w \<and> dvw_parts w = []
   | Inr ps \<Rightarrow> \<exists>w. device_win e ds d (WinDev dv) = Done w \<and> dvw_parts w = ps"
  by (cases "dev_parts e d dv") (simp_all add: device_win_def dev_window0_def Let_def)

lemma part_stops:
  assumes "opt_part e d key mk o1 = Inl x" "dev_parts e d dv = pieces rs" "opt_part e d key mk o1 \<in> set rs"
  shows "\<exists>x w. device_win e ds d (WinDev dv) = Threw x w \<and> dvw_parts w = []"
proof -
  obtain y where "dev_parts e d dv = Inl y" using assms pieces_Inl [of rs] by auto
  with device_win_cases [where e = e and d = d and dv = dv and ds = ds] show ?thesis by auto
qed

lemma flow_if_no_names: "ix \<noteq> 0 \<Longrightarrow> flow_if dv None ix ip = Inl TypeError"
  by (simp add: flow_if_def)

lemma talk_table_no_names:
  assumes "tables_ok t" "k \<in> set (okeys (tk_InIf t))" "complete_row t k" "list_all (\<lambda>(k, n). n \<noteq> 0) (tk_InIf t)"
  shows "\<exists>x. talk_table_of lc dv None t = Inl x"
proof -
  let ?ks = "first_rows t {} (okeys (tk_InIf t))"
  have "rec_key_of t k \<in> rec_key_of t ` set ?ks" using assms(2,3) by (auto simp: first_rows_keys)
  then obtain k' ks where ks: "?ks = k' # ks" by (cases ?ks) auto
  have "k' \<in> set (okeys (tk_InIf t))" using first_rows_sub [of k' t "{}"] by (simp add: ks)
  then obtain n where n: "oget (tk_InIf t) k' = Some n" by (cases "oget (tk_InIf t) k'") (simp_all add: oget_None_iff)
  then have "n \<noteq> 0" using assms(4) map_of_SomeD [OF n] by (auto simp: list_all_iff)
  with n have "fl_InIf (mk_flow t k') \<noteq> 0" by (simp add: mk_flow_def in_if_def Let_def)
  then have "mk_flow_row dv None (mk_flow t k') = Inl TypeError" by (simp add: mk_flow_row_def flow_if_no_names)
  then show ?thesis using talk_records_first [OF assms(1)] by (simp add: talk_table_of_def ks)
qed

section \<open>Facts: the form\<close>

lemma filled_iff: "re_full re_filled s \<longleftrightarrow>
    (\<exists>a m b. s = a # m @ [b] \<and> \<not> is_space a \<and> \<not> is_space b \<and> list_all (\<lambda>c. \<not> is_newline c) m)"
proof -
  have star: "m \<in> star {[c] | c. P c} \<longleftrightarrow> list_all P m" for m and P :: "char \<Rightarrow> bool"
  proof
    show "m \<in> star {[c] | c. P c} \<Longrightarrow> list_all P m" by (induction rule: star.induct) auto
    show "list_all P m \<Longrightarrow> m \<in> star {[c] | c. P c}"
    proof (induction m)
      case (Cons c m)
      then have "[c] @ m \<in> star {[c] | c. P c}" by (intro star.intros) auto
      then show ?case by simp
    qed (rule star.intros)
  qed
  have ns: "u \<in> {[c] | c. \<not> is_space c} \<longleftrightarrow> (\<exists>c. u = [c] \<and> \<not> is_space c)" for u by auto
  show ?thesis
    unfolding re_full_lang re_filled_def re_dots_def Let_def lang.simps mem_Collect_eq star
    by (metis append_Cons append_Nil)
qed

lemma save_sends: "save_click dv f = ([], [SetSysoid short long oid]) \<Longrightarrow> re_full re_filled short \<and> re_full re_filled long"
  by (auto simp: save_click_def bad_fields_def split: if_splits)

lemma undo_restores: "undo_click (typed s' l' (get_answer short long f)) = get_answer short long f"
  by (simp add: undo_click_def typed_def get_answer_def)

text \<open>Two clicks before the first answer ask twice, and the second answer hides what the first showed.\<close>

lemma double_edit_hides:
  assumes "\<not> of_visible f"
  shows "snd (edit_click dv (fst (edit_click dv f))) = [GetSysoid (dw_sysObjectID dv)]"
    and "\<not> of_visible (get_answer s l (get_answer s l (fst (edit_click dv (fst (edit_click dv f))))))"
  using assms by (simp_all add: edit_click_def get_answer_def)

section \<open>Properties\<close>

text \<open>
  C13: A device with flows over other interfaces but without the table of interface names gets a window with
  no part and no button at all, not even the list of its interfaces.
\<close>

theorem missing_names_stop_window:
  assumes "dw_talkers dv = Some t" "dw_ifName dv = None" "tables_ok t" "k \<in> set (okeys (tk_InIf t))" "complete_row t k"
    "list_all (\<lambda>(k, n). n \<noteq> 0) (tk_InIf t)"
  shows "\<exists>x w. device_win e ds d (WinDev dv) = Threw x w \<and> dvw_head w \<noteq> None \<and> dvw_parts w = []"
proof -
  obtain x where x: "talk_table_of (we_lc e) (device.truncate dv) (dw_ifName dv) t = Inl x"
    using talk_table_no_names [OF assms(3-6)] assms(2) by metis
  have "opt_part e d ''toptalkers'' DTalkers (map_option (talk_table_of (we_lc e) (device.truncate dv) (dw_ifName dv)) (dw_talkers dv)) = Inl x"
    by (simp add: opt_part_def assms(1) x)
  from part_stops [OF this dev_parts_def [of e d dv], where ds = ds] obtain y w where "device_win e ds d (WinDev dv) = Threw y w" "dvw_parts w = []"
    by auto
  then show ?thesis by (auto simp: device_win_def dev_window0_def Let_def split: sum.splits)
qed


definition ex_win_device :: win_device where
  "ex_win_device = full_device.extend ex_answer (win_device.fields None None None None None None None None [] None (Some ex_talk) None None None)"

definition ex_env :: win_env where
  "ex_env = \<lparr>we_lc = unit_cmp, we_now = 0, we_stamp = 0, we_parts = [], we_offline = False, we_sites = [], we_projs = [], we_site = [], we_proj = []\<rparr>"

lemma missing_names_stop_window_witness:
  "\<exists>x w. device_win ex_env [] ''d'' (WinDev ex_win_device) = Threw x w \<and> dvw_head w \<noteq> None \<and> dvw_parts w = []"
proof (rule missing_names_stop_window)
  show "dw_talkers ex_win_device = Some ex_talk" "dw_ifName ex_win_device = None"
    by (simp_all add: ex_win_device_def full_device.defs win_device.defs)
  show "tables_ok ex_talk" "''0'' \<in> set (okeys (tk_InIf ex_talk))" "complete_row ex_talk ''0''"
    "list_all (\<lambda>(k, n). n \<noteq> 0) (tk_InIf ex_talk)" by code_simp+
qed

end
