(* ===== verification/Results.thy ===== *)
theory Results
  imports Reports
begin

text \<open>
  The window of a search (\<open>showSearchWindow\<close>): the addresses, the MACs, the devices, the interfaces
  and the neighbours that were found, as sections that fold (\<open>ip_results\<close>, \<open>mac_results\<close>,
  \<open>devs_results\<close>, \<open>ints_results\<close>, \<open>neigs_results\<close>), and the hint where on the map something is
  (\<open>searchHighlight\<close>). Proved: the window shows every hit of the answer once.
\<close>

section \<open>The answer\<close>

text \<open>
  What the page reads of the answer to \<open>search\<close>, from the server or from the offline file. An
  entry of \<open>so_ips\<close> may be \<open>undefined\<close>; \<open>ipf_texts\<close> has the texts about the address the server adds.
\<close>

record ip_found =
  ipf_texts :: "(string, string) obj"
  ipf_macs :: "mac_key list"
  ipf_ifs :: "if_hit list option"
  ipf_net_ifs :: "if_hit list option"
  ipf_neigs :: "nei_hit list option"

record mac_found =
  mcf_corp :: "string option"
  mcf_ips :: "string list"
  mcf_ifs :: "if_hit list option"
  mcf_ports :: "port_hit list option"
  mcf_neigs :: "nei_hit list option"

record search_ok =
  so_origin :: string
  so_type :: string
  so_ips :: "(string, ip_found option) obj option"
  so_macs :: "(string, mac_found) obj option"
  so_devs :: "dev_ref list option"
  so_ints :: "if_hit list option"
  so_neigs :: "nei_hit list option"

definition ip_answer :: "ip_info \<Rightarrow> ip_found" where
  "ip_answer r = \<lparr>ipf_texts = [], ipf_macs = ii_macs r, ipf_ifs = Some (ii_ifs r),
     ipf_net_ifs = Some (map if_hit.truncate (ii_net_ifs r)), ipf_neigs = Some (ii_neigs r)\<rparr>"

definition mac_answer :: "mac_info \<Rightarrow> mac_found" where
  "mac_answer r = \<lparr>mcf_corp = None, mcf_ips = mi_ips r, mcf_ifs = Some (mi_ifs r), mcf_ports = Some (mi_ports r), mcf_neigs = None\<rparr>"

definition offline_answer :: "search_ret \<Rightarrow> search_ok" where
  "offline_answer r = \<lparr>so_origin = sr_origin r, so_type = sr_type r,
     so_ips = map_option (map (\<lambda>(ip, i). (ip, map_option ip_answer i))) (sr_ips r),
     so_macs = map_option (map (\<lambda>(m, i). (m, mac_answer i))) (sr_macs r),
     so_devs = sr_devs r, so_ints = sr_ints r, so_neigs = sr_neigs r\<rparr>"

section \<open>Sorting the hits\<close>

text \<open>
  The comparators throw when a text is missing or is an object. Then any sorting of more than one
  element throws: comparisons connect all elements, so one of those that throw is made.
\<close>

definition try_sort :: "('a \<Rightarrow> 'a \<Rightarrow> exn + int) \<Rightarrow> 'a list \<Rightarrow> exn + 'a list" where
  "try_sort cmp xs =
     (if length xs > 1 \<and> list_ex (\<lambda>a. list_ex (\<lambda>b. isl (cmp a b)) xs) xs then Inl TypeError
      else Inr (js_sort (\<lambda>a b. cmp_value (cmp a b)) xs))"

lemma try_sort_mset: "try_sort c xs = Inr ys \<Longrightarrow> mset ys = mset xs"
  by (auto simp: try_sort_def split: if_splits)

definition text_compare :: "(string \<Rightarrow> string \<Rightarrow> int) \<Rightarrow> string option \<Rightarrow> string option \<Rightarrow> exn + int" where
  "text_compare lc a b = (case (a, b) of (Some x, Some y) \<Rightarrow> Inr (num_compare lc x y) | _ \<Rightarrow> Inl TypeError)"

definition hit_compare :: "(string \<Rightarrow> string \<Rightarrow> int) \<Rightarrow> 'z if_hit_scheme \<Rightarrow> 'z if_hit_scheme \<Rightarrow> exn + int" where
  "hit_compare lc a b =
     (if ref_short_name (hit_ref a) \<noteq> ref_short_name (hit_ref b)
      then text_compare lc (ref_short_name (hit_ref a)) (ref_short_name (hit_ref b))
      else Inr (num_compare lc (hit_ifName a) (hit_ifName b)))"

text \<open>A difference that is not a number counts as 0.\<close>

definition nei_compare :: "(string \<Rightarrow> string \<Rightarrow> int) \<Rightarrow> nei_hit \<Rightarrow> nei_hit \<Rightarrow> exn + int" where
  "nei_compare lc a b =
     (if ref_short_name (nh_ref a) \<noteq> ref_short_name (nh_ref b)
      then text_compare lc (ref_short_name (nh_ref a)) (ref_short_name (nh_ref b))
      else (case (nh_ifName a, nh_ifName b) of
          (Some x, Some y) \<Rightarrow> Inr (num_compare lc x y)
        | _ \<Rightarrow> Inr (case (js_number (nh_port_index a), js_number (nh_port_index b)) of
            (Some m, Some n) \<Rightarrow> int m - int n | _ \<Rightarrow> 0)))"

definition key_text :: "mac_key \<Rightarrow> string option" where
  "key_text m = (case m of MacText s \<Rightarrow> Some s | MacObj d \<Rightarrow> None)"

text \<open>The address or MAC that was searched for comes first.\<close>

definition origin_compare :: "(string \<Rightarrow> string \<Rightarrow> int) \<Rightarrow> bool \<Rightarrow> string \<Rightarrow> string \<Rightarrow> string \<Rightarrow> int" where
  "origin_compare lc is_origin origin a b =
     (if is_origin \<and> a = origin then -1 else if is_origin \<and> b = origin then 1 else num_compare lc a b)"

section \<open>Rows\<close>

text \<open>
  The box of a device: its name, whether it is shown in red, whether it is on the page (the eye).
  A row of an interface has the tag of the VLAN for a port, then the boxes of the device and of
  the interface with its labels. \<open>nr_int\<close> is what the row of a neighbour keeps as its interface for the click.
\<close>

record dev_box =
  db_dev :: dev_id
  db_name :: "string option"
  db_red :: bool
  db_eye :: bool

record if_row =
  fr_vlan :: "string option"
  fr_dev :: dev_box
  fr_if :: if_name
  fr_title :: string
  fr_labels :: string

record nei_row =
  nr_source :: string
  nr_dev :: dev_box
  nr_text :: string
  nr_title :: string
  nr_labels :: string
  nr_int :: "string option"
  nr_cells :: "(string option \<times> string) list"

definition mk_box :: "app \<Rightarrow> dev_ref \<Rightarrow> dev_box" where
  "mk_box s r = \<lparr>db_dev = ref_dev_id r, db_name = ref_short_name r, db_red = (ref_status r \<noteq> ''ok''), db_eye = has (page s) (ref_dev_id r)\<rparr>"

text \<open>The labels are those of a device with nothing but this interface (\<open>vdev\<close>).\<close>

definition vdev_labels :: "if_name \<Rightarrow> iface \<Rightarrow> exn + string" where
  "vdev_labels i f = int_labels i (Some (device0\<lparr>interfaces := Some [(i, f)]\<rparr>))"

definition mk_if_row :: "app \<Rightarrow> string option \<Rightarrow> 'z if_hit_scheme \<Rightarrow> exn + if_row" where
  "mk_if_row s vlan h = (case hit_interface h of None \<Rightarrow> Inl TypeError
     | Some f \<Rightarrow> map_sum id (\<lambda>ls. \<lparr>fr_vlan = vlan, fr_dev = mk_box s (hit_ref h), fr_if = hit_ifName h,
         fr_title = if_undef (ifAlias f) [], fr_labels = ls\<rparr>) (vdev_labels (hit_ifName h) f))"

definition found_nei_ip :: "nei_hit \<Rightarrow> string" where
  "found_nei_ip h =
     (case (if nh_source h = ''CDP'' then oget (nei_text (nh_neighbour h)) ''cdpRemAddrDecoded'' else None) of
        Some a \<Rightarrow> a
      | None \<Rightarrow> (case (if nh_source h = ''LLDP'' then RemMgmtAddr (nh_neighbour h) else None) of
            None \<Rightarrow> ''NO IP''
          | Some m \<Rightarrow> (case oget m ''1'' of None \<Rightarrow> ''NO IP'' | Some a \<Rightarrow> a)))"

definition or_empty :: "string option \<Rightarrow> string" where
  "or_empty v = (case v of None \<Rightarrow> [] | Some s \<Rightarrow> s)"

definition nei_cells :: "nei_hit \<Rightarrow> (string option \<times> string) list" where
  "nei_cells h =
     (let t = oget (nei_text (nh_neighbour h))
      in if nh_source h = ''CDP''
         then [(Some (found_nei_ip h), or_empty (t ''cdpRemCapsDecoded'')), (t ''cdpRemDevId'', or_empty (t ''cdpRemSoftware'')),
               (t ''cdpRemIfName'', or_empty (t ''cdpRemPlatform''))]
         else [(Some (found_nei_ip h), or_empty (t ''RemSysCapsDecoded'')),
               (Some (case t ''RemSysName'' of None \<Rightarrow> ''no name advertized'' | Some n \<Rightarrow> n), or_empty (t ''RemSysDescr'')),
               (t ''RemPortId'', or_empty (t ''RemPortDescr''))])"

text \<open>\<open>kept\<close>: whether the row itself keeps the interface; the rows of an address keep it in an element inside.\<close>

definition mk_nei_row :: "app \<Rightarrow> bool \<Rightarrow> nei_hit \<Rightarrow> exn + nei_row" where
  "mk_nei_row s kept h =
     (let row = (\<lambda>title ls. \<lparr>nr_source = nh_source h, nr_dev = mk_box s (nh_ref h),
            nr_text = (case nh_ifName h of Some i \<Rightarrow> i | None \<Rightarrow> nh_source h @ '' Port: '' @ nh_port_index h),
            nr_title = if_undef title [], nr_labels = ls, nr_int = (if kept then Some (if_undef (nh_ifName h) []) else None),
            nr_cells = nei_cells h\<rparr>)
      in case nh_ifName h of
          None \<Rightarrow> Inr (row None [])
        | Some i \<Rightarrow> (case nh_interface h of None \<Rightarrow> Inl TypeError
            | Some f \<Rightarrow> map_sum id (row (ifAlias f)) (vdev_labels i f)))"

text \<open>What the click on the interface of a neighbour opens: the window of an interface, or nothing.\<close>

definition nei_click :: "nei_row \<Rightarrow> (dev_id \<times> string) option" where
  "nei_click r = (if nr_int r = Some [] then None else Some (db_dev (nr_dev r), undef_str (nr_int r)))"

section \<open>Sections\<close>

text \<open>
  The contents of the window: lines of text with a label, the tag of a site with a button to go there,
  a network with the address its link opens, the lists of MACs (red when there are several) and
  addresses, rows, and sections with their title, whether they are open, and their contents.
\<close>

datatype title =
    TIps nat | TMacs nat | TDevs nat | TInts nat | TNeigs nat | TIp string | TMac string | TWhois
  | TIpIfs string | TNetIfs string | TIpNeigs string | TMacIfs string | TEndPorts string | TTrunkPorts string | TMacNeigs string

datatype res_item =
    ResLine string "string option"
  | ResIpdb string string
  | ResSite "string \<times> string list" bool
  | ResNet string "string option"
  | ResMacs bool "string list"
  | ResIps "string list"
  | ResIf if_row
  | ResNei nei_row
  | ResDev dev_box
  | Sect title bool "res_item list"

definition rows_of :: "('a \<Rightarrow> exn + res_item) \<Rightarrow> 'a list \<Rightarrow> exn + res_item list" where
  "rows_of f xs = gather (\<lambda>x. map_sum id (\<lambda>r. [r]) (f x)) xs"

definition sorted_rows :: "('a \<Rightarrow> 'a \<Rightarrow> exn + int) \<Rightarrow> ('a \<Rightarrow> exn + res_item) \<Rightarrow> 'a list \<Rightarrow> exn + res_item list" where
  "sorted_rows cmp f xs = (case try_sort cmp xs of Inl e \<Rightarrow> Inl e | Inr ys \<Rightarrow> rows_of f ys)"

text \<open>A section that is there when the answer has its list.\<close>

definition opt_sect :: "title \<Rightarrow> bool \<Rightarrow> ('a list \<Rightarrow> exn + res_item list) \<Rightarrow> 'a list option \<Rightarrow> exn + res_item list" where
  "opt_sect t st f oxs = (case oxs of None \<Rightarrow> Inr [] | Some xs \<Rightarrow> map_sum id (\<lambda>rs. [Sect t st rs]) (f xs))"

subsection \<open>Addresses\<close>

definition text_line :: "string \<Rightarrow> string \<Rightarrow> ip_found \<Rightarrow> res_item list" where
  "text_line label key r = (case oget (ipf_texts r) key of None \<Rightarrow> [] | Some t \<Rightarrow> [ResLine label (Some t)])"

definition ip_head :: "tag list \<Rightarrow> app \<Rightarrow> string \<Rightarrow> ip_found \<Rightarrow> exn + res_item list" where
  "ip_head tags s ip r =
     (let t = oget (ipf_texts r)
      in map_sum id (\<lambda>site_line.
          (case t ''hostname'' of None \<Rightarrow> [] | Some h \<Rightarrow> [ResIpdb h ip]) @ site_line @
          (case t ''net'' of None \<Rightarrow> [] | Some n \<Rightarrow> [ResNet (takeWhile (\<lambda>c. c \<noteq> CHR ''/'') (undef_str (t ''net_cidr''))) (t ''net_cidr''),
             ResLine ''net'' (Some n)]) @
          text_line ''DNS'' ''dns'' r @
          (case t ''whois'' of None \<Rightarrow> [] | Some w \<Rightarrow> [Sect TWhois False [ResLine [] (Some w)]]))
        (case t ''site'' of None \<Rightarrow> Inr []
         | Some st \<Rightarrow> map_sum id (\<lambda>g. [ResSite g (site s \<noteq> st)]) (get_tag (Tag ''root'' '''' '''' None tags) st)))"

definition ip_macs_line :: "(string \<Rightarrow> string \<Rightarrow> int) \<Rightarrow> ip_found \<Rightarrow> exn + res_item list" where
  "ip_macs_line lc r =
     (if ipf_macs r = [] then Inr []
      else map_sum id (\<lambda>ms. [ResMacs (length ms > 1) (map (\<lambda>m. format_mac (mac_str m) ''canonic'') ms)])
        (try_sort (\<lambda>a b. text_compare lc (key_text a) (key_text b)) (ipf_macs r)))"

definition ip_ifs_sect :: "(string \<Rightarrow> string \<Rightarrow> int) \<Rightarrow> app \<Rightarrow> string \<Rightarrow> ip_found \<Rightarrow> exn + res_item list" where
  "ip_ifs_sect lc s ip r = opt_sect (TIpIfs ip) False (sorted_rows (hit_compare lc) (\<lambda>h. map_sum id ResIf (mk_if_row s None h))) (ipf_ifs r)"

definition ip_net_sect :: "(string \<Rightarrow> string \<Rightarrow> int) \<Rightarrow> app \<Rightarrow> string \<Rightarrow> ip_found \<Rightarrow> exn + res_item list" where
  "ip_net_sect lc s ip r = opt_sect (TNetIfs ip) False (sorted_rows (hit_compare lc) (\<lambda>h. map_sum id ResIf (mk_if_row s None h))) (ipf_net_ifs r)"

definition ip_neig_sect :: "(string \<Rightarrow> string \<Rightarrow> int) \<Rightarrow> app \<Rightarrow> string \<Rightarrow> ip_found \<Rightarrow> exn + res_item list" where
  "ip_neig_sect lc s ip r = opt_sect (TIpNeigs ip) False (sorted_rows (nei_compare lc) (\<lambda>h. map_sum id ResNei (mk_nei_row s False h))) (ipf_neigs r)"

definition ip_item :: "(string \<Rightarrow> string \<Rightarrow> int) \<Rightarrow> tag list \<Rightarrow> app \<Rightarrow> search_ok \<Rightarrow> (string, ip_found option) obj \<Rightarrow> string \<Rightarrow> exn + res_item" where
  "ip_item lc tags s ok tab ip = (case Option.bind (oget tab ip) id of
      None \<Rightarrow> Inl TypeError
    | Some r \<Rightarrow> map_sum id (Sect (TIp ip) (so_type ok = ''ip'' \<and> ip = so_origin ok))
        (pieces [ip_head tags s ip r, ip_macs_line lc r, ip_ifs_sect lc s ip r, ip_net_sect lc s ip r, ip_neig_sect lc s ip r]))"

definition ip_results :: "(string \<Rightarrow> string \<Rightarrow> int) \<Rightarrow> tag list \<Rightarrow> app \<Rightarrow> search_ok \<Rightarrow> exn + res_item list" where
  "ip_results lc tags s ok = (case so_ips ok of None \<Rightarrow> Inr []
     | Some tab \<Rightarrow> map_sum id (\<lambda>rs. [Sect (TIps (length tab)) (so_type ok = ''ip'') rs])
         (rows_of (ip_item lc tags s ok tab) (js_sort (origin_compare lc (so_type ok = ''ip'') (so_origin ok)) (okeys tab))))"

subsection \<open>MACs\<close>

definition mac_head :: "(string \<Rightarrow> string \<Rightarrow> int) \<Rightarrow> mac_found \<Rightarrow> res_item list" where
  "mac_head lc r = (case mcf_corp r of None \<Rightarrow> [] | Some c \<Rightarrow> [ResLine ''corp'' (Some c)]) @
     (if mcf_ips r = [] then [] else [ResIps (js_sort (num_compare lc) (mcf_ips r))])"

definition mac_ifs_sect :: "(string \<Rightarrow> string \<Rightarrow> int) \<Rightarrow> app \<Rightarrow> string \<Rightarrow> mac_found \<Rightarrow> exn + res_item list" where
  "mac_ifs_sect lc s mac r = opt_sect (TMacIfs (format_mac mac ''canonic'')) True
     (sorted_rows (hit_compare lc) (\<lambda>h. map_sum id ResIf (mk_if_row s None h))) (mcf_ifs r)"

text \<open>A port leads on when it has links or is made of several; an entry without its interface throws.\<close>

definition leads_on :: "iface \<Rightarrow> bool" where
  "leads_on f \<longleftrightarrow> if_l2_links f \<noteq> None \<or> lag_members f \<noteq> None"

definition split_ports :: "mac_found \<Rightarrow> exn + (port_hit list \<times> port_hit list)" where
  "split_ports r =
     (let ps = (case mcf_ports r of None \<Rightarrow> [] | Some ps \<Rightarrow> ps)
      in if list_ex (\<lambda>p. hit_interface p = None) ps then Inl TypeError
         else Inr (filter (\<lambda>p. \<not> leads_on (the (hit_interface p))) ps, filter (\<lambda>p. leads_on (the (hit_interface p))) ps))"

definition mac_port_rows :: "(string \<Rightarrow> string \<Rightarrow> int) \<Rightarrow> app \<Rightarrow> port_hit list \<Rightarrow> exn + res_item list" where
  "mac_port_rows lc s ps = sorted_rows (hit_compare lc) (\<lambda>h. map_sum id ResIf (mk_if_row s (Some (hit_vlan h)) h)) ps"

definition end_ports_sect :: "(string \<Rightarrow> string \<Rightarrow> int) \<Rightarrow> app \<Rightarrow> string \<Rightarrow> port_hit list \<Rightarrow> exn + res_item list" where
  "end_ports_sect lc s mac ps = opt_sect (TEndPorts (format_mac mac ''canonic'')) True (mac_port_rows lc s) (some_list ps)"

definition trunk_ports_sect :: "(string \<Rightarrow> string \<Rightarrow> int) \<Rightarrow> app \<Rightarrow> string \<Rightarrow> port_hit list \<Rightarrow> exn + res_item list" where
  "trunk_ports_sect lc s mac ps = opt_sect (TTrunkPorts (format_mac mac ''canonic'')) False (mac_port_rows lc s) (some_list ps)"

definition mac_neig_sect :: "(string \<Rightarrow> string \<Rightarrow> int) \<Rightarrow> app \<Rightarrow> string \<Rightarrow> mac_found \<Rightarrow> exn + res_item list" where
  "mac_neig_sect lc s mac r = opt_sect (TMacNeigs (format_mac mac ''canonic'')) False
     (sorted_rows (nei_compare lc) (\<lambda>h. map_sum id ResNei (mk_nei_row s True h))) (mcf_neigs r)"

definition mac_item :: "(string \<Rightarrow> string \<Rightarrow> int) \<Rightarrow> app \<Rightarrow> search_ok \<Rightarrow> (string, mac_found) obj \<Rightarrow> string \<Rightarrow> exn + res_item" where
  "mac_item lc s ok macs mac = (case oget macs mac of
      None \<Rightarrow> Inl TypeError
    | Some r \<Rightarrow> map_sum id (Sect (TMac (format_mac mac ''canonic'')) (so_type ok = ''mac'' \<and> mac = so_origin ok))
        (case mac_ifs_sect lc s mac r of Inl e \<Rightarrow> Inl e
         | Inr ifs \<Rightarrow> (case split_ports r of Inl e \<Rightarrow> Inl e
             | Inr (ends, trunks) \<Rightarrow> pieces [Inr (mac_head lc r), Inr ifs, end_ports_sect lc s mac ends,
                 trunk_ports_sect lc s mac trunks, mac_neig_sect lc s mac r])))"

definition mac_results :: "(string \<Rightarrow> string \<Rightarrow> int) \<Rightarrow> app \<Rightarrow> search_ok \<Rightarrow> exn + res_item list" where
  "mac_results lc s ok = (case so_macs ok of None \<Rightarrow> Inr []
     | Some macs \<Rightarrow> map_sum id (\<lambda>rs. [Sect (TMacs (length macs)) True rs])
         (rows_of (mac_item lc s ok macs) (js_sort (origin_compare lc (so_type ok = ''mac'') (so_origin ok)) (okeys macs))))"

subsection \<open>Devices, interfaces, neighbours\<close>

definition devs_results :: "(string \<Rightarrow> string \<Rightarrow> int) \<Rightarrow> app \<Rightarrow> search_ok \<Rightarrow> exn + res_item list" where
  "devs_results lc s ok = (case so_devs ok of None \<Rightarrow> Inr []
     | Some ds \<Rightarrow> opt_sect (TDevs (length ds)) False
         (sorted_rows (\<lambda>a b. text_compare lc (ref_short_name a) (ref_short_name b)) (\<lambda>d. Inr (ResDev (mk_box s d)))) (Some ds))"

definition ints_results :: "(string \<Rightarrow> string \<Rightarrow> int) \<Rightarrow> app \<Rightarrow> search_ok \<Rightarrow> exn + res_item list" where
  "ints_results lc s ok = (case so_ints ok of None \<Rightarrow> Inr []
     | Some hs \<Rightarrow> opt_sect (TInts (length hs)) False
         (sorted_rows (hit_compare lc) (\<lambda>h. map_sum id ResIf (mk_if_row s None h))) (Some hs))"

definition neigs_results :: "(string \<Rightarrow> string \<Rightarrow> int) \<Rightarrow> app \<Rightarrow> search_ok \<Rightarrow> exn + res_item list" where
  "neigs_results lc s ok = (case so_neigs ok of None \<Rightarrow> Inr []
     | Some hs \<Rightarrow> opt_sect (TNeigs (length hs)) False
         (sorted_rows (nei_compare lc) (\<lambda>h. map_sum id ResNei (mk_nei_row s True h))) (Some hs))"

section \<open>The window\<close>

text \<open>
  The button of the search: nothing for a blank text, a pattern that does not compile flashes red
  (\<open>Inl\<close>), else the query. The contents come in an order that depends on what was searched for.
\<close>

definition search_button :: "compile \<Rightarrow> string \<Rightarrow> bool \<Rightarrow> (unit + string \<times> bool) option" where
  "search_button compile val reg =
     (let search_for = trim val in
        if search_for = [] then None
        else if reg \<and> compile search_for = None then Some (Inl ())
        else Some (Inr (search_for, reg)))"

definition show_results :: "(string \<Rightarrow> string \<Rightarrow> int) \<Rightarrow> tag list \<Rightarrow> app \<Rightarrow> search_ok \<Rightarrow> exn + res_item list" where
  "show_results lc tags s ok =
     pieces ((if so_type ok = ''mac'' then [mac_results lc s ok, ip_results lc tags s ok]
             else [ip_results lc tags s ok, mac_results lc s ok]) @
            [devs_results lc s ok, ints_results lc s ok, neigs_results lc s ok])"

text \<open>The check of a MAC before its vendor is asked for is the pattern \<open>format_mac\<close> reads, without its groups.\<close>

definition vendor_mac_ok :: "string \<Rightarrow> bool" where
  "vendor_mac_ok s = (mac_match s \<noteq> None)"

section \<open>Every hit is shown once\<close>

text \<open>The rows of the window, and what identifies a row.\<close>

fun leaves :: "res_item \<Rightarrow> res_item list" where
  "leaves (Sect t st its) = concat (map leaves its)"
| "leaves (ResIf r) = [ResIf r]"
| "leaves (ResNei r) = [ResNei r]"
| "leaves (ResDev b) = [ResDev b]"
| "leaves it = []"

datatype row_key = KIf dev_id if_name "string option" | KNei dev_id string | KDev dev_id | KNone

fun key_of :: "res_item \<Rightarrow> row_key" where
  "key_of (ResIf r) = KIf (db_dev (fr_dev r)) (fr_if r) (fr_vlan r)"
| "key_of (ResNei r) = KNei (db_dev (nr_dev r)) (nr_text r)"
| "key_of (ResDev b) = KDev (db_dev b)"
| "key_of it = KNone"

definition item_keys :: "res_item \<Rightarrow> row_key multiset" where
  "item_keys it = mset (map key_of (leaves it))"

definition shown_keys :: "res_item list \<Rightarrow> row_key multiset" where
  "shown_keys its = (\<Sum>it\<leftarrow>its. item_keys it)"

text \<open>What the answer has to show.\<close>

definition hit_key :: "string option \<Rightarrow> 'z if_hit_scheme \<Rightarrow> row_key multiset" where
  "hit_key v h = {#KIf (ref_dev_id (hit_ref h)) (hit_ifName h) v#}"

definition nei_key :: "nei_hit \<Rightarrow> row_key multiset" where
  "nei_key h = {#KNei (ref_dev_id (nh_ref h)) (case nh_ifName h of Some i \<Rightarrow> i | None \<Rightarrow> nh_source h @ '' Port: '' @ nh_port_index h)#}"

definition list_keys :: "('a \<Rightarrow> row_key multiset) \<Rightarrow> 'a list option \<Rightarrow> row_key multiset" where
  "list_keys k oxs = (case oxs of None \<Rightarrow> {#} | Some xs \<Rightarrow> \<Sum>x\<leftarrow>xs. k x)"

definition ip_keys :: "ip_found \<Rightarrow> row_key multiset" where
  "ip_keys r = list_keys (hit_key None) (ipf_ifs r) + list_keys (hit_key None) (ipf_net_ifs r) + list_keys nei_key (ipf_neigs r)"

definition mac_keys :: "mac_found \<Rightarrow> row_key multiset" where
  "mac_keys r = list_keys (hit_key None) (mcf_ifs r) + list_keys (\<lambda>p. hit_key (Some (hit_vlan p)) p) (mcf_ports r) + list_keys nei_key (mcf_neigs r)"

definition answer_keys :: "search_ok \<Rightarrow> row_key multiset" where
  "answer_keys ok = list_keys (\<lambda>(ip, r). case r of None \<Rightarrow> {#} | Some r \<Rightarrow> ip_keys r) (so_ips ok) +
     list_keys (\<lambda>(m, r). mac_keys r) (so_macs ok) + list_keys (\<lambda>d. {#KDev (ref_dev_id d)#}) (so_devs ok) +
     list_keys (hit_key None) (so_ints ok) + list_keys nei_key (so_neigs ok)"

text \<open>Answers without gaps: the devices have names, the interfaces are there, the keys of the tables differ.\<close>

definition hit_ok :: "'z if_hit_scheme \<Rightarrow> bool" where
  "hit_ok h \<longleftrightarrow> ref_short_name (hit_ref h) \<noteq> None \<and> hit_interface h \<noteq> None"

definition nei_ok :: "nei_hit \<Rightarrow> bool" where
  "nei_ok h \<longleftrightarrow> ref_short_name (nh_ref h) \<noteq> None \<and> (nh_ifName h \<noteq> None \<longrightarrow> nh_interface h \<noteq> None)"

definition opt_all :: "('a \<Rightarrow> bool) \<Rightarrow> 'a list option \<Rightarrow> bool" where
  "opt_all P oxs = (case oxs of None \<Rightarrow> True | Some xs \<Rightarrow> list_all P xs)"

definition ip_ok :: "tag list \<Rightarrow> ip_found \<Rightarrow> bool" where
  "ip_ok tags r \<longleftrightarrow> opt_all hit_ok (ipf_ifs r) \<and> opt_all hit_ok (ipf_net_ifs r) \<and> opt_all nei_ok (ipf_neigs r) \<and>
     (length (ipf_macs r) \<le> 1 \<or> list_all (\<lambda>m. key_text m \<noteq> None) (ipf_macs r)) \<and>
     (case oget (ipf_texts r) ''site'' of None \<Rightarrow> True | Some st \<Rightarrow> \<not> isl (get_tag (Tag ''root'' '''' '''' None tags) st))"

definition mac_ok :: "mac_found \<Rightarrow> bool" where
  "mac_ok r \<longleftrightarrow> opt_all hit_ok (mcf_ifs r) \<and> opt_all hit_ok (mcf_ports r) \<and> opt_all nei_ok (mcf_neigs r)"

definition answer_ok :: "tag list \<Rightarrow> search_ok \<Rightarrow> bool" where
  "answer_ok tags ok \<longleftrightarrow>
     (case so_ips ok of None \<Rightarrow> True | Some t \<Rightarrow> owf t \<and> list_all (\<lambda>(ip, r). case r of None \<Rightarrow> False | Some r \<Rightarrow> ip_ok tags r) t) \<and>
     (case so_macs ok of None \<Rightarrow> True | Some t \<Rightarrow> owf t \<and> list_all (\<lambda>(m, r). mac_ok r) t) \<and>
     opt_all (\<lambda>d. ref_short_name d \<noteq> None) (so_devs ok) \<and> opt_all hit_ok (so_ints ok) \<and> opt_all nei_ok (so_neigs ok)"

text \<open>A part of the window that is made and shows certain rows.\<close>

definition gives :: "exn + res_item list \<Rightarrow> row_key multiset \<Rightarrow> bool" where
  "gives r ks \<longleftrightarrow> (\<exists>its. r = Inr its \<and> shown_keys its = ks)"

lemma gives_Inr [simp]: "gives (Inr its) ks \<longleftrightarrow> shown_keys its = ks"
  by (simp add: gives_def)

lemma shown_keys_simps [simp]: "shown_keys [] = {#}" "shown_keys (it # its) = item_keys it + shown_keys its"
  "shown_keys (xs @ ys) = shown_keys xs + shown_keys ys"
  by (simp_all add: shown_keys_def)

lemma item_keys_simps [simp]:
  "item_keys (ResLine a b) = {#}" "item_keys (ResIpdb a c) = {#}" "item_keys (ResSite g h) = {#}" "item_keys (ResNet a b) = {#}"
  "item_keys (ResMacs h xs) = {#}" "item_keys (ResIps xs) = {#}" "item_keys (Sect t h its) = shown_keys its"
  "item_keys (ResIf r) = {#key_of (ResIf r)#}" "item_keys (ResNei n) = {#key_of (ResNei n)#}" "item_keys (ResDev bx) = {#key_of (ResDev bx)#}"
proof -
  show "item_keys (Sect t h its) = shown_keys its"
    by (induction its) (simp_all add: item_keys_def shown_keys_def)
qed (simp_all add: item_keys_def)

lemma gives_pieces [simp]: "gives (pieces []) ks \<longleftrightarrow> ks = {#}"
  by (auto simp: gives_def)

lemma gives_chain_Cons: "gives r ks \<Longrightarrow> gives (pieces rs) ls \<Longrightarrow> gives (pieces (r # rs)) (ks + ls)"
  by (auto simp: gives_def)

lemma gives_rows:
  assumes "\<And>x. x \<in> set xs \<Longrightarrow> \<exists>r. f x = Inr r \<and> item_keys r = K x"
  shows "gives (rows_of f xs) (\<Sum>x\<leftarrow>xs. K x)"
  using assms
proof (induction xs)
  case (Cons x xs)
  then obtain r where "f x = Inr r" "item_keys r = K x" by auto
  moreover obtain its where "rows_of f xs = Inr its" "shown_keys its = (\<Sum>x\<leftarrow>xs. K x)" using Cons by (auto simp: gives_def)
  ultimately show ?case by (auto simp: rows_of_def)
qed (simp add: rows_of_def)

lemma sum_keys_perm: "mset ys = mset xs \<Longrightarrow> (\<Sum>x\<leftarrow>ys. K x) = ((\<Sum>x\<leftarrow>xs. K x) :: row_key multiset)"
  by (metis mset_map sum_mset_sum_list)

lemma gives_sorted:
  assumes "\<And>x. x \<in> set xs \<Longrightarrow> \<exists>r. f x = Inr r \<and> item_keys r = K x" "\<And>x y. x \<in> set xs \<Longrightarrow> y \<in> set xs \<Longrightarrow> \<not> isl (cmp x y)"
  shows "gives (sorted_rows cmp f xs) (\<Sum>x\<leftarrow>xs. K x)"
proof -
  have "try_sort cmp xs = Inr (js_sort (\<lambda>a b. cmp_value (cmp a b)) xs)" using assms(2) by (auto simp: try_sort_def list_ex_iff)
  moreover have "gives (rows_of f (js_sort (\<lambda>a b. cmp_value (cmp a b)) xs)) (\<Sum>x\<leftarrow>js_sort (\<lambda>a b. cmp_value (cmp a b)) xs. K x)"
    by (rule gives_rows) (simp add: assms(1))
  ultimately show ?thesis by (simp add: sorted_rows_def sum_keys_perm [OF mset_js_sort])
qed

lemma gives_opt_sect:
  assumes "opt_all P oxs" "\<And>xs. list_all P xs \<Longrightarrow> gives (f xs) (\<Sum>x\<leftarrow>xs. K x)"
  shows "gives (opt_sect t st f oxs) (list_keys K oxs)"
proof (cases oxs)
  case (Some xs)
  with assms have "gives (f xs) (\<Sum>x\<leftarrow>xs. K x)" by (simp add: opt_all_def)
  with Some show ?thesis by (auto simp: gives_def opt_sect_def list_keys_def)
qed (simp add: opt_sect_def list_keys_def)

lemma mk_if_row_key: "hit_ok h \<Longrightarrow> \<exists>r. map_sum id ResIf (mk_if_row s v h) = Inr r \<and> item_keys r = hit_key v h"
  by (auto simp: hit_ok_def mk_if_row_def vdev_labels_def int_labels_def int_metrics_def dev_ifs_def hit_key_def mk_box_def)

lemma mk_nei_row_key: "nei_ok h \<Longrightarrow> \<exists>r. map_sum id ResNei (mk_nei_row s kept h) = Inr r \<and> item_keys r = nei_key h"
  by (cases "nh_ifName h")
    (auto simp: nei_ok_def mk_nei_row_def Let_def vdev_labels_def int_labels_def int_metrics_def dev_ifs_def nei_key_def mk_box_def)

lemma text_compare_ok: "a \<noteq> None \<Longrightarrow> b \<noteq> None \<Longrightarrow> \<not> isl (text_compare lc a b)"
  by (auto simp: text_compare_def)

lemma hit_compare_ok: "hit_ok a \<Longrightarrow> hit_ok b \<Longrightarrow> \<not> isl (hit_compare lc a b)"
  by (auto simp: hit_ok_def hit_compare_def text_compare_def)

lemma nei_compare_ok: "nei_ok a \<Longrightarrow> nei_ok b \<Longrightarrow> \<not> isl (nei_compare lc a b)"
  by (auto simp: nei_ok_def nei_compare_def text_compare_def split: option.split)

lemma hit_rows_give: "list_all hit_ok xs \<Longrightarrow>
    gives (sorted_rows (hit_compare lc) (\<lambda>h. map_sum id ResIf (mk_if_row s (v h) h)) xs) (\<Sum>h\<leftarrow>xs. hit_key (v h) h)"
  by (rule gives_sorted) (auto simp: list_all_iff intro: mk_if_row_key dest: hit_compare_ok)

lemma nei_rows_give: "list_all nei_ok xs \<Longrightarrow>
    gives (sorted_rows (nei_compare lc) (\<lambda>h. map_sum id ResNei (mk_nei_row s kept h)) xs) (\<Sum>h\<leftarrow>xs. nei_key h)"
  by (rule gives_sorted) (auto simp: list_all_iff intro: mk_nei_row_key dest: nei_compare_ok)

lemmas sect_gives = gives_opt_sect [of hit_ok, OF _ hit_rows_give] gives_opt_sect [of nei_ok, OF _ nei_rows_give]

lemma ip_item_gives:
  assumes "oget tab ip = Some (Some r)" "ip_ok tags r"
  shows "\<exists>it. ip_item lc tags s ok tab ip = Inr it \<and> item_keys it = ip_keys r"
proof -
  let ?site = "case oget (ipf_texts r) ''site'' of None \<Rightarrow> Inr []
      | Some st \<Rightarrow> map_sum id (\<lambda>g. [ResSite g (site s \<noteq> st)]) (get_tag (Tag ''root'' [] [] None tags) st)"
  have "\<exists>ls. ?site = Inr ls \<and> shown_keys ls = {#}"
  proof (cases "oget (ipf_texts r) ''site''")
    case (Some st)
    with assms(2) show ?thesis by (cases "get_tag (Tag ''root'' [] [] None tags) st") (simp_all add: ip_ok_def)
  qed simp
  then obtain ls where ls: "?site = Inr ls" "shown_keys ls = {#}" by blast
  then have head: "gives (ip_head tags s ip r) {#}"
    unfolding ip_head_def Let_def ls(1) by (simp add: text_line_def split: option.split)
  have "\<exists>ms. try_sort (\<lambda>a b. text_compare lc (key_text a) (key_text b)) (ipf_macs r) = Inr ms"
    using assms(2) by (auto simp: ip_ok_def try_sort_def list_ex_iff list_all_iff text_compare_ok simp del: not_None_eq)
  then have macs: "gives (ip_macs_line lc r) {#}" by (auto simp: gives_def ip_macs_line_def)
  have "gives (pieces [ip_head tags s ip r, ip_macs_line lc r, ip_ifs_sect lc s ip r, ip_net_sect lc s ip r, ip_neig_sect lc s ip r])
      ({#} + ({#} + (list_keys (hit_key None) (ipf_ifs r) + (list_keys (hit_key None) (ipf_net_ifs r) + (list_keys nei_key (ipf_neigs r) + {#})))))"
    unfolding ip_ifs_sect_def ip_net_sect_def ip_neig_sect_def
    using assms(2) by (intro gives_chain_Cons head macs sect_gives) (simp_all add: ip_ok_def)
  then show ?thesis using assms(1) by (auto simp: gives_def ip_item_def ip_keys_def)
qed

lemma split_keys: "list_all hit_ok ps \<Longrightarrow> (\<Sum>p\<leftarrow>filter P ps. K p) + (\<Sum>p\<leftarrow>filter (\<lambda>p. \<not> P p) ps. K p) = ((\<Sum>p\<leftarrow>ps. K p) :: row_key multiset)"
  by (induction ps) (auto simp: ac_simps)

lemma list_keys_some [simp]: "list_keys K (some_list xs) = (\<Sum>x\<leftarrow>xs. K x)"
  by (simp add: list_keys_def some_list_def)

lemma mac_item_gives:
  assumes "oget tab mac = Some r" "mac_ok r"
  shows "\<exists>it. mac_item lc s ok tab mac = Inr it \<and> item_keys it = mac_keys r"
proof -
  let ?ps = "case mcf_ports r of None \<Rightarrow> [] | Some ps \<Rightarrow> ps"
  let ?ends = "filter (\<lambda>p. \<not> leads_on (the (hit_interface p))) ?ps"
  let ?trunks = "filter (\<lambda>p. leads_on (the (hit_interface p))) ?ps"
  have ps: "list_all hit_ok ?ps" using assms(2) by (simp add: mac_ok_def opt_all_def split: option.splits)
  then have split: "split_ports r = Inr (?ends, ?trunks)" by (auto simp: split_ports_def Let_def list_ex_iff list_all_iff hit_ok_def)
  have parts: "opt_all hit_ok (some_list ?ends)" "opt_all hit_ok (some_list ?trunks)"
    using ps by (auto simp: opt_all_def some_list_def list_all_iff)
  obtain ifs where ifs: "mac_ifs_sect lc s mac r = Inr ifs" "shown_keys ifs = list_keys (hit_key None) (mcf_ifs r)"
  proof -
    have "gives (mac_ifs_sect lc s mac r) (list_keys (hit_key None) (mcf_ifs r))"
      unfolding mac_ifs_sect_def by (rule sect_gives(1)) (use assms(2) in \<open>simp add: mac_ok_def\<close>)
    then show thesis using that by (auto simp: gives_def)
  qed
  have head: "gives (Inr (mac_head lc r)) {#}" by (simp add: mac_head_def split: option.split)
  have "gives (pieces [Inr (mac_head lc r), Inr ifs, end_ports_sect lc s mac ?ends, trunk_ports_sect lc s mac ?trunks, mac_neig_sect lc s mac r])
      ({#} + (list_keys (hit_key None) (mcf_ifs r) + (list_keys (\<lambda>p. hit_key (Some (hit_vlan p)) p) (some_list ?ends) +
        (list_keys (\<lambda>p. hit_key (Some (hit_vlan p)) p) (some_list ?trunks) + (list_keys nei_key (mcf_neigs r) + {#})))))"
    unfolding end_ports_sect_def trunk_ports_sect_def mac_neig_sect_def mac_port_rows_def
    using assms(2) parts ifs(2) by (intro gives_chain_Cons head sect_gives) (simp_all add: mac_ok_def)
  moreover have "(\<Sum>p\<leftarrow>?ends. hit_key (Some (hit_vlan p)) p) + (\<Sum>p\<leftarrow>?trunks. hit_key (Some (hit_vlan p)) p) =
      list_keys (\<lambda>p. hit_key (Some (hit_vlan p)) p) (mcf_ports r)"
    using split_keys [OF ps, where P = "\<lambda>p. leads_on (the (hit_interface p))" and K = "\<lambda>p. hit_key (Some (hit_vlan p)) p"]
    by (simp add: list_keys_def add.commute split: option.splits)
  ultimately show ?thesis
    using assms(1) by (auto simp: gives_def mac_item_def ifs(1) split mac_keys_def add.assoc)
qed

lemma oget_member: "owf ps \<Longrightarrow> (k, v) \<in> set ps \<Longrightarrow> oget ps k = Some v"
  by (simp add: owf_def okeys_def)

lemma sum_table: "owf tab \<Longrightarrow> (\<Sum>k\<leftarrow>okeys tab. case oget tab k of None \<Rightarrow> {#} | Some v \<Rightarrow> K v) = ((\<Sum>(k, v)\<leftarrow>tab. K v) :: row_key multiset)"
proof -
  assume w: "owf tab"
  have "(case oget tab (fst x) of None \<Rightarrow> {#} | Some v \<Rightarrow> K v) = (case x of (k, v) \<Rightarrow> K v)" if "x \<in> set tab" for x
    using oget_member [OF w, of "fst x" "snd x"] that by (cases x) simp
  then have "map (\<lambda>x. case oget tab (fst x) of None \<Rightarrow> {#} | Some v \<Rightarrow> K v) tab = map (\<lambda>(k, v). K v) tab"
    by (intro map_cong refl)
  then show ?thesis by (simp only: okeys_def map_map comp_def)
qed

lemma table_rows_give:
  assumes w: "owf tab" and f: "\<And>k v. oget tab k = Some v \<Longrightarrow> \<exists>it. f k = Inr it \<and> item_keys it = K v" and p: "mset ks = mset (okeys tab)"
  shows "gives (rows_of f ks) (\<Sum>(k, v)\<leftarrow>tab. K v)"
proof -
  let ?K = "\<lambda>k. case oget tab k of None \<Rightarrow> {#} | Some v \<Rightarrow> K v"
  have "gives (rows_of f ks) (\<Sum>k\<leftarrow>ks. ?K k)"
  proof (rule gives_rows)
    fix k assume "k \<in> set ks"
    then have "k \<in> set (okeys tab)" using mset_eq_setD [OF p] by simp
    then obtain v where "oget tab k = Some v" by (cases "oget tab k") (auto simp: oget_None_iff)
    with f [OF this] show "\<exists>r. f k = Inr r \<and> item_keys r = ?K k" by simp
  qed
  then show ?thesis by (simp add: sum_keys_perm [OF p] sum_table [OF w])
qed

lemma ip_results_give:
  assumes "answer_ok tags ok"
  shows "gives (ip_results lc tags s ok) (list_keys (\<lambda>(ip, r). case r of None \<Rightarrow> {#} | Some r \<Rightarrow> ip_keys r) (so_ips ok))"
proof (cases "so_ips ok")
  case (Some tab)
  then have w: "owf tab" "list_all (\<lambda>(ip, r). case r of None \<Rightarrow> False | Some r \<Rightarrow> ip_ok tags r) tab" using assms by (simp_all add: answer_ok_def)
  have "gives (rows_of (ip_item lc tags s ok tab) (js_sort (origin_compare lc (so_type ok = ''ip'') (so_origin ok)) (okeys tab)))
      (\<Sum>(ip, r)\<leftarrow>tab. case r of None \<Rightarrow> {#} | Some r \<Rightarrow> ip_keys r)"
  proof (rule table_rows_give [OF w(1)])
    fix ip v assume v: "oget tab ip = Some v"
    with w(2) obtain r where "v = Some r" "ip_ok tags r"
      by (auto simp: list_all_iff dest!: map_of_SomeD split: option.splits)
    with ip_item_gives v show "\<exists>it. ip_item lc tags s ok tab ip = Inr it \<and> item_keys it = (case v of None \<Rightarrow> {#} | Some r \<Rightarrow> ip_keys r)" by simp
  qed simp
  with Some show ?thesis by (auto simp: gives_def ip_results_def list_keys_def)
qed (simp add: ip_results_def list_keys_def)

lemma mac_results_give:
  assumes "answer_ok tags ok"
  shows "gives (mac_results lc s ok) (list_keys (\<lambda>(m, r). mac_keys r) (so_macs ok))"
proof (cases "so_macs ok")
  case (Some tab)
  then have w: "owf tab" "list_all (\<lambda>(m, r). mac_ok r) tab" using assms by (simp_all add: answer_ok_def)
  have "gives (rows_of (mac_item lc s ok tab) (js_sort (origin_compare lc (so_type ok = ''mac'') (so_origin ok)) (okeys tab)))
      (\<Sum>(m, r)\<leftarrow>tab. mac_keys r)"
  proof (rule table_rows_give [OF w(1)])
    fix m r assume r: "oget tab m = Some r"
    with w(2) have "mac_ok r" by (auto simp: list_all_iff dest!: map_of_SomeD)
    with mac_item_gives [OF r] show "\<exists>it. mac_item lc s ok tab m = Inr it \<and> item_keys it = mac_keys r" by simp
  qed simp
  with Some show ?thesis by (auto simp: gives_def mac_results_def list_keys_def)
qed (simp add: mac_results_def list_keys_def)

lemma list_give: "opt_all P oxs \<Longrightarrow> (\<And>xs. list_all P xs \<Longrightarrow> gives (f xs) (\<Sum>x\<leftarrow>xs. K x)) \<Longrightarrow>
    gives (case oxs of None \<Rightarrow> Inr [] | Some xs \<Rightarrow> opt_sect (t (length xs)) False f (Some xs)) (list_keys K oxs)"
  using gives_opt_sect [of P oxs f K] by (cases oxs) (auto simp: list_keys_def)

lemma devs_results_give:
  assumes "answer_ok tags ok"
  shows "gives (devs_results lc s ok) (list_keys (\<lambda>d. {#KDev (ref_dev_id d)#}) (so_devs ok))"
  unfolding devs_results_def
proof (rule list_give)
  show "opt_all (\<lambda>d. ref_short_name d \<noteq> None) (so_devs ok)" using assms by (simp add: answer_ok_def)
  fix ds :: "dev_ref list" assume "list_all (\<lambda>d. ref_short_name d \<noteq> None) ds"
  then show "gives (sorted_rows (\<lambda>a b. text_compare lc (ref_short_name a) (ref_short_name b)) (\<lambda>d. Inr (ResDev (mk_box s d))) ds)
      (\<Sum>d\<leftarrow>ds. {#KDev (ref_dev_id d)#})"
    by (intro gives_sorted) (simp_all add: mk_box_def list_all_iff text_compare_ok del: not_None_eq)
qed

lemma window_gives:
  assumes "answer_ok tags ok"
  shows "gives (show_results lc tags s ok) (answer_keys ok)"
proof -
  have parts: "gives (ints_results lc s ok) (list_keys (hit_key None) (so_ints ok))"
    "gives (neigs_results lc s ok) (list_keys nei_key (so_neigs ok))"
    using assms unfolding ints_results_def neigs_results_def
    by (auto simp: answer_ok_def intro: list_give hit_rows_give nei_rows_give)
  note all = ip_results_give [OF assms, of lc s] mac_results_give [OF assms, of lc s] devs_results_give [OF assms, of lc s] parts
  show ?thesis
  proof (cases "so_type ok = ''mac''")
    case True
    have "gives (show_results lc tags s ok) (list_keys (\<lambda>(m, r). mac_keys r) (so_macs ok) +
        (list_keys (\<lambda>(ip, r). case r of None \<Rightarrow> {#} | Some r \<Rightarrow> ip_keys r) (so_ips ok) + (list_keys (\<lambda>d. {#KDev (ref_dev_id d)#}) (so_devs ok) +
        (list_keys (hit_key None) (so_ints ok) + (list_keys nei_key (so_neigs ok) + {#})))))"
      unfolding show_results_def if_P [OF True] append.simps by (intro gives_chain_Cons all) simp
    then show ?thesis by (simp add: answer_keys_def ac_simps)
  next
    case False
    have "gives (show_results lc tags s ok) (list_keys (\<lambda>(ip, r). case r of None \<Rightarrow> {#} | Some r \<Rightarrow> ip_keys r) (so_ips ok) +
        (list_keys (\<lambda>(m, r). mac_keys r) (so_macs ok) + (list_keys (\<lambda>d. {#KDev (ref_dev_id d)#}) (so_devs ok) +
        (list_keys (hit_key None) (so_ints ok) + (list_keys nei_key (so_neigs ok) + {#})))))"
      unfolding show_results_def if_not_P [OF False] append.simps by (intro gives_chain_Cons all) simp
    then show ?thesis by (simp add: answer_keys_def ac_simps)
  qed
qed

lemma shown_leaves: "shown_keys its = mset (map key_of (concat (map leaves its)))"
  by (induction its) (simp_all add: item_keys_def)

text \<open>
  C23: for an answer without gaps the window of a search is built, and it shows every device, interface,
  port and neighbour of the answer exactly once for each time the answer has it, and nothing else.
\<close>

theorem results_complete:
  assumes "answer_ok tags ok"
  shows "\<exists>its. show_results lc tags s ok = Inr its \<and> mset (map key_of (concat (map leaves its))) = answer_keys ok"
  using window_gives [OF assms] unfolding gives_def shown_leaves .

definition ex_hit :: if_hit where
  "ex_hit = \<lparr>hit_ref = \<lparr>ref_dev_id = ''sw'', ref_short_name = Some ''Sw'', ref_safe_id = [], ref_status = ''ok''\<rparr>,
     hit_ifName = ''Gi1'', hit_interface = Some iface0\<rparr>"

definition ex_answer :: search_ok where
  "ex_answer = \<lparr>so_origin = ''02'', so_type = ''mac'', so_ips = None,
     so_macs = Some [(''02'', \<lparr>mcf_corp = None, mcf_ips = [], mcf_ifs = Some [ex_hit], mcf_ports = Some [with_vlan ex_hit ''7''], mcf_neigs = None\<rparr>)],
     so_devs = None, so_ints = None, so_neigs = None\<rparr>"

lemma results_complete_witness:
  "\<exists>its. show_results (\<lambda>a b. 0) [] app0 ex_answer = Inr its \<and>
     mset (map key_of (concat (map leaves its))) = {#KIf ''sw'' ''Gi1'' None, KIf ''sw'' ''Gi1'' (Some ''7'')#}"
proof -
  have "answer_ok [] ex_answer"
    by (simp add: answer_ok_def ex_answer_def opt_all_def owf_def mac_ok_def hit_ok_def ex_hit_def with_vlan_def if_hit.defs)
  moreover have "answer_keys ex_answer = {#KIf ''sw'' ''Gi1'' None, KIf ''sw'' ''Gi1'' (Some ''7'')#}"
    by (simp add: answer_keys_def ex_answer_def list_keys_def mac_keys_def hit_key_def ex_hit_def with_vlan_def if_hit.defs)
  ultimately show ?thesis using results_complete [of "[]" ex_answer "\<lambda>a b. 0" app0] by simp
qed

text \<open>
  A neighbour among the results of an address keeps its interface in an element inside of its row, where
  the click does not look: whatever the neighbour is, the window of an interface \<open>undefined\<close> is asked for.
\<close>

lemma map_sum_InrE: "map_sum id f x = Inr y \<Longrightarrow> (\<And>z. x = Inr z \<Longrightarrow> y = f z \<Longrightarrow> P) \<Longrightarrow> P"
  by (cases x) auto

lemma ip_neighbour_click: "mk_nei_row s False h = Inr r \<Longrightarrow> nei_click r = Some (ref_dev_id (nh_ref h), ''undefined'')"
  by (auto simp: mk_nei_row_def Let_def nei_click_def mk_box_def undef_str_def split: option.splits elim!: map_sum_InrE)

lemma mac_neighbour_click: "mk_nei_row s True h = Inr r \<Longrightarrow> nei_click r =
    (case nh_ifName h of None \<Rightarrow> None | Some i \<Rightarrow> if i = [] then None else Some (ref_dev_id (nh_ref h), i))"
  by (auto simp: mk_nei_row_def Let_def nei_click_def mk_box_def undef_str_def if_undef_def split: option.splits elim!: map_sum_InrE)

text \<open>
  An address in the ARP tables of two devices: the offline search answers with two tables as its MACs,
  sorting them throws and the window stays empty.
\<close>

lemma offline_arp_twice_throws:
  assumes "length (ii_macs i) > 1" "list_all (\<lambda>m. key_text m = None) (ii_macs i)"
  shows "show_results lc tags s (offline_answer (mk_search_ret ip ''ip'' [(ip, Some i)] mt ds fs ns)) = Inl TypeError"
proof -
  have "\<exists>a b ms. ii_macs i = a # b # ms" using assms(1) by (cases "ii_macs i"; cases "tl (ii_macs i)") auto
  then obtain a b ms where m: "ii_macs i = a # b # ms" by blast
  then have "ip_macs_line lc (ip_answer i) = Inl TypeError"
    using assms(2) by (simp add: ip_macs_line_def ip_answer_def try_sort_def text_compare_def)
  then have "ip_item lc tags s ok [(ip, Some (ip_answer i))] ip = Inl TypeError" for ok
    by (simp add: ip_item_def ip_head_def text_line_def ip_answer_def)
  then show ?thesis
    by (simp add: show_results_def offline_answer_def mk_search_ret_def some_list_def ip_results_def rows_of_def)
qed

section \<open>The search of the offline file and its window\<close>

lemma gather_every: "gather f xs = Inr ys \<Longrightarrow> (\<And>x zs. x \<in> set xs \<Longrightarrow> f x = Inr zs \<Longrightarrow> \<forall>z \<in> set zs. P z) \<Longrightarrow> \<forall>y \<in> set ys. P y"
proof (induction xs arbitrary: ys)
  case (Cons x xs)
  then obtain zs us where z: "f x = Inr zs" "gather f xs = Inr us" "ys = zs @ us" by (auto split: sum.splits)
  have "\<forall>y \<in> set us. P y" by (rule Cons.IH [OF z(2)]) (rule Cons.prems(2), simp_all)
  then show ?case using Cons.prems(2) [OF _ z(1)] z(3) by auto
qed simp

lemma found_nei_ok: "found_nei src d dv p port n nei = Inr h \<Longrightarrow> dev_short_name dv \<noteq> None \<Longrightarrow> nei_ok h"
  by (auto simp: found_nei_def nei_ok_def ref_of_def undef_str_def split: option.splits if_splits)

lemma found_neis_nei_ok:
  assumes "found_neis reg src keys d dv ports = Inr hs" "dev_short_name dv \<noteq> None"
  shows "\<forall>h \<in> set hs. nei_ok h"
  using assms(1) unfolding found_neis_def
proof (rule gather_every)
  fix x zs
  assume "(\<lambda>(p, port). gather (\<lambda>(n, nei). if nei_match reg keys nei then map_sum id (\<lambda>h. [h]) (found_nei src d dv p port n nei) else Inr [])
      (case port_neighbours port of None \<Rightarrow> [] | Some ns \<Rightarrow> ns)) x = Inr zs"
  then have "gather (\<lambda>(n, nei). if nei_match reg keys nei then map_sum id (\<lambda>h. [h]) (found_nei src d dv (fst x) (snd x) n nei) else Inr [])
      (case port_neighbours (snd x) of None \<Rightarrow> [] | Some ns \<Rightarrow> ns) = Inr zs" by (simp add: case_prod_beta)
  then show "\<forall>h \<in> set zs. nei_ok h"
  proof (rule gather_every)
    fix y us
    assume "(\<lambda>(n, nei). if nei_match reg keys nei then map_sum id (\<lambda>h. [h]) (found_nei src d dv (fst x) (snd x) n nei) else Inr []) y = Inr us"
    then show "\<forall>h \<in> set us. nei_ok h"
      using found_nei_ok [OF _ assms(2), of src d "fst x" "snd x" "fst y" "snd y"]
      by (cases "found_nei src d dv (fst x) (snd x) (fst y) (snd y)") (auto simp: case_prod_beta split: if_splits)
  qed
qed

definition named :: "od \<Rightarrow> bool" where
  "named o1 \<longleftrightarrow> list_all (\<lambda>(d, dv). dev_short_name dv \<noteq> None) (od_devs o1)"

lemma found_neigs_nei_ok:
  assumes "found_neigs reg o1 = Inr hs" "named o1"
  shows "\<forall>h \<in> set hs. nei_ok h"
  using assms(1) unfolding found_neigs_def
proof (rule gather_every)
  fix x zs
  assume x: "x \<in> set (od_devs o1)" and z: "(\<lambda>(d, dv). case found_neis reg ''LLDP'' lldp_keys d dv (dev_lldp_ports dv) of Inl e \<Rightarrow> Inl e
      | Inr ls \<Rightarrow> map_sum id ((@) ls) (found_neis reg ''CDP'' cdp_keys d dv (dev_cdp_ports dv))) x = Inr zs"
  have n: "dev_short_name (snd x) \<noteq> None" using x assms(2) by (auto simp: named_def list_all_iff)
  show "\<forall>h \<in> set zs. nei_ok h"
  proof (cases "found_neis reg ''LLDP'' lldp_keys (fst x) (snd x) (dev_lldp_ports (snd x))")
    case (Inr ls)
    with z obtain cs where "found_neis reg ''CDP'' cdp_keys (fst x) (snd x) (dev_cdp_ports (snd x)) = Inr cs" "zs = ls @ cs"
      by (cases "found_neis reg ''CDP'' cdp_keys (fst x) (snd x) (dev_cdp_ports (snd x))") (auto simp: case_prod_beta)
    with found_neis_nei_ok [OF Inr n] found_neis_nei_ok [OF _ n] show ?thesis by fastforce
  qed (use z in \<open>simp add: case_prod_beta\<close>)
qed

text \<open>
  C28: a text searched for literally in the offline file: the window lists under the devices exactly those
  of which a searched field has the text, and under the interfaces exactly those whose name, description
  or alias has it; and in addition, when the text is a part of the word \<open>undefined\<close>, those without a
  description or without an alias.
\<close>

theorem text_search_shown:
  assumes "v4ip2long text = None" "parse_mac text = None" "ports_known o1" "named o1"
  shows "\<exists>r its. offline_search compile o1 False text = Inr (Some r) \<and> show_results lc tags s (offline_answer r) = Inr its \<and>
    (\<forall>d i. KIf d i None \<in> key_of ` set (concat (map leaves its)) \<longleftrightarrow> (\<exists>dv f. (d, dv, i, f) \<in> set (if_rows o1) \<and>
      (if_has_text text f \<or> text_missing f \<and> contains_ci ''undefined'' text))) \<and>
    (\<forall>d. KDev d \<in> key_of ` set (concat (map leaves its)) \<longleftrightarrow> (\<exists>dv. (d, dv) \<in> set (od_devs o1) \<and> dev_match (\<lambda>v. contains_ci v text) dv))"
proof -
  let ?reg = "re_search (re_liti text)"
  obtain ns where ns: "found_neigs ?reg o1 = Inr ns" using found_neigs_ok [OF assms(3), of ?reg] by blast
  define r where "r = mk_search_ret text ''free'' [] [] (found_devs ?reg o1) (found_ifs ?reg o1) ns"
  have run: "offline_search compile o1 False text = Inr (Some r)"
    using assms(1,2) ns by (simp add: offline_search_def search_by_text_def r_def)
  have ok: "answer_ok tags (offline_answer r)"
  proof -
    have "list_all (\<lambda>d. ref_short_name d \<noteq> None) (found_devs ?reg o1)" "list_all hit_ok (found_ifs ?reg o1)" "list_all nei_ok ns"
      using assms(4) found_neigs_nei_ok [OF ns assms(4)]
      by (auto simp: list_all_iff found_devs_def found_ifs_def named_def ref_of_def own_hit_def hit_ok_def split: if_splits)
    then show ?thesis by (auto simp: answer_ok_def offline_answer_def r_def mk_search_ret_def some_list_def opt_all_def)
  qed
  from window_gives [OF ok] obtain its where its: "show_results lc tags s (offline_answer r) = Inr its" "shown_keys its = answer_keys (offline_answer r)"
    by (auto simp: gives_def)
  have keys: "key_of ` set (concat (map leaves its)) = set_mset (answer_keys (offline_answer r))"
    using its(2) unfolding shown_leaves by (metis set_map set_mset_mset)
  have "answer_keys (offline_answer r) = (\<Sum>d\<leftarrow>found_devs ?reg o1. {#KDev (ref_dev_id d)#}) + (\<Sum>h\<leftarrow>found_ifs ?reg o1. hit_key None h) + (\<Sum>h\<leftarrow>ns. nei_key h)"
    by (simp add: answer_keys_def offline_answer_def r_def mk_search_ret_def) (simp add: some_list_def list_keys_def)
  then have set: "set_mset (answer_keys (offline_answer r)) = (\<lambda>d. KDev (ref_dev_id d)) ` set (found_devs ?reg o1) \<union>
      (\<lambda>h. KIf (ref_dev_id (hit_ref h)) (hit_ifName h) None) ` set (found_ifs ?reg o1) \<union> (\<Union>h \<in> set ns. set_mset (nei_key h))"
    by (auto simp: hit_key_def)
  have if_key: "KIf d i None \<in> set_mset (answer_keys (offline_answer r)) \<longleftrightarrow> (\<exists>dv f. (d, dv, i, f) \<in> set (if_rows o1) \<and>
      (if_has_text text f \<or> text_missing f \<and> contains_ci ''undefined'' text))" for d i
  proof -
    have "KIf d i None \<in> set_mset (answer_keys (offline_answer r)) \<longleftrightarrow>
        (d, i) \<in> set (map (\<lambda>h. (ref_dev_id (hit_ref h), hit_ifName h)) (found_ifs ?reg o1))"
      unfolding set by (auto simp: nei_key_def)
    then show ?thesis unfolding found_ifs_keys if_match_liti by simp
  qed
  have "KDev d \<in> set_mset (answer_keys (offline_answer r)) \<longleftrightarrow> (\<exists>dv. (d, dv) \<in> set (od_devs o1) \<and> dev_match ?reg dv)" for d
    unfolding set by (force simp: nei_key_def found_devs_def ref_of_def)
  then have dev_key: "\<forall>d. KDev d \<in> key_of ` set (concat (map leaves its)) \<longleftrightarrow> (\<exists>dv. (d, dv) \<in> set (od_devs o1) \<and> dev_match (\<lambda>v. contains_ci v text) dv)"
    unfolding keys liti_contains [symmetric] by blast
  have "\<forall>d i. KIf d i None \<in> key_of ` set (concat (map leaves its)) \<longleftrightarrow> (\<exists>dv f. (d, dv, i, f) \<in> set (if_rows o1) \<and>
      (if_has_text text f \<or> text_missing f \<and> contains_ci ''undefined'' text))"
    unfolding keys using if_key by blast
  with run its(1) dev_key show ?thesis by (intro exI conjI)
qed

lemma text_search_shown_witness:
  "\<exists>r its. offline_search (\<lambda>p. None) ex_file False ''gI'' = Inr (Some r) \<and> show_results (\<lambda>a b. 0) [] app0 (offline_answer r) = Inr its \<and>
     KIf ''rt'' ''Gi0'' None \<in> key_of ` set (concat (map leaves its))"
proof -
  have v: "v4ip2long ''gI'' = None" and m: "parse_mac ''gI'' = None" and k: "ports_known ex_file" by code_simp+
  have n: "named ex_file" by code_simp
  have row: "list_ex (\<lambda>(d, dv, i, f). d = ''rt'' \<and> i = ''Gi0'' \<and> ifName f = ''Gi0'') (if_rows ex_file)" by code_simp
  have "contains_ci ''Gi0'' ''gI''"
    unfolding contains_ci_def by (intro exI [of _ "[]"] exI [of _ "''Gi''"] exI [of _ "''0''"] conjI) code_simp+
  with row have "\<exists>dv f. (''rt'', dv, ''Gi0'', f) \<in> set (if_rows ex_file) \<and> if_has_text ''gI'' f"
    by (force simp: list_ex_iff if_has_text_def if_texts_def)
  with text_search_shown [OF v m k n, of "\<lambda>p. None" "\<lambda>a b. 0" "[]" app0] show ?thesis by blast
qed

end
