(* ===== verification/Events.thy ===== *)
theory Events
  imports Results
begin

text \<open>
  The log of a device (\<open>devEvents\<close>, \<open>event_row\<close>) and the window of all layouts (\<open>selectLayout\<close>), with the
  dates they print (\<open>from_unix_time\<close>). The model gives the rows; icons are named by their class.
\<close>

section \<open>Dates\<close>

record full_date = date +
  date_seconds :: nat

definition addZero :: "nat \<Rightarrow> string" where
  "addZero n = (if n > 9 then nat_str n else ''0'' @ nat_str n)"

text \<open>\<open>local\<close> reads a time in the time zone of the browser. A time of zero or none is a word of its own.\<close>

datatype time_text = NoTime | At string

definition from_unix_time :: "(int \<Rightarrow> full_date) \<Rightarrow> int \<Rightarrow> bool \<Rightarrow> int option \<Rightarrow> time_text" where
  "from_unix_time local now relative timestamp = (case timestamp of
      None \<Rightarrow> NoTime
    | Some ts \<Rightarrow>
        if ts = 0 then NoTime
        else
          let n = local now; d = local ts;
              today = addZero (date_hours d) @ '':'' @ addZero (date_minutes d) @ '':'' @ addZero (date_seconds d)
          in if relative \<and> date_day n = date_day d \<and> date_month n = date_month d \<and> date_year n = date_year d
             then At today
             else At (nat_str (date_year d) @ ''.'' @ addZero (date_month d + 1) @ ''.'' @ addZero (date_day d) @ '' '' @ today))"

section \<open>Events\<close>

text \<open>
  An entry of the log as \<open>JSON.parse\<close> leaves it: not JSON at all, \<open>null\<close>, or a value with the fields that
  are read (any other value has none of them).
\<close>

record event =
  ev_event :: "string option"
  ev_time :: "int option"
  ev_key :: "string option"
  ev_fields :: "(string, string) obj option"

datatype log_entry = NotJson string | JsonNull | Json event

text \<open>
  The cells of a row: an icon, a text, the box of an interface that opens its window, a box without a
  click, and the button that shows the fields.
\<close>

datatype ev_item =
    EvIcon string
  | EvText "string option"
  | EvIf "string option"
  | EvName "string option"
  | EvFields

datatype ev_row = EvError string | EvRow time_text "ev_item list list"

definition change_items :: "(string, string) obj \<Rightarrow> ev_item list" where
  "change_items fs = [EvText (oget fs ''old_value''), EvIcon ''ui-icon-arrow-1-e'', EvText (oget fs ''new_value'')]"

definition lldp_items :: "(string, string) obj \<Rightarrow> ev_item list" where
  "lldp_items fs = [EvText (Some (if_undef (oget fs ''RemSysName'') [] @ '' '' @
     if_undef (oget fs ''RemPortDescr'') (if_undef (oget fs ''RemPortId'') []))), EvFields]"

definition cdp_items :: "(string, string) obj \<Rightarrow> ev_item list" where
  "cdp_items fs = [EvText (Some (undef_str (oget fs ''cdpRemDevId'') @ '' '' @ undef_str (oget fs ''cdpRemIfName''))), EvFields]"

definition ip_items :: "string \<Rightarrow> (string, string) obj \<Rightarrow> ev_item list" where
  "ip_items icon fs = [EvIcon icon, EvText (Some ''IP: ''),
     EvName (Some (undef_str (oget fs ''ip'') @ '' / '' @ undef_str (oget fs ''mask'')))]"

text \<open>A kind that reads \<open>fields\<close> throws without them.\<close>

definition with_fields :: "event \<Rightarrow> ((string, string) obj \<Rightarrow> ev_item list list) \<Rightarrow> exn + ev_item list list" where
  "with_fields ev f = (case ev_fields ev of None \<Rightarrow> Inl TypeError | Some fs \<Rightarrow> Inr (f fs))"

definition change_cells :: "event \<Rightarrow> (string, string) obj \<Rightarrow> ev_item list list" where
  "change_cells ev fs = [[EvIcon ''ui-icon-arrow-2-e-w'', EvText (ev_key ev)], change_items fs]"

definition if_change_cells :: "event \<Rightarrow> (string, string) obj \<Rightarrow> ev_item list list" where
  "if_change_cells ev fs = [[EvIcon ''ui-icon-arrow-2-e-w'', EvIf (ev_key ev)],
     EvText (Some (undef_str (oget fs ''key'') @ '': '')) # change_items fs]"

definition lldp_cells :: "string \<Rightarrow> (string, string) obj \<Rightarrow> ev_item list list" where
  "lldp_cells icon fs = [[EvIcon icon, EvText (Some ''LLDP'')], lldp_items fs]"

definition cdp_cells :: "string \<Rightarrow> (string, string) obj \<Rightarrow> ev_item list list" where
  "cdp_cells icon fs = [[EvIcon icon, EvText (Some ''CDP'')], cdp_items fs]"

definition if_cells :: "string \<Rightarrow> event \<Rightarrow> ev_item list list" where
  "if_cells icon ev = [[EvIcon icon, EvName (ev_key ev)]]"

definition if_ip_cells :: "string \<Rightarrow> event \<Rightarrow> (string, string) obj \<Rightarrow> ev_item list list" where
  "if_ip_cells icon ev fs = [[EvIcon ''ui-icon-arrow-2-e-w'', EvName (ev_key ev)], ip_items icon fs]"

definition event_cells :: "event \<Rightarrow> exn + ev_item list list" where
  "event_cells ev =
     (let k = ev_event ev
      in if k = Some ''key_change'' then with_fields ev (change_cells ev)
         else if k = Some ''if_key_change'' then with_fields ev (if_change_cells ev)
         else if k = Some ''lldp_port_nei_gone'' then with_fields ev (lldp_cells ''ui-icon-circle-b-minus'')
         else if k = Some ''lldp_port_nei_new'' then with_fields ev (lldp_cells ''ui-icon-circle-b-plus'')
         else if k = Some ''cdp_port_nei_gone'' then with_fields ev (cdp_cells ''ui-icon-circle-b-minus'')
         else if k = Some ''cdp_port_nei_new'' then with_fields ev (cdp_cells ''ui-icon-circle-b-plus'')
         else if k = Some ''if_gone'' then Inr (if_cells ''ui-icon-circle-b-minus'' ev)
         else if k = Some ''if_new'' then Inr (if_cells ''ui-icon-circle-b-plus'' ev)
         else if k = Some ''if_ip_gone'' then with_fields ev (if_ip_cells ''ui-icon-circle-b-minus'' ev)
         else if k = Some ''if_ip_new'' then with_fields ev (if_ip_cells ''ui-icon-circle-b-plus'' ev)
         else Inr [[EvText k]])"

text \<open>
  A reset counter has no row: the function returns before the \<open>switch\<close>, whose case for it is never
  reached.
\<close>

definition event_row :: "(int \<Rightarrow> full_date) \<Rightarrow> int \<Rightarrow> log_entry \<Rightarrow> exn + ev_row option" where
  "event_row local now e = (case e of
      NotJson s \<Rightarrow> Inr (Some (EvError s))
    | JsonNull \<Rightarrow> Inl TypeError
    | Json ev \<Rightarrow>
        if ev_event ev = Some ''if_key_reset'' then Inr None
        else map_sum id (\<lambda>cells. Some (EvRow (from_unix_time local now False (ev_time ev)) cells)) (event_cells ev))"

text \<open>The rows are appended to the window one by one, so those before an exception stay.\<close>

record ev_window =
  evw_title :: string
  evw_rows :: "ev_row list"

definition add_event :: "(int \<Rightarrow> full_date) \<Rightarrow> int \<Rightarrow> log_entry \<Rightarrow> ev_window \<Rightarrow> ev_window run" where
  "add_event local now e w = (case event_row local now e of
      Inl x \<Rightarrow> Threw x w
    | Inr None \<Rightarrow> Done w
    | Inr (Some r) \<Rightarrow> Done (w\<lparr>evw_rows := evw_rows w @ [r]\<rparr>))"

definition devEvents :: "(int \<Rightarrow> full_date) \<Rightarrow> int \<Rightarrow> (dev_id, device) obj \<Rightarrow> dev_id \<Rightarrow> log_entry list option \<Rightarrow> ev_window run" where
  "devEvents local now ds d evs =
     each (add_event local now) (case evs of None \<Rightarrow> [] | Some es \<Rightarrow> es)
       \<lparr>evw_title = (case oget ds d of None \<Rightarrow> [] | Some dv \<Rightarrow> undef_str (dev_short_name dv)), evw_rows = []\<rparr>"

section \<open>All layouts\<close>

record layout_ref =
  lr_site :: string
  lr_proj :: string
  lr_file_name :: string
  lr_file_key :: string

record layout_row =
  ly_ref :: layout_ref
  ly_site :: "string \<times> string list"
  ly_proj :: "string \<times> string list"
  ly_name :: string
  ly_href :: string

definition layout_cmp :: "(string \<Rightarrow> string \<Rightarrow> int) \<Rightarrow> tag list \<Rightarrow> tag list \<Rightarrow> layout_ref \<Rightarrow> layout_ref \<Rightarrow> exn + int" where
  "layout_cmp lc sites projs a b =
     (if lr_site a \<noteq> lr_site b then tag_compare lc (Tag ''root'' '''' '''' None sites) (lr_site a) (lr_site b)
      else if lr_proj a \<noteq> lr_proj b then tag_compare lc (Tag ''root'' '''' '''' None projs) (lr_proj a) (lr_proj b)
      else Inr (num_compare lc (lr_file_name a) (lr_file_name b)))"

text \<open>\<open>dbg\<close> is \<open>DEBUG\<close>.\<close>

definition layout_href :: "bool \<Rightarrow> layout_ref \<Rightarrow> string" where
  "layout_href dbg r = ''?action=get_front&site='' @ lr_site r @ ''&proj='' @ lr_proj r @ ''&file_key='' @ lr_file_key r @
     (if dbg then ''&debug'' else [])"

definition layouts_query :: "bool \<Rightarrow> (string, string) obj" where
  "layouts_query others = [(''action'', ''list_maps''), (''others'', if others then ''1'' else ''0'')]"

definition mk_layout_row :: "bool \<Rightarrow> tag list \<Rightarrow> tag list \<Rightarrow> layout_ref \<Rightarrow> exn + layout_row list" where
  "mk_layout_row dbg sites projs r = (case get_tag (Tag ''root'' '''' '''' None sites) (lr_site r) of
      Inl x \<Rightarrow> Inl x
    | Inr st \<Rightarrow> map_sum id (\<lambda>pr. [\<lparr>ly_ref = r, ly_site = st, ly_proj = pr, ly_name = lr_file_name r, ly_href = layout_href dbg r\<rparr>])
        (get_tag (Tag ''root'' '''' '''' None projs) (lr_proj r)))"

text \<open>
  Where the comparison is not consistent (two tags that are not in the tree) the order depends on the
  engine; the rows do not.
\<close>

definition selectLayout :: "(string \<Rightarrow> string \<Rightarrow> int) \<Rightarrow> bool \<Rightarrow> tag list \<Rightarrow> tag list \<Rightarrow> layout_ref list \<Rightarrow> exn + layout_row list" where
  "selectLayout lc dbg sites projs rs = (case try_sort (layout_cmp lc sites projs) rs of
      Inl x \<Rightarrow> Inl x
    | Inr ss \<Rightarrow> gather (mk_layout_row dbg sites projs) ss)"

section \<open>Facts\<close>

definition readable :: "log_entry \<Rightarrow> bool" where
  "readable e = (case e of NotJson s \<Rightarrow> True | JsonNull \<Rightarrow> False | Json ev \<Rightarrow>
     ev_event ev = Some ''if_key_reset'' \<or> ev_fields ev \<noteq> None \<or>
     ev_event ev \<notin> Some ` set [''key_change'', ''if_key_change'', ''lldp_port_nei_gone'', ''lldp_port_nei_new'', ''cdp_port_nei_gone'',
       ''cdp_port_nei_new'', ''if_ip_gone'', ''if_ip_new''])"

lemma event_cells_err: "event_cells ev = Inl x \<Longrightarrow> x = TypeError \<and> ev_fields ev = None \<and>
   ev_event ev \<in> Some ` set [''key_change'', ''if_key_change'', ''lldp_port_nei_gone'', ''lldp_port_nei_new'', ''cdp_port_nei_gone'',
       ''cdp_port_nei_new'', ''if_ip_gone'', ''if_ip_new'']"
  by (simp add: event_cells_def Let_def with_fields_def split: if_splits option.splits)

lemma event_cells_none: "ev_fields ev = None \<Longrightarrow>
   ev_event ev \<in> Some ` set [''key_change'', ''if_key_change'', ''lldp_port_nei_gone'', ''lldp_port_nei_new'', ''cdp_port_nei_gone'',
       ''cdp_port_nei_new'', ''if_ip_gone'', ''if_ip_new''] \<Longrightarrow> event_cells ev = Inl TypeError"
  by (auto simp: event_cells_def Let_def with_fields_def)

lemma event_row_readable: "if readable e then \<exists>r. event_row local now e = Inr r else event_row local now e = Inl TypeError"
proof (cases e)
  case (Json ev)
  show ?thesis
  proof (cases "event_cells ev")
    case (Inl x)
    with event_cells_err [OF Inl] Json show ?thesis by (simp add: readable_def event_row_def)
  next
    case (Inr cs)
    then have "\<not> (ev_fields ev = None \<and> ev_event ev \<in> Some ` set [''key_change'', ''if_key_change'', ''lldp_port_nei_gone'',
        ''lldp_port_nei_new'', ''cdp_port_nei_gone'', ''cdp_port_nei_new'', ''if_ip_gone'', ''if_ip_new''])"
      using event_cells_none [of ev] by auto
    with Inr Json show ?thesis by (auto simp: readable_def event_row_def)
  qed
qed (simp_all add: readable_def event_row_def)

definition rows_of_log :: "(int \<Rightarrow> full_date) \<Rightarrow> int \<Rightarrow> log_entry list \<Rightarrow> ev_row list" where
  "rows_of_log local now es = concat (map (\<lambda>e. case event_row local now e of Inr (Some r) \<Rightarrow> [r] | _ \<Rightarrow> []) es)"

lemma add_readable: "readable e \<Longrightarrow> add_event local now e w = Done (w\<lparr>evw_rows := evw_rows w @ rows_of_log local now [e]\<rparr>)"
  using event_row_readable [of e local now] by (auto simp: add_event_def rows_of_log_def split: option.splits)

lemma add_readables: "list_all readable es \<Longrightarrow>
    each (add_event local now) es w = Done (w\<lparr>evw_rows := evw_rows w @ rows_of_log local now es\<rparr>)"
  by (induction es arbitrary: w) (simp_all add: add_readable, simp_all add: rows_of_log_def)

lemma gather_rows: "gather (mk_layout_row dbg sites projs) rs = Inr rows \<Longrightarrow> map ly_ref rows = rs"
  by (induction rs arbitrary: rows) (auto simp: mk_layout_row_def map_sum_Inr split: sum.splits)

text \<open>The window of all layouts has one row for each, however the sort left them.\<close>

lemma layouts_once: "selectLayout lc dbg sites projs rs = Inr rows \<Longrightarrow> mset (map ly_ref rows) = mset rs"
proof -
  assume "selectLayout lc dbg sites projs rs = Inr rows"
  then obtain ss where ss: "try_sort (layout_cmp lc sites projs) rs = Inr ss" "gather (mk_layout_row dbg sites projs) ss = Inr rows"
    by (auto simp: selectLayout_def split: sum.splits)
  show ?thesis using try_sort_mset [OF ss(1)] by (simp only: gather_rows [OF ss(2)])
qed

section \<open>The rows before a bad entry\<close>

text \<open>
  The log shows the rows of its entries in their order up to the first entry that is \<open>null\<close> or lacks its
  fields; there it stops, and no later entry is shown.
\<close>

theorem log_stops_at_bad_entry:
  assumes "list_all readable es" "\<not> readable e"
  shows "(\<exists>t. devEvents local now ds d (Some (es @ e # es')) = Threw TypeError \<lparr>evw_title = t, evw_rows = rows_of_log local now es\<rparr>) \<and>
    (\<exists>t. devEvents local now ds d (Some es) = Done \<lparr>evw_title = t, evw_rows = rows_of_log local now es\<rparr>)"
proof -
  have "add_event local now e w = Threw TypeError w" for w
    using event_row_readable [of e local now] assms(2) by (simp add: add_event_def)
  then show ?thesis by (simp add: devEvents_def each_append add_readables [OF assms(1)])
qed

definition ex_log :: "log_entry list" where
  "ex_log = [Json \<lparr>ev_event = Some ''if_new'', ev_time = Some 5, ev_key = Some ''Gi0/1'', ev_fields = None\<rparr>,
     Json \<lparr>ev_event = Some ''if_key_reset'', ev_time = Some 6, ev_key = Some ''Gi0/1'', ev_fields = None\<rparr>, NotJson ''x'']"

definition ex_bad_entry :: log_entry where
  "ex_bad_entry = Json \<lparr>ev_event = Some ''if_ip_gone'', ev_time = Some 7, ev_key = Some ''Gi0/1'', ev_fields = None\<rparr>"

definition ex_local :: "int \<Rightarrow> full_date" where
  "ex_local t = \<lparr>date_day = 1, date_month = 0, date_year = 70, date_hours = 0, date_minutes = 0, date_seconds = nat (t mod 60)\<rparr>"

lemma log_stops_at_bad_entry_witness:
  "\<exists>t. devEvents ex_local 0 [] ''d'' (Some (ex_log @ ex_bad_entry # ex_log)) = Threw TypeError \<lparr>evw_title = t,
     evw_rows = [EvRow (At ''70.01.01 00:00:05'') [[EvIcon ''ui-icon-circle-b-plus'', EvName (Some ''Gi0/1'')]], EvError ''x'']\<rparr>"
proof -
  have ok: "list_all readable ex_log" by (simp add: ex_log_def readable_def)
  have bad: "\<not> readable ex_bad_entry" by (simp add: ex_bad_entry_def readable_def)
  have rows: "rows_of_log ex_local 0 ex_log =
      [EvRow (At ''70.01.01 00:00:05'') [[EvIcon ''ui-icon-circle-b-plus'', EvName (Some ''Gi0/1'')]], EvError ''x'']" by code_simp
  show ?thesis using log_stops_at_bad_entry [OF ok bad, of ex_local 0 "[]" "''d''" ex_log] unfolding rows by blast
qed

end
