(* ===== verification/Highlight.thy ===== *)
theory Highlight
  imports MapOps TextFns
begin

text \<open>
  The hint where a found device or interface is (\<open>searchHighlight_dev\<close>, \<open>searchHighlight_int\<close>): its
  element is marked, a bar at the edge of the window shows the direction when it is out of sight,
  and the windows that cover it are marked.
\<close>

section \<open>Where it is\<close>

record hint_rect =
  rc_left :: int
  rc_top :: int
  rc_width :: int
  rc_height :: int

datatype side = SideRight | SideLeft | SideBottom | SideTop

text \<open>\<open>w\<close> is the part of the page the window shows.\<close>

definition off_sides :: "hint_rect \<Rightarrow> hint_rect \<Rightarrow> side list" where
  "off_sides w e =
     (if rc_left e \<ge> rc_width w + rc_left w then [SideRight]
      else if rc_left e + rc_width e \<le> rc_left w then [SideLeft] else []) @
     (if rc_top e \<ge> rc_height w + rc_top w then [SideBottom]
      else if rc_top e + rc_height e \<le> rc_top w then [SideTop] else [])"

definition covers :: "hint_rect \<Rightarrow> hint_rect \<Rightarrow> bool" where
  "covers d e \<longleftrightarrow> rc_left d \<le> rc_left e \<and> rc_left d + rc_width d \<ge> rc_left e + rc_width e \<and>
     rc_top d \<le> rc_top e \<and> rc_top d + rc_height d \<ge> rc_top e + rc_height e"

section \<open>Marks\<close>

text \<open>
  The marked elements and windows, and the bars with their classes: a name with a blank in it makes
  two classes.
\<close>

record marks =
  marked :: "string list"
  bars :: "(string list \<times> side) list"
  marked_dialogs :: "nat list"

definition class_words :: "string \<Rightarrow> string list" where
  "class_words s = filter (\<lambda>c. c \<noteq> []) (split_on CHR '' '' s)"

definition hover_on :: "string \<Rightarrow> string \<Rightarrow> hint_rect \<Rightarrow> (string \<Rightarrow> hint_rect option) \<Rightarrow> hint_rect list \<Rightarrow> marks \<Rightarrow> marks" where
  "hover_on prefix i w elems dialogs m = (case elems i of None \<Rightarrow> m
     | Some e \<Rightarrow> m\<lparr>marked := (if i \<in> set (marked m) then marked m else marked m @ [i]),
         bars := bars m @ map (\<lambda>sd. (class_words (prefix @ i), sd)) (off_sides w e),
         marked_dialogs := marked_dialogs m @ filter (\<lambda>n. covers (dialogs ! n) e \<and> n \<notin> set (marked_dialogs m)) [0..<length dialogs]\<rparr>)"

definition hover_off :: "string \<Rightarrow> string \<Rightarrow> (string \<Rightarrow> hint_rect option) \<Rightarrow> marks \<Rightarrow> marks" where
  "hover_off prefix i elems m =
     m\<lparr>marked := (if elems i = None then marked m else filter (\<lambda>j. j \<noteq> i) (marked m)),
       bars := filter (\<lambda>(cs, sd). prefix @ i \<notin> set cs) (bars m), marked_dialogs := []\<rparr>"

definition dev_hover_on :: "dev_id \<Rightarrow> hint_rect \<Rightarrow> (string \<Rightarrow> hint_rect option) \<Rightarrow> hint_rect list \<Rightarrow> marks \<Rightarrow> marks" where
  "dev_hover_on d = hover_on ''dev_dir_'' d"

definition dev_hover_off :: "dev_id \<Rightarrow> (string \<Rightarrow> hint_rect option) \<Rightarrow> marks \<Rightarrow> marks" where
  "dev_hover_off d = hover_off ''dev_dir_'' d"

definition int_hover_on :: "dev_id \<Rightarrow> if_name \<Rightarrow> hint_rect \<Rightarrow> (string \<Rightarrow> hint_rect option) \<Rightarrow> hint_rect list \<Rightarrow> marks \<Rightarrow> marks" where
  "int_hover_on d i = hover_on ''dev_int_dir_'' (int_elm i d)"

definition int_hover_off :: "dev_id \<Rightarrow> if_name \<Rightarrow> (string \<Rightarrow> hint_rect option) \<Rightarrow> marks \<Rightarrow> marks" where
  "int_hover_off d i = hover_off ''dev_int_dir_'' (int_elm i d)"

section \<open>What the bars say\<close>

text \<open>No bar exactly when a part of the element is in sight; never two opposite ones.\<close>

lemma bars_iff_hidden:
  "off_sides w e = [] \<longleftrightarrow> rc_left w < rc_left e + rc_width e \<and> rc_left e < rc_left w + rc_width w \<and>
     rc_top w < rc_top e + rc_height e \<and> rc_top e < rc_top w + rc_height w"
  by (auto simp: off_sides_def)

lemma bars_point: "distinct (off_sides w e) \<and> \<not> {SideLeft, SideRight} \<subseteq> set (off_sides w e) \<and> \<not> {SideTop, SideBottom} \<subseteq> set (off_sides w e)"
  by (simp add: off_sides_def)

text \<open>Leaving takes away what entering brought, unless the name has a blank: then the bars stay.\<close>

lemma classes_plain: "CHR '' '' \<notin> set s \<Longrightarrow> s \<noteq> [] \<Longrightarrow> class_words s = [s]"
  by (simp add: class_words_def split_on_free)

lemma classes_blank: "CHR '' '' \<in> set s \<Longrightarrow> s \<notin> set (class_words s)"
  using split_on_elem_free [of s "CHR '' ''" s] by (auto simp: class_words_def)

lemma hover_off_on:
  assumes "elems i = Some e" "CHR '' '' \<notin> set prefix" "prefix \<noteq> []" "i \<notin> set (marked m)" "\<forall>(cs, sd) \<in> set (bars m). prefix @ i \<notin> set cs"
  shows "marked (hover_off prefix i elems (hover_on prefix i w elems dialogs m)) = marked m"
    "bars (hover_off prefix i elems (hover_on prefix i w elems dialogs m)) =
      bars m @ (if CHR '' '' \<in> set i then map (\<lambda>sd. (class_words (prefix @ i), sd)) (off_sides w e) else [])"
proof -
  have "filter (\<lambda>(cs, sd). prefix @ i \<notin> set cs) (bars m) = bars m" using assms(5) by (intro filter_True) auto
  moreover have "filter (\<lambda>j. j \<noteq> i) (marked m) = marked m" using assms(4) by (intro filter_True) auto
  moreover have "prefix @ i \<in> set (class_words (prefix @ i)) \<longleftrightarrow> CHR '' '' \<notin> set i"
    using classes_plain [of "prefix @ i"] classes_blank [of "prefix @ i"] assms(2,3) by (cases "CHR '' '' \<in> set i") auto
  ultimately show "marked (hover_off prefix i elems (hover_on prefix i w elems dialogs m)) = marked m"
    "bars (hover_off prefix i elems (hover_on prefix i w elems dialogs m)) =
      bars m @ (if CHR '' '' \<in> set i then map (\<lambda>sd. (class_words (prefix @ i), sd)) (off_sides w e) else [])"
    using assms(1,4) by (simp_all add: hover_on_def hover_off_def filter_map comp_def)
qed

text \<open>
  Entering and leaving a hint for an interface out of sight: for a name without blanks the page is
  as before; with one, a bar for every side the interface is off stays on the page.
\<close>

theorem blank_name_bars:
  assumes "elems (int_elm i d) = Some e" "marked m = []" "bars m = []" "CHR '' '' \<notin> set d"
  shows "bars (int_hover_off d i elems (int_hover_on d i w elems dialogs m)) = [] \<longleftrightarrow> CHR '' '' \<notin> set i \<or> off_sides w e = []"
  using hover_off_on(2) [of elems "int_elm i d" e "''dev_int_dir_''" m w dialogs] assms
  by (simp add: int_hover_on_def int_hover_off_def int_elm_def)

lemma blank_name_bars_witness:
  "bars (int_hover_off ''sw'' ''Po 1'' (\<lambda>_. Some \<lparr>rc_left = 900, rc_top = 10, rc_width = 16, rc_height = 16\<rparr>)
     (int_hover_on ''sw'' ''Po 1'' \<lparr>rc_left = 0, rc_top = 0, rc_width = 800, rc_height = 600\<rparr>
       (\<lambda>_. Some \<lparr>rc_left = 900, rc_top = 10, rc_width = 16, rc_height = 16\<rparr>) [] \<lparr>marked = [], bars = [], marked_dialogs = []\<rparr>)) \<noteq> []"
  by (subst blank_name_bars [of _ _ _ "\<lparr>rc_left = 900, rc_top = 10, rc_width = 16, rc_height = 16\<rparr>"]) (simp_all add: off_sides_def)

end
