(* ===== verification/GraphRuns.thy ===== *)
theory GraphRuns
  imports Graphs
begin

text \<open>
  What the controls of the graphs guarantee: the graphs of a group stay on one range, ranges have
  a least length and do not end in the future, the buttons undo each other, and where they do
  nothing.
\<close>

section \<open>The graphs of a group stay together\<close>

definition group_key :: "graph \<Rightarrow> string \<times> range option \<times> (string \<times> string) option \<times> bool" where
  "group_key g = (g_sync g, g_range g, g_size g, g_compact g)"

definition synced :: "gpage \<Rightarrow> bool" where
  "synced p \<longleftrightarrow> (\<forall>g \<in> set (graphs p). \<forall>h \<in> set (graphs p). g_sync g = g_sync h \<longrightarrow> group_key g = group_key h)"

lemma update_graphs [simp]: "graphs (run_state (graph_update i p)) = graphs p"
  by (simp add: graph_update_def split: sum.split)

lemma updates_graphs: "graphs (run_state (each graph_update is p)) = graphs p"
  by (rule each_view [of graphs]) simp

lemma sync_set_graphs: "graphs (run_state (sync_set sync f p)) = map (\<lambda>g. if has_class sync g then f g else g) (graphs p)"
  by (simp add: sync_set_def updates_graphs)

lemma synced_keys: "map group_key (graphs p') = map group_key (graphs p) \<Longrightarrow> synced p' = synced p"
proof -
  assume "map group_key (graphs p') = map group_key (graphs p)"
  then have img: "group_key ` set (graphs p') = group_key ` set (graphs p)" by (metis set_map)
  have sy: "synced q \<longleftrightarrow> (\<forall>k \<in> group_key ` set (graphs q). \<forall>l \<in> group_key ` set (graphs q). fst k = fst l \<longrightarrow> k = l)"
    for q by (simp add: synced_def) (simp add: group_key_def)
  show ?thesis unfolding sy img ..
qed

lemma keys_set_graph: "group_key g = group_key (graphs p ! i) \<Longrightarrow> map group_key (graphs (set_graph i g p)) = map group_key (graphs p)"
  by (cases "i < length (graphs p)") (simp_all add: set_graph_def map_update list_update_same_conv list_update_beyond)

lemma keys_set_time [simp]: "map group_key (graphs (set_time i t p)) = map group_key (graphs p)"
  by (simp add: set_time_def keys_set_graph group_key_def)

lemma synced_set_time [simp]: "synced (set_time i t p) = synced p"
  by (rule synced_keys) simp

lemma synced_parts [simp]: "synced (p\<lparr>gp_parts := ps\<rparr>) = synced p" "synced (p\<lparr>gp_compact := b\<rparr>) = synced p"
  by (simp_all add: synced_def)

lemma synced_sync_set:
  assumes "synced p" and f: "\<And>g h. group_key g = group_key h \<Longrightarrow> group_key (f g) = group_key (f h)"
    and k: "\<And>g. g_sync (f g) = g_sync g"
  shows "synced (run_state (sync_set sync f p))"
proof -
  define f' where "f' g = (if has_class sync g then f g else g)" for g
  have "g_sync (f' g) = g_sync g" for g by (simp add: f'_def k)
  moreover have "group_key g = group_key h \<Longrightarrow> group_key (f' g) = group_key (f' h)" for g h
    using f [of g h] by (simp add: f'_def has_class_def) (simp add: group_key_def)
  ultimately show ?thesis using assms(1)
    unfolding synced_def sync_set_graphs f'_def [symmetric] set_map ball_simps by metis
qed

lemma synced_set_range: "synced p \<Longrightarrow> synced (run_state (set_range i r p))"
  unfolding set_range_def by (rule synced_sync_set) (simp_all add: group_key_def)

text \<open>
  What can happen: a window is opened or reloaded with its graphs, all graphs of a group being in
  one window; it is closed, with the cross or otherwise; new data of the devices arrives; a picture
  arrives; a control is used; the mouse moves. A graph is named by its place among those there are.
\<close>

inductive graph_step :: "gpage \<Rightarrow> gpage \<Rightarrow> bool" where
  gs_open: "\<forall>g0 \<in> set gs. \<forall>h \<in> set (graphs p). g_sync h = sync_name g0 \<longrightarrow> in_window w h \<Longrightarrow>
    graph_step p (run_state (window_opened w gs p))"
| gs_cross: "graph_step p (window_closed w p)"
| gs_close: "graph_step p (close_graphs w p)"
| gs_data: "graph_step p (p\<lparr>gp_safe := s\<rparr>)"
| gs_answer: "graph_step p (graph_answer i res p)"
| gs_fold: "graph_step p (graph_fold i p)"
| gs_size: "graph_step p (run_state (size_select i val p))"
| gs_compact: "graph_step p (run_state (compact_box i b p))"
| gs_button: "graph_step p (run_state (click_button now i b p))"
| gs_wheel: "graph_step p (run_state (wheel now i up x p))"
| gs_timer: "graph_step p (run_state (wheel_timer now i p))"
| gs_down: "graph_step p (mouse_down i x p)"
| gs_move: "graph_step p (run_state (mouse_move i x p))"
| gs_out: "graph_step p (mouse_out i p)"
| gs_up: "graph_step p (page_mouse_up (run_state (mouse_up i p)))"

lemma syncedD: "synced p \<Longrightarrow> g \<in> set (graphs p) \<Longrightarrow> h \<in> set (graphs p) \<Longrightarrow> g_sync g = g_sync h \<Longrightarrow> group_key g = group_key h"
  unfolding synced_def by blast

lemma synced_subset: "synced p \<Longrightarrow> set (graphs p') \<subseteq> set (graphs p) \<Longrightarrow> synced p'"
  unfolding synced_def by blast

lemma synced_close [simp]: "synced p \<Longrightarrow> synced (close_graphs w p)"
  by (rule synced_subset) (auto simp: close_graphs_def)

lemma synced_open:
  assumes "synced p" "\<forall>h \<in> set (graphs p). g_sync h \<in> sync_name ` set gs \<longrightarrow> group_key h = (g_sync h, None, None, False)"
  shows "synced (run_state (each graph_new gs p))"
  using assms
proof (induction gs arbitrary: p)
  case (Cons g0 gs)
  let ?n = "fresh_graph g0 p" and ?q = "run_state (graph_new g0 p)"
  have g: "graphs ?q = graphs p @ [?n]" "group_key ?n = (sync_name g0, None, None, False)"
    by (simp_all add: graph_new_def fresh_graph_def group_key_def)
  have k: "g_sync ?n = sync_name g0" "g_sync h = fst (group_key h)" for h
    by (simp_all add: fresh_graph_def group_key_def)
  have n: "group_key h = group_key ?n" if "h \<in> set (graphs p)" "g_sync h = sync_name g0" for h
    using Cons.prems(2) that g(2) by simp
  have s: "synced ?q" unfolding synced_def g(1) set_append list.set
    using syncedD [OF Cons.prems(1)] n k(1) by (metis UnE empty_iff insertE)
  have f: "\<forall>h \<in> set (graphs ?q). g_sync h \<in> sync_name ` set gs \<longrightarrow> group_key h = (g_sync h, None, None, False)"
    unfolding g(1) using Cons.prems(2) g(2) k(1) by auto
  from Cons.IH [OF s f] s show ?case by (cases "graph_new g0 p") simp_all
qed simp

lemma graph_step_synced: "graph_step p p' \<Longrightarrow> synced p \<Longrightarrow> synced p'"
proof (induction rule: graph_step.induct)
  case (gs_open gs p w)
  then show ?case unfolding window_opened_def
    by (intro synced_open) (auto simp: close_graphs_def intro: synced_subset)
next
  case (gs_cross p w)
  then show ?case by (simp add: window_closed_def)
next
  case (gs_data p s)
  from gs_data show ?case by (rule synced_subset) simp
next
  case (gs_answer p i res)
  have "map group_key (graphs (graph_answer i res p)) = map group_key (graphs p)"
    unfolding graph_answer_def Let_def by (rule keys_set_graph) (simp add: group_key_def split: option.split)
  with gs_answer synced_keys show ?case by blast
next
  case (gs_fold p i)
  have "map group_key (graphs (set_graph i ((graphs p ! i)\<lparr>g_shown := b\<rparr>) p)) = map group_key (graphs p)" for b
    by (rule keys_set_graph) (simp add: group_key_def)
  with gs_fold synced_keys have "synced (set_graph i ((graphs p ! i)\<lparr>g_shown := b\<rparr>) p)" for b by blast
  then show ?case by (simp add: graph_fold_def Let_def split: option.split)
next
  case (gs_size p i val)
  show ?case unfolding size_select_def Let_def
    by (rule synced_sync_set) (use gs_size in \<open>simp_all add: group_key_def split: option.split\<close>)
next
  case (gs_compact p i b)
  show ?case unfolding compact_box_def
    by (rule synced_sync_set) (use gs_compact in \<open>simp_all add: group_key_def\<close>)
next
  case (gs_button now p i b)
  then show ?case by (simp add: click_button_def Let_def synced_set_range split: option.split)
next
  case (gs_timer now p i)
  then show ?case by (simp add: wheel_timer_def Let_def synced_set_range split: option.split)
next
  case (gs_up p i)
  have u: "synced (page_mouse_up q) = synced q" for q
    by (rule synced_keys) (simp add: page_mouse_up_def group_key_def)
  show ?case unfolding u using gs_up by (simp add: mouse_up_def Let_def synced_set_range split: option.split prod.split)
qed (simp_all add: wheel_def mouse_down_def mouse_move_def mouse_out_def Let_def split: option.split)

lemma query_of_key:
  assumes "graph_query g p = Inr q"
  shows "gq_range q = map_option (\<lambda>(s, e). (gtime_text s, gtime_text e)) (g_range g)" "gq_size q = graph_size g p"
    "gq_compact q = (g_compact g \<or> gp_compact p)"
  using assms by (auto simp: graph_query_def Let_def split: option.splits if_splits)

text \<open>
  C38: whatever is done with the graphs and their windows, also when asking for a picture throws,
  the graphs of one group ask for pictures of one range and the same view, compact or not, and of
  one size once a size was chosen since their window was opened. Before that each graph asks for
  the size its own part of the window remembers.
\<close>

theorem graphs_stay_synced:
  assumes "graph_step\<^sup>*\<^sup>* p p'" "synced p" "g \<in> set (graphs p')" "h \<in> set (graphs p')" "g_sync g = g_sync h"
    "graph_query g p' = Inr q" "graph_query h p' = Inr q'"
  shows "gq_range q = gq_range q' \<and> gq_compact q = gq_compact q' \<and> g_size g = g_size h \<and>
    (if g_size g \<noteq> None then gq_size q = gq_size q'
     else gq_size q = part_size (graph_part g p') \<and> gq_size q' = part_size (graph_part h p'))"
proof -
  from assms(1,2) have "synced p'" by (induction rule: rtranclp_induct) (auto intro: graph_step_synced)
  then have "group_key g = group_key h" using assms(3-5) by (rule syncedD)
  then show ?thesis unfolding query_of_key [OF assms(6)] query_of_key [OF assms(7)]
    by (cases "g_size h") (simp_all add: group_key_def graph_size_def)
qed

section \<open>Lengths and the present\<close>

fun unit_secs :: "string \<Rightarrow> int" where
  "unit_secs u = (if u = ''h'' then 3600 else if u = ''d'' then 86400 else 1)"

text \<open>The length of a range in seconds, and whether it does not end in the future.\<close>

fun range_len :: "range \<Rightarrow> int" where
  "range_len (At s, At e) = e - s"
| "range_len (EndMinus n u, Now) = n * unit_secs u"
| "range_len (NowMinus n, Now) = n"
| "range_len r = 0"

fun not_future :: "int \<Rightarrow> range \<Rightarrow> bool" where
  "not_future now (s, Now) = True"
| "not_future now (s, At e) = (e \<le> now)"
| "not_future now r = False"

definition range_ok :: "int \<Rightarrow> range \<Rightarrow> bool" where
  "range_ok now r \<longleftrightarrow> 300 \<le> range_len r \<and> not_future now r"

lemma clip_ok: "range_ok now (clip_now now s e) \<longleftrightarrow> 300 \<le> e - s"
  by (simp add: range_ok_def clip_now_def)

lemma btn_cases: "n < length range_btns \<Longrightarrow> range_btns ! n = (t, half, start) \<Longrightarrow> 1800 \<le> half \<and> range_ok now (start, Now)"
  by (auto simp: range_btns_def range_ok_def less_Suc_eq numeral_eq_Suc nth_Cons split: nat.splits)

text \<open>
  C39: from a picture of at least five minutes that does not end in the future, every button and
  any turns of the wheel ask for a range of at least five minutes that does not end in the future,
  or for none.
\<close>

theorem graph_ranges_ok:
  assumes "im_start im + 300 \<le> im_end im" "im_end im \<le> now"
  shows "pred_option (range_ok now) (button_range now cur b im) \<and> pred_option (range_ok now) (wheel_range now im x n)"
proof
  show "pred_option (range_ok now) (wheel_range now im x n)"
  proof (cases "wheel_half im n")
    case (Some half)
    have "150 \<le> half"
    proof (cases "n > 0")
      case False
      with Some have h: "half = \<bar>(im_end im - im_start im) * n\<bar>" "n < 0" by (auto simp: wheel_half_def split: if_splits)
      have "300 * 1 \<le> \<bar>im_end im - im_start im\<bar> * \<bar>n\<bar>" using assms h(2) by (intro mult_mono) auto
      then show ?thesis by (simp add: h(1) abs_mult)
    qed (use Some in \<open>auto simp: wheel_half_def Let_def split: if_splits\<close>)
    then show ?thesis by (simp add: wheel_range_def Some Let_def range_ok_def)
  qed (simp add: wheel_range_def)
  have c: "im_center im + q - (im_center im - q) = 2 * q" for q by simp
  have "range_ok now (page_left im)" "range_ok now (quarter_left im)" "range_ok now (to_now im)"
    using assms by (simp_all add: page_left_def quarter_left_def to_now_def range_ok_def Let_def)
  moreover have "range_ok now (quarter_right now im)" "range_ok now (page_right now im)" "range_ok now (zoom_out now im)"
    using assms by (simp_all add: quarter_right_def page_right_def zoom_out_def Let_def clip_ok)
  moreover have "pred_option (range_ok now) (zoom_in now im)" by (simp add: zoom_in_def Let_def clip_ok)
  moreover have "range_ok now (range_btn half start now cur im)" if "1800 \<le> half" "range_ok now (start, Now)" for half start
    using that by (simp add: range_btn_def Let_def) (simp add: range_ok_def)
  ultimately show "pred_option (range_ok now) (button_range now cur b im)"
    using btn_cases [of _ _ _ _ now] by (cases b) (auto split: prod.split)
qed

definition ex_im :: image where
  "ex_im = \<lparr>im_file = ''a.png'', im_start = 10000, im_end = 13600, im_graph_width = 500\<rparr>"

lemma graph_ranges_ok_witness: "range_ok 14000 (page_right 14000 ex_im)"
  using graph_ranges_ok [of ex_im 14000 None PageRight 0 0] by (simp add: ex_im_def)

text \<open>
  What the mouse selects does not depend on the direction it is dragged in, and lies within
  the picture.
\<close>

theorem mouse_selection:
  assumes "0 \<le> a" "a \<le> im_graph_width im" "0 \<le> b" "b \<le> im_graph_width im" "0 < im_graph_width im" "im_start im \<le> im_end im"
  shows "mouse_range im a b = mouse_range im b a \<and> im_start im \<le> fst (mouse_range im a b) \<and>
    fst (mouse_range im a b) \<le> snd (mouse_range im a b) \<and> snd (mouse_range im a b) \<le> im_end im"
proof -
  define D where "D = im_end im - im_start im"
  have D: "0 \<le> D" using assms by (simp add: D_def)
  have m: "mouse_range im a b = (pos_time im (min a b), pos_time im (max a b))" for a b
    by (auto simp: mouse_range_def Let_def min_def max_def)
  have mono: "x \<le> y \<Longrightarrow> pos_time im x \<le> pos_time im y" for x y
    using D assms(5) unfolding pos_time_def D_def [symmetric] by (simp add: zdiv_mono1 mult_left_mono)
  have "pos_time im 0 = im_start im" "pos_time im (im_graph_width im) = im_end im"
    using assms(5) by (simp_all add: pos_time_def)
  then show ?thesis using mono [of 0 "min a b"] mono [of "min a b" "max a b"] mono [of "max a b" "im_graph_width im"] assms
    by (simp add: m min.commute max.commute)
qed

lemma mouse_selection_witness: "mouse_range ex_im 400 100 = mouse_range ex_im 100 400"
  using mouse_selection [of 400 ex_im 100] by (simp add: ex_im_def)

section \<open>Buttons undo each other\<close>

text \<open>The picture that answers a range of two times shows this range.\<close>

definition answers :: "image \<Rightarrow> range \<Rightarrow> bool" where
  "answers im r \<longleftrightarrow> r = (At (im_start im), At (im_end im))"

text \<open>
  Going a page or a quarter to the left and back restores the range, as long as the picture
  does not end in the future; zooming in and out again does for lengths divisible by four, zooming
  out and in for even lengths when the wider range does not reach beyond the present.
\<close>

theorem buttons_undo:
  assumes "im_end im \<le> now" "im_start im \<le> im_end im"
  shows "(answers im1 (page_left im) \<longrightarrow> answers im (page_right now im1)) \<and>
    (answers im2 (quarter_left im) \<longrightarrow> answers im (quarter_right now im2)) \<and>
    (4 dvd im_end im - im_start im \<and> map_option (answers im3) (zoom_in now im) = Some True \<longrightarrow> answers im (zoom_out now im3)) \<and>
    (2 dvd im_end im - im_start im \<and> 300 \<le> im_end im - im_start im \<and> answers im4 (zoom_out now im) \<longrightarrow>
       zoom_in now im4 = Some (At (im_start im), At (im_end im)))"
proof (intro conjI impI)
  assume "answers im1 (page_left im)"
  then show "answers im (page_right now im1)"
    using assms(1) by (simp add: answers_def page_left_def page_right_def clip_now_def Let_def)
next
  assume "answers im2 (quarter_left im)"
  then have "im_start im2 = im_start im - (im_end im - im_start im) div 4" "im_end im2 = im_end im - (im_end im - im_start im) div 4"
    by (simp_all add: answers_def quarter_left_def Let_def)
  then show "answers im (quarter_right now im2)"
    using assms(1) by (simp add: answers_def quarter_right_def clip_now_def Let_def)
next
  assume a: "4 dvd im_end im - im_start im \<and> map_option (answers im3) (zoom_in now im) = Some True"
  then obtain q where q: "im_end im = im_start im + 4 * q" by (auto simp: dvd_def algebra_simps)
  then have c: "im_center im = im_start im + 2 * q" by (simp add: im_center_def)
  have "im_start im3 = im_start im + q" "im_end im3 = im_start im + 3 * q"
    using a assms by (auto simp: zoom_in_def Let_def c q answers_def clip_now_def split: if_splits)
  then show "answers im (zoom_out now im3)"
    using assms(1) q by (simp add: zoom_out_def im_center_def Let_def answers_def clip_now_def)
next
  assume a: "2 dvd im_end im - im_start im \<and> 300 \<le> im_end im - im_start im \<and> answers im4 (zoom_out now im)"
  then obtain q where q: "im_end im = im_start im + 2 * q" by (auto simp: dvd_def algebra_simps)
  then have c: "im_center im = im_start im + q" by (simp add: im_center_def)
  have s: "im_start im4 = im_start im - q" "im_end im4 = im_start im + 3 * q"
    using a by (auto simp: zoom_out_def Let_def c q answers_def clip_now_def split: if_splits)
  then have "im_center im4 = im_start im + q" "(im_end im4 - im_start im4) div 4 = q" by (simp_all add: im_center_def)
  then show "zoom_in now im4 = Some (At (im_start im), At (im_end im))"
    using a assms(1) q by (simp add: zoom_in_def Let_def clip_now_def)
qed

lemma buttons_undo_witness: "answers ex_im (page_right 14000 (ex_im\<lparr>im_start := 6400, im_end := 10000\<rparr>))"
  using buttons_undo [of ex_im 14000 "ex_im\<lparr>im_start := 6400, im_end := 10000\<rparr>"]
  by (simp add: ex_im_def answers_def page_left_def Let_def)

section \<open>Names with blanks\<close>

lemma classes_no_blank: "c \<in> set (classes s) \<Longrightarrow> x \<in> set c \<Longrightarrow> \<not> is_class_sep x"
proof (induction s rule: classes.induct)
  case (2 a s)
  then show ?case by (auto split: if_splits dest: set_takeWhileD)
qed simp

text \<open>
  The buttons of a graph whose group name has a blank do nothing: the name becomes several
  classes, and the search for the group finds no graph.
\<close>

theorem blank_name_inert:
  assumes "list_ex is_class_sep (g_sync (graphs p ! i))" "g_im (graphs p ! i) = Some im"
  shows "click_button now i b p = Done p \<and> compact_box i c p = Done (p\<lparr>gp_compact := c\<rparr>)"
proof -
  have n: "\<not> has_class (g_sync (graphs p ! i)) g" for g
    using assms(1) classes_no_blank [of "g_sync (graphs p ! i)"] by (auto simp: has_class_def list_ex_iff)
  have s: "sync_set (g_sync (graphs p ! i)) f q = Done q" for f q
    by (simp add: sync_set_def n)
  show ?thesis using assms(2) by (simp add: click_button_def set_range_def compact_box_def s split: option.split)
qed

definition ex_graph :: graph where
  "ex_graph = \<lparr>g_type = ''int_io'', g_dev = ''d'', g_int = ''Slot: 1'', g_part = None, g_hide = False, g_max = None,
     g_cpus = None, g_cpu_fields = [], g_sync = ''sync_d_int_Slot: 1'', g_shown = True, g_range = None, g_size = None,
     g_compact = False, g_im = Some ex_im, g_empty = False, g_time = time_div0\<rparr>"

lemma blank_name_inert_witness:
  "click_button 14000 0 PageLeft \<lparr>graphs = [ex_graph], gp_safe = [], gp_parts = [], gp_compact = False, gp_sent = []\<rparr> =
   Done \<lparr>graphs = [ex_graph], gp_safe = [], gp_parts = [], gp_compact = False, gp_sent = []\<rparr>"
  using blank_name_inert [of "\<lparr>graphs = [ex_graph], gp_safe = [], gp_parts = [], gp_compact = False, gp_sent = []\<rparr>" 0 ex_im 14000 PageLeft]
  by (simp add: ex_graph_def is_class_sep_def code_def)

text \<open>
  The two graphs of an interface. After a size is chosen on the first both ask for it; after the
  window is reloaded only the first does, since only its part remembers the size.
\<close>

definition ex_pair :: "graph list" where
  "ex_pair = [ex_graph\<lparr>g_int := ''i'', g_sync := ''sync_d_int_i'', g_part := Some (''w'', ''int_io'')\<rparr>,
     ex_graph\<lparr>g_type := ''int_pkts'', g_int := ''i'', g_sync := ''sync_d_int_i'', g_part := Some (''w'', ''int_pkts'')\<rparr>]"

definition ex_page :: gpage where
  "ex_page = \<lparr>graphs = ex_pair, gp_safe = [(''d'', ''d'', [(''i'', ''i'')])], gp_parts = [], gp_compact = False, gp_sent = []\<rparr>"

definition asked_sizes :: "gpage \<Rightarrow> (string \<times> string) list" where
  "asked_sizes p = map (\<lambda>(i, q). gq_size q) (gp_sent p)"

definition ex_sized :: gpage where
  "ex_sized = run_state (size_select 0 ''800x200'' ex_page)"

lemma reload_splits_sizes:
  "asked_sizes ex_sized = [(''800'', ''200''), (''800'', ''200'')] \<and>
   asked_sizes (run_state (window_opened ''w'' ex_pair (ex_sized\<lparr>gp_sent := []\<rparr>))) = [(''800'', ''200''), (''500'', ''70'')]"
  by code_simp

lemma ex_sized_queries:
  "graphs ex_sized = map (g_size_update (\<lambda>_. Some (''800'', ''200''))) ex_pair"
  "graph_query (graphs ex_sized ! 0) ex_sized = Inr (snd (gp_sent ex_sized ! 0))"
  "graph_query (graphs ex_sized ! 1) ex_sized = Inr (snd (gp_sent ex_sized ! 1))"
  by code_simp+

lemma graphs_stay_synced_witness: "gq_size (snd (gp_sent ex_sized ! 0)) = gq_size (snd (gp_sent ex_sized ! 1))"
  using graphs_stay_synced [OF r_into_rtranclp [of graph_step, OF gs_size [of ex_page 0 "''800x200''"]], folded ex_sized_def,
    of "graphs ex_sized ! 0" "graphs ex_sized ! 1", OF _ _ _ _ ex_sized_queries(2,3)]
  by (simp add: ex_sized_queries(1) ex_pair_def ex_page_def synced_def group_key_def ex_graph_def)

section \<open>Turning the wheel\<close>

definition turns_total :: "(bool \<times> int) list \<Rightarrow> int" where
  "turns_total ts = sum_list (map (\<lambda>(up, x). if up then 1 else -1) ts)"

text \<open>After the turns the counter has their sum, and the timer is set when it leads to a range.\<close>

definition turned :: "nat \<Rightarrow> gpage \<Rightarrow> image \<Rightarrow> (bool \<times> int) list \<Rightarrow> gpage \<Rightarrow> bool" where
  "turned i p im ts p' \<longleftrightarrow> (\<exists>t. p' = set_time i t p \<and> wheel_count t = Some (turns_total ts) \<and>
     wheel_x t = (if wheel_half im (turns_total ts) = None then None else Some (snd (last ts))) \<and>
     md t = md (g_time (graphs p ! i)) \<and> md_x t = md_x (g_time (graphs p ! i)) \<and> md_range t = md_range (g_time (graphs p ! i)))"

lemma wheel_range_None: "wheel_range now im x n = None \<longleftrightarrow> wheel_half im n = None"
  by (simp add: wheel_range_def)

lemma set_time_facts:
  assumes "i < length (graphs p)"
  shows "graphs (set_time i t p) ! i = (graphs p ! i)\<lparr>g_time := t\<rparr>" "set_time i t' (set_time i t p) = set_time i t' p"
  using assms by (simp_all add: set_time_def set_graph_def)

lemma wheel_turned:
  assumes "i < length (graphs p)" "g_im (graphs p ! i) = Some im" "wheel_count (g_time (graphs p ! i)) = None" "ts \<noteq> []"
  shows "\<exists>p'. each (\<lambda>(up, x). wheel now i up x) ts p = Done p' \<and> turned i p im ts p'"
  using assms(4)
proof (induction ts rule: rev_induct)
  case (snoc e ts)
  obtain up x where e: "e = (up, x)" by (cases e)
  let ?n = "turns_total ts"
  obtain p1 t where p1: "each (\<lambda>(up, x). wheel now i up x) ts p = Done p1" "p1 = p \<or> p1 = set_time i t p"
    and t: "t = (if p1 = p then g_time (graphs p ! i) else t)"
    "(case wheel_count (g_time (graphs p1 ! i)) of None \<Rightarrow> 0 | Some c \<Rightarrow> c) = ?n"
    "md (g_time (graphs p1 ! i)) = md (g_time (graphs p ! i))" "md_x (g_time (graphs p1 ! i)) = md_x (g_time (graphs p ! i))"
    "md_range (g_time (graphs p1 ! i)) = md_range (g_time (graphs p ! i))"
  proof (cases "ts = []")
    case True
    then show ?thesis using that [of p "g_time (graphs p ! i)"] assms(3) by (simp add: turns_total_def)
  next
    case False
    with snoc.IH obtain p' t' where "each (\<lambda>(up, x). wheel now i up x) ts p = Done p'" "p' = set_time i t' p"
      "wheel_count t' = Some ?n" "md t' = md (g_time (graphs p ! i))" "md_x t' = md_x (g_time (graphs p ! i))"
      "md_range t' = md_range (g_time (graphs p ! i))"
      by (auto simp: turned_def)
    then show ?thesis
      using that [of p' "if p' = p then g_time (graphs p ! i) else t'"] assms(1) by (auto simp: set_time_facts)
  qed
  have g: "g_im (graphs p1 ! i) = Some im" "set_time i u p1 = set_time i u p" for u
    using p1(2) assms(1,2) by (auto simp: set_time_facts)
  have n: "turns_total (ts @ [e]) = (if up then ?n + 1 else ?n - 1)" by (simp add: turns_total_def e)
  let ?u = "(g_time (graphs p1 ! i))\<lparr>wheel_count := Some (turns_total (ts @ [e])),
      wheel_x := (if wheel_half im (turns_total (ts @ [e])) = None then None else Some x)\<rparr>"
  have "wheel now i up x p1 = Done (set_time i ?u p)"
    by (simp add: wheel_def Let_def g n t(2) wheel_range_None split: option.split) (auto simp: wheel_range_def)
  moreover have "turned i p im (ts @ [e]) (set_time i ?u p)"
    unfolding turned_def by (rule exI [of _ ?u]) (simp add: t(3-5) e)
  ultimately show ?case using p1(1) by (auto simp: each_append e)
qed simp

text \<open>
  Any turns of the wheel over a picture end, and when the timer runs out they have asked once:
  for the range of their sum, at the place of the last one, if there is such a range.
\<close>

theorem wheel_turns_ask:
  assumes "i < length (graphs p)" "g_im (graphs p ! i) = Some im" "wheel_count (g_time (graphs p ! i)) = None" "ts \<noteq> []"
  shows "\<exists>p' t. each (\<lambda>(up, x). wheel now i up x) ts p = Done p' \<and>
    wheel_timer now i p' = (case wheel_range now im (snd (last ts)) (turns_total ts) of
      None \<Rightarrow> Done p' | Some r \<Rightarrow> set_range i r (set_time i t p))"
proof -
  obtain p' t where p': "each (\<lambda>(up, x). wheel now i up x) ts p = Done p'" "p' = set_time i t p"
    "wheel_count t = Some (turns_total ts)"
    "wheel_x t = (if wheel_half im (turns_total ts) = None then None else Some (snd (last ts)))"
    using wheel_turned [OF assms, of now] by (auto simp: turned_def)
  have "wheel_timer now i p' = (case wheel_range now im (snd (last ts)) (turns_total ts) of
      None \<Rightarrow> Done p' | Some r \<Rightarrow> set_range i r (set_time i (t\<lparr>wheel_x := None, wheel_count := None\<rparr>) p))"
    using p'(2-4) assms(1,2) wheel_range_None [of now im "snd (last ts)" "turns_total ts"]
    by (auto simp: wheel_timer_def set_time_facts Let_def split: option.split)
  with p'(1) show ?thesis by blast
qed

lemma wheel_turns_ask_witness:
  "\<exists>p' t. each (\<lambda>(up, x). wheel 14000 0 up x) [(True, 100), (False, 100), (False, 250)]
      \<lparr>graphs = [ex_graph], gp_safe = [], gp_parts = [], gp_compact = False, gp_sent = []\<rparr> = Done p'"
  using wheel_turns_ask [of 0 "\<lparr>graphs = [ex_graph], gp_safe = [], gp_parts = [], gp_compact = False, gp_sent = []\<rparr>" ex_im
      "[(True, 100), (False, 100), (False, 250)]" 14000]
  by (auto simp: ex_graph_def time_div0_def)

end
