(* ===== verification/VDevForm.thy ===== *)
theory VDevForm
  imports VLinks Results
begin

text \<open>
  The window of the virtual devices (\<open>vDevsWindow\<close>, \<open>get_vdev_row\<close>) and the form of one of them
  (\<open>edit_vdev\<close>, \<open>get_vdev_port\<close>): what is typed and clicked in the form up to saving it. Saving
  itself, on the page and in the store of the broker, is in \<open>VLinks\<close>.
\<close>

section \<open>The window\<close>

text \<open>
  The page with the rows of the window. The location and the description of a device are not part of
  the devices of \<open>Model\<close>; here they are kept beside them.
\<close>

record vdev_row =
  vr_dev_id :: dev_id
  vr_name :: "string option"
  vr_descr :: "string option"
  vr_ports :: nat
  vr_site :: "string \<times> string list"

record vdev_more =
  vm_site :: "string option"
  vm_descr :: "string option"

record vdevs_page =
  vp_app :: app
  vp_more :: "(dev_id, vdev_more) obj"
  vp_rows :: "vdev_row list"

definition vdev_more_of :: "(dev_id, vdev_more) obj \<Rightarrow> dev_id \<Rightarrow> vdev_more" where
  "vdev_more_of ms d = (case oget ms d of None \<Rightarrow> \<lparr>vm_site = None, vm_descr = None\<rparr> | Some m \<Rightarrow> m)"

definition get_vdev_row :: "tag list \<Rightarrow> dev_id \<Rightarrow> device \<Rightarrow> vdev_more \<Rightarrow> exn + vdev_row list" where
  "get_vdev_row sites d dv m = map_sum id (\<lambda>st. [\<lparr>vr_dev_id = d, vr_name = dev_short_name dv, vr_descr = vm_descr m,
       vr_ports = hash_length (dev_ifs dv), vr_site = st\<rparr>])
     (get_tag (Tag ''root'' '''' '''' None sites) (undef_str (vm_site m)))"

definition vDevsWindow :: "(string \<Rightarrow> string \<Rightarrow> int) \<Rightarrow> tag list \<Rightarrow> app \<Rightarrow> (dev_id, vdev_more) obj \<Rightarrow> exn + vdev_row list" where
  "vDevsWindow lc sites s ms = (case try_sort (\<lambda>a b. text_compare lc (dev_short_name (snd a)) (dev_short_name (snd b)))
       (filter (\<lambda>(d, dv). dev_virtual dv) (devs s)) of
     Inl x \<Rightarrow> Inl x
   | Inr ds \<Rightarrow> gather (\<lambda>(d, dv). get_vdev_row sites d dv (vdev_more_of ms d)) ds)"

section \<open>The form\<close>

text \<open>
  The fields as they are typed, the rows of the ports, and the row below them for a new port. When
  the list of the ports cannot be built, neither is appended. \<open>site\<close> is a hidden field; the label
  beside it is left out.
\<close>

record vdev_dialog =
  vg_is_new :: bool
  vg_id :: dev_id
  vg_vdev :: device
  vg_short_name :: string
  vg_data_ip :: string
  vg_sysDescr :: string
  vg_model_short :: string
  vg_site :: string
  vg_sysLocation :: string
  vg_ports :: "(if_name \<times> string) list"
  vg_foot :: "(string \<times> string) option"

definition opt_val :: "string option \<Rightarrow> string" where
  "opt_val v = (case v of None \<Rightarrow> [] | Some x \<Rightarrow> x)"

definition new_vdev :: "int \<Rightarrow> device" where
  "new_vdev now = device0\<lparr>dev_data_ip := Some [], dev_short_name := Some [], dev_overall_status := ''ok'',
     interfaces_sorted := [], interfaces := Some [], dev_last_seen := Some now, dev_model_short := ''Virtual device'',
     dev_sysLocation := Some [], dev_sysUpTimeStr := Some ''Forever'', dev_virtual := True\<rparr>"

definition new_vdev_id :: "(nat \<Rightarrow> nat) \<Rightarrow> dev_id" where
  "new_vdev_id random = ''vdev:'' @ gen_code random"

definition port_row :: "device \<Rightarrow> if_name \<Rightarrow> exn + (if_name \<times> string) list" where
  "port_row dv i = (case oget (dev_ifs dv) i of None \<Rightarrow> Inl TypeError | Some f \<Rightarrow> Inr [(i, opt_val (ifAlias f))])"

definition open_dialog :: "bool \<Rightarrow> dev_id \<Rightarrow> device \<Rightarrow> vdev_more \<Rightarrow> vdev_dialog run" where
  "open_dialog is_new d dv m =
     (let g = \<lparr>vg_is_new = is_new, vg_id = d, vg_vdev = dv, vg_short_name = opt_val (dev_short_name dv),
            vg_data_ip = opt_val (dev_data_ip dv), vg_sysDescr = opt_val (vm_descr m), vg_model_short = dev_model_short dv,
            vg_site = opt_val (vm_site m), vg_sysLocation = opt_val (dev_sysLocation dv), vg_ports = [], vg_foot = None\<rparr>
      in case gather (port_row dv) (interfaces_sorted dv) of
           Inl x \<Rightarrow> Threw x g
         | Inr ps \<Rightarrow> Done (g\<lparr>vg_ports := ps, vg_foot := Some (''Eth1/0/'', [])\<rparr>))"

definition open_new :: "(nat \<Rightarrow> nat) \<Rightarrow> int \<Rightarrow> string \<Rightarrow> vdev_dialog run" where
  "open_new random now st = open_dialog True (new_vdev_id random) (new_vdev now) \<lparr>vm_site = Some st, vm_descr = Some []\<rparr>"

text \<open>\<open>g_ifName_reg\<close>.\<close>

definition if_name_ok :: "string \<Rightarrow> bool" where
  "if_name_ok name = re_full (RSeq (RCls is_word)
     (RStar (RCls (\<lambda>c. is_word c \<or> c \<in> {CHR ''-'', CHR ''/'', CHR ''#'', CHR '' ''})))) name"

text \<open>
  The button below the ports. The name is tested as it was typed and added without the blanks around
  it; a name that is there is marked instead.
\<close>

definition add_port :: "vdev_dialog \<Rightarrow> vdev_dialog" where
  "add_port g = (case vg_foot g of
      None \<Rightarrow> g
    | Some (n, a) \<Rightarrow>
        if n = ''Eth1/0/'' \<or> \<not> if_name_ok n then g
        else if list_ex (\<lambda>p. fst p = trim n) (vg_ports g) then g
        else g\<lparr>vg_ports := vg_ports g @ [(trim n, a)], vg_foot := Some (''Eth1/0/'', a)\<rparr>)"

definition remove_port :: "nat \<Rightarrow> vdev_dialog \<Rightarrow> vdev_dialog" where
  "remove_port k g = g\<lparr>vg_ports := take k (vg_ports g) @ drop (Suc k) (vg_ports g)\<rparr>"

definition put_alias :: "nat \<Rightarrow> string \<Rightarrow> vdev_dialog \<Rightarrow> vdev_dialog" where
  "put_alias k a g = (if k < length (vg_ports g) then g\<lparr>vg_ports := list_update (vg_ports g) k (fst (vg_ports g ! k), a)\<rparr> else g)"

datatype dialog_op =
    TypeName string | TypeIp string | TypeDescr string | TypeModel string | TypeLocation string
  | TypeAlias nat string
  | TypeFoot string string
  | ClickAdd
  | ClickRemove nat

fun dialog_step :: "dialog_op \<Rightarrow> vdev_dialog \<Rightarrow> vdev_dialog" where
  "dialog_step (TypeName x) g = g\<lparr>vg_short_name := x\<rparr>"
| "dialog_step (TypeIp x) g = g\<lparr>vg_data_ip := x\<rparr>"
| "dialog_step (TypeDescr x) g = g\<lparr>vg_sysDescr := x\<rparr>"
| "dialog_step (TypeModel x) g = g\<lparr>vg_model_short := x\<rparr>"
| "dialog_step (TypeLocation x) g = g\<lparr>vg_sysLocation := x\<rparr>"
| "dialog_step (TypeAlias k a) g = put_alias k a g"
| "dialog_step (TypeFoot n a) g = g\<lparr>vg_foot := (if vg_foot g = None then None else Some (n, a))\<rparr>"
| "dialog_step ClickAdd g = add_port g"
| "dialog_step (ClickRemove k) g = remove_port k g"

text \<open>What the save button reads.\<close>

definition dialog_form :: "vdev_dialog \<Rightarrow> vdev_form" where
  "dialog_form g = \<lparr>vf_short_name = vg_short_name g, vf_model_short = vg_model_short g, vf_sysLocation = vg_sysLocation g,
     vf_data_ip = vg_data_ip g, vf_ports = map (\<lambda>(n, a). (trim n, trim a)) (vg_ports g)\<rparr>"

definition dialog_more :: "vdev_dialog \<Rightarrow> vdev_more" where
  "dialog_more g = \<lparr>vm_site = Some (trim (vg_site g)), vm_descr = Some (trim (vg_sysDescr g))\<rparr>"

text \<open>The buttons of virtual devices and links are shown where the location of the page is a number.\<close>

definition vdev_btn_shown :: "string \<Rightarrow> bool" where
  "vdev_btn_shown st = is_num st"

text \<open>
  The query is refused by the broker when the location is not a number: a device that is edited has
  its new texts and ports by then, a new one is not kept.
\<close>

definition site_accepted :: "vdev_more \<Rightarrow> bool" where
  "site_accepted m = (case vm_site m of None \<Rightarrow> False | Some st \<Rightarrow> is_num st)"

definition form_refused :: "vdev_form \<Rightarrow> bool" where
  "form_refused form \<longleftrightarrow> \<not> short_name_ok (trim (vf_short_name form)) \<or> list_ex (\<lambda>(n, a). n = []) (vf_ports form)"

text \<open>The answer for a new device, up to the row in the window.\<close>

definition new_vdev_saved :: "(string \<Rightarrow> string \<Rightarrow> int) \<Rightarrow> dev_id \<Rightarrow> device \<Rightarrow> app \<Rightarrow> app run" where
  "new_vdev_saved lc d dv s = seq (device_to_list d (s\<lparr>devs := oset d dv (devs s)\<rparr>)) (\<lambda>s. Done (resort_dev_list lc s))"

definition on_app :: "app run \<Rightarrow> vdevs_page \<Rightarrow> vdevs_page run" where
  "on_app r p = (case r of Done s \<Rightarrow> Done (p\<lparr>vp_app := s\<rparr>) | Halt s \<Rightarrow> Halt (p\<lparr>vp_app := s\<rparr>) | Threw x s \<Rightarrow> Threw x (p\<lparr>vp_app := s\<rparr>))"

definition show_vdev :: "tag list \<Rightarrow> (vdev_row list \<Rightarrow> vdev_row list \<Rightarrow> vdev_row list) \<Rightarrow> dev_id \<Rightarrow> device \<Rightarrow> vdevs_page \<Rightarrow> vdevs_page run" where
  "show_vdev sites put d dv p = (case get_vdev_row sites d dv (vdev_more_of (vp_more p) d) of
      Inl x \<Rightarrow> Threw x p
    | Inr r \<Rightarrow> Done (p\<lparr>vp_rows := put r (vp_rows p)\<rparr>))"

definition replace_row :: "dev_id \<Rightarrow> vdev_row list \<Rightarrow> vdev_row list \<Rightarrow> vdev_row list" where
  "replace_row d r rows = concat (map (\<lambda>x. if vr_dev_id x = d then r else [x]) rows)"

definition save_new :: "(string \<Rightarrow> string \<Rightarrow> int) \<Rightarrow> tag list \<Rightarrow> vdev_dialog \<Rightarrow> vdevs_page \<Rightarrow> vdevs_page run" where
  "save_new lc sites g p =
     (let d = vg_id g; form = dialog_form g; dv = vdev_of_form lc form (vg_vdev g)
      in if form_refused form \<or> \<not> site_accepted (dialog_more g) then Done p
         else seq (on_app (new_vdev_saved lc d dv (vp_app p)) (p\<lparr>vp_more := oset d (dialog_more g) (vp_more p)\<rparr>))
           (show_vdev sites (\<lambda>r rows. rows @ r) d dv))"

definition save_old :: "(string \<Rightarrow> string \<Rightarrow> int) \<Rightarrow> (string \<Rightarrow> int \<times> int) \<Rightarrow> tag list \<Rightarrow> vdev_dialog \<Rightarrow> vdevs_page \<Rightarrow> vdevs_page run" where
  "save_old lc text_size sites g p =
     (let d = vg_id g; form = dialog_form g; s = vp_app p; q = p\<lparr>vp_more := oset d (dialog_more g) (vp_more p)\<rparr>
      in if \<not> short_name_ok (trim (vf_short_name form)) then Done p
         else if form_refused form then on_app (edit_vdev lc text_size d form s) q
         else case oget (devs s) d of
             None \<Rightarrow> Threw TypeError p
           | Some dv \<Rightarrow>
               let new = vdev_of_form lc form dv
               in if \<not> site_accepted (dialog_more g) then Done (q\<lparr>vp_app := s\<lparr>devs := oset d new (devs s)\<rparr>\<rparr>)
                  else seq (on_app (called (edit_vdev lc text_size d form s)) q) (show_vdev sites (replace_row d) d new))"

definition delete_row :: "(string \<Rightarrow> string \<Rightarrow> int) \<Rightarrow> dev_id \<Rightarrow> vdevs_page \<Rightarrow> vdevs_page run" where
  "delete_row lc d p = seq (on_app (vdev_deleted lc d (vp_app p)) p)
     (\<lambda>p. Done (p\<lparr>vp_more := odel d (vp_more p), vp_rows := filter (\<lambda>r. vr_dev_id r \<noteq> d) (vp_rows p)\<rparr>))"

section \<open>The names in the form\<close>

definition name_char :: "char \<Rightarrow> bool" where
  "name_char c \<longleftrightarrow> is_word c \<or> c \<in> {CHR ''-'', CHR ''/'', CHR ''#'', CHR '' ''}"

lemma if_name_ok_iff: "if_name_ok n \<longleftrightarrow> (\<exists>c s. n = c # s \<and> is_word c \<and> list_all name_char s)"
  unfolding if_name_ok_def name_char_def [symmetric] by (rule re_full_head)

text \<open>A name without blanks around it.\<close>

definition neat_name :: "string \<Rightarrow> bool" where
  "neat_name n \<longleftrightarrow> if_name_ok n \<and> trim n = n"

definition neat_ports :: "(if_name \<times> string) list \<Rightarrow> bool" where
  "neat_ports ps \<longleftrightarrow> distinct (map fst ps) \<and> list_all neat_name (map fst ps)"

lemma word_no_space: "is_word c \<Longrightarrow> \<not> is_space c"
  by (auto simp: is_word_def is_digit_def is_space_def)

lemma trim_word: "is_word c \<Longrightarrow> trim (c # s) = c # rev (dropWhile is_space (rev s))"
  using word_no_space by (simp add: trim_def dropWhile_append3)

lemma trim_ok:
  assumes "if_name_ok n"
  shows "neat_name (trim n)"
proof -
  from assms obtain c s where n: "n = c # s" "is_word c" "list_all name_char s" by (auto simp: if_name_ok_iff)
  have "set (rev (dropWhile is_space (rev s))) \<subseteq> set s" by (auto dest: set_dropWhileD)
  then have "if_name_ok (trim n)" using n by (auto simp: if_name_ok_iff trim_word list_all_iff)
  moreover have "trim (trim n) = trim n" by (simp add: n trim_word)
  ultimately show ?thesis by (simp add: neat_name_def)
qed

text \<open>Whatever is typed and clicked, the names in the form stay different and well-formed.\<close>

lemma neat_drop: "neat_ports ps \<Longrightarrow> neat_ports (take k ps @ drop (Suc k) ps)"
proof -
  assume "neat_ports ps"
  then have d: "distinct (map fst ps)" "list_all neat_name (map fst ps)" by (simp_all add: neat_ports_def)
  have "set (take k (map fst ps)) \<subseteq> set (map fst ps)" "set (drop (Suc k) (map fst ps)) \<subseteq> set (map fst ps)"
    by (rule set_take_subset, rule set_drop_subset)
  with d(2) have "list_all neat_name (take k (map fst ps) @ drop (Suc k) (map fst ps))" unfolding list_all_iff set_append by blast
  moreover have "distinct (take k (map fst ps) @ drop (Suc k) (map fst ps))"
    using d(1) set_take_disj_set_drop_if_distinct [of "map fst ps" k "Suc k"] by simp
  ultimately show ?thesis by (simp add: neat_ports_def take_map drop_map)
qed

lemma neat_snoc: "neat_ports ps \<Longrightarrow> neat_name n \<Longrightarrow> \<not> list_ex (\<lambda>p. fst p = n) ps \<Longrightarrow> neat_ports (ps @ [(n, a)])"
  by (auto simp: neat_ports_def list_ex_iff)

lemma neat_alias: "k < length ps \<Longrightarrow> map fst (list_update ps k (fst (ps ! k), a)) = map fst ps"
  by (simp add: map_update) (metis length_map list_update_id nth_map)

lemma neat_step: "neat_ports (vg_ports g) \<Longrightarrow> neat_ports (vg_ports (dialog_step op g))"
proof (cases op)
  case (TypeAlias k a)
  then show ?thesis if "neat_ports (vg_ports g)"
    using that by (simp add: put_alias_def neat_ports_def neat_alias del: map_map)
next
  case ClickAdd
  then show ?thesis if "neat_ports (vg_ports g)"
    using that by (auto simp: add_port_def trim_ok neat_snoc split: option.split)
next
  case (ClickRemove k)
  then show ?thesis if "neat_ports (vg_ports g)"
    using that by (simp add: remove_port_def neat_drop)
qed simp_all

lemma neat_steps: "neat_ports (vg_ports g) \<Longrightarrow> neat_ports (vg_ports (fold dialog_step ops g))"
  by (induction ops arbitrary: g) (simp_all add: neat_step)

lemma step_keeps: "vg_vdev (dialog_step op g) = vg_vdev g \<and> vg_id (dialog_step op g) = vg_id g \<and>
    vg_is_new (dialog_step op g) = vg_is_new g \<and> vg_site (dialog_step op g) = vg_site g"
  by (cases op) (auto simp: add_port_def remove_port_def put_alias_def split: option.split)

lemma steps_keep: "vg_vdev (fold dialog_step ops g) = vg_vdev g" "vg_id (fold dialog_step ops g) = vg_id g"
    "vg_is_new (fold dialog_step ops g) = vg_is_new g" "vg_site (fold dialog_step ops g) = vg_site g"
  by (induction ops arbitrary: g) (simp_all add: step_keeps)

lemma port_rows: "gather (port_row dv) is = Inr ps \<Longrightarrow> map fst ps = is"
  by (induction "is" arbitrary: ps) (auto simp: port_row_def split: option.splits sum.splits)

lemma open_ports: "open_dialog n d dv m = Done g \<Longrightarrow> map fst (vg_ports g) = interfaces_sorted dv \<and> vg_vdev g = dv \<and> vg_id g = d \<and> vg_is_new g = n"
  using port_rows by (auto simp: open_dialog_def Let_def split: sum.splits)

text \<open>The ports of a form with such names.\<close>

lemma vdev_ifs_simps: "vdev_ifs [] = []" "vdev_ifs (ps @ [(n, a)]) = oset n (vdev_iface n a) (vdev_ifs ps)"
  by (simp_all add: vdev_ifs_def)

lemma oget_vdev_ifs:
  "distinct (map fst ps) \<Longrightarrow> oget (vdev_ifs ps) n = map_option (vdev_iface n) (oget ps n)"
proof (induction ps rule: rev_induct)
  case (snoc p ps)
  obtain m a where p: "p = (m, a)" by (cases p)
  from snoc.prems have "oget ps m = None" by (auto simp: p map_of_eq_None_iff)
  with snoc show ?case by (auto simp: p vdev_ifs_simps map_add_def split: option.split)
qed (simp add: vdev_ifs_simps)

lemma okeys_vdev_ifs: "set (okeys (vdev_ifs ps)) = fst ` set ps"
proof (induction ps rule: rev_induct)
  case (snoc p ps)
  then show ?case by (cases p) (simp add: vdev_ifs_simps)
qed (simp add: vdev_ifs_simps)

lemma owf_vdev_ifs: "owf (vdev_ifs ps)"
proof (induction ps rule: rev_induct)
  case (snoc p ps)
  then show ?case by (cases p) (simp add: vdev_ifs_simps)
qed (simp add: vdev_ifs_simps owf_def)

lemma form_names: "neat_ports (vg_ports g) \<Longrightarrow> map fst (vf_ports (dialog_form g)) = map fst (vg_ports g)"
  by (auto simp: dialog_form_def neat_ports_def list_all_iff neat_name_def)

lemma neat_not_refused: "neat_ports (vg_ports g) \<Longrightarrow> form_refused (dialog_form g) = (\<not> short_name_ok (trim (vg_short_name g)))"
  by (fastforce simp: form_refused_def dialog_form_def neat_ports_def list_all_iff list_ex_iff neat_name_def if_name_ok_iff)

lemma form_alias: "neat_ports (vg_ports g) \<Longrightarrow> (n, a) \<in> set (vg_ports g) \<Longrightarrow> oget (vf_ports (dialog_form g)) n = Some (trim a)"
proof -
  assume g: "neat_ports (vg_ports g)" "(n, a) \<in> set (vg_ports g)"
  then have "trim n = n" by (auto simp: neat_ports_def list_all_iff neat_name_def)
  with g(2) have "(n, trim a) \<in> set (vf_ports (dialog_form g))" by (force simp: dialog_form_def)
  then show ?thesis using g(1) form_names [OF g(1)] by (simp add: neat_ports_def)
qed

lemma saved_names: "neat_ports (vg_ports g) \<Longrightarrow>
    mset (interfaces_sorted (vdev_of_form lc (dialog_form g) dv)) = mset (map fst (vg_ports g))"
proof -
  assume g: "neat_ports (vg_ports g)"
  let ?ps = "vf_ports (dialog_form g)"
  have "distinct (okeys (vdev_ifs ?ps))" using owf_vdev_ifs by (simp add: owf_def)
  moreover have "set (okeys (vdev_ifs ?ps)) = set (map fst (vg_ports g))" "distinct (map fst (vg_ports g))"
    using g form_names [OF g] by (simp_all add: okeys_vdev_ifs neat_ports_def flip: set_map)
  ultimately have "mset (okeys (vdev_ifs ?ps)) = mset (map fst (vg_ports g))"
    using set_eq_iff_mset_eq_distinct by blast
  then show ?thesis by (simp add: vdev_of_form_def mset_own_keys)
qed

section \<open>Saving the form\<close>

text \<open>
  C36: Whatever is typed and clicked in the form of a virtual device, only its own name can keep it from
  being saved, and the saved device has one interface for every row of the form, with the name and the
  description of the row.
\<close>

theorem form_rows_saved:
  assumes "open_dialog is_new d dv m = Done g0"
    and "distinct (interfaces_sorted dv)" "list_all neat_name (interfaces_sorted dv)"
    and "g = fold dialog_step ops g0" "dv' = vdev_of_form lc (dialog_form g) dv"
  shows "form_refused (dialog_form g) = (\<not> short_name_ok (trim (vg_short_name g))) \<and>
    mset (interfaces_sorted dv') = mset (map fst (vg_ports g)) \<and> distinct (map fst (vg_ports g)) \<and>
    (\<forall>(n, a) \<in> set (vg_ports g). if_name_ok n \<and> oget (dev_ifs dv') n = Some (vdev_iface n (trim a)))"
proof -
  have g: "neat_ports (vg_ports g)"
    unfolding assms(4) by (rule neat_steps) (use open_ports [OF assms(1)] assms(2,3) in \<open>simp add: neat_ports_def\<close>)
  then have "distinct (map fst (vf_ports (dialog_form g)))" by (simp add: form_names neat_ports_def)
  then have "oget (dev_ifs dv') n = Some (vdev_iface n (trim a))" if "(n, a) \<in> set (vg_ports g)" for n a
    using form_alias [OF g that] by (simp add: assms(5) vdev_of_form_def dev_ifs_def oget_vdev_ifs)
  moreover have "if_name_ok n" if "(n, a) \<in> set (vg_ports g)" for n a
    using g that by (auto simp: neat_ports_def list_all_iff neat_name_def)
  ultimately show ?thesis using neat_not_refused [OF g] saved_names [OF g] g by (auto simp: assms(5) neat_ports_def)
qed

definition ex_new_dialog :: vdev_dialog where
  "ex_new_dialog = run_state (open_dialog True ''vdev:x'' (new_vdev 5) \<lparr>vm_site = Some ''3'', vm_descr = Some []\<rparr>)"

definition ex_typing :: "dialog_op list" where
  "ex_typing = [TypeName ''core'', TypeFoot ''e1 '' ''up'', ClickAdd, TypeFoot ''e1'' '''', ClickAdd, TypeFoot ''/e'' '''', ClickAdd,
     TypeFoot ''e2'' '''', ClickAdd, TypeAlias 1 '' down '', ClickRemove 0]"

lemma form_rows_saved_witness:
  "let g = fold dialog_step ex_typing ex_new_dialog in \<not> form_refused (dialog_form g) \<and> vg_ports g = [(''e2'', '' down '')] \<and>
     oget (dev_ifs (vdev_of_form (\<lambda>a b. 0) (dialog_form g) (new_vdev 5))) ''e2'' = Some (vdev_iface ''e2'' ''down'')"
proof -
  have o1: "open_dialog True ''vdev:x'' (new_vdev 5) \<lparr>vm_site = Some ''3'', vm_descr = Some []\<rparr> = Done ex_new_dialog"
    by (simp add: ex_new_dialog_def open_dialog_def new_vdev_def)
  have p: "vg_ports (fold dialog_step ex_typing ex_new_dialog) = [(''e2'', '' down '')]"
    "short_name_ok (trim (vg_short_name (fold dialog_step ex_typing ex_new_dialog)))" "trim '' down '' = ''down''" by code_simp+
  show ?thesis
    using form_rows_saved [OF o1 _ _ refl refl, of ex_typing "\<lambda>a b. 0"] p by (simp add: new_vdev_def)
qed

end
