(* ===== verification/VLinkSync.thy ===== *)
theory VLinkSync
  imports VDevForm
begin

text \<open>
  The virtual links of the page follow those the broker keeps: after any sequence of creating and
  deleting links, editing and deleting devices, the page has exactly the kept links both of whose
  interfaces it has. What the page does to the lists of links of the interfaces is followed too.
\<close>

section \<open>Views of the links\<close>

definition ports_in :: "(dev_id, device) obj \<Rightarrow> dev_id \<Rightarrow> (bool \<times> (if_name \<Rightarrow> bool) \<times> if_name list) option" where
  "ports_in ds d = map_option (\<lambda>dv. (dev_virtual dv, \<lambda>i. oget (dev_ifs dv) i \<noteq> None, interfaces_sorted dv)) (oget ds d)"

definition links_view :: "app \<Rightarrow> (link_id, l2_link) obj \<times> (dev_id \<Rightarrow> (bool \<times> (if_name \<Rightarrow> bool) \<times> if_name list) option)" where
  "links_view s = (l2_links s, ports_in (devs s))"

lemma if_exists_ports: "if_exists s d i = (case ports_in (devs s) d of None \<Rightarrow> False | Some (v, pn, so) \<Rightarrow> pn i)"
  by (simp add: if_exists_def ports_in_def split: option.split)

lemma ports_set_if: "if_exists s d i \<Longrightarrow> ports_in (devs (set_if d i f s)) = ports_in (devs s)"
  by (auto simp: ports_in_def set_if_def if_exists_def dev_of_def dev_ifs_def fun_eq_iff split: option.splits)

lemma links_set_if [simp]: "l2_links (set_if d i f s) = l2_links s"
  by (simp add: set_if_def)

lemma listed_exists: "if_l2_links (if_of (dev_of s d) i) \<noteq> None \<Longrightarrow> if_exists s d i"
  by (auto simp: if_exists_def if_of_def dev_of_def device0_def dev_ifs_def iface0_def split: option.splits)

lemma ports_sort_links: "ports_in (devs (sort_links d i s)) = ports_in (devs s)" "l2_links (sort_links d i s) = l2_links s"
  using listed_exists [of s d i]
  by (auto simp: sort_links_def Let_def set_tif_def ports_set_if)

interpretation links: network_view links_view
  by unfold_locales (simp_all add: links_view_def ports_sort_links)

lemma links_redraw: "links_view (run_state (redraw_data lc text_size s)) = links_view s"
  by (simp add: redraw_data_def links.redraw_data_net)

section \<open>The lists of links and the table of links\<close>

lemma if_exists_set_list [simp]: "if_exists (set_list d i v s) = if_exists s"
  by (simp add: fun_eq_iff if_exists_ports set_list_def ports_set_if)

lemma links_view_set_list [simp]: "links_view (set_list d i v s) = links_view s"
  by (simp add: set_list_def links_view_def ports_set_if)

lemma links_view_unlink [simp]: "links_view (unlink_end lid e s) = links_view s"
  by (simp add: unlink_end_def Let_def)

lemma links_view_link [simp]: "links_view (link_end lid e s) = links_view s"
  by (simp add: link_end_def)

lemma links_eq_parts: "links_view s' = links_view s \<longleftrightarrow> l2_links s' = l2_links s \<and> ports_in (devs s') = ports_in (devs s)"
  by (auto simp: links_view_def)

lemma wipe_links: "oget (l2_links (wipe_l2_link lid s)) k = (if k = lid then None else oget (l2_links s) k)"
proof -
  have "l2_links (unlink_end lid e s) = l2_links s" for e s using links_eq_parts links_view_unlink by blast
  then show ?thesis by (auto simp: wipe_l2_link_def Let_def split: option.split)
qed

lemma wipe_ports: "ports_in (devs (wipe_l2_link lid s)) = ports_in (devs s)"
proof -
  have "ports_in (devs (unlink_end lid e s)) = ports_in (devs s)" for e s using links_eq_parts links_view_unlink by blast
  then show ?thesis by (auto simp: wipe_l2_link_def Let_def split: option.split)
qed

lemma fold_wipe_ports: "ports_in (devs (fold (wipe_if P) ks s)) = ports_in (devs s)"
  by (rule fold_view [of "\<lambda>s. ports_in (devs s)"]) (simp add: wipe_if_def wipe_ports split: option.split)

lemma fold_wipe_links:
  "oget (l2_links (fold (wipe_if P) ks s)) k =
     (case oget (l2_links s) k of None \<Rightarrow> None | Some l \<Rightarrow> if k \<in> set ks \<and> P l then None else Some l)"
proof (induction ks arbitrary: s)
  case (Cons x ks)
  have "oget (l2_links (wipe_if P x s)) k =
      (case oget (l2_links s) k of None \<Rightarrow> None | Some l \<Rightarrow> if k = x \<and> P l then None else Some l)"
    by (auto simp: wipe_if_def wipe_links split: option.split)
  then show ?case by (auto simp: Cons.IH split: option.splits)
qed (simp split: option.split)

lemma wipe_all_links:
  "oget (l2_links (fold (wipe_if P) (okeys (l2_links s)) t)) k =
     (case oget (l2_links t) k of None \<Rightarrow> None | Some l \<Rightarrow> if P l then None else Some l)" if "l2_links t = l2_links s"
  using that oget_in_okeys [of "l2_links s" k] by (auto simp: fold_wipe_links split: option.split)

section \<open>Page and broker agree\<close>

definition page_vlink :: "app \<Rightarrow> link_id \<Rightarrow> l2_link option" where
  "page_vlink s lid = (case oget (l2_links s) lid of None \<Rightarrow> None | Some l \<Rightarrow> if l2_virtual l then Some l else None)"

definition has_end :: "app \<Rightarrow> l2_end \<Rightarrow> bool" where
  "has_end s e = if_exists s (DevId e) (l2_ifName e)"

definition shown_vlink :: "app \<Rightarrow> vlinks \<Rightarrow> link_id \<Rightarrow> l2_link option" where
  "shown_vlink s st lid = (case st lid of None \<Rightarrow> None | Some l \<Rightarrow> if has_end s (end0 l) \<and> has_end s (end1 l) then Some l else None)"

text \<open>An end at a virtual device of the page is at an interface that device has.\<close>

definition sound_end :: "app \<Rightarrow> l2_end \<Rightarrow> bool" where
  "sound_end s e = (case ports_in (devs s) (DevId e) of None \<Rightarrow> True | Some (v, pn, so) \<Rightarrow> \<not> v \<or> pn (l2_ifName e))"

definition lists_ports :: "app \<Rightarrow> bool" where
  "lists_ports s \<longleftrightarrow> (\<forall>d v pn so. ports_in (devs s) d = Some (v, pn, so) \<longrightarrow> v \<longrightarrow> (\<forall>i. pn i \<longrightarrow> i \<in> set so))"

definition links_agree :: "app \<Rightarrow> vlinks \<Rightarrow> bool" where
  "links_agree s st \<longleftrightarrow> (\<forall>lid. page_vlink s lid = shown_vlink s st lid) \<and> lists_ports s \<and>
     (\<forall>lid l. st lid = Some l \<longrightarrow> l2_virtual l \<and> sound_end s (end0 l) \<and> sound_end s (end1 l))"

lemma same_ports:
  assumes "ports_in (devs s') = ports_in (devs s)"
  shows "if_exists s' = if_exists s" "has_end s' = has_end s" "lists_ports s' = lists_ports s" "sound_end s' = sound_end s"
    "shown_vlink s' = shown_vlink s"
proof -
  show x: "if_exists s' = if_exists s" by (simp add: if_exists_ports assms fun_eq_iff)
  show h: "has_end s' = has_end s" by (simp add: has_end_def x fun_eq_iff)
  show "shown_vlink s' = shown_vlink s" by (simp add: shown_vlink_def h fun_eq_iff cong: option.case_cong)
qed (simp_all add: lists_ports_def sound_end_def assms fun_eq_iff)

lemma shown_upd: "shown_vlink s (st(k := v)) lid = (if lid = k then
    (case v of None \<Rightarrow> None | Some l \<Rightarrow> if has_end s (end0 l) \<and> has_end s (end1 l) then Some l else None)
    else shown_vlink s st lid)"
  by (simp add: shown_vlink_def)

lemma agree_view:
  assumes "links_view s' = links_view s"
  shows "links_agree s' st = links_agree s st"
proof -
  have e: "l2_links s' = l2_links s" "ports_in (devs s') = ports_in (devs s)" using assms links_eq_parts by blast+
  show ?thesis using same_ports [OF e(2)] by (simp add: links_agree_def page_vlink_def e)
qed

text \<open>
  The operations, with how they leave page and store: creating and deleting a link, creating and
  saving a virtual device, deleting a virtual device or any device. A new device has an id that
  neither the page nor a kept link uses.
\<close>

inductive vlink_op :: "(string \<Rightarrow> string \<Rightarrow> int) \<Rightarrow> (string \<Rightarrow> int \<times> int) \<Rightarrow> app \<Rightarrow> vlinks \<Rightarrow> app run \<Rightarrow> vlinks \<Rightarrow> bool"
  for lc text_size where
  vop_create: "new_vlink lc a b s = Inr (Some e) \<Longrightarrow>
    vlink_op lc text_size s st (redraw_data lc text_size (vlink_saved e s)) (save_vlink e st)"
| vop_delete: "vlink_op lc text_size s st (redraw_data lc text_size (wipe_l2_link lid s)) (del_vlink lid st)"
| vop_new: "oget (devs s) d = None \<Longrightarrow> (\<And>lid l. st lid = Some l \<Longrightarrow> \<not> touches d l) \<Longrightarrow> dev_virtual dv \<Longrightarrow>
    q = vdev_of_form lc form dv \<Longrightarrow> vlink_op lc text_size s st (new_vdev_saved lc d q s) (save_vdev d q st)"
| vop_edit: "oget (devs s) d = Some dv \<Longrightarrow> dev_virtual dv \<Longrightarrow>
    vlink_op lc text_size s st (edit_vdev lc text_size d form s)
      (case vdev_query lc d form s of None \<Rightarrow> st | Some q \<Rightarrow> save_vdev d q st)"
| vop_del_vdev: "vlink_op lc text_size s st (vdev_deleted lc d s) (del_vdev d st)"
| vop_wipe_dev: "vlink_op lc text_size s st (dev_wiped lc d s) st"

inductive_cases vlink_opE: "vlink_op lc text_size s st r st'"

lemma agree_create:
  assumes ag: "links_agree s st" and n: "new_vlink lc a b s = Inr (Some e)"
  shows "links_agree (vlink_saved e s) (save_vlink e st)"
proof -
  obtain lid l where e: "e = (lid, l)" by (cases e)
  from n e have l: "l2_virtual l" "has_end s (end0 l)" "has_end s (end1 l)"
    by (auto simp: new_vlink_def Let_def has_end_def split: if_splits)
  let ?t = "s\<lparr>l2_links := oset lid l (l2_links s)\<rparr>"
  have "links_view (vlink_saved e s) = links_view ?t" by (simp add: vlink_saved_def e)
  moreover have "links_agree ?t (save_vlink e st)"
  proof -
    have p: "ports_in (devs ?t) = ports_in (devs s)" by simp
    have "sound_end s (end0 l)" "sound_end s (end1 l)"
      using l by (auto simp: sound_end_def has_end_def if_exists_ports split: option.splits)
    with ag l show ?thesis
      by (auto simp: links_agree_def page_vlink_def shown_upd same_ports [OF p] save_vlink_def e)
  qed
  ultimately show ?thesis using agree_view by blast
qed

lemma agree_wipe:
  assumes ag: "links_agree s st"
  shows "links_agree (wipe_l2_link lid s) (del_vlink lid st)"
  using ag by (auto simp: links_agree_def page_vlink_def shown_upd same_ports [OF wipe_ports] del_vlink_def wipe_links)

lemma by_int_ports: "ports_in (devs (wipe_l2_link_by_dev_int d i s)) = ports_in (devs s)"
  by (simp add: wipe_l2_link_by_dev_int_def fold_wipe_ports)

lemma by_int_links: "oget (l2_links (wipe_l2_link_by_dev_int d i s)) k =
    (case oget (l2_links s) k of None \<Rightarrow> None | Some l \<Rightarrow> if ends_at d i l then None else Some l)"
  by (simp add: wipe_l2_link_by_dev_int_def wipe_all_links)

lemma vdev_saved_ports: "ports_in (devs (vdev_saved d dv prev s)) = ports_in (oset d dv (devs s))"
proof -
  have "ports_in (devs (fold (\<lambda>p s. if fst (in_array (Some so) (Some p)) then s else wipe_l2_link_by_dev_int d p s) ps t)) = ports_in (devs t)"
    for so ps t
    by (rule fold_view [of "\<lambda>s. ports_in (devs s)"]) (simp add: by_int_ports)
  then show ?thesis by (simp add: vdev_saved_def)
qed

lemma vdev_saved_links: "oget (l2_links (vdev_saved d dv prev s)) k = (case oget (l2_links s) k of None \<Rightarrow> None
    | Some l \<Rightarrow> if \<exists>p\<in>set prev. p \<notin> set (interfaces_sorted dv) \<and> ends_at d p l then None else Some l)"
proof -
  have "oget (l2_links (fold (\<lambda>p s. if fst (in_array (Some so) (Some p)) then s else wipe_l2_link_by_dev_int d p s) ps t)) k =
      (case oget (l2_links t) k of None \<Rightarrow> None | Some l \<Rightarrow> if \<exists>p\<in>set ps. p \<notin> set so \<and> ends_at d p l then None else Some l)"
    for so ps t
  proof (induction ps arbitrary: t)
    case (Cons p ps)
    then show ?case by (auto simp: by_int_links split: option.split)
  qed (simp split: option.split)
  then show ?thesis by (simp add: vdev_saved_def)
qed

lemma form_ports: "dev_virtual (vdev_of_form lc form dv) = dev_virtual dv"
    "set (interfaces_sorted (vdev_of_form lc form dv)) = {i. oget (dev_ifs (vdev_of_form lc form dv)) i \<noteq> None}"
  by (auto simp: vdev_of_form_def vdev_texts_def dev_ifs_def own_keys_set oget_None_iff simp del: not_None_eq)

lemma keep_Some: "keep_vlinks P st lid = Some l \<longleftrightarrow> st lid = Some l \<and> P l"
  by (simp add: keep_vlinks_def split: option.split) auto

lemma shown_Some: "shown_vlink s st lid = Some l \<longleftrightarrow> st lid = Some l \<and> has_end s (end0 l) \<and> has_end s (end1 l)"
  by (simp add: shown_vlink_def split: option.split) auto

lemma page_Some: "page_vlink s lid = Some l \<longleftrightarrow> oget (l2_links s) lid = Some l \<and> l2_virtual l"
  by (simp add: page_vlink_def split: option.split) auto

lemma option_eqI: "(\<And>x. a = Some x \<longleftrightarrow> b = Some x) \<Longrightarrow> a = b"
  by (cases a; cases b) auto

lemma agree_edit:
  assumes ag: "links_agree s st" and dv: "oget (devs s) d = Some dv" "dev_virtual dv"
  shows "links_agree (vdev_saved d (vdev_of_form lc form dv) (interfaces_sorted dv) s) (save_vdev d (vdev_of_form lc form dv) st)"
proof -
  define new where "new = vdev_of_form lc form dv"
  define s' where "s' = vdev_saved d new (interfaces_sorted dv) s"
  have nv: "dev_virtual new" using dv form_ports(1) [of lc form dv] by (simp add: new_def)
  have so: "i \<in> set (interfaces_sorted new) \<longleftrightarrow> oget (dev_ifs new) i \<noteq> None" for i
    using form_ports(2) [of lc form dv] by (simp add: new_def)
  have pd: "ports_in (devs s') d = Some (True, (\<lambda>i. oget (dev_ifs new) i \<noteq> None), interfaces_sorted new)"
    using nv by (simp add: s'_def vdev_saved_ports ports_in_def)
  have po: "ports_in (devs s') e = ports_in (devs s) e" if "e \<noteq> d" for e
    using that by (simp add: s'_def vdev_saved_ports ports_in_def)
  have ps: "ports_in (devs s) d = Some (True, (\<lambda>i. oget (dev_ifs dv) i \<noteq> None), interfaces_sorted dv)"
    using dv by (simp add: ports_in_def)
  have lp: "oget (dev_ifs dv) i \<noteq> None \<Longrightarrow> i \<in> set (interfaces_sorted dv)" for i
    using ag ps by (auto simp: links_agree_def lists_ports_def)
  have he: "has_end s' e \<longleftrightarrow> (if DevId e = d then oget (dev_ifs new) (l2_ifName e) \<noteq> None else has_end s e)" for e
    by (simp add: has_end_def if_exists_ports pd po)
  have hs: "DevId e = d \<Longrightarrow> has_end s e \<longleftrightarrow> oget (dev_ifs dv) (l2_ifName e) \<noteq> None" for e
    by (simp add: has_end_def if_exists_ports ps)
  have se: "st lid = Some l \<Longrightarrow> e = end0 l \<or> e = end1 l \<Longrightarrow> DevId e = d \<Longrightarrow> oget (dev_ifs dv) (l2_ifName e) \<noteq> None" for lid l e
  proof -
    fix lid l e assume "st lid = Some l" "e = end0 l \<or> e = end1 l" "DevId e = d"
    then have "sound_end s e" using ag by (auto simp: links_agree_def)
    then show "oget (dev_ifs dv) (l2_ifName e) \<noteq> None" using ps \<open>DevId e = d\<close> by (simp add: sound_end_def)
  qed
  have old: "page_vlink s lid = shown_vlink s st lid" for lid using ag by (simp add: links_agree_def)
  define gone :: "l2_link \<Rightarrow> bool" where "gone l \<longleftrightarrow> (\<exists>p\<in>set (interfaces_sorted dv). p \<notin> set (interfaces_sorted new) \<and> ends_at d p l)" for l
  define cut :: "l2_link \<Rightarrow> bool" where "cut l \<longleftrightarrow> (\<exists>e\<in>{end0 l, end1 l}. DevId e = d \<and> oget (dev_ifs new) (l2_ifName e) = None)" for l
  have gc: "st lid = Some l \<Longrightarrow> gone l = cut l" for lid l
    using se [of lid l] lp so by (auto simp: ends_at_def gone_def cut_def)
  have "page_vlink s' lid = shown_vlink s' (save_vdev d new st) lid" for lid
  proof (rule option_eqI)
    fix l
    have "page_vlink s' lid = Some l \<longleftrightarrow> page_vlink s lid = Some l \<and>
        \<not> gone l"
      by (auto simp: page_Some s'_def vdev_saved_links gone_def split: option.splits if_splits)
    also have "\<dots> \<longleftrightarrow> st lid = Some l \<and> has_end s (end0 l) \<and> has_end s (end1 l) \<and>
        \<not> cut l"
      using gc [of lid l] unfolding old shown_Some by blast
    also have "\<dots> \<longleftrightarrow> shown_vlink s' (save_vdev d new st) lid = Some l"
      using se [of lid l] hs by (auto simp: shown_Some save_vdev_def keep_Some he cut_def split: if_splits)
    finally show "page_vlink s' lid = Some l \<longleftrightarrow> shown_vlink s' (save_vdev d new st) lid = Some l" .
  qed
  moreover have "lists_ports s'"
    unfolding lists_ports_def
  proof (intro allI impI)
    fix e v pn soe i assume "ports_in (devs s') e = Some (v, pn, soe)" v "pn i"
    then show "i \<in> set soe" using ag pd po [of e] so by (cases "e = d") (auto simp: links_agree_def lists_ports_def)
  qed
  moreover have "l2_virtual l \<and> sound_end s' (end0 l) \<and> sound_end s' (end1 l)" if "save_vdev d new st lid = Some l" for lid l
  proof -
    from that have l: "st lid = Some l" "\<And>e. e = end0 l \<or> e = end1 l \<Longrightarrow> DevId e = d \<Longrightarrow> oget (dev_ifs new) (l2_ifName e) \<noteq> None"
      by (auto simp: save_vdev_def keep_Some)
    have "sound_end s' e" if "sound_end s e" "e = end0 l \<or> e = end1 l" for e
      using l(2) [OF that(2)] that(1) pd po by (cases "DevId e = d") (simp_all add: sound_end_def)
    then show ?thesis using ag l(1) by (auto simp: links_agree_def)
  qed
  ultimately show ?thesis by (simp add: links_agree_def s'_def new_def)
qed

lemma forget_ports: "ports_in (devs (forget_dev d s)) = ports_in (odel d (devs s))"
  by (simp add: forget_dev_def fold_wipe_ports)

lemma forget_links: "oget (l2_links (forget_dev d s)) k =
    (case oget (l2_links s) k of None \<Rightarrow> None | Some l \<Rightarrow> if touches d l then None else Some l)"
  by (simp add: forget_dev_def wipe_all_links)

lemma agree_forget:
  assumes ag: "links_agree s st" and st': "\<And>lid l. st' lid = Some l \<Longrightarrow> st lid = Some l"
    and keep: "\<And>lid l. st lid = Some l \<Longrightarrow> \<not> touches d l \<Longrightarrow> st' lid = Some l"
  shows "links_agree (forget_dev d s) st'"
proof -
  define s' where "s' = forget_dev d s"
  have p: "ports_in (devs s') e = (if e = d then None else ports_in (devs s) e)" for e
    by (simp add: s'_def forget_ports ports_in_def)
  have he: "has_end s' e \<longleftrightarrow> DevId e \<noteq> d \<and> has_end s e" for e
    by (simp add: has_end_def if_exists_ports p)
  have old: "page_vlink s lid = shown_vlink s st lid" for lid using ag by (simp add: links_agree_def)
  have "page_vlink s' lid = shown_vlink s' st' lid" for lid
  proof (rule option_eqI)
    fix l
    have "page_vlink s' lid = Some l \<longleftrightarrow> page_vlink s lid = Some l \<and> \<not> touches d l"
      by (auto simp: page_Some s'_def forget_links split: option.splits if_splits)
    also have "\<dots> \<longleftrightarrow> st lid = Some l \<and> has_end s' (end0 l) \<and> has_end s' (end1 l)"
      by (auto simp: old shown_Some he touches_def)
    also have "\<dots> \<longleftrightarrow> shown_vlink s' st' lid = Some l"
      using st' [of lid l] keep [of lid l] by (auto simp: shown_Some he touches_def)
    finally show "page_vlink s' lid = Some l \<longleftrightarrow> shown_vlink s' st' lid = Some l" .
  qed
  moreover have "lists_ports s'" using ag unfolding links_agree_def lists_ports_def by (auto simp: p)
  moreover have "sound_end s e \<Longrightarrow> sound_end s' e" for e by (simp add: sound_end_def p)
  then have "l2_virtual l \<and> sound_end s' (end0 l) \<and> sound_end s' (end1 l)" if "st' lid = Some l" for lid l
    using st' [OF that] ag by (auto simp: links_agree_def)
  ultimately show ?thesis by (simp add: links_agree_def s'_def)
qed

lemma agree_new:
  assumes ag: "links_agree s st" and new: "oget (devs s) d = None" "\<And>lid l. st lid = Some l \<Longrightarrow> \<not> touches d l"
  shows "links_agree (run_state (new_vdev_saved lc d (vdev_of_form lc form dv) s)) (save_vdev d (vdev_of_form lc form dv) st)"
proof -
  define dv' where "dv' = vdev_of_form lc form dv"
  define s' where "s' = s\<lparr>devs := oset d dv' (devs s)\<rparr>"
  have st: "save_vdev d dv' st = st"
  proof
    fix lid
    show "save_vdev d dv' st lid = st lid"
      using new(2) [of lid] by (cases "st lid") (auto simp: save_vdev_def keep_vlinks_def touches_def)
  qed
  have "links_view (run_state (new_vdev_saved lc d dv' s)) = links_view s'"
    by (simp add: new_vdev_saved_def device_to_list_def resort_dev_list_def s'_def links_view_def)
  then have v: "links_agree (run_state (new_vdev_saved lc d dv' s)) st = links_agree s' st" by (rule agree_view)
  have so: "i \<in> set (interfaces_sorted dv') \<longleftrightarrow> oget (dev_ifs dv') i \<noteq> None" for i
    using form_ports(2) [of lc form dv] by (simp add: dv'_def)
  have p: "ports_in (devs s') e = (if e = d then Some (dev_virtual dv', \<lambda>i. oget (dev_ifs dv') i \<noteq> None, interfaces_sorted dv')
      else ports_in (devs s) e)" for e
    by (simp add: s'_def ports_in_def)
  have e: "has_end s' e = has_end s e" "sound_end s' e = sound_end s e" if "DevId e \<noteq> d" for e
    using that by (simp_all add: has_end_def if_exists_ports sound_end_def p)
  have ends: "DevId (end0 l) \<noteq> d" "DevId (end1 l) \<noteq> d" if "st lid = Some l" for lid l
    using new(2) [OF that] by (simp_all add: touches_def)
  have "page_vlink s' lid = shown_vlink s' st lid" for lid
  proof -
    have "shown_vlink s' st lid = shown_vlink s st lid" using ends [of lid] e by (simp add: shown_vlink_def split: option.split)
    then show ?thesis using ag by (simp add: links_agree_def page_vlink_def s'_def)
  qed
  moreover have "lists_ports s'" using ag so by (auto simp: lists_ports_def links_agree_def p)
  ultimately have "links_agree s' st" using ag ends e by (auto simp: links_agree_def)
  then show ?thesis using st v by (simp add: dv'_def)
qed

lemma deletion_runs: "\<exists>u. (seq (if on_page s d then remove_from_map lc d False s else Done (from_dev_list lc d s)) (\<lambda>s. Done (forget_dev d s)))
    = Done (forget_dev d u) \<and> links_view u = links_view s"
  using links.remove_from_map_net [of lc d s] by (auto simp: from_dev_list_def resort_dev_list_def)

lemma edit_run:
  assumes dv: "oget (devs s) d = Some dv"
  shows "links_view (run_state (edit_vdev lc text_size d form s)) =
    links_view (case vdev_query lc d form s of None \<Rightarrow> s | Some q \<Rightarrow> vdev_saved d q (interfaces_sorted dv) s)"
proof -
  have t: "links_view (s\<lparr>devs := oset d (vdev_texts form dv) (devs s)\<rparr>) = links_view s"
    using dv by (auto simp: links_view_def ports_in_def vdev_texts_def dev_ifs_def fun_eq_iff)
  have r: "links_view (rename_listed d n u) = links_view u" for n u by (simp add: rename_listed_def)
  show ?thesis using dv by (simp add: edit_vdev_def vdev_query_def Let_def t r links_redraw)
qed

lemma edit_agrees:
  assumes "links_agree s st" "oget (devs s) d = Some dv" "dev_virtual dv"
  shows "links_agree (run_state (edit_vdev lc text_size d form s)) (case vdev_query lc d form s of None \<Rightarrow> st | Some q \<Rightarrow> save_vdev d q st)"
proof -
  have v: "links_agree (run_state (edit_vdev lc text_size d form s)) st' =
      links_agree (case vdev_query lc d form s of None \<Rightarrow> s | Some q \<Rightarrow> vdev_saved d q (interfaces_sorted dv) s) st'" for st'
    by (rule agree_view [OF edit_run [OF assms(2)]])
  have q: "vdev_query lc d form s = Some q \<Longrightarrow> q = vdev_of_form lc form dv" for q
    using assms(2) by (auto simp: vdev_query_def split: if_splits)
  show ?thesis unfolding v using assms(1) agree_edit [OF assms] q by (cases "vdev_query lc d form s") auto
qed

text \<open>
  C33: as long as page and broker agree on the virtual links, they agree after every operation on
  links and virtual devices, however drawing the page again ends: the virtual links of the page
  are the kept ones with both interfaces on the page, and no kept link ends at an interface that a
  virtual device no longer has.
\<close>

theorem vlinks_stored:
  assumes "vlink_op lc text_size s st r st'" "links_agree s st"
  shows "links_agree (run_state r) st'"
  using assms(1)
proof cases
  case (vop_create a b e)
  with agree_view [OF links_redraw] agree_create [OF assms(2)] show ?thesis by blast
next
  case (vop_delete lid)
  with agree_view [OF links_redraw] agree_wipe [OF assms(2)] show ?thesis by blast
next
  case (vop_new d dv q form)
  with agree_new [OF assms(2)] show ?thesis by blast
next
  case (vop_edit d dv form)
  with edit_agrees [OF assms(2)] show ?thesis by blast
next
  case (vop_del_vdev d)
  with deletion_runs [of s d lc] obtain u where u: "r = Done (forget_dev d u)" "links_view u = links_view s"
    by (auto simp: vdev_deleted_def)
  have "links_agree (forget_dev d u) (del_vdev d st)"
    using assms(2) agree_view [OF u(2)] by (intro agree_forget [of u st]) (auto simp: del_vdev_def keep_Some)
  with u vop_del_vdev show ?thesis by simp
next
  case (vop_wipe_dev d)
  with deletion_runs [of s d lc] obtain u where u: "r = Done (forget_dev d u)" "links_view u = links_view s"
    by (auto simp: dev_wiped_def)
  have "links_agree (forget_dev d u) st" using assms(2) agree_view [OF u(2)] by (intro agree_forget [of u st]) auto
  with u vop_wipe_dev show ?thesis by simp
qed

definition ex_vdev :: "string \<Rightarrow> device" where
  "ex_vdev n = device0\<lparr>dev_short_name := Some n, dev_virtual := True, interfaces := Some [(''e0'', vdev_iface ''e0'' [])],
     interfaces_sorted := [''e0'']\<rparr>"

definition ex_vl :: app where
  "ex_vl = app0\<lparr>devs := [(''v1'', ex_vdev ''one''), (''v2'', ex_vdev ''two'')]\<rparr>"

definition ex_lc :: "string \<Rightarrow> string \<Rightarrow> int" where
  "ex_lc a b = (if a = b then 0 else if ord_class.lexordp a b then -1 else 1)"

definition ex_vlink :: "link_id \<times> l2_link" where
  "ex_vlink = (vlink_text \<lparr>DevId = ''v1'', l2_ifName = ''e0''\<rparr> \<lparr>DevId = ''v2'', l2_ifName = ''e0''\<rparr>,
     \<lparr>end0 = \<lparr>DevId = ''v1'', l2_ifName = ''e0''\<rparr>, end1 = \<lparr>DevId = ''v2'', l2_ifName = ''e0''\<rparr>, l2_status = 1, l2_virtual = True\<rparr>)"

lemma ex_vlink_new:
  "new_vlink ex_lc \<lparr>DevId = ''v2'', l2_ifName = ''e0''\<rparr> \<lparr>DevId = ''v1'', l2_ifName = ''e0''\<rparr> ex_vl = Inr (Some ex_vlink)"
  by (simp add: new_vlink_def Let_def ex_lc_def ex_vl_def ex_vdev_def app0_def if_exists_def dev_ifs_def vdev_iface_def
      dev_of_def if_of_def iface0_def ex_vlink_def)

lemma ex_vl_lists: "if_list ex_vl d i = []"
  by (simp add: if_list_def dev_of_def if_of_def dev_ifs_def ex_vl_def ex_vdev_def app0_def vdev_iface_def iface0_def device0_def)

lemma vlinks_stored_witness:
  "links_agree (run_state (redraw_data ex_lc (\<lambda>_. (0, 0)) (vlink_saved ex_vlink ex_vl))) (save_vlink ex_vlink Map.empty)"
  by (rule vlinks_stored [OF vop_create [OF ex_vlink_new]])
    (auto simp: links_agree_def page_vlink_def shown_vlink_def lists_ports_def ports_in_def ex_vl_def ex_vdev_def app0_def
      dev_ifs_def split: if_splits)

section \<open>The lists of the interfaces\<close>

lemma if_list_missing: "\<not> if_exists s d i \<Longrightarrow> if_list s d i = []"
  using listed_exists [of s d i] by (simp add: if_list_def split: option.split) blast

lemma if_list_set_list: "if_list (set_list d i v s) d' i' =
    (if d' = d \<and> i' = i \<and> if_exists s d i then (case v of None \<Rightarrow> [] | Some ls \<Rightarrow> ls) else if_list s d' i')"
  by (auto simp: if_list_def set_list_def set_if_def if_of_def dev_of_def dev_ifs_def if_exists_def split: option.splits)

lemma if_list_unlink: "if_list (unlink_end lid e s) d i =
    (if d = DevId e \<and> i = l2_ifName e then filter (\<lambda>l. l \<noteq> lid) (if_list s d i) else if_list s d i)"
  using if_list_missing [of s "DevId e" "l2_ifName e"] by (auto simp: unlink_end_def Let_def if_list_set_list)

lemma if_list_link: "if_list (link_end lid e s) d i =
    (if d = DevId e \<and> i = l2_ifName e \<and> if_exists s d i then append_once (if_list s d i) lid else if_list s d i)"
  by (auto simp: link_end_def if_list_set_list)

lemma if_list_frame [simp]: "if_list (s\<lparr>l2_links := ls\<rparr>) = if_list s"
  by (simp add: if_list_def dev_of_def fun_eq_iff)

lemma if_list_wipe: "if_list (wipe_l2_link lid s) d i = (case oget (l2_links s) lid of None \<Rightarrow> if_list s d i
    | Some l \<Rightarrow> if ends_at d i l then filter (\<lambda>l. l \<noteq> lid) (if_list s d i) else if_list s d i)"
  by (auto simp: wipe_l2_link_def Let_def if_list_unlink ends_at_def split: option.split)

lemma form_lists: "if_list (s\<lparr>devs := oset d (vdev_of_form lc form dv) (devs s)\<rparr>) d i = []"
proof -
  have "if_l2_links f = None" if "oget (foldl (\<lambda>ob (n, a). oset n (vdev_iface n a) ob) [] ports) j = Some f" for ports j f
    using that by (induction ports rule: rev_induct) (auto simp: vdev_iface_def iface0_def split: if_splits)
  then show ?thesis
    by (auto simp: if_list_def dev_of_def if_of_def vdev_of_form_def dev_ifs_def vdev_ifs_def iface0_def split: option.split)
qed

lemma if_list_vdev_saved: "if_list (vdev_saved d (vdev_of_form lc form dv) prev s) d i = []"
proof -
  have w: "if_list s d i = [] \<Longrightarrow> if_list (wipe_if P k s) d i = []" for P k s
    by (simp add: wipe_if_def if_list_wipe split: option.split)
  have "if_list s d i = [] \<Longrightarrow> if_list (fold (wipe_if P) ks s) d i = []" for P ks s
    by (induction ks arbitrary: s) (simp_all add: w)
  then have b: "if_list s d i = [] \<Longrightarrow> if_list (wipe_l2_link_by_dev_int d p s) d i = []" for p s
    by (simp add: wipe_l2_link_by_dev_int_def)
  have "if_list s d i = [] \<Longrightarrow>
      if_list (fold (\<lambda>p s. if fst (in_array (Some so) (Some p)) then s else wipe_l2_link_by_dev_int d p s) ps s) d i = []" for so ps s
    by (induction ps arbitrary: s) (simp_all add: b)
  then show ?thesis by (simp add: vdev_saved_def form_lists)
qed

text \<open>
  A link the window creates is listed at its two interfaces, once each, and nowhere else, and
  deleting it restores the table of links and every list.
\<close>

theorem create_delete_vlink:
  assumes n: "new_vlink lc a b s = Inr (Some (lid, l))" and fresh: "\<forall>d i. lid \<notin> set (if_list s d i)"
  shows "if_list (vlink_saved (lid, l) s) d i = (if ends_at d i l then if_list s d i @ [lid] else if_list s d i) \<and>
    if_list (wipe_l2_link lid (vlink_saved (lid, l) s)) d i = if_list s d i \<and>
    oget (l2_links (wipe_l2_link lid (vlink_saved (lid, l) s))) k = oget (l2_links s) k"
proof -
  let ?t = "s\<lparr>l2_links := oset lid l (l2_links s)\<rparr>" and ?s = "vlink_saved (lid, l) s"
  from n have l: "has_end s (end0 l)" "has_end s (end1 l)" "oget (l2_links s) lid = None"
    by (auto simp: new_vlink_def Let_def has_end_def split: if_splits)
  have x: "if_exists (link_end lid e u) = if_exists u" "if_exists ?t = if_exists s" for e u
    by (simp_all add: link_end_def if_exists_def fun_eq_iff)
  have li: "if_list ?s d i = (if ends_at d i l then if_list s d i @ [lid] else if_list s d i)" for d i
    using l fresh by (auto simp: vlink_saved_def if_list_link x has_end_def ends_at_def append_once_def)
  have v: "links_view ?s = links_view ?t" by (simp add: vlink_saved_def)
  then have ls: "l2_links ?s = oset lid l (l2_links s)" by (simp add: links_eq_parts)
  have "filter (\<lambda>x. x \<noteq> lid) (if_list s d i) = if_list s d i" for d i
    using fresh by (auto intro: filter_True)
  then show ?thesis using l(3) by (simp add: li if_list_wipe ls wipe_links)
qed

lemma create_delete_vlink_witness:
  "if_list (vlink_saved ex_vlink ex_vl) ''v1'' ''e0'' = [fst ex_vlink] \<and>
   oget (l2_links (wipe_l2_link (fst ex_vlink) (vlink_saved ex_vlink ex_vl))) ''x'' = None"
proof -
  have "oget (l2_links ex_vl) ''x'' = None" "ends_at ''v1'' ''e0'' (snd ex_vlink)"
    by (simp_all add: ex_vl_def app0_def ex_vlink_def ends_at_def)
  then show ?thesis
    using create_delete_vlink [of ex_lc "\<lparr>DevId = ''v2'', l2_ifName = ''e0''\<rparr>" "\<lparr>DevId = ''v1'', l2_ifName = ''e0''\<rparr>" ex_vl
        "fst ex_vlink" "snd ex_vlink" "''v1''" "''e0''" "''x''"]
    by (simp add: ex_vlink_new ex_vl_lists)
qed

text \<open>
  Saving a virtual device empties the lists of links of all its interfaces, also of those that
  are kept: the links stay in the table, but its interfaces no longer know them.
\<close>

theorem edit_drops_lists:
  assumes "oget (devs s) d = Some dv" "vdev_query lc d form s = Some q"
    and "page_vlink s lid = Some l" "DevId (end0 l) = d" "DevId (end1 l) \<noteq> d" "l2_ifName (end0 l) \<in> set (interfaces_sorted q)"
  shows "page_vlink (vdev_saved d q (interfaces_sorted dv) s) lid = Some l \<and>
    if_list (vdev_saved d q (interfaces_sorted dv) s) d i = []"
proof -
  have q: "q = vdev_of_form lc form dv" using assms(1,2) by (auto simp: vdev_query_def split: if_splits)
  have "page_vlink (vdev_saved d q (interfaces_sorted dv) s) lid = Some l"
    using assms by (auto simp: page_Some vdev_saved_links ends_at_def)
  then show ?thesis by (simp add: q if_list_vdev_saved)
qed

definition ex_form :: vdev_form where
  "ex_form = \<lparr>vf_short_name = ''one'', vf_model_short = [], vf_sysLocation = [], vf_data_ip = [], vf_ports = [(''e0'', [])]\<rparr>"

lemma ex_form_ok: "short_name_ok (trim (vf_short_name ex_form))"
  by code_simp

lemma edit_drops_lists_witness:
  "if_list (vdev_saved ''v1'' (vdev_of_form ex_lc ex_form (dev_of (vlink_saved ex_vlink ex_vl) ''v1'')) [''e0''] (vlink_saved ex_vlink ex_vl)) ''v1'' ''e0'' = []"
proof -
  let ?s = "vlink_saved ex_vlink ex_vl"
  obtain dv where dv: "oget (devs ?s) ''v1'' = Some dv" "interfaces_sorted dv = [''e0'']"
    by (auto simp: vlink_saved_def ex_vlink_def link_end_def set_list_def set_if_def if_exists_def ex_vl_def ex_vdev_def app0_def
        dev_ifs_def dev_of_def)
  have q: "vdev_query ex_lc ''v1'' ex_form ?s = Some (vdev_of_form ex_lc ex_form dv)"
    using dv ex_form_ok by (simp add: vdev_query_def ex_form_def)
  have p: "page_vlink ?s (fst ex_vlink) = Some (snd ex_vlink)"
    by (simp add: page_vlink_def vlink_saved_def ex_vlink_def link_end_def set_list_def)
  have i: "''e0'' \<in> set (interfaces_sorted (vdev_of_form ex_lc ex_form dv))"
    by (simp add: vdev_of_form_def dev_ifs_def vdev_ifs_def ex_form_def own_keys_set)
  show ?thesis
    using edit_drops_lists [OF dv(1) q p] dv i by (simp add: ex_vlink_def dev_of_def)
qed

section \<open>The lists refer to links\<close>

text \<open>Every name in the list of an interface is a link of the table that ends at the interface.\<close>

definition refs_view :: "app \<Rightarrow> (link_id, l2_link) obj \<times> (dev_id \<Rightarrow> if_name \<Rightarrow> link_id set)" where
  "refs_view s = (l2_links s, \<lambda>d i. set (if_list s d i))"

definition refs_typed :: "app \<Rightarrow> bool" where
  "refs_typed s \<longleftrightarrow> (\<forall>d i. \<forall>lid \<in> set (if_list s d i). \<exists>l. oget (l2_links s) lid = Some l \<and> ends_at d i l)"

lemma if_list_sort: "set (if_list (sort_links d i s) d' i') = set (if_list s d' i')"
  by (auto simp: sort_links_def Let_def arr_links_def if_list_def set_if_def set_tif_def dev_of_def if_of_def dev_ifs_def
      split: option.splits)

interpretation refs: network_view refs_view
  by unfold_locales (simp_all add: refs_view_def if_list_def dev_of_def fun_eq_iff if_list_sort [unfolded if_list_def dev_of_def] ports_sort_links)

lemma typed_view: "refs_view s' = refs_view s \<Longrightarrow> refs_typed s' = refs_typed s"
  unfolding refs_view_def refs_typed_def prod.inject fun_eq_iff by simp

lemma typed_redraw: "refs_typed (run_state (redraw_data lc text_size s)) = refs_typed s"
  by (rule typed_view) (simp add: redraw_data_def refs.redraw_data_net)

lemma typed_wipe: "refs_typed s \<Longrightarrow> refs_typed (wipe_l2_link lid s)"
  by (fastforce simp: refs_typed_def if_list_wipe wipe_links split: option.splits if_splits)

lemma typed_fold_wipe: "refs_typed s \<Longrightarrow> refs_typed (fold (wipe_if P) ks s)"
proof (induction ks arbitrary: s)
  case (Cons k ks)
  have "refs_typed (wipe_if P k s)" using Cons.prems typed_wipe by (simp add: wipe_if_def split: option.split)
  then show ?case using Cons.IH by simp
qed simp

lemma typed_create:
  assumes "refs_typed s" "new_vlink lc a b s = Inr (Some e)"
  shows "refs_typed (vlink_saved e s)"
proof -
  obtain lid l where e: "e = (lid, l)" by (cases e)
  from assms(2) e have new: "oget (l2_links s) lid = None" by (auto simp: new_vlink_def Let_def split: if_splits)
  have "links_view (vlink_saved e s) = links_view (s\<lparr>l2_links := oset lid l (l2_links s)\<rparr>)" by (simp add: vlink_saved_def e)
  then have ls: "l2_links (vlink_saved e s) = oset lid l (l2_links s)" by (simp add: links_eq_parts)
  have "x \<in> set (if_list (vlink_saved e s) d i) \<Longrightarrow> (x = lid \<and> ends_at d i l) \<or> x \<in> set (if_list s d i)" for x d i
    by (auto simp: vlink_saved_def e if_list_link ends_at_def append_once_def split: if_splits)
  then show ?thesis using assms(1) new by (fastforce simp: refs_typed_def ls)
qed

lemma typed_devs:
  assumes "refs_typed s" "\<And>i. if_list (s\<lparr>devs := ds\<rparr>) d i = []" "\<And>e. e \<noteq> d \<Longrightarrow> oget ds e = oget (devs s) e"
  shows "refs_typed (s\<lparr>devs := ds\<rparr>)"
proof -
  have "if_list (s\<lparr>devs := ds\<rparr>) e i = if_list s e i" if "e \<noteq> d" for e i
    using assms(3) [OF that] by (simp add: if_list_def dev_of_def)
  with assms(1,2) show ?thesis unfolding refs_typed_def
    by (metis app.select_convs(2) app.surjective app.update_convs(1) empty_iff list.set(1))
qed

lemma typed_edit: "refs_typed s \<Longrightarrow> refs_typed (vdev_saved d (vdev_of_form lc form dv) prev s)"
proof -
  assume "refs_typed s"
  then have t: "refs_typed (s\<lparr>devs := oset d (vdev_of_form lc form dv) (devs s)\<rparr>)"
    by (rule typed_devs [of s _ d]) (simp_all add: form_lists)
  have "refs_typed u \<Longrightarrow>
      refs_typed (fold (\<lambda>p s. if fst (in_array (Some so) (Some p)) then s else wipe_l2_link_by_dev_int d p s) ps u)" for so ps u
    by (induction ps arbitrary: u) (simp_all add: wipe_l2_link_by_dev_int_def typed_fold_wipe)
  from this [OF t] show ?thesis by (simp add: vdev_saved_def)
qed

lemma typed_new: "refs_typed s \<Longrightarrow> refs_typed (run_state (new_vdev_saved lc d (vdev_of_form lc form dv) s))"
proof -
  assume "refs_typed s"
  then have "refs_typed (s\<lparr>devs := oset d (vdev_of_form lc form dv) (devs s)\<rparr>)"
    by (rule typed_devs [of s _ d]) (simp_all add: form_lists)
  then show ?thesis
    by (simp add: new_vdev_saved_def device_to_list_def resort_dev_list_def refs_typed_def if_list_def dev_of_def)
qed

lemma typed_forget: "refs_typed s \<Longrightarrow> refs_typed (forget_dev d s)"
  unfolding forget_dev_def
  by (intro typed_fold_wipe typed_devs [of s "odel d (devs s)" d])
    (simp_all add: if_list_def dev_of_def if_of_def device0_def dev_ifs_def iface0_def)

lemma typed_edit_run:
  assumes "refs_typed s" "oget (devs s) d = Some dv"
  shows "refs_typed (run_state (edit_vdev lc text_size d form s))"
proof -
  have l: "if_list (s\<lparr>devs := oset d (vdev_texts form dv) (devs s)\<rparr>) = if_list s"
    using assms(2) by (auto simp: if_list_def dev_of_def if_of_def vdev_texts_def dev_ifs_def fun_eq_iff)
  have t: "refs_typed (s\<lparr>devs := oset d (vdev_texts form dv) (devs s)\<rparr>)"
    using assms(1) by (simp add: refs_typed_def l)
  have "if_list (rename_listed d n u) = if_list u" "l2_links (rename_listed d n u) = l2_links u" for n u
    by (simp_all add: rename_listed_def if_list_def dev_of_def fun_eq_iff)
  then have r: "refs_typed u \<Longrightarrow> refs_typed (rename_listed d n u)" for n u by (simp add: refs_typed_def)
  show ?thesis using assms t r typed_edit [OF assms(1)] by (simp add: edit_vdev_def Let_def typed_redraw)
qed

text \<open>
  C34: every operation on links and virtual devices keeps the references between the interfaces and
  the table of links typed: what an interface lists is a link of the table, and it ends there.
\<close>

theorem link_refs_typed:
  assumes "vlink_op lc text_size s st r st'" "refs_typed s"
  shows "refs_typed (run_state r)"
  using assms(1)
proof cases
  case (vop_create a b e)
  with typed_create [OF assms(2)] show ?thesis by (simp add: typed_redraw)
next
  case (vop_delete lid)
  with typed_wipe [OF assms(2)] show ?thesis by (simp add: typed_redraw)
next
  case (vop_new d dv q form)
  with typed_new [OF assms(2)] show ?thesis by simp
next
  case (vop_edit d dv form)
  with typed_edit_run [OF assms(2)] show ?thesis by simp
next
  case (vop_del_vdev d)
  then show ?thesis using refs.remove_from_map_net [of lc d s] typed_view [of _ s] assms(2) typed_forget
    by (auto simp: vdev_deleted_def from_dev_list_def resort_dev_list_def)
next
  case (vop_wipe_dev d)
  then show ?thesis using refs.remove_from_map_net [of lc d s] typed_view [of _ s] assms(2) typed_forget
    by (auto simp: dev_wiped_def from_dev_list_def resort_dev_list_def)
qed

lemma link_refs_typed_witness: "refs_typed (run_state (redraw_data ex_lc (\<lambda>_. (0, 0)) (vlink_saved ex_vlink ex_vl)))"
  by (rule link_refs_typed [OF vop_create [OF ex_vlink_new]]) (simp add: refs_typed_def ex_vl_lists)

end
