(* ===== verification/VDevRuns.thy ===== *)
theory VDevRuns
  imports VLinkSync
begin

text \<open>
  The window of the virtual devices over any sequence of creating, saving and deleting devices: its
  rows are those of the virtual devices of the page. And what saving a form that nobody has changed
  does.
\<close>

section \<open>What the rows show of a device\<close>

datatype face = Face (face_name: "string option") (face_virtual: bool) (face_ports: nat)

definition vdev_face :: "device \<Rightarrow> face" where
  "vdev_face dv = Face (dev_short_name dv) (dev_virtual dv) (length (dev_ifs dv))"

definition faces :: "(dev_id, device) obj \<Rightarrow> (dev_id \<times> face) list" where
  "faces ds = map (\<lambda>(d, dv). (d, vdev_face dv)) ds"

lemma hash_length_eq [simp]: "hash_length ps = length ps"
  by (induction ps rule: rev_induct) (simp_all add: hash_length_def okeys_def)

lemma faces_oset: "oget ds d = Some dv \<Longrightarrow> vdev_face dv' = vdev_face dv \<Longrightarrow> faces (oset d dv' ds) = faces ds"
  by (induction ds) (auto simp: faces_def)

lemma length_oset_old: "oget ps k \<noteq> None \<Longrightarrow> length (oset k v ps) = length ps"
  by (induction ps) auto

lemma faces_set_if: "if_exists s d i \<Longrightarrow> faces (devs (set_if d i f s)) = faces (devs s)"
  by (auto simp: if_exists_def set_if_def dev_of_def vdev_face_def dev_ifs_def length_oset_old
      intro!: faces_oset split: option.splits)

lemma faces_sort_links: "faces (devs (sort_links d i s)) = faces (devs s)"
  using listed_exists [of s d i] by (auto simp: sort_links_def Let_def set_tif_def faces_set_if)

interpretation faces: network_view "\<lambda>s. faces (devs s)"
  by unfold_locales (simp_all add: faces_sort_links)

lemma faces_wipe: "faces (devs (wipe_l2_link lid s)) = faces (devs s)"
  by (simp add: wipe_l2_link_def unlink_end_def set_list_def Let_def faces_set_if split: option.split)

lemma faces_wipe_if: "faces (devs (fold (wipe_if P) ks s)) = faces (devs s)"
  by (rule fold_view [of "\<lambda>s. faces (devs s)"]) (simp add: wipe_if_def faces_wipe split: option.split)

lemma faces_saved: "faces (devs (vdev_saved d dv prev s)) = faces (oset d dv (devs s))"
proof -
  have "faces (devs (fold (\<lambda>p s. if fst (in_array (Some so) (Some p)) then s else wipe_l2_link_by_dev_int d p s) ps t)) = faces (devs t)"
    for so ps t
    by (rule fold_view [of "\<lambda>s. faces (devs s)"]) (simp add: wipe_l2_link_by_dev_int_def faces_wipe_if)
  then show ?thesis by (simp add: vdev_saved_def)
qed

lemma faces_redraw: "faces (devs (run_state (redraw_data lc text_size s))) = faces (devs s)"
  by (simp add: redraw_data_def faces.redraw_data_net)

lemma faces_edit:
  assumes "oget (devs s) d = Some dv" "\<not> form_refused form"
  shows "faces (devs (run_state (edit_vdev lc text_size d form s))) = faces (oset d (vdev_of_form lc form dv) (devs s))"
  using assms by (simp add: edit_vdev_def form_refused_def Let_def faces_redraw faces_saved rename_listed_def)

lemma faces_forget: "faces (devs (forget_dev d s)) = faces (odel d (devs s))"
  by (simp add: forget_dev_def faces_wipe_if)

section \<open>The rows are those of the virtual devices\<close>

definition row_of :: "tag list \<Rightarrow> dev_id \<Rightarrow> face \<Rightarrow> vdev_more \<Rightarrow> exn + vdev_row list" where
  "row_of sites d f m = map_sum id (\<lambda>st. [\<lparr>vr_dev_id = d, vr_name = face_name f, vr_descr = vm_descr m, vr_ports = face_ports f, vr_site = st\<rparr>])
     (get_tag (Tag ''root'' '''' '''' None sites) (undef_str (vm_site m)))"

lemma get_vdev_row_face: "get_vdev_row sites d dv m = row_of sites d (vdev_face dv) m"
  by (simp add: get_vdev_row_def row_of_def vdev_face_def)

lemma row_of_id: "row_of sites d f m = Inr rs \<Longrightarrow> \<exists>r. rs = [r] \<and> vr_dev_id r = d"
  by (auto simp: row_of_def map_sum_Inr)

definition rows_exact :: "tag list \<Rightarrow> vdevs_page \<Rightarrow> bool" where
  "rows_exact sites p \<longleftrightarrow>
     mset (map vr_dev_id (vp_rows p)) = mset (map fst (filter (\<lambda>(d, dv). dev_virtual dv) (devs (vp_app p)))) \<and>
     (\<forall>r \<in> set (vp_rows p). \<exists>dv. oget (devs (vp_app p)) (vr_dev_id r) = Some dv \<and>
        get_vdev_row sites (vr_dev_id r) dv (vdev_more_of (vp_more p) (vr_dev_id r)) = Inr [r])"

text \<open>The same over what the rows show.\<close>

definition exact_faces :: "tag list \<Rightarrow> (dev_id \<times> face) list \<Rightarrow> (dev_id, vdev_more) obj \<Rightarrow> vdev_row list \<Rightarrow> bool" where
  "exact_faces sites fs ms rows \<longleftrightarrow>
     distinct (map fst fs) \<and>
     mset (map vr_dev_id rows) = mset (map fst (filter (\<lambda>(d, f). face_virtual f) fs)) \<and>
     (\<forall>r \<in> set rows. \<exists>f. (vr_dev_id r, f) \<in> set fs \<and> row_of sites (vr_dev_id r) f (vdev_more_of ms (vr_dev_id r)) = Inr [r])"

lemma virtual_faces: "map fst (filter (\<lambda>(d, f). face_virtual f) (faces ds)) = map fst (filter (\<lambda>(d, dv). dev_virtual dv) ds)"
  by (induction ds) (auto simp: faces_def vdev_face_def)

lemma keys_faces: "map fst (faces ds) = okeys ds"
  by (induction ds) (auto simp: faces_def)

lemma exact_iff: "exact_faces sites (faces (devs (vp_app p))) (vp_more p) (vp_rows p) \<longleftrightarrow> owf (devs (vp_app p)) \<and> rows_exact sites p"
proof -
  have f: "(\<exists>f. (d, f) \<in> set (faces ds) \<and> Q f) \<longleftrightarrow> (\<exists>dv. oget ds d = Some dv \<and> Q (vdev_face dv))" if "owf ds" for ds d Q
  proof -
    have "(d, f) \<in> set (faces ds) \<longleftrightarrow> (\<exists>dv. oget ds d = Some dv \<and> f = vdev_face dv)" for f
    proof -
      have "(d, f) \<in> set (faces ds) \<longleftrightarrow> (\<exists>dv. (d, dv) \<in> set ds \<and> f = vdev_face dv)" by (auto simp: faces_def)
      moreover have "oget ds d = Some dv \<longleftrightarrow> (d, dv) \<in> set ds" for dv
        by (rule map_of_eq_Some_iff) (use that in \<open>simp add: owf_def okeys_def\<close>)
      ultimately show ?thesis by (simp only:)
    qed
    then show ?thesis by metis
  qed
  show ?thesis
    unfolding exact_faces_def rows_exact_def virtual_faces keys_faces owf_def [symmetric] get_vdev_row_face
    by (cases "owf (devs (vp_app p))") (simp_all only: f simp_thms)
qed

lemma mset_filter_id: "mset (map f xs) = mset ys \<Longrightarrow> mset (map f (filter (\<lambda>x. P (f x)) xs)) = mset (filter P ys)"
proof -
  assume e: "mset (map f xs) = mset ys"
  have "map f (filter (\<lambda>x. P (f x)) xs) = filter P (map f xs)" by (induction xs) simp_all
  then have "mset (map f (filter (\<lambda>x. P (f x)) xs)) = filter_mset P (mset (map f xs))" by (simp only: mset_filter)
  then show ?thesis by (simp only: e mset_filter)
qed

lemma exact_new:
  assumes "exact_faces sites fs ms rows" "d \<notin> set (map fst fs)" "face_virtual f" "row_of sites d f m = Inr r"
  shows "exact_faces sites (fs @ [(d, f)]) (oset d m ms) (rows @ r)"
proof -
  obtain x where x: "r = [x]" "vr_dev_id x = d" using row_of_id [OF assms(4)] by blast
  have e: "distinct (map fst fs)" "mset (map vr_dev_id rows) = mset (map fst (filter (\<lambda>(d, f). face_virtual f) fs))"
    "y \<in> set rows \<Longrightarrow> \<exists>f. (vr_dev_id y, f) \<in> set fs \<and> row_of sites (vr_dev_id y) f (vdev_more_of ms (vr_dev_id y)) = Inr [y]" for y
    using assms(1) by (simp_all add: exact_faces_def)
  have o: "vdev_more_of (oset d m ms) k = (if k = d then m else vdev_more_of ms k)" for k by (simp add: vdev_more_of_def)
  have "\<exists>f'. (vr_dev_id y, f') \<in> set (fs @ [(d, f)]) \<and> row_of sites (vr_dev_id y) f' (vdev_more_of (oset d m ms) (vr_dev_id y)) = Inr [y]"
    if "y \<in> set (rows @ r)" for y
  proof (cases "y \<in> set rows")
    case True
    with e(3) obtain f' where f': "(vr_dev_id y, f') \<in> set fs" "row_of sites (vr_dev_id y) f' (vdev_more_of ms (vr_dev_id y)) = Inr [y]" by blast
    then have "vr_dev_id y \<noteq> d" using assms(2) by force
    then have "vdev_more_of (oset d m ms) (vr_dev_id y) = vdev_more_of ms (vr_dev_id y)" by (simp only: o if_False)
    with f' show ?thesis by (metis Un_iff set_append)
  next
    case False
    with that x assms(4) show ?thesis by (auto simp: o)
  qed
  then show ?thesis using e(1,2) x assms(2,3) unfolding exact_faces_def by (simp add: split_beta)
qed

lemma exact_del:
  assumes "exact_faces sites fs ms rows"
  shows "exact_faces sites (filter (\<lambda>x. fst x \<noteq> d) fs) (odel d ms) (filter (\<lambda>r. vr_dev_id r \<noteq> d) rows)"
proof -
  have "filter (\<lambda>k. k \<noteq> d) (map fst (filter (\<lambda>(d, f). face_virtual f) fs)) =
      map fst (filter (\<lambda>(d, f). face_virtual f) (filter (\<lambda>x. fst x \<noteq> d) fs))"
    by (induction fs) auto
  moreover have "mset (map vr_dev_id (filter (\<lambda>r. vr_dev_id r \<noteq> d) rows)) =
      mset (filter (\<lambda>k. k \<noteq> d) (map fst (filter (\<lambda>(d, f). face_virtual f) fs)))"
    using assms by (intro mset_filter_id) (simp add: exact_faces_def)
  moreover have "\<exists>f. (vr_dev_id y, f) \<in> set (filter (\<lambda>x. fst x \<noteq> d) fs) \<and>
      row_of sites (vr_dev_id y) f (vdev_more_of (odel d ms) (vr_dev_id y)) = Inr [y]"
    if "y \<in> set (filter (\<lambda>r. vr_dev_id r \<noteq> d) rows)" for y
    using assms that by (fastforce simp: exact_faces_def vdev_more_of_def)
  ultimately show ?thesis using assms unfolding exact_faces_def by (simp only: distinct_map_filter simp_thms) blast
qed

definition put_face :: "dev_id \<Rightarrow> face \<Rightarrow> (dev_id \<times> face) list \<Rightarrow> (dev_id \<times> face) list" where
  "put_face d f fs = map (\<lambda>x. (fst x, if fst x = d then f else snd x)) fs"

lemma faces_put: "owf ds \<Longrightarrow> oget ds d \<noteq> None \<Longrightarrow> faces (oset d dv ds) = put_face d (vdev_face dv) (faces ds)"
proof (induction ds)
  case (Cons p ds)
  obtain k e where p: "p = (k, e)" by (cases p)
  show ?case
  proof (cases "k = d")
    case True
    have "fst x \<noteq> d" if "x \<in> set ds" for x using Cons.prems(1) that True by (auto simp: p owf_def okeys_def)
    then have "map (\<lambda>(d, dv). (d, vdev_face dv)) ds = map ((\<lambda>x. (fst x, if fst x = d then vdev_face dv else snd x)) \<circ> (\<lambda>(d, dv). (d, vdev_face dv))) ds"
      by (intro map_cong) (auto simp: split_beta)
    then show ?thesis by (simp add: p True faces_def put_face_def)
  next
    case False
    with Cons show ?thesis by (auto simp: p faces_def put_face_def owf_def)
  qed
qed simp

lemma faces_add: "oget ds d = None \<Longrightarrow> faces (oset d dv ds) = faces ds @ [(d, vdev_face dv)]"
  by (induction ds) (auto simp: faces_def)

lemma faces_del: "faces (odel d ds) = filter (\<lambda>x. fst x \<noteq> d) (faces ds)"
  by (induction ds) (auto simp: faces_def)

lemma exact_edit:
  assumes "exact_faces sites fs ms rows" "(d, f0) \<in> set fs" "face_virtual f0 = face_virtual f" "row_of sites d f m = Inr r"
  shows "exact_faces sites (put_face d f fs) (oset d m ms) (replace_row d r rows)"
proof -
  obtain x where x: "r = [x]" "vr_dev_id x = d" using row_of_id [OF assms(4)] by blast
  have e: "distinct (map fst fs)" "mset (map vr_dev_id rows) = mset (map fst (filter (\<lambda>(d, f). face_virtual f) fs))"
    "y \<in> set rows \<Longrightarrow> \<exists>f. (vr_dev_id y, f) \<in> set fs \<and> row_of sites (vr_dev_id y) f (vdev_more_of ms (vr_dev_id y)) = Inr [y]" for y
    using assms(1) by (simp_all add: exact_faces_def)
  have rr: "replace_row d r rows = map (\<lambda>y. if vr_dev_id y = d then x else y) rows"
    unfolding replace_row_def x(1) by (induction rows) simp_all
  have ids: "map vr_dev_id (replace_row d r rows) = map vr_dev_id rows" using x(2) by (simp add: rr)
  have keys: "map fst (put_face d f fs) = map fst fs" by (simp add: put_face_def)
  have only: "g = f0" if "(d, g) \<in> set fs" for g using e(1) assms(2) that by (metis eq_key_imp_eq_value)
  have "face_virtual (if fst y = d then f else snd y) = face_virtual (snd y)" if "y \<in> set fs" for y
    using only [of "snd y"] that assms(3) by (cases y) auto
  then have v: "map fst (filter (\<lambda>(d, f). face_virtual f) (put_face d f fs)) = map fst (filter (\<lambda>(d, f). face_virtual f) fs)"
    unfolding put_face_def by (induction fs) (auto simp: split_beta)
  have o: "vdev_more_of (oset d m ms) k = (if k = d then m else vdev_more_of ms k)" for k by (simp add: vdev_more_of_def)
  have "\<exists>g. (vr_dev_id y, g) \<in> set (put_face d f fs) \<and> row_of sites (vr_dev_id y) g (vdev_more_of (oset d m ms) (vr_dev_id y)) = Inr [y]"
    if y: "y \<in> set (replace_row d r rows)" for y
  proof -
   obtain z where z: "z \<in> set rows" "y = (if vr_dev_id z = d then x else z)" using y unfolding rr by auto
   show ?thesis
   proof (cases "vr_dev_id y = d")
    case True
    then have "y = x" using z(2) by (auto split: if_splits)
    moreover have "(d, f) \<in> set (put_face d f fs)" using assms(2) by (force simp: put_face_def)
    ultimately show ?thesis using True assms(4) x by (auto simp: o)
  next
    case False
    then have "y \<in> set rows" using z x(2) by (auto split: if_splits)
    with e(3) obtain g where g: "(vr_dev_id y, g) \<in> set fs" "row_of sites (vr_dev_id y) g (vdev_more_of ms (vr_dev_id y)) = Inr [y]" by blast
    moreover have "(vr_dev_id y, g) \<in> set (put_face d f fs)" using g(1) False by (force simp: put_face_def)
    ultimately show ?thesis using False by (auto simp: o)
   qed
  qed
  then show ?thesis using e(1,2) unfolding exact_faces_def by (simp only: keys ids v) blast
qed

lemma exact_start:
  assumes "owf (devs s)" "vDevsWindow lc sites s ms = Inr rows"
  shows "exact_faces sites (faces (devs s)) ms rows"
proof -
  let ?vs = "filter (\<lambda>(d, dv). dev_virtual dv) (devs s)"
  from assms(2) obtain ds where t: "try_sort (\<lambda>a b. text_compare lc (dev_short_name (snd a)) (dev_short_name (snd b))) ?vs = Inr ds"
      "gather (\<lambda>(d, dv). get_vdev_row sites d dv (vdev_more_of ms d)) ds = Inr rows"
    unfolding vDevsWindow_def by (auto split: sum.splits)
  note ds = try_sort_mset [OF t(1)] t(2)
  have g: "gather (\<lambda>(d, dv). get_vdev_row sites d dv (vdev_more_of ms d)) ds = Inr rows \<Longrightarrow> map vr_dev_id rows = map fst ds \<and>
      (\<forall>r \<in> set rows. \<exists>dv. (vr_dev_id r, dv) \<in> set ds \<and> get_vdev_row sites (vr_dev_id r) dv (vdev_more_of ms (vr_dev_id r)) = Inr [r])" for ds rows
  proof (induction ds arbitrary: rows)
    case (Cons p ds)
    obtain d dv where p: "p = (d, dv)" by (cases p)
    with Cons.prems obtain r rs where r: "get_vdev_row sites d dv (vdev_more_of ms d) = Inr r"
        "gather (\<lambda>(d, dv). get_vdev_row sites d dv (vdev_more_of ms d)) ds = Inr rs" "rows = r @ rs" by (auto split: sum.splits)
    obtain x where "r = [x]" "vr_dev_id x = d" using row_of_id r(1) by (force simp: get_vdev_row_face)
    with Cons.IH [OF r(2)] r p show ?case by auto
  qed simp
  have "mset (map vr_dev_id rows) = mset (map fst ?vs)" using g [OF ds(2)] ds(1) by (metis mset_map)
  moreover have "\<exists>dv. oget (devs s) (vr_dev_id r) = Some dv \<and> get_vdev_row sites (vr_dev_id r) dv (vdev_more_of ms (vr_dev_id r)) = Inr [r]"
    if "r \<in> set rows" for r
  proof -
    obtain dv where dv: "(vr_dev_id r, dv) \<in> set ds" "get_vdev_row sites (vr_dev_id r) dv (vdev_more_of ms (vr_dev_id r)) = Inr [r]"
      using g [OF ds(2)] \<open>r \<in> set rows\<close> by blast
    then have "(vr_dev_id r, dv) \<in> set (devs s)" using mset_eq_setD [OF ds(1)] by auto
    with dv(2) assms(1) show ?thesis by (auto simp: owf_def okeys_def)
  qed
  ultimately have "rows_exact sites \<lparr>vp_app = s, vp_more = ms, vp_rows = rows\<rparr>" by (simp add: rows_exact_def)
  then show ?thesis using exact_iff [of sites "\<lparr>vp_app = s, vp_more = ms, vp_rows = rows\<rparr>"] assms(1) by simp
qed

section \<open>The window over time\<close>

text \<open>
  The window is opened, and then devices are created, saved and deleted through it, each operation run
  to its end; between them the page may do anything that leaves the names, the kinds and the numbers
  of ports of its devices alone.
\<close>

inductive vdevs_reach :: "(string \<Rightarrow> string \<Rightarrow> int) \<Rightarrow> (string \<Rightarrow> int \<times> int) \<Rightarrow> tag list \<Rightarrow> vdevs_page \<Rightarrow> bool"
  for lc text_size sites where
  vr_open: "owf (devs s) \<Longrightarrow> vDevsWindow lc sites s ms = Inr rows \<Longrightarrow>
    vdevs_reach lc text_size sites \<lparr>vp_app = s, vp_more = ms, vp_rows = rows\<rparr>"
| vr_new: "vdevs_reach lc text_size sites p \<Longrightarrow> oget (devs (vp_app p)) (vg_id g) = None \<Longrightarrow> dev_virtual (vg_vdev g) \<Longrightarrow>
    save_new lc sites g p = Done p' \<Longrightarrow> vdevs_reach lc text_size sites p'"
| vr_save: "vdevs_reach lc text_size sites p \<Longrightarrow> oget (devs (vp_app p)) (vg_id g) = Some dv \<Longrightarrow> dev_virtual dv \<Longrightarrow>
    neat_ports (vg_ports g) \<Longrightarrow> site_accepted (dialog_more g) \<Longrightarrow>
    save_old lc text_size sites g p = Done p' \<Longrightarrow> vdevs_reach lc text_size sites p'"
| vr_delete: "vdevs_reach lc text_size sites p \<Longrightarrow> delete_row lc d p = Done p' \<Longrightarrow> vdevs_reach lc text_size sites p'"
| vr_other: "vdevs_reach lc text_size sites p \<Longrightarrow> faces (devs s) = faces (devs (vp_app p)) \<Longrightarrow>
    vdevs_reach lc text_size sites (p\<lparr>vp_app := s\<rparr>)"

inductive_cases vdevs_reachE: "vdevs_reach lc text_size sites p"

abbreviation page_exact :: "tag list \<Rightarrow> vdevs_page \<Rightarrow> bool" where
  "page_exact sites p \<equiv> exact_faces sites (faces (devs (vp_app p))) (vp_more p) (vp_rows p)"

lemma shown_new:
  assumes "page_exact sites p" "oget (devs (vp_app p)) (vg_id g) = None" "dev_virtual (vg_vdev g)" "save_new lc sites g p = Done p'"
  shows "page_exact sites p'"
proof (cases "form_refused (dialog_form g) \<or> \<not> site_accepted (dialog_more g)")
  case True
  with assms show ?thesis by (simp add: save_new_def Let_def)
next
  case False
  define d where "d = vg_id g"
  define dv where "dv = vdev_of_form lc (dialog_form g) (vg_vdev g)"
  define s where "s = resort_dev_list lc ((vp_app p)\<lparr>devs := oset d dv (devs (vp_app p)),
    dev_list := dev_list (vp_app p) @ [(d, list_name d dv)]\<rparr>)"
  have r: "new_vdev_saved lc d dv (vp_app p) = Done s" by (simp add: new_vdev_saved_def device_to_list_def s_def)
  have m: "vdev_more_of (oset d m ms) d = m" for m ms by (simp add: vdev_more_of_def)
  from assms(4) False obtain x where x: "row_of sites d (vdev_face dv) (dialog_more g) = Inr x"
      "p' = p\<lparr>vp_more := oset d (dialog_more g) (vp_more p), vp_app := s, vp_rows := vp_rows p @ x\<rparr>"
    by (auto simp: save_new_def Let_def r on_app_def show_vdev_def get_vdev_row_face m
        simp flip: d_def dv_def split: sum.splits)
  have f: "faces (devs s) = faces (devs (vp_app p)) @ [(d, vdev_face dv)]"
    using assms(2) by (simp add: s_def resort_dev_list_def faces_add d_def)
  have v: "face_virtual (vdev_face dv)" using assms(3) by (simp add: vdev_face_def dv_def form_ports)
  have "d \<notin> set (map fst (faces (devs (vp_app p))))" using assms(2) by (simp add: keys_faces oget_None_iff d_def)
  from exact_new [OF assms(1) this v x(1)] show ?thesis by (simp add: x(2) f)
qed

lemma shown_saved:
  assumes "page_exact sites p" "oget (devs (vp_app p)) (vg_id g) = Some dv" "dev_virtual dv"
    "neat_ports (vg_ports g)" "site_accepted (dialog_more g)" "save_old lc text_size sites g p = Done p'"
  shows "page_exact sites p'"
proof (cases "form_refused (dialog_form g)")
  case True
  with neat_not_refused [OF assms(4)] assms(1,6) show ?thesis by (simp add: save_old_def Let_def dialog_form_def)
next
  case False
  define d where "d = vg_id g"
  define new where "new = vdev_of_form lc (dialog_form g) dv"
  have m: "vdev_more_of (oset d m ms) d = m" for m ms by (simp add: vdev_more_of_def)
  from False have n: "short_name_ok (trim (vf_short_name (dialog_form g)))" by (simp add: form_refused_def)
  have o: "oget (devs (vp_app p)) d = Some dv" using assms(2) by (simp add: d_def)
  from assms(6) obtain s x where s: "called (edit_vdev lc text_size d (dialog_form g) (vp_app p)) = Done s"
      "row_of sites d (vdev_face new) (dialog_more g) = Inr x"
      "p' = p\<lparr>vp_more := oset d (dialog_more g) (vp_more p), vp_app := s, vp_rows := replace_row d x (vp_rows p)\<rparr>"
    by (cases "edit_vdev lc text_size d (dialog_form g) (vp_app p)")
      (auto simp: save_old_def Let_def False n o assms(5) on_app_def show_vdev_def get_vdev_row_face m
        simp flip: d_def new_def split: sum.splits)
  have "run_state (edit_vdev lc text_size d (dialog_form g) (vp_app p)) = s" using s(1) by (metis run_state.simps(1) run_state_called)
  moreover have "owf (devs (vp_app p))" using assms(1) by (simp add: exact_iff)
  ultimately have f: "faces (devs s) = put_face d (vdev_face new) (faces (devs (vp_app p)))"
    using faces_edit [OF o False, of lc text_size] by (simp add: faces_put o new_def)
  have i: "(d, vdev_face dv) \<in> set (faces (devs (vp_app p)))" using map_of_SomeD [OF o] by (force simp: faces_def)
  have "face_virtual (vdev_face dv) = face_virtual (vdev_face new)" by (simp add: vdev_face_def new_def form_ports)
  from exact_edit [OF assms(1) i this s(2)] show ?thesis by (simp add: s(3) f)
qed

lemma shown_deleted:
  assumes "page_exact sites p" "delete_row lc d p = Done p'"
  shows "page_exact sites p'"
proof -
  obtain u where u: "(if on_page (vp_app p) d then remove_from_map lc d False (vp_app p) else Done (from_dev_list lc d (vp_app p))) = Done u"
      "faces (devs u) = faces (devs (vp_app p))"
    using faces.remove_from_map_net [of lc d "vp_app p"]
    by (cases "on_page (vp_app p) d") (auto simp: from_dev_list_def resort_dev_list_def)
  have "p' = p\<lparr>vp_app := forget_dev d u, vp_more := odel d (vp_more p), vp_rows := filter (\<lambda>r. vr_dev_id r \<noteq> d) (vp_rows p)\<rparr>"
    using assms(2) u(1) by (simp add: delete_row_def vdev_deleted_def on_app_def)
  then show ?thesis using exact_del [OF assms(1), of d] u(2) by (simp add: faces_forget faces_del)
qed

text \<open>
  C35: After any operations in the window of the virtual devices that run to their end, its rows are the
  virtual devices of the page, each once, with their present name, description, number of ports and
  location.
\<close>

theorem vdevs_window_exact:
  assumes "vdevs_reach lc text_size sites p"
  shows "rows_exact sites p"
proof -
  from assms have "page_exact sites p"
  proof induction
    case (vr_open s ms rows)
    then show ?case by (simp add: exact_start)
  next
    case (vr_new p g p')
    then show ?case using shown_new by blast
  next
    case (vr_save p g dv p')
    then show ?case using shown_saved by blast
  next
    case (vr_delete p d p')
    then show ?case using shown_deleted by blast
  next
    case (vr_other p s)
    then show ?case by simp
  qed
  then show ?thesis by (simp add: exact_iff)
qed

definition ex_vdevs_app :: app where
  "ex_vdevs_app = app0\<lparr>devs := [(''v1'', device0\<lparr>dev_short_name := Some ''b'', dev_virtual := True\<rparr>), (''r'', device0),
     (''v2'', device0\<lparr>dev_short_name := Some ''a'', dev_virtual := True\<rparr>)]\<rparr>"

definition ex_vdevs_page :: vdevs_page where
  "ex_vdevs_page = \<lparr>vp_app = ex_vdevs_app, vp_more = [], vp_rows =
     [\<lparr>vr_dev_id = ''v2'', vr_name = Some ''a'', vr_descr = None, vr_ports = 0, vr_site = (''NULL'', [''tag not found''])\<rparr>,
      \<lparr>vr_dev_id = ''v1'', vr_name = Some ''b'', vr_descr = None, vr_ports = 0, vr_site = (''NULL'', [''tag not found''])\<rparr>]\<rparr>"

lemma ex_vdevs_open: "vDevsWindow ex_lc [] ex_vdevs_app [] = Inr (vp_rows ex_vdevs_page)"
  by code_simp

lemma ex_vdevs_delete: "case delete_row ex_lc ''v1'' ex_vdevs_page of Done p \<Rightarrow> map vr_name (vp_rows p) = [Some ''a''] | _ \<Rightarrow> False"
  by code_simp

lemma done_case: "(case r of Done p \<Rightarrow> P p | _ \<Rightarrow> False) \<Longrightarrow> \<exists>p. r = Done p \<and> P p"
  by (cases r) simp_all

lemma vdevs_window_exact_witness:
  "\<exists>p. delete_row ex_lc ''v1'' ex_vdevs_page = Done p \<and> map vr_name (vp_rows p) = [Some ''a''] \<and> rows_exact [] p"
proof -
  have "vdevs_reach ex_lc (\<lambda>_. (0, 0)) [] \<lparr>vp_app = ex_vdevs_app, vp_more = [], vp_rows = vp_rows ex_vdevs_page\<rparr>"
    by (rule vr_open [OF _ ex_vdevs_open]) (simp add: ex_vdevs_app_def owf_def)
  moreover have "\<lparr>vp_app = ex_vdevs_app, vp_more = [], vp_rows = vp_rows ex_vdevs_page\<rparr> = ex_vdevs_page"
    by (simp only: ex_vdevs_page_def vdevs_page.simps)
  ultimately have "vdevs_reach ex_lc (\<lambda>_. (0, 0)) [] ex_vdevs_page" by (simp only:)
  then have r: "delete_row ex_lc ''v1'' ex_vdevs_page = Done p \<Longrightarrow> rows_exact [] p" for p
    using vdevs_window_exact [OF vr_delete] by blast
  show ?thesis using done_case [OF ex_vdevs_delete] by (elim exE conjE, intro exI conjI) (assumption, assumption, rule r)
qed

section \<open>Saving an unchanged form\<close>

lemma saved_same_names: "set prev \<subseteq> set (interfaces_sorted dv) \<Longrightarrow> vdev_saved d dv prev s = s\<lparr>devs := oset d dv (devs s)\<rparr>"
proof -
  have "set ps \<subseteq> set so \<Longrightarrow>
      fold (\<lambda>p s. if fst (in_array (Some so) (Some p)) then s else wipe_l2_link_by_dev_int d p s) ps t = t" for so ps t
    by (induction ps) auto
  then show "set prev \<subseteq> set (interfaces_sorted dv) \<Longrightarrow> ?thesis" by (simp add: vdev_saved_def)
qed

text \<open>
  Opening the form of a virtual device and saving it as it is deletes no link and leaves the names
  of the ports, their descriptions but for blanks around them, and the name of the device.
\<close>

theorem unchanged_form_saved:
  assumes "open_dialog False d dv m = Done g" "oget (devs s) d = Some dv"
    and "distinct (interfaces_sorted dv)" "list_all neat_name (interfaces_sorted dv)"
    and "new = vdev_of_form lc (dialog_form g) dv"
  shows "l2_links (run_state (edit_vdev lc text_size d (dialog_form g) s)) = l2_links s \<and>
    mset (interfaces_sorted new) = mset (interfaces_sorted dv) \<and>
    (\<forall>i \<in> set (interfaces_sorted dv). ifAlias (if_of new i) = Some (trim (opt_val (ifAlias (if_of dv i))))) \<and>
    dev_short_name new = Some (trim (opt_val (dev_short_name dv)))"
proof -
  have o: "map fst (vg_ports g) = interfaces_sorted dv" using open_ports [OF assms(1)] by simp
  have g: "neat_ports (vg_ports g)" using assms(3,4) by (simp add: neat_ports_def o)
  have n: "mset (interfaces_sorted new) = mset (interfaces_sorted dv)" using saved_names [OF g] by (simp add: assms(5) o)
  then have "set (interfaces_sorted dv) \<subseteq> set (interfaces_sorted new)" using mset_eq_setD by blast
  then have "l2_links (vdev_saved d new (interfaces_sorted dv) s) = l2_links s" by (simp add: saved_same_names)
  moreover have "vdev_query lc d (dialog_form g) s = Some q \<Longrightarrow> q = new" for q
    using assms(2) by (auto simp: vdev_query_def assms(5) split: if_splits)
  ultimately have "l2_links (run_state (edit_vdev lc text_size d (dialog_form g) s)) = l2_links s"
    using edit_run [OF assms(2), of lc text_size "dialog_form g"]
    by (cases "vdev_query lc d (dialog_form g) s") (auto simp: links_eq_parts)
  moreover have "ifAlias (if_of new i) = Some (trim (opt_val (ifAlias (if_of dv i))))" if i: "i \<in> set (interfaces_sorted dv)" for i
  proof -
    have "(i, opt_val (ifAlias (if_of dv i))) \<in> set (vg_ports g)"
    proof -
      have "gather (port_row dv) is = Inr ps \<Longrightarrow> i \<in> set is \<Longrightarrow> (i, opt_val (ifAlias (if_of dv i))) \<in> set ps" for "is" ps
        by (induction "is" arbitrary: ps) (auto simp: port_row_def if_of_def split: option.splits sum.splits)
      then show ?thesis using assms(1) i by (auto simp: open_dialog_def Let_def split: sum.splits)
    qed
    from form_alias [OF g this] g show ?thesis
      by (simp add: assms(5) if_of_def vdev_of_form_def dev_ifs_def oget_vdev_ifs form_names neat_ports_def vdev_iface_def)
  qed
  moreover have "vg_short_name g = opt_val (dev_short_name dv)"
    using assms(1) by (auto simp: open_dialog_def Let_def split: sum.splits)
  ultimately show ?thesis using n by (simp add: assms(5) vdev_of_form_def vdev_texts_def dialog_form_def)
qed

definition ex_dialog :: vdev_dialog where
  "ex_dialog = run_state (open_dialog False ''v1'' (ex_vdev ''one'') \<lparr>vm_site = Some ''3'', vm_descr = None\<rparr>)"

lemma unchanged_form_saved_witness:
  "l2_links (run_state (edit_vdev ex_lc (\<lambda>_. (0, 0)) ''v1'' (dialog_form ex_dialog) (vlink_saved ex_vlink ex_vl))) =
     l2_links (vlink_saved ex_vlink ex_vl) \<and> l2_links (vlink_saved ex_vlink ex_vl) \<noteq> []"
proof -
  let ?s = "vlink_saved ex_vlink ex_vl"
  obtain dv where dv: "oget (devs ?s) ''v1'' = Some dv" "interfaces_sorted dv = [''e0'']" "oget (dev_ifs dv) ''e0'' \<noteq> None"
      "dev_short_name dv = Some ''one''" "dev_data_ip dv = None" "dev_model_short dv = []" "dev_sysLocation dv = None"
      "ifAlias (if_of dv ''e0'') = Some []"
    by (auto simp: vlink_saved_def ex_vlink_def link_end_def set_list_def set_if_def if_exists_def ex_vl_def ex_vdev_def app0_def
        dev_ifs_def dev_of_def device0_def if_of_def vdev_iface_def)
  have v: "ifAlias (if_of (ex_vdev ''one'') ''e0'') = Some []" "oget (dev_ifs (ex_vdev ''one'')) ''e0'' \<noteq> None"
    by (simp_all add: ex_vdev_def if_of_def dev_ifs_def vdev_iface_def)
  have f: "dialog_form g = dialog_form ex_dialog"
    if "open_dialog False ''v1'' dv \<lparr>vm_site = Some ''3'', vm_descr = None\<rparr> = Done g" for g
    using that dv v by (auto simp: ex_dialog_def open_dialog_def port_row_def if_of_def Let_def dialog_form_def opt_val_def
        ex_vdev_def device0_def split: option.splits)
  obtain g where g: "open_dialog False ''v1'' dv \<lparr>vm_site = Some ''3'', vm_descr = None\<rparr> = Done g"
    using dv by (auto simp: open_dialog_def port_row_def Let_def)
  have n: "neat_name ''e0''" by code_simp
  have "l2_links ?s \<noteq> []" by (simp add: vlink_saved_def ex_vlink_def link_end_def set_list_def ex_vl_def app0_def)
  with unchanged_form_saved [OF g dv(1) _ _ refl, of ex_lc "\<lambda>_. (0, 0)"] show ?thesis by (simp add: dv(2) n f [OF g])
qed

section \<open>Refused names and refused devices\<close>

text \<open>
  The name the field starts with is refused before blanks are cut off, so with a blank after it it is
  added. A new device is never refused for its location: the button that opens the window is only
  there where the location of the page is a number.
\<close>

lemma start_name_slips: "add_port (g\<lparr>vg_ports := [], vg_foot := Some (''Eth1/0/ '', a)\<rparr>) =
    g\<lparr>vg_ports := [(''Eth1/0/'', a)], vg_foot := Some (''Eth1/0/'', a)\<rparr>"
proof -
  have "if_name_ok ''Eth1/0/ ''" "trim ''Eth1/0/ '' = ''Eth1/0/''" by code_simp+
  then show ?thesis by (simp add: add_port_def)
qed

lemma new_accepted:
  assumes "open_new random now st = Done g0" "vdev_btn_shown st" "g = fold dialog_step ops g0"
  shows "site_accepted (dialog_more g)"
proof -
  have "vg_site g = st" unfolding assms(3) steps_keep using assms(1)
    by (auto simp: open_new_def open_dialog_def new_vdev_def opt_val_def Let_def)
  moreover have "trim st = st" using assms(2) by (simp add: vdev_btn_shown_def is_num_def trim_digits)
  ultimately show ?thesis using assms(2) by (simp add: site_accepted_def dialog_more_def vdev_btn_shown_def)
qed

end
