(* ===== verification/Vlans.thy ===== *)
theory Vlans
  imports Reports
begin

text \<open>
  The VLAN window: the table from VLANs to devices to interfaces it collects, and the rows it
  shows of it. The table is compared with what it means for an interface to carry a VLAN.
\<close>

section \<open>The window\<close>

text \<open>
  The group of \<open>/^(?:Vlan|Vl|Po|Vlanif|.*\.)(\d+)$/\<close>. The alternatives exclude each other on the
  names the pattern matches, so their order does not matter; the dot does not match the end of
  a line.
\<close>

definition line_end :: "char \<Rightarrow> bool" where
  "line_end c \<longleftrightarrow> c = CHR 0x0A \<or> c = CHR 0x0D"

definition num_after :: "string \<Rightarrow> string \<Rightarrow> string option" where
  "num_after p name = (if take (length p) name = p \<and> is_num (drop (length p) name) then Some (drop (length p) name) else None)"

definition after_dot :: "string \<Rightarrow> string option" where
  "after_dot name = (let ds = rev (takeWhile (\<lambda>c. c \<noteq> CHR ''.'') (rev name)) in
     if CHR ''.'' \<in> set name \<and> is_num ds \<and> \<not> list_ex line_end name then Some ds else None)"

definition vlan_of_name :: "string \<Rightarrow> string option" where
  "vlan_of_name name = (case List.find (\<lambda>p. num_after p name \<noteq> None) [''Vlan'', ''Vl'', ''Po'', ''Vlanif''] of
      Some p \<Rightarrow> num_after p name
    | None \<Rightarrow> after_dot name)"

type_synonym vlans_obj = "(string, (dev_id, (if_name, nat) obj) obj) obj"

definition opt_obj :: "('k \<times> 'v) list option \<Rightarrow> ('k \<times> 'v) list" where
  "opt_obj ob = (case ob of None \<Rightarrow> [] | Some ps \<Rightarrow> ps)"

definition mark_vlan :: "string \<Rightarrow> dev_id \<Rightarrow> if_name \<Rightarrow> vlans_obj \<Rightarrow> vlans_obj" where
  "mark_vlan vlan d i vlans =
     (let vd = opt_obj (oget vlans vlan); di = opt_obj (oget vd d)
      in oset vlan (oset d (oset i 1 di) vd) vlans)"

text \<open>
  \<open>dv\<close> are the VLANs of the device, a table whose absent entries are undefined. A number is
  compared with \<open>pvid\<close> by \<open>!==\<close>, an array is always different from it.
\<close>

definition mark_named :: "(string \<Rightarrow> bool) \<Rightarrow> string option \<Rightarrow> dev_id \<Rightarrow> if_name \<Rightarrow> string \<Rightarrow> vlans_obj \<Rightarrow> vlans_obj" where
  "mark_named dv pvid d i vlan vlans = (if Some vlan \<noteq> pvid \<and> dv vlan then mark_vlan vlan d i vlans else vlans)"

definition mark_entry :: "(string \<Rightarrow> bool) \<Rightarrow> string option \<Rightarrow> dev_id \<Rightarrow> if_name \<Rightarrow> vlan_entry \<Rightarrow> vlans_obj \<Rightarrow> vlans_obj" where
  "mark_entry dv pvid d i e vlans =
     (if (case pvid of None \<Rightarrow> True | Some p \<Rightarrow> e \<noteq> StrEntry p) \<and> dv (entry_text e)
      then mark_vlan (entry_text e) d i vlans else vlans)"

definition mark_list :: "(string \<Rightarrow> bool) \<Rightarrow> string option \<Rightarrow> dev_id \<Rightarrow> if_name \<Rightarrow> string option \<Rightarrow> vlans_obj \<Rightarrow> vlans_obj" where
  "mark_list dv pvid d i text vlans = (case text of
      None \<Rightarrow> vlans
    | Some t \<Rightarrow> fold (mark_entry dv pvid d i) (unwind_list t) vlans)"

definition mark_routed :: "(string \<Rightarrow> bool) \<Rightarrow> string option \<Rightarrow> dev_id \<Rightarrow> if_name \<Rightarrow> iface \<Rightarrow> vlans_obj \<Rightarrow> vlans_obj" where
  "mark_routed dv pvid d i f vlans = (case routedVlan f of
      Some n \<Rightarrow> mark_named dv pvid d i (nat_str n) vlans
    | None \<Rightarrow> (case vlan_of_name i of None \<Rightarrow> vlans | Some vlan \<Rightarrow> mark_named dv pvid d i vlan vlans))"

definition shown_port :: "bool \<Rightarrow> bool \<Rightarrow> iface \<Rightarrow> bool" where
  "shown_port with_links with_trunks f \<longleftrightarrow> (with_links \<or> if_l2_links f = None) \<and> lag_members f = None \<and>
     lag_parent f = None \<and> pagp_members f = None \<and> pagp_parent f = None \<and> (with_trunks \<or> portMode f \<noteq> Some 2)"

definition mark_if :: "bool \<Rightarrow> bool \<Rightarrow> (string \<Rightarrow> bool) \<Rightarrow> dev_id \<Rightarrow> if_name \<times> iface \<Rightarrow> vlans_obj \<Rightarrow> vlans_obj" where
  "mark_if with_links with_trunks dv d e vlans = (case e of (i, f) \<Rightarrow>
     if shown_port with_links with_trunks f then
       (let pvid = map_option nat_str (portPvid f);
            vlans = mark_routed dv pvid d i f vlans;
            vlans = (case pvid of None \<Rightarrow> vlans | Some p \<Rightarrow> if dv p then mark_vlan p d i vlans else vlans)
        in if portMode f = Some 2 then mark_list dv pvid d i (portTrunkVlans f) vlans
           else if portMode f = Some 3 then
             mark_list dv pvid d i (portHybridUntag f) (mark_list dv pvid d i (portHybridTag f) vlans)
           else vlans)
     else vlans)"

definition mark_dev :: "bool \<Rightarrow> bool \<Rightarrow> dev_id \<times> device \<Rightarrow> vlans_obj \<Rightarrow> vlans_obj" where
  "mark_dev with_links with_trunks e vlans = (case e of (d, dv) \<Rightarrow>
     (case (interfaces dv, dev_vlans dv) of
        (Some ifs, Some vs) \<Rightarrow> fold (mark_if with_links with_trunks (\<lambda>v. v \<in> set vs) d) ifs vlans
      | _ \<Rightarrow> vlans))"

definition vlan_table :: "bool \<Rightarrow> bool \<Rightarrow> (dev_id, device) obj \<Rightarrow> vlans_obj" where
  "vlan_table with_links with_trunks ds = fold (mark_dev with_links with_trunks) ds []"

text \<open>
  The rows: a VLAN with the number of its devices; below it, once it is opened, its devices by
  name and their interfaces with their aliases. Comparing a missing name throws; with a single
  device nothing is compared.
\<close>

definition vlan_heads :: "(string \<Rightarrow> string \<Rightarrow> int) \<Rightarrow> vlans_obj \<Rightarrow> (string \<times> nat) list" where
  "vlan_heads lc vlans = map (\<lambda>v. (v, length (own_keys (okeys (opt_obj (oget vlans v))))))
     (js_sort (num_compare lc) (own_keys (okeys vlans)))"

definition port_rows :: "(string \<Rightarrow> string \<Rightarrow> int) \<Rightarrow> device \<Rightarrow> (if_name, nat) obj \<Rightarrow>
    exn + (if_name \<times> string \<times> string option) list" where
  "port_rows lc dv ports = gather (\<lambda>i. map_sum id (\<lambda>ls. [(i, ls, ifAlias (if_of dv i))]) (int_labels i (Some dv)))
     (js_sort (num_compare lc) (own_keys (okeys ports)))"

definition vlan_body :: "(string \<Rightarrow> string \<Rightarrow> int) \<Rightarrow> app \<Rightarrow> (dev_id, (if_name, nat) obj) obj \<Rightarrow>
    exn + (dev_id \<times> string option \<times> (if_name \<times> string \<times> string option) list) list" where
  "vlan_body lc s vdata = (let dl = own_keys (okeys vdata); name = (\<lambda>d. dev_short_name (dev_of s d)) in
     if 1 < length dl \<and> list_ex (\<lambda>d. name d = None) dl then Inl TypeError
     else gather (\<lambda>d. map_sum id (\<lambda>ps. [(d, name d, ps)]) (port_rows lc (dev_of s d) (opt_obj (oget vdata d))))
       (js_sort (\<lambda>a b. num_compare lc (undef_str (name a)) (undef_str (name b))) dl))"

section \<open>The table is the relation\<close>

definition named_vlan :: "if_name \<Rightarrow> iface \<Rightarrow> string option" where
  "named_vlan i f = (case routedVlan f of Some n \<Rightarrow> Some (nat_str n) | None \<Rightarrow> vlan_of_name i)"

definition listed_vlans :: "string option \<Rightarrow> string list" where
  "listed_vlans text = (case text of None \<Rightarrow> [] | Some t \<Rightarrow> map entry_text (unwind_list t))"

text \<open>
  An interface carries a VLAN when it is its routed VLAN, that of its name when none is routed,
  its own VLAN, or one of the lists of its mode.
\<close>

definition carries :: "if_name \<Rightarrow> iface \<Rightarrow> string \<Rightarrow> bool" where
  "carries i f v \<longleftrightarrow> named_vlan i f = Some v \<or> map_option nat_str (portPvid f) = Some v \<or>
     (portMode f = Some 2 \<and> v \<in> set (listed_vlans (portTrunkVlans f))) \<or>
     (portMode f = Some 3 \<and> (v \<in> set (listed_vlans (portHybridTag f)) \<or> v \<in> set (listed_vlans (portHybridUntag f))))"

definition in_table :: "vlans_obj \<Rightarrow> string \<Rightarrow> dev_id \<Rightarrow> if_name \<Rightarrow> bool" where
  "in_table vlans v d i = has (opt_obj (oget (opt_obj (oget vlans v)) d)) i"

lemma opt_obj_simps [simp]: "opt_obj None = []" "opt_obj (Some ps) = ps"
  by (simp_all add: opt_obj_def)

lemma in_mark [simp]: "in_table (mark_vlan vlan d i vlans) v d' i' \<longleftrightarrow> (v = vlan \<and> d' = d \<and> i' = i) \<or> in_table vlans v d' i'"
  by (auto simp: in_table_def mark_vlan_def Let_def has_def)

lemma in_mark_named [simp]: "in_table (mark_named dv pvid d i vlan vlans) v d' i' \<longleftrightarrow>
    (v = vlan \<and> Some v \<noteq> pvid \<and> dv v \<and> d' = d \<and> i' = i) \<or> in_table vlans v d' i'"
  by (auto simp: mark_named_def)

lemma in_mark_list: "in_table (mark_list dv pvid d i text vlans) v d' i' \<longleftrightarrow>
    (dv v \<and> d' = d \<and> i' = i \<and> v \<in> set (listed_vlans text)) \<or> in_table vlans v d' i'"
  if "\<And>p. pvid = Some p \<Longrightarrow> dv p \<Longrightarrow> in_table vlans p d i"
proof -
  have "in_table (fold (mark_entry dv pvid d i) es vlans) v d' i' \<longleftrightarrow>
      (dv v \<and> d' = d \<and> i' = i \<and> v \<in> entry_text ` set es) \<or> in_table vlans v d' i'" for es
    using that
  proof (induction es arbitrary: vlans)
    case (Cons e es)
    have "in_table (mark_entry dv pvid d i e vlans) p d i" if "pvid = Some p" "dv p" for p
      using Cons.prems [OF that] by (simp add: mark_entry_def)
    from Cons.IH [OF this] Cons.prems show ?case
      by (auto simp: mark_entry_def split: option.splits if_splits)
  qed auto
  then show ?thesis by (auto simp: mark_list_def listed_vlans_def split: option.split)
qed

lemma in_mark_if: "in_table (mark_if wl wt dv d (i, f) vlans) v d' i' \<longleftrightarrow>
    (d' = d \<and> i' = i \<and> shown_port wl wt f \<and> dv v \<and> carries i f v) \<or> in_table vlans v d' i'"
proof -
  define pvid where "pvid = map_option nat_str (portPvid f)"
  define t where "t = mark_routed dv pvid d i f vlans"
  define u where "u = (case pvid of None \<Rightarrow> t | Some p \<Rightarrow> if dv p then mark_vlan p d i t else t)"
  have r: "in_table t v d' i' \<longleftrightarrow>
      (named_vlan i f = Some v \<and> Some v \<noteq> pvid \<and> dv v \<and> d' = d \<and> i' = i) \<or> in_table vlans v d' i'" for v d' i'
    by (auto simp: t_def mark_routed_def named_vlan_def split: option.split)
  have u: "in_table u v d' i' \<longleftrightarrow> (dv v \<and> d' = d \<and> i' = i \<and> (named_vlan i f = Some v \<or> pvid = Some v)) \<or> in_table vlans v d' i'" for v d' i'
    unfolding u_def by (auto simp: r split: option.splits if_splits)
  have own: "pvid = Some p \<Longrightarrow> dv p \<Longrightarrow> in_table u p d i" for p by (simp add: u)
  then have own2: "pvid = Some p \<Longrightarrow> dv p \<Longrightarrow> in_table (mark_list dv pvid d i t u) p d i" for p t
    by (subst in_mark_list) simp_all
  show ?thesis
    unfolding mark_if_def Let_def pvid_def [symmetric] prod.case t_def [symmetric] u_def [symmetric]
    using own own2 by (auto simp: in_mark_list u carries_def pvid_def [symmetric])
qed

lemma in_mark_ifs: "in_table (fold (mark_if wl wt dv d) ifs vlans) v d' i \<longleftrightarrow>
    (d' = d \<and> dv v \<and> (\<exists>f. (i, f) \<in> set ifs \<and> shown_port wl wt f \<and> carries i f v)) \<or> in_table vlans v d' i"
proof (induction ifs arbitrary: vlans)
  case (Cons e ifs)
  then show ?case by (cases e) (auto simp: in_mark_if)
qed simp

text \<open>The device of the map that puts an interface into the table.\<close>

definition dev_carries :: "bool \<Rightarrow> bool \<Rightarrow> device \<Rightarrow> if_name \<Rightarrow> string \<Rightarrow> bool" where
  "dev_carries wl wt dv i v \<longleftrightarrow> (case (interfaces dv, dev_vlans dv) of
      (Some ifs, Some vs) \<Rightarrow> v \<in> set vs \<and> list_ex (\<lambda>(j, f). j = i \<and> shown_port wl wt f \<and> carries i f v) ifs
    | _ \<Rightarrow> False)"

lemma in_mark_dev: "in_table (mark_dev wl wt (d, dv) vlans) v d' i \<longleftrightarrow> (d' = d \<and> dev_carries wl wt dv i v) \<or> in_table vlans v d' i"
  by (auto simp: mark_dev_def dev_carries_def in_mark_ifs list_ex_iff split: option.split)

lemma in_vlan_table: "in_table (vlan_table wl wt ds) v d i \<longleftrightarrow> (\<exists>dv. (d, dv) \<in> set ds \<and> dev_carries wl wt dv i v)"
proof -
  have "in_table (fold (mark_dev wl wt) ds vlans) v d i \<longleftrightarrow> (\<exists>dv. (d, dv) \<in> set ds \<and> dev_carries wl wt dv i v) \<or> in_table vlans v d i" for vlans
  proof (induction ds arbitrary: vlans)
    case (Cons e ds)
    then show ?case by (cases e) (auto simp: in_mark_dev)
  qed simp
  then show ?thesis by (simp add: vlan_table_def) (simp add: in_table_def has_def)
qed

section \<open>The rows\<close>

text \<open>No entry of the table is empty, and no key appears twice.\<close>

definition tidy :: "vlans_obj \<Rightarrow> bool" where
  "tidy vlans \<longleftrightarrow> owf vlans \<and>
     (\<forall>v vd. oget vlans v = Some vd \<longrightarrow> owf vd \<and> vd \<noteq> [] \<and> (\<forall>d di. oget vd d = Some di \<longrightarrow> di \<noteq> []))"

lemma oset_not_empty [simp]: "oset k v ps \<noteq> []"
  by (cases ps rule: list.exhaust) (auto split: if_splits)

lemma tidy_mark: assumes "tidy vlans" shows "tidy (mark_vlan v d i vlans)"
proof -
  define vd where "vd = opt_obj (oget vlans v)"
  have "owf vd" "oget vd d' = Some di \<Longrightarrow> di \<noteq> []" for d' di
    using assms by (auto simp: vd_def tidy_def opt_obj_def owf_def split: option.splits)
  then show ?thesis using assms by (auto simp: tidy_def mark_vlan_def Let_def vd_def [symmetric])
qed

lemma tidy_fold: "(\<And>x vlans. tidy vlans \<Longrightarrow> tidy (f x vlans)) \<Longrightarrow> tidy vlans \<Longrightarrow> tidy (fold f xs vlans)"
  by (induction xs arbitrary: vlans) auto

lemma tidy_table: "tidy (vlan_table wl wt ds)"
proof -
  have l: "tidy vlans \<Longrightarrow> tidy (mark_list dv pvid d i t vlans)" for vlans dv pvid d i t
    by (auto simp: mark_list_def mark_entry_def intro!: tidy_fold tidy_mark split: option.split)
  have "tidy vlans \<Longrightarrow> tidy (mark_if wl wt dv d e vlans)" for vlans dv d e
    by (auto simp: mark_if_def Let_def mark_routed_def mark_named_def intro!: l tidy_mark split: option.split prod.split)
  then have "tidy vlans \<Longrightarrow> tidy (mark_dev wl wt e vlans)" for vlans e
    by (auto simp: mark_dev_def intro!: tidy_fold split: option.split prod.split)
  then show ?thesis
    unfolding vlan_table_def by (rule tidy_fold) (simp_all add: tidy_def owf_def)
qed

lemma tidy_in_table:
  assumes "tidy vlans"
  shows "v \<in> set (okeys vlans) \<longleftrightarrow> (\<exists>d i. in_table vlans v d i)"
    and "d \<in> set (okeys (opt_obj (oget vlans v))) \<longleftrightarrow> (\<exists>i. in_table vlans v d i)"
proof -
  have ne: "ps \<noteq> [] \<Longrightarrow> \<exists>k w. oget ps k = Some w" for ps :: "(string \<times> 'a) list"
    by (cases ps) auto
  have vd: "oget vlans v = Some vd \<Longrightarrow> \<exists>d di. oget vd d = Some di"
    "oget vlans v = Some vd \<Longrightarrow> oget vd d = Some di \<Longrightarrow> \<exists>i w. oget di i = Some w" for vd d di
    using assms ne unfolding tidy_def by blast+
  have k: "k \<in> set (okeys ps) \<longleftrightarrow> (\<exists>w. oget ps k = Some w)" for k and ps :: "(string \<times> 'b) list"
    using oget_None_iff [of ps k] by auto
  show d: "d \<in> set (okeys (opt_obj (oget vlans v))) \<longleftrightarrow> (\<exists>i. in_table vlans v d i)" for d
    using vd(2) by (auto simp: in_table_def has_def k opt_obj_def split: option.splits)
  have "v \<in> set (okeys vlans) \<longleftrightarrow> (\<exists>d. d \<in> set (okeys (opt_obj (oget vlans v))))"
    using vd(1) by (cases "oget vlans v") (auto simp: k)
  then show "v \<in> set (okeys vlans) \<longleftrightarrow> (\<exists>d i. in_table vlans v d i)" by (simp add: d)
qed

lemma heads_card:
  assumes "tidy vlans"
  shows "length (own_keys (okeys (opt_obj (oget vlans v)))) = card {d. \<exists>i. in_table vlans v d i}"
proof -
  have "owf (opt_obj (oget vlans v))"
    using assms by (auto simp: tidy_def opt_obj_def owf_def split: option.split)
  then have "distinct (own_keys (okeys (opt_obj (oget vlans v))))" by (simp add: own_keys_set owf_def)
  from distinct_card [OF this]
  have "length (own_keys (okeys (opt_obj (oget vlans v)))) = card (set (okeys (opt_obj (oget vlans v))))" by (simp add: own_keys_set)
  also have "set (okeys (opt_obj (oget vlans v))) = {d. \<exists>i. in_table vlans v d i}"
    using tidy_in_table(2) [OF assms] by auto
  finally show ?thesis .
qed

text \<open>
  C37: the table of the VLAN window holds an interface under a VLAN exactly when the interface
  passes the two filters and carries the VLAN, and its device has it. The rows are these VLANs,
  each once, with the number of devices that have such an interface.
\<close>

theorem vlan_window_exact:
  "(in_table (vlan_table wl wt ds) v d i \<longleftrightarrow> (\<exists>dv. (d, dv) \<in> set ds \<and> dev_carries wl wt dv i v)) \<and>
   distinct (map fst (vlan_heads lc (vlan_table wl wt ds))) \<and>
   ((v, n) \<in> set (vlan_heads lc (vlan_table wl wt ds)) \<longleftrightarrow>
      (\<exists>d dv i. (d, dv) \<in> set ds \<and> dev_carries wl wt dv i v) \<and>
      n = card {d. \<exists>i dv. (d, dv) \<in> set ds \<and> dev_carries wl wt dv i v})"
proof -
  let ?t = "vlan_table wl wt ds"
  have "distinct (okeys ?t)" using tidy_table [of wl wt ds] by (simp add: tidy_def owf_def)
  then have "distinct (map fst (vlan_heads lc ?t))" by (simp add: vlan_heads_def comp_def own_keys_set)
  moreover have "(v, n) \<in> set (vlan_heads lc ?t) \<longleftrightarrow> v \<in> set (okeys ?t) \<and> n = length (own_keys (okeys (opt_obj (oget ?t v))))"
    by (auto simp: vlan_heads_def own_keys_set)
  then have "(v, n) \<in> set (vlan_heads lc ?t) \<longleftrightarrow>
      (\<exists>d i. in_table ?t v d i) \<and> n = card {d. \<exists>i. in_table ?t v d i}"
    by (simp add: tidy_in_table(1) [OF tidy_table] heads_card [OF tidy_table])
  ultimately show ?thesis by (auto simp: in_vlan_table)
qed

end
