(* ===== verification/ArrangeRuns.thy ===== *)
theory ArrangeRuns
  imports Arrange
begin

text \<open>
  When the arrangement of a device runs to its end: every name and link it follows is
  consistent, and the border has a slot for every slot the three passes take. An interface
  with a direct link and a link with turnpoints takes two slots, so a full border is too small
  for it.
\<close>

section \<open>What the arrangement reads and never changes\<close>

definition dims :: "app \<Rightarrow> string \<Rightarrow> (int \<times> int) option" where
  "dims s k = map_option (\<lambda>e. (e_width e, e_height e)) (oget (page s) k)"

definition arr_view :: "dev_id \<Rightarrow> app \<Rightarrow> _" where
  "arr_view d s = ((connections s, map_data s, site s, int_size s),
     (oget (devs s) d = None, interfaces (dev_of s d) = None, interfaces_sorted (dev_of s d)),
     (\<lambda>k. dims s k), (\<lambda>i. set (arr_links s d i)),
     (\<lambda>i. oget (dev_ifs (dev_of s d)) i = None), (\<lambda>i. oget (td_ifs (temp_of s d)) i = None),
     (\<lambda>i. t_draw (tif_of (temp_of s d) i)), td_cols (temp_of s d), td_rows (temp_of s d))"

definition big :: "app \<Rightarrow> string \<Rightarrow> bool" where
  "big s k = (case dims s k of None \<Rightarrow> False | Some (w, h) \<Rightarrow> int_size s \<le> w \<and> int_size s \<le> h)"

definition link_good :: "app \<Rightarrow> dev_id \<Rightarrow> if_name \<Rightarrow> link_id \<Rightarrow> bool" where
  "link_good s d i lid = (case oget (connections s) lid of
      None \<Rightarrow> True
    | Some con \<Rightarrow> (case other_end con d i of
        None \<Rightarrow> False
      | Some ne \<Rightarrow>
          if length (legs con) = 1 then big s (fst ne)
          else (case end_tp d i (legs con) of
              None \<Rightarrow> False
            | Some k \<Rightarrow> (case tp_at s lid k of None \<Rightarrow> False | Some tp \<Rightarrow> \<not> is_tptp (tp_ends tp)))))"

definition is_link :: "bool \<Rightarrow> app \<Rightarrow> link_id \<Rightarrow> bool" where
  "is_link direct s lid = (case oget (connections s) lid of None \<Rightarrow> False | Some con \<Rightarrow> (length (legs con) = 1) = direct)"

text \<open>Whether an interface is drawn outside and has a link of the kind a pass handles.\<close>

definition linked :: "bool \<Rightarrow> app \<Rightarrow> dev_id \<Rightarrow> if_name \<Rightarrow> bool" where
  "linked direct s d i \<longleftrightarrow> t_draw (tif_of (temp_of s d) i) = Some 1 \<and> (\<exists>lid \<in> set (arr_links s d i). is_link direct s lid)"

definition if_ready :: "app \<Rightarrow> dev_id \<Rightarrow> if_name \<Rightarrow> bool" where
  "if_ready s d i \<longleftrightarrow> oget (td_ifs (temp_of s d)) i \<noteq> None \<and> oget (dev_ifs (dev_of s d)) i \<noteq> None \<and>
     (t_draw (tif_of (temp_of s d) i) = Some 1 \<longrightarrow>
        dims s (int_elm i d) \<noteq> None \<and> list_all (link_good s d i) (arr_links s d i))"

lemma arr_view_parts:
  assumes "arr_view d s' = arr_view d s"
  shows "connections s' = connections s" "map_data s' = map_data s" "site s' = site s" "int_size s' = int_size s"
    "dims s' = dims s" "set (arr_links s' d i) = set (arr_links s d i)"
    "(oget (dev_ifs (dev_of s' d)) i = None) = (oget (dev_ifs (dev_of s d)) i = None)"
    "(oget (td_ifs (temp_of s' d)) i = None) = (oget (td_ifs (temp_of s d)) i = None)"
    "t_draw (tif_of (temp_of s' d) i) = t_draw (tif_of (temp_of s d) i)"
    "td_cols (temp_of s' d) = td_cols (temp_of s d)" "td_rows (temp_of s' d) = td_rows (temp_of s d)"
    "(oget (devs s') d = None) = (oget (devs s) d = None)"
    "(interfaces (dev_of s' d) = None) = (interfaces (dev_of s d) = None)"
    "interfaces_sorted (dev_of s' d) = interfaces_sorted (dev_of s d)"
  using assms unfolding arr_view_def prod.inject by (simp_all add: fun_eq_iff)

lemma view_ready:
  assumes v: "arr_view d s' = arr_view d s"
  shows "if_ready s' d i = if_ready s d i" "linked b s' d i = linked b s d i" "big s' k = big s k"
proof -
  note p = arr_view_parts [OF v]
  have b: "big s' k = big s k" for k unfolding big_def p ..
  then show "big s' k = big s k" .
  have t: "tp_at s' = tp_at s" by (intro ext) (simp add: tp_at_def p)
  have "link_good s' d i lid = link_good s d i lid" for lid unfolding link_good_def p b t ..
  then show "if_ready s' d i = if_ready s d i"
    unfolding if_ready_def list_all_iff p using p(6-9) [of i] by simp
  show "linked b s' d i = linked b s d i" by (simp add: linked_def is_link_def p)
qed

lemma dims_move [simp]: "dims (move_elem k l t s) = dims s"
  by (intro ext) (simp add: dims_def move_elem_def split: option.split)

lemma view_sort_links: "arr_view d (sort_links d i s) = arr_view d s"
proof (cases "site s = ''l3''")
  case True
  show ?thesis
  proof (cases "t_l3_links (tif_of (temp_of s d) i)")
    case None
    then show ?thesis using True by (simp add: sort_links_def Let_def)
  next
    case (Some ls)
    let ?t = "(tif_of (temp_of s d) i)\<lparr>t_l3_links := Some (js_sort unit_cmp ls)\<rparr>"
    have e: "oget (td_ifs (temp_of s d)) i \<noteq> None" using Some by (cases "oget (td_ifs (temp_of s d)) i") (simp_all add: tif_of_def temp_if0_def)
    have "sort_links d i s = set_tif d i ?t s" using True Some by (simp add: sort_links_def Let_def arr_links_def)
    moreover have "arr_links (set_tif d i ?t s) d j = (if j = i then js_sort unit_cmp ls else arr_links s d j)" for j
      using True Some by (auto simp: arr_links_def tif_of_def set_tif_def temp_of_def)
    moreover have "set (js_sort unit_cmp ls) = set (arr_links s d i)"
      using Some True by (simp add: arr_links_def)
    moreover have "dev_of (set_tif d i ?t s) = dev_of s" by (intro ext) (simp add: dev_of_def set_tif_def)
    ultimately show ?thesis using e
      by (auto simp: arr_view_def set_tif_def dims_def temp_of_def tif_of_def fun_eq_iff)
  qed
next
  case False
  show ?thesis
  proof (cases "if_l2_links (if_of (dev_of s d) i)")
    case None
    then show ?thesis using False by (simp add: sort_links_def Let_def)
  next
    case (Some ls)
    let ?f = "(if_of (dev_of s d) i)\<lparr>if_l2_links := Some (js_sort unit_cmp ls)\<rparr>"
    have e: "oget (dev_ifs (dev_of s d)) i \<noteq> None" using Some by (cases "oget (dev_ifs (dev_of s d)) i") (simp_all add: if_of_def iface0_def)
    have "sort_links d i s = set_if d i ?f s" using False Some by (simp add: sort_links_def Let_def arr_links_def)
    moreover have dv: "dev_ifs (dev_of (set_if d i ?f s) d) = oset i ?f (dev_ifs (dev_of s d))"
      by (simp add: dev_of_def set_if_def dev_ifs_def)
    moreover have "arr_links (set_if d i ?f s) d j = (if j = i then js_sort unit_cmp ls else arr_links s d j)" for j
      using False Some dv by (auto simp: arr_links_def if_of_def set_if_def)
    moreover have "set (js_sort unit_cmp ls) = set (arr_links s d i)"
      using Some False by (simp add: arr_links_def)
    moreover have "dev_of (set_if d i ?f s) d = (dev_of s d)\<lparr>interfaces := Some (oset i ?f (dev_ifs (dev_of s d)))\<rparr>"
      by (simp add: dev_of_def set_if_def)
    moreover have "oget (devs s) d \<noteq> None" "interfaces (dev_of s d) \<noteq> None"
      using e by (auto simp: dev_of_def dev_ifs_def device0_def split: option.splits)
    moreover have "temp_of (set_if d i ?f s) = temp_of s" by (intro ext) (simp add: temp_of_def set_if_def)
    ultimately show ?thesis using e
      by (auto simp: arr_view_def set_if_def dims_def fun_eq_iff)
  qed
qed

section \<open>Taking slots\<close>

definition occ :: "temp_dev \<Rightarrow> nat" where
  "occ t = length (filter s_occupied (td_slots t))"

lemma occ_update:
  "n < length sls \<Longrightarrow> \<not> s_occupied (sls ! n) \<Longrightarrow> s_occupied sl \<Longrightarrow>
    length (filter s_occupied (sls[n := sl])) = Suc (length (filter s_occupied sls))"
proof (induction sls arbitrary: n)
  case (Cons x sls)
  then show ?case by (cases n) auto
qed simp

lemma occ_free: "occ t < length (td_slots t) \<Longrightarrow> \<exists>sl \<in> set (td_slots t). \<not> s_occupied sl"
proof (rule ccontr)
  assume l: "occ t < length (td_slots t)" and "\<not> (\<exists>sl \<in> set (td_slots t). \<not> s_occupied sl)"
  then have "filter s_occupied (td_slots t) = td_slots t" by (intro filter_True) blast
  with l show False by (simp add: occ_def)
qed

lemma nearest_from_Some:
  "(\<exists>sl \<in> set sls. \<not> s_occupied sl) \<or> best \<noteq> None \<Longrightarrow> nearest_from n dist sls best \<noteq> None"
  by (induction n dist sls best rule: nearest_from.induct) (auto split: option.splits)

lemma nearest_slot_Some: "occ t < length (td_slots t) \<Longrightarrow> nearest_slot dist (td_slots t) \<noteq> None"
  using nearest_from_Some [of "td_slots t" None 0 dist] occ_free by (auto simp: nearest_slot_def)

lemma first_free_Some: "occ t < length (td_slots t) \<Longrightarrow> first_free (td_slots t) \<noteq> None"
  using occ_free by (auto simp: first_free_def list_ex_iff)

lemma view_put_temp:
  assumes "\<And>j. oget (td_ifs t) j = None \<longleftrightarrow> oget (td_ifs (temp_of s d)) j = None"
    "\<And>j. t_draw (tif_of t j) = t_draw (tif_of (temp_of s d) j)"
    "\<And>j. t_l3_links (tif_of t j) = t_l3_links (tif_of (temp_of s d) j)"
    "td_cols t = td_cols (temp_of s d)" "td_rows t = td_rows (temp_of s d)"
  shows "arr_view d (put_temp d t s) = arr_view d s"
proof -
  have "dev_of (put_temp d t s) = dev_of s" "dims (put_temp d t s) = dims s"
    by (auto simp: fun_eq_iff dev_of_def dims_def put_temp_def)
  moreover have "site (put_temp d t s) = site s" "devs (put_temp d t s) = devs s" by (simp_all add: put_temp_def)
  ultimately show ?thesis using assms
    by (simp add: arr_view_def arr_links_def fun_eq_iff) (simp add: put_temp_def)
qed

lemma view_frame [simp]:
  "arr_view d (s\<lparr>rearranged := r\<rparr>) = arr_view d s" "arr_view d (move_elem k l t s) = arr_view d s"
proof -
  have e: "dev_of (s\<lparr>rearranged := r\<rparr>) = dev_of s" "temp_of (s\<lparr>rearranged := r\<rparr>) = temp_of s"
      "dims (s\<lparr>rearranged := r\<rparr>) = dims s" "site (s\<lparr>rearranged := r\<rparr>) = site s"
    by (simp_all add: fun_eq_iff dev_of_def temp_of_def dims_def)
  have "arr_links (s\<lparr>rearranged := r\<rparr>) d = arr_links s d"
    by (intro ext) (simp only: arr_links_def e)
  with e show "arr_view d (s\<lparr>rearranged := r\<rparr>) = arr_view d s"
    by (simp add: arr_view_def)
  have e: "dev_of (move_elem k l t s) = dev_of s" "site (move_elem k l t s) = site s"
      "temp_of (move_elem k l t s) = temp_of s"
      "connections (move_elem k l t s) = connections s" "map_data (move_elem k l t s) = map_data s"
      "int_size (move_elem k l t s) = int_size s" "devs (move_elem k l t s) = devs s"
    by (auto simp: fun_eq_iff dev_of_def move_elem_def split: option.split)
  have "arr_links (move_elem k l t s) d = arr_links s d"
    by (intro ext) (simp only: arr_links_def e)
  with e show "arr_view d (move_elem k l t s) = arr_view d s"
    by (simp add: arr_view_def)
qed

lemma occupy_runs:
  assumes ready: "if_ready s d i" "t_draw (tif_of (temp_of s d) i) = Some 1"
    and n: "n < length (td_slots (temp_of s d))" "\<not> s_occupied (td_slots (temp_of s d) ! n)"
  shows "\<exists>s' ch. occupy d i func n s = Done (s', ch) \<and> arr_view d s' = arr_view d s \<and>
    occ (temp_of s' d) = Suc (occ (temp_of s d)) \<and> length (td_slots (temp_of s' d)) = length (td_slots (temp_of s d)) \<and>
    td_relocated (temp_of s' d) = td_relocated (temp_of s d)"
proof -
  let ?s1 = "take_slot d i func n s"
  let ?sl = "td_slots (temp_of s d) ! n"
  let ?s' = "set_cell d i (s_col ?sl) (s_row ?sl) ?s1"
  have v1: "arr_view d ?s1 = arr_view d s"
    unfolding take_slot_def Let_def by (rule view_put_temp) simp_all
  have e1: "oget (td_ifs (temp_of ?s1 d)) i \<noteq> None" using ready(1) by (simp add: take_slot_def Let_def if_ready_def)
  have st: "set_tif d i tf u = put_temp d ((temp_of u d)\<lparr>td_ifs := oset i tf (td_ifs (temp_of u d))\<rparr>) u" for tf u
    by (simp add: set_tif_def put_temp_def)
  have v2: "arr_view d ?s' = arr_view d ?s1"
    unfolding set_cell_def st view_frame using e1 by (intro view_put_temp) auto
  have "dims ?s1 (int_elm i d) \<noteq> None"
    using ready v1 arr_view_parts(5) [OF v1] by (simp add: if_ready_def)
  then have "occupy d i func n s = Done (?s', t_col (tif_of (temp_of ?s1 d) i) \<noteq> Some (s_col ?sl) \<or> t_row (tif_of (temp_of ?s1 d) i) \<noteq> Some (s_row ?sl))"
    by (simp add: occupy_def Let_def dims_def)
  moreover have "occ (temp_of ?s' d) = Suc (occ (temp_of s d))"
    using n occ_update [OF n] by (simp add: set_cell_def take_slot_def Let_def occ_def)
  ultimately show ?thesis using v1 v2 by (simp add: set_cell_def take_slot_def Let_def)
qed

section \<open>Every pass runs\<close>

definition targets_of :: "(link_id \<Rightarrow> collecting \<Rightarrow> collecting run) \<Rightarrow> bool \<Rightarrow> app \<Rightarrow> dev_id \<Rightarrow> if_name \<Rightarrow> bool" where
  "targets_of collect direct s d i \<longleftrightarrow> (\<forall>lid tgs. link_good s d i lid \<longrightarrow>
     (\<exists>ts. collect lid (s, tgs) = Done (s, tgs @ ts) \<and> (ts = [] \<longleftrightarrow> \<not> is_link direct s lid)))"

lemma tp_target_runs: "targets_of (tp_target d i from) False s d i"
  by (auto simp: targets_of_def tp_target_def link_good_def is_link_def split: option.splits prod.splits)

lemma dev_target_runs:
  assumes fe: "int_size s \<le> e_width fe" "int_size s \<le> e_height fe"
  shows "targets_of (dev_target d i fe) True s d i"
proof -
  have "\<exists>p. ref_point (dev_rect (int_size s) fe) (dev_rect (int_size s) te) = Some p"
    if "int_size s \<le> e_width te" "int_size s \<le> e_height te" for te
    using ref_point_in_rect [of "dev_rect (int_size s) fe" "dev_rect (int_size s) te"] fe that
    by (auto simp: dev_rect_def Let_def)
  then show ?thesis
    by (fastforce simp: targets_of_def dev_target_def link_good_def is_link_def big_def dims_def split: option.splits prod.splits)
qed

lemma collect_runs:
  assumes "targets_of collect direct s d i"
  shows "list_all (link_good s d i) ls \<Longrightarrow> \<exists>ts. each collect ls (s, tgs) = Done (s, tgs @ ts) \<and>
    (ts = [] \<longleftrightarrow> \<not> (\<exists>lid \<in> set ls. is_link direct s lid))"
proof (induction ls arbitrary: tgs)
  case (Cons lid ls)
  obtain t1 where t1: "collect lid (s, tgs) = Done (s, tgs @ t1)" "t1 = [] \<longleftrightarrow> \<not> is_link direct s lid"
    using assms Cons.prems unfolding targets_of_def by auto
  obtain t2 where t2: "each collect ls (s, tgs @ t1) = Done (s, (tgs @ t1) @ t2)"
      "t2 = [] \<longleftrightarrow> \<not> (\<exists>lid \<in> set ls. is_link direct s lid)"
    using Cons.IH [of "tgs @ t1"] Cons.prems by auto
  show ?case using t1 t2 by (intro exI [of _ "t1 @ t2"]) auto
qed simp

text \<open>One interface: it takes a slot exactly when it has a link of the kind of the pass.\<close>

definition step_ok :: "dev_id \<Rightarrow> app \<Rightarrow> app \<Rightarrow> bool" where
  "step_ok d s s' \<longleftrightarrow> arr_view d s' = arr_view d s \<and>
     length (td_slots (temp_of s' d)) = length (td_slots (temp_of s d)) \<and>
     set (td_relocated (temp_of s d)) \<subseteq> set (td_relocated (temp_of s' d))"

lemma step_ok_refl [simp]: "step_ok d s s"
  by (simp add: step_ok_def)

lemma step_ok_trans: "step_ok d s s' \<Longrightarrow> step_ok d s' s'' \<Longrightarrow> step_ok d s s''"
  by (auto simp: step_ok_def)

lemma closest_Some: "tgs \<noteq> [] \<Longrightarrow> closest tgs \<noteq> None"
proof -
  assume "tgs \<noteq> []"
  then have "js_sort (\<lambda>a b. tg_dist a - tg_dist b) tgs \<noteq> []" by (metis length_0_conv length_js_sort)
  then show ?thesis by (cases "js_sort (\<lambda>a b. tg_dist a - tg_dist b) tgs") (simp_all add: closest_def)
qed

lemma settle_runs:
  assumes ready: "if_ready s d i" "t_draw (tif_of (temp_of s d) i) = Some 1"
    and room: "tgs \<noteq> [] \<Longrightarrow> occ (temp_of s d) < length (td_slots (temp_of s d))"
  shows "\<exists>s' neis'. settle func off d i fe moved tgs (s, neis) = Done (s', neis') \<and> step_ok d s s' \<and>
    occ (temp_of s' d) = occ (temp_of s d) + (if tgs = [] then 0 else 1) \<and>
    (tgs \<noteq> [] \<longrightarrow> i \<in> set (td_relocated (temp_of s' d)))"
proof (cases "tgs = []")
  case True
  then show ?thesis by (simp add: settle_def closest_def)
next
  case False
  then obtain tg where tg: "closest tgs = Some tg" using closest_Some by blast
  let ?dist = "\<lambda>sl. sq_dist (e_left fe + int (s_col sl) * int_size s + off,
                 e_top fe + int (s_row sl) * int_size s + off) (tg_x tg, tg_y tg)"
  obtain n where n: "nearest_slot ?dist (td_slots (temp_of s d)) = Some n"
    using nearest_slot_Some room False by blast
  obtain s1 ch where s1: "occupy d i func n s = Done (s1, ch)" "arr_view d s1 = arr_view d s"
      "occ (temp_of s1 d) = Suc (occ (temp_of s d))" "length (td_slots (temp_of s1 d)) = length (td_slots (temp_of s d))"
      "td_relocated (temp_of s1 d) = td_relocated (temp_of s d)"
    using occupy_runs [OF ready] nearest_slot_free [OF n] by blast
  let ?s2 = "if ch \<or> moved then s1\<lparr>rearranged := add_key (tg_link tg) (rearranged s1)\<rparr> else s1"
  have v2: "arr_view d (mark_relocated d i ?s2) = arr_view d s"
    unfolding mark_relocated_def Let_def by (subst view_put_temp) (simp_all add: s1(2))
  have "settle func off d i fe moved tgs (s, neis) =
      Done (mark_relocated d i ?s2, if ch \<or> moved then add_key (tg_dev tg) neis else neis)"
    using tg n s1(1) by (simp add: settle_def Let_def)
  moreover have "occ (temp_of (mark_relocated d i ?s2) d) = Suc (occ (temp_of s d))"
      "length (td_slots (temp_of (mark_relocated d i ?s2) d)) = length (td_slots (temp_of s d))"
      "set (td_relocated (temp_of (mark_relocated d i ?s2) d)) = insert i (set (td_relocated (temp_of s d)))"
    using s1(3-5) by (auto simp: mark_relocated_def Let_def occ_def)
  ultimately show ?thesis using v2 False by (auto simp: step_ok_def)
qed

lemma ready_sort_links: "if_ready s d i \<Longrightarrow> if_ready (sort_links d i s) d i"
  using view_ready(1) [OF view_sort_links] by blast

lemma arrange_if_runs:
  assumes ready: "if_ready s d i" and c: "\<And>s. int_size s = sz \<Longrightarrow> targets_of (collect d i) direct s d i" and sz: "int_size s = sz"
    and slots: "slots_ok (temp_of s d)"
    and room: "linked direct s d i \<Longrightarrow> occ (temp_of s d) < length (td_slots (temp_of s d))"
  shows "\<exists>s' neis'. arrange_if collect func off d fe moved i (s, neis) = Done (s', neis') \<and> step_ok d s s' \<and>
    occ (temp_of s' d) = occ (temp_of s d) + (if linked direct s d i then 1 else 0) \<and>
    (linked direct s d i \<longrightarrow> i \<in> set (td_relocated (temp_of s' d)))"
proof (cases "t_draw (tif_of (temp_of s d) i) = Some 1")
  case False
  then show ?thesis using ready by (simp add: arrange_if_def if_ready_def linked_def)
next
  case True
  let ?s = "sort_links d i s"
  have v: "arr_view d ?s = arr_view d s" by (rule view_sort_links)
  note p = arr_view_parts [OF v] and k = sort_links_keeps [OF slots, of i d]
  have r: "if_ready ?s d i" using ready by (rule ready_sort_links)
  then have good: "list_all (link_good ?s d i) (arr_links ?s d i)" using True p(9) by (simp add: if_ready_def)
  have t: "targets_of (collect d i) direct ?s d i" by (rule c) (use p(4) sz in simp)
  obtain ts where ts: "each (collect d i) (arr_links ?s d i) (?s, []) = Done (?s, ts)"
      "ts = [] \<longleftrightarrow> \<not> (\<exists>lid \<in> set (arr_links ?s d i). is_link direct ?s lid)"
    using collect_runs [OF t good, of "[]"] by auto
  have l: "linked direct s d i \<longleftrightarrow> ts \<noteq> []"
    using ts(2) True p(9) view_ready(2) [OF v, of direct i] by (simp add: linked_def)
  obtain s' neis' where s': "settle func off d i fe moved ts (?s, neis) = Done (s', neis')" "step_ok d ?s s'"
      "occ (temp_of s' d) = occ (temp_of ?s d) + (if ts = [] then 0 else 1)"
      "ts \<noteq> [] \<longrightarrow> i \<in> set (td_relocated (temp_of s' d))"
  proof -
    have "t_draw (tif_of (temp_of ?s d) i) = Some 1" using True p(9) by simp
    moreover have "ts \<noteq> [] \<Longrightarrow> occ (temp_of ?s d) < length (td_slots (temp_of ?s d))"
      using room l k by (simp add: occ_def)
    ultimately show thesis using settle_runs [OF r, of ts func off fe moved neis] that by blast
  qed
  have "arrange_if collect func off d fe moved i (s, neis) = Done (s', neis')"
    using ready True ts(1) s'(1) by (simp add: arrange_if_def Let_def if_ready_def)
  moreover have "step_ok d s ?s" using v k by (simp add: step_ok_def)
  ultimately show ?thesis using s' l k step_ok_trans by (auto simp: occ_def)
qed

text \<open>The number of the interfaces of a list that a pass moves.\<close>

definition movers :: "bool \<Rightarrow> app \<Rightarrow> dev_id \<Rightarrow> if_name list \<Rightarrow> nat" where
  "movers direct s d names = length (filter (linked direct s d) names)"

lemma pass_runs:
  assumes c: "\<And>i s. int_size s = sz \<Longrightarrow> targets_of (collect d i) direct s d i"
    and fr: "\<And>i lid st. temp_devs (fst (run_state (collect d i lid st))) = temp_devs (fst st) \<and>
      (\<forall>st'. collect d i lid st = Done st' \<longrightarrow> fst st' = fst st)"
  shows "list_all (if_ready s d) names \<Longrightarrow> int_size s = sz \<Longrightarrow> slots_ok (temp_of s d) \<Longrightarrow>
    occ (temp_of s d) + movers direct s d names \<le> length (td_slots (temp_of s d)) \<Longrightarrow>
    \<exists>s' neis'. each (arrange_if collect func off d fe moved) names (s, neis) = Done (s', neis') \<and> step_ok d s s' \<and>
      slots_ok (temp_of s' d) \<and> occ (temp_of s' d) = occ (temp_of s d) + movers direct s d names \<and>
      (\<forall>i \<in> set names. linked direct s d i \<longrightarrow> i \<in> set (td_relocated (temp_of s' d)))"
proof (induction names arbitrary: s neis)
  case (Cons i names)
  obtain s1 n1 where s1: "arrange_if collect func off d fe moved i (s, neis) = Done (s1, n1)" "step_ok d s s1"
      "occ (temp_of s1 d) = occ (temp_of s d) + (if linked direct s d i then 1 else 0)"
      "linked direct s d i \<longrightarrow> i \<in> set (td_relocated (temp_of s1 d))"
    using arrange_if_runs [of s d i sz collect direct func off fe moved neis] Cons.prems c
    by (auto simp: movers_def split: if_splits)
  have v: "arr_view d s1 = arr_view d s" using s1(2) by (simp add: step_ok_def)
  have k: "slots_ok (temp_of s1 d)" using arrange_if_keeps [OF fr Cons.prems(3) s1(1)] by blast
  have m: "movers direct s1 d names = movers direct s d names"
    unfolding movers_def using view_ready(2) [OF v] by presburger
  have "list_all (if_ready s1 d) names" using Cons.prems(1) view_ready(1) [OF v] by (simp add: list_all_iff)
  moreover have "int_size s1 = sz" using arr_view_parts(4) [OF v] Cons.prems(2) by simp
  moreover have "occ (temp_of s1 d) + movers direct s1 d names \<le> length (td_slots (temp_of s1 d))"
    using s1(2,3) m Cons.prems(4) by (auto simp: movers_def step_ok_def split: if_splits)
  ultimately obtain s' neis' where s': "each (arrange_if collect func off d fe moved) names (s1, n1) = Done (s', neis')"
      "step_ok d s1 s'" "slots_ok (temp_of s' d)" "occ (temp_of s' d) = occ (temp_of s1 d) + movers direct s1 d names"
      "\<forall>j \<in> set names. linked direct s1 d j \<longrightarrow> j \<in> set (td_relocated (temp_of s' d))"
    using Cons.IH [OF _ _ k, of n1] by blast
  have "step_ok d s s'" using s1(2) s'(2) by (rule step_ok_trans)
  moreover have "occ (temp_of s' d) = occ (temp_of s d) + movers direct s d (i # names)"
    using s'(4) s1(3) m by (simp add: movers_def)
  moreover have "linked direct s d i \<longrightarrow> i \<in> set (td_relocated (temp_of s' d))"
    using s1(4) s'(2) by (auto simp: step_ok_def)
  ultimately show ?case using s1(1) s'(1,3,5) view_ready(2) [OF v] by auto
qed (simp add: movers_def)

text \<open>The third pass: every interface drawn outside that was not moved takes the first free slot.\<close>

definition leftover :: "app \<Rightarrow> dev_id \<Rightarrow> if_name \<Rightarrow> bool" where
  "leftover s d i \<longleftrightarrow> t_draw (tif_of (temp_of s d) i) = Some 1 \<and> i \<notin> set (td_relocated (temp_of s d))"

lemma relocate_runs:
  "list_all (if_ready s d) names \<Longrightarrow> slots_ok (temp_of s d) \<Longrightarrow>
    occ (temp_of s d) + length (filter (leftover s d) names) \<le> length (td_slots (temp_of s d)) \<Longrightarrow>
    \<exists>s'. each (relocate_if d) names s = Done s' \<and> arr_view d s' = arr_view d s"
proof (induction names arbitrary: s)
  case (Cons i names)
  have ready: "if_ready s d i" using Cons.prems(1) by simp
  show ?case
  proof (cases "leftover s d i")
    case False
    then have "relocate_if d i s = Done s" using ready by (auto simp: relocate_if_def if_ready_def leftover_def)
    then show ?thesis using Cons False by simp
  next
    case True
    then have room: "occ (temp_of s d) < length (td_slots (temp_of s d))" using Cons.prems(3) by simp
    then obtain n where n: "first_free (td_slots (temp_of s d)) = Some n" using first_free_Some by blast
    obtain s1 ch where s1: "occupy d i ''dev2dev_reloc'' n s = Done (s1, ch)" "arr_view d s1 = arr_view d s"
        "occ (temp_of s1 d) = Suc (occ (temp_of s d))" "length (td_slots (temp_of s1 d)) = length (td_slots (temp_of s d))"
        "td_relocated (temp_of s1 d) = td_relocated (temp_of s d)"
      using occupy_runs [OF ready _ first_free_free [OF n, THEN conjunct1] first_free_free [OF n, THEN conjunct2]] True
      unfolding leftover_def by blast
    have r: "relocate_if d i s = Done s1"
      using True ready n s1(1) by (simp add: relocate_if_def leftover_def if_ready_def lift_run_def)
    have k: "slots_ok (temp_of s1 d)" using relocate_if_keeps [OF Cons.prems(2) r] by blast
    have l: "leftover s1 d j = leftover s d j" for j
      using arr_view_parts(9) [OF s1(2)] s1(5) by (simp add: leftover_def)
    have "list_all (if_ready s1 d) names" using Cons.prems(1) view_ready(1) [OF s1(2)] by (simp add: list_all_iff)
    moreover have "occ (temp_of s1 d) + length (filter (leftover s1 d) names) \<le> length (td_slots (temp_of s1 d))"
      using Cons.prems(3) True s1(3,4) l by (simp cong: filter_cong)
    ultimately show ?thesis using Cons.IH [OF _ k] r s1(2) by auto
  qed
qed simp

section \<open>The arrangement of a device runs\<close>

definition arr_ready :: "dev_id \<Rightarrow> app \<Rightarrow> bool" where
  "arr_ready d s \<longleftrightarrow> big s d \<and> 2 \<le> td_cols (temp_of s d) \<and> oget (temp_devs s) d \<noteq> None \<and>
     oget (devs s) d \<noteq> None \<and> interfaces (dev_of s d) \<noteq> None \<and>
     list_all (if_ready s d) (interfaces_sorted (dev_of s d))"

text \<open>The slots the passes take: one per interface drawn outside, a second one if it has links of both kinds.\<close>

definition slots_taken :: "app \<Rightarrow> dev_id \<Rightarrow> nat" where
  "slots_taken s d = length (filter (\<lambda>i. t_draw (tif_of (temp_of s d) i) = Some 1) (interfaces_sorted (dev_of s d))) +
     length (filter (\<lambda>i. linked False s d i \<and> linked True s d i) (interfaces_sorted (dev_of s d)))"

lemma filter_length_mono: "(\<And>x. P x \<Longrightarrow> Q x) \<Longrightarrow> length (filter P xs) \<le> length (filter Q xs)"
  by (induction xs) (auto simp: le_SucI)

lemma count_passes:
  assumes "\<And>i. A i \<Longrightarrow> D i" "\<And>i. B i \<Longrightarrow> D i" "\<And>i. i \<in> set names \<Longrightarrow> L i \<Longrightarrow> D i \<and> \<not> A i \<and> \<not> B i"
  shows "length (filter A names) + length (filter B names) + length (filter L names) \<le>
    length (filter D names) + length (filter (\<lambda>i. A i \<and> B i) names)"
  using assms(3)
proof (induction names)
  case (Cons i names)
  have "length (filter A names) + length (filter B names) + length (filter L names) \<le>
      length (filter D names) + length (filter (\<lambda>i. A i \<and> B i) names)"
    using Cons by simp
  moreover have "L i \<Longrightarrow> D i \<and> \<not> A i \<and> \<not> B i" using Cons.prems by simp
  ultimately show ?case using assms(1,2) [of i] by auto
qed simp

lemma dev2tp_runs:
  assumes ready: "arr_ready d s" and room: "slots_taken s d \<le> length (border (td_cols (temp_of s d)) (td_rows (temp_of s d)))"
  shows "\<exists>s'. arrange_interfaces_dev2tp d moved s = Done s' \<and> arr_view d s' = arr_view d s \<and> slots_ok (temp_of s' d) \<and>
    length (td_slots (temp_of s' d)) = length (border (td_cols (temp_of s d)) (td_rows (temp_of s d))) \<and>
    occ (temp_of s' d) = movers False s d (interfaces_sorted (dev_of s d)) \<and>
    (\<forall>i \<in> set (interfaces_sorted (dev_of s d)). linked False s d i \<longrightarrow> i \<in> set (td_relocated (temp_of s' d)))"
proof -
  obtain fe t dv where fe: "oget (page s) d = Some fe" and t: "oget (temp_devs s) d = Some t" and dv: "oget (devs s) d = Some dv"
    using ready by (auto simp: arr_ready_def big_def dims_def split: option.splits)
  have tt: "temp_of s d = t" and dd: "dev_of s d = dv" using t dv by (simp_all add: temp_of_def dev_of_def)
  let ?b = "border (td_cols t) (td_rows t)" and ?names = "interfaces_sorted dv"
  define u where "u = t\<lparr>td_slots := map free_slot ?b, td_relocated := []\<rparr>"
  define s1 where "s1 = put_temp d u (put_temp d (t\<lparr>td_slots := [], td_relocated := []\<rparr>) s)"
  have s1: "temp_of s1 d = u" by (simp add: s1_def)
  have v0: "arr_view d (put_temp d (t\<lparr>td_slots := [], td_relocated := []\<rparr>) s) = arr_view d s"
    by (rule view_put_temp) (simp_all add: tt)
  have v: "arr_view d s1 = arr_view d s"
    unfolding s1_def by (subst view_put_temp) (simp_all add: u_def v0)
  have ok: "slots_ok u" and z: "occ u = 0" "length (td_slots u) = length ?b"
    by (simp_all add: u_def slots_ok_def slot_cell_def free_slot_def o_def occ_def)
  have "movers False s1 d ?names \<le> length ?b"
  proof -
    have "movers False s d ?names \<le> length (filter (\<lambda>i. t_draw (tif_of (temp_of s d) i) = Some 1) ?names)"
      unfolding movers_def by (rule filter_length_mono) (simp add: linked_def)
    then show ?thesis using room view_ready(2) [OF v] unfolding movers_def slots_taken_def dd tt by presburger
  qed
  moreover have "list_all (if_ready s1 d) ?names" using ready view_ready(1) [OF v] by (simp add: arr_ready_def dd list_all_iff)
  ultimately obtain s' neis where s': "each (arrange_if (\<lambda>d i. tp_target d i (center fe)) ''dev2tp'' 0 d fe moved) ?names (s1, []) = Done (s', neis)"
      "step_ok d s1 s'" "slots_ok (temp_of s' d)" "occ (temp_of s' d) = occ (temp_of s1 d) + movers False s1 d ?names"
      "\<forall>i \<in> set ?names. linked False s1 d i \<longrightarrow> i \<in> set (td_relocated (temp_of s' d))"
    using pass_runs [of "int_size s1" "\<lambda>d i. tp_target d i (center fe)" d False s1 ?names "''dev2tp''" 0 fe moved "[]"]
      tp_target_runs tp_target_frame ok z s1 by auto
  have "arrange_interfaces_dev2tp d moved s = Done s'"
  proof -
    have dv1: "oget (devs s1) d = Some dv" "interfaces dv \<noteq> None"
      using dv ready by (simp_all add: s1_def put_temp_def arr_ready_def dd)
    have "make_slots (td_rows t) (td_cols t) = Some (map free_slot ?b)"
      using make_slots_border ready by (simp add: arr_ready_def tt)
    moreover have "(temp_of (put_temp d (t\<lparr>td_slots := [], td_relocated := []\<rparr>) s) d)\<lparr>td_slots := map free_slot ?b\<rparr> = u"
      by (simp add: u_def)
    ultimately show ?thesis using fe t dv1 s'(1)
      by (auto simp: arrange_interfaces_dev2tp_def Let_def s1_def [symmetric] lift_run_def)
  qed
  moreover have "movers False s1 d ?names = movers False s d ?names"
    unfolding movers_def using view_ready(2) [OF v] by presburger
  ultimately show ?thesis using s' s1 z v view_ready(2) [OF v] by (auto simp: step_ok_def tt dd)
qed

lemma dev2dev_runs:
  assumes s: "big s d" "oget (devs s) d \<noteq> None" "interfaces (dev_of s d) \<noteq> None"
      "list_all (if_ready s d) (interfaces_sorted (dev_of s d))" "slots_ok (temp_of s d)"
    and occ: "occ (temp_of s d) = movers False s d (interfaces_sorted (dev_of s d))"
    and tp: "\<forall>i \<in> set (interfaces_sorted (dev_of s d)). linked False s d i \<longrightarrow> i \<in> set (td_relocated (temp_of s d))"
    and room: "slots_taken s d \<le> length (td_slots (temp_of s d))"
  shows "\<exists>s'. arrange_interfaces_dev2dev d False moved s = Done s'"
proof -
  obtain fe dv where fe: "oget (page s) d = Some fe" and dv: "oget (devs s) d = Some dv"
      and f: "int_size s \<le> e_width fe" "int_size s \<le> e_height fe"
    using s(1,2) by (auto simp: big_def dims_def split: option.splits)
  have dd: "dev_of s d = dv" using dv by (simp add: dev_of_def)
  let ?names = "interfaces_sorted dv"
  have t: "targets_of (dev_target d i fe) True u d i" if "int_size u = int_size s" for i u
    using dev_target_runs [of u fe d i] f that by simp
  have "occ (temp_of s d) + movers True s d ?names \<le> length (td_slots (temp_of s d))"
    using room occ count_passes [of "linked False s d" "\<lambda>i. t_draw (tif_of (temp_of s d) i) = Some 1" "linked True s d" ?names "\<lambda>_. False"]
    by (simp add: slots_taken_def movers_def dd linked_def)
  then obtain s1 neis where s1: "each (arrange_if (\<lambda>d i. dev_target d i fe) ''dev2dev_dev'' (int_size s div 2) d fe moved) ?names (s, []) = Done (s1, neis)"
      "step_ok d s s1" "slots_ok (temp_of s1 d)" "occ (temp_of s1 d) = occ (temp_of s d) + movers True s d ?names"
      "\<forall>i \<in> set ?names. linked True s d i \<longrightarrow> i \<in> set (td_relocated (temp_of s1 d))"
    using pass_runs [of "int_size s" "\<lambda>d i. dev_target d i fe" d True s ?names "''dev2dev_dev''" "int_size s div 2" fe moved "[]"]
      t dev_target_frame s(4,5) dd by auto
  have v: "arr_view d s1 = arr_view d s" using s1(2) by (simp add: step_ok_def)
  have left: "leftover s1 d i \<Longrightarrow> t_draw (tif_of (temp_of s d) i) = Some 1 \<and> \<not> linked False s d i \<and> \<not> linked True s d i"
    if "i \<in> set ?names" for i
    using that s1(2,5) tp dd arr_view_parts(9) [OF v] by (auto simp: leftover_def step_ok_def)
  have "movers False s d ?names + movers True s d ?names + length (filter (leftover s1 d) ?names) \<le> slots_taken s d"
    unfolding movers_def slots_taken_def dd by (rule count_passes) (use left in \<open>auto simp: linked_def\<close>)
  then have "occ (temp_of s1 d) + length (filter (leftover s1 d) ?names) \<le> length (td_slots (temp_of s1 d))"
    using s1(2,4) occ room by (simp add: step_ok_def dd)
  moreover have "list_all (if_ready s1 d) ?names" using s(4) dd view_ready(1) [OF v] by (simp add: list_all_iff)
  ultimately obtain s2 where s2: "each (relocate_if d) ?names s1 = Done s2"
    using relocate_runs [OF _ s1(3)] by blast
  have "dev2dev_body d moved s = Done (s2\<lparr>arranged := add_key d (arranged s2)\<rparr>, neis)"
    using fe dv s(3) s1(1) s2 by (auto simp: dev2dev_body_def dd lift_run_def)
  then show ?thesis by (simp add: arrange_interfaces_dev2dev_def)
qed

text \<open>
  C5: both arranging functions run to their end, without an error and without an exception, when
  the names and links they follow are consistent and the border has a slot for every interface
  drawn outside, and a second one for every interface that has a direct link and a link with
  turnpoints.
\<close>

theorem arrange_runs:
  assumes "arr_ready d s" "slots_taken s d \<le> length (border (td_cols (temp_of s d)) (td_rows (temp_of s d)))"
  shows "\<exists>s1 s2. arrange_interfaces_dev2tp d m1 s = Done s1 \<and> arrange_interfaces_dev2dev d False m2 s1 = Done s2"
proof -
  obtain s1 where s1: "arrange_interfaces_dev2tp d m1 s = Done s1" "arr_view d s1 = arr_view d s" "slots_ok (temp_of s1 d)"
      "length (td_slots (temp_of s1 d)) = length (border (td_cols (temp_of s d)) (td_rows (temp_of s d)))"
      "occ (temp_of s1 d) = movers False s d (interfaces_sorted (dev_of s d))"
      "\<forall>i \<in> set (interfaces_sorted (dev_of s d)). linked False s d i \<longrightarrow> i \<in> set (td_relocated (temp_of s1 d))"
    using dev2tp_runs [OF assms] by blast
  note p = arr_view_parts [OF s1(2)] and r = view_ready [OF s1(2)]
  have l: "linked b s1 d = linked b s d" for b using r(2) by blast
  have e: "if_ready s1 d = if_ready s d" using r(1) by blast
  have "\<exists>s2. arrange_interfaces_dev2dev d False m2 s1 = Done s2"
    using assms s1 p(12-14) r(3)
    by (intro dev2dev_runs) (simp_all add: arr_ready_def slots_taken_def movers_def l e p(9))
  with s1(1) show ?thesis by blast
qed

lemma arrange_runs_witness:
  "\<exists>s1 s2. arrange_interfaces_dev2tp ''r1'' False ex_arr = Done s1 \<and> arrange_interfaces_dev2dev ''r1'' False False s1 = Done s2"
  by (rule arrange_runs) code_simp+

text \<open>
  The interface \<open>e1\<close> has a direct link to \<open>r2\<close> and a link with turnpoints, on a device of three times
  three cells, the smallest grid, whose eight interfaces are all drawn outside.
\<close>

definition ex_names :: "if_name list" where
  "ex_names = [''e1'', ''e2'', ''e3'', ''e4'', ''e5'', ''e6'', ''e7'', ''e8'']"

definition ex_full :: app where
  "ex_full = ex_arr\<lparr>devs := [(''r1'', device0\<lparr>interfaces := Some (map (\<lambda>i. (i, iface0\<lparr>if_l2_links :=
         (if i = ''e1'' then Some [''l1'', ''l2''] else None)\<rparr>)) ex_names),
       interfaces_sorted := ex_names\<rparr>)],
     temp_devs := [(''r1'', ex_arr_temp ex_names)],
     page := [(''r1'', ex_box 0 0 46), (''r2'', ex_box 160 0 46)] @ map (\<lambda>i. (int_elm i ''r1'', ex_box 0 0 12)) ex_names,
     map_data := map_data0\<lparr>map_tps := [(''l2'', [(0, \<lparr>tp_x = 80, tp_y = 80, tp_ends = Devdev ''r1'' ''e1'' ''r2'' ''e2''\<rparr>)])]\<rparr>,
     connections := [(''l1'', \<lparr>legs = [\<lparr>leg_ends = LDevdev ''r1'' ''e1'' ''r2'' ''e1'', leg_drawn = None\<rparr>],
         con_tps = [], from_dev = ''r1'', from_int = ''e1'', to_dev = ''r2'', to_int = ''e1'', con_status = 1\<rparr>),
       (''l2'', \<lparr>legs = [\<lparr>leg_ends = LDevtp ''r1'' ''e1'' 0, leg_drawn = None\<rparr>, \<lparr>leg_ends = LDevtp ''r2'' ''e2'' 0, leg_drawn = None\<rparr>],
         con_tps = [], from_dev = ''r1'', from_int = ''e1'', to_dev = ''r2'', to_int = ''e2'', con_status = 1\<rparr>)]\<rparr>"

text \<open>
  The second slot matters: on a consistent device whose border has a cell for each of its
  eight interfaces, the interface with both kinds of links occupies two, and the last
  interface is not placed; the function shows an error and returns early.
\<close>

theorem double_slot_fails:
  "arr_ready ''r1'' ex_full \<and> length (interfaces_sorted (dev_of ex_full ''r1'')) = length (border 3 3) \<and>
   alerts (run_state (arrange_interfaces_dev2dev ''r1'' False False (run_state (arrange_interfaces_dev2tp ''r1'' False ex_full)))) =
     [''Relocation error for e8@r1'']"
  by (intro conjI) code_simp+

section \<open>The slot table ends\<close>

lemma slot_row_hangs: "0 < r \<Longrightarrow> r < rows - 1 \<Longrightarrow> slot_row rows 1 r 0 = None"
proof (rule ccontr)
  assume r: "0 < r" "r < rows - 1" and "slot_row rows 1 r 0 \<noteq> None"
  then obtain xs where xs: "slot_row rows 1 r 0 = Some xs" by blast
  have "slot_row rows 1 r 0 = map_option ((#) (free_slot (0, r))) (slot_row rows 1 r 0)"
    using r by (subst (1) slot_row_step) simp
  with xs have "xs = free_slot (0, r) # xs" by simp
  then show False by simp
qed

lemma slot_rows_hang: "slot_row rows cols r 0 = None \<Longrightarrow> r \<in> set rs \<Longrightarrow> slot_rows rows cols rs = None"
  by (induction rs) (auto split: option.split)

lemma slot_rows_all: "(\<And>r. r \<in> set rs \<Longrightarrow> slot_row rows cols r 0 \<noteq> None) \<Longrightarrow> slot_rows rows cols rs \<noteq> None"
  by (induction rs) (auto split: option.split)

lemma make_slots_ends: "make_slots rows cols \<noteq> None \<longleftrightarrow> cols \<noteq> 1 \<or> rows \<le> 2"
proof
  assume "make_slots rows cols \<noteq> None"
  then have "slot_row rows cols 1 0 \<noteq> None" if "2 < rows"
    using that slot_rows_hang [of rows cols 1 "[0..<rows]"] unfolding make_slots_def by fastforce
  then show "cols \<noteq> 1 \<or> rows \<le> 2" using slot_row_hangs [of 1 rows] by fastforce
next
  assume c: "cols \<noteq> 1 \<or> rows \<le> 2"
  have "slot_row rows cols r 0 \<noteq> None" for r
  proof (cases "0 < r \<and> r < rows - 1")
    case True
    then have "cols = 0 \<or> 2 \<le> cols" using c by linarith
    then show ?thesis by (auto simp: slot_row_border slot_row_step [of _ 0])
  next
    case False
    then show ?thesis by (simp add: slot_row_full)
  qed
  then show "make_slots rows cols \<noteq> None" unfolding make_slots_def by (rule slot_rows_all)
qed

text \<open>
  C31: the loop that builds the slot table of a device, whose column jumps in the middle rows,
  ends exactly when the grid has another width than one column or no middle row; every grid
  \<open>add_device\<close> makes has two columns or more, so for it the loop ends, with one free slot for
  every cell of the border.
\<close>

theorem slot_table_ends:
  assumes "oget (devs s) d = Some dv" "interfaces dv \<noteq> None"
    and "set (interfaces_sorted dv) \<subseteq> set (okeys (dev_ifs dv))" "distinct (interfaces_sorted dv)"
  shows "(make_slots rows cols \<noteq> None \<longleftrightarrow> cols \<noteq> 1 \<or> rows \<le> 2) \<and>
    (\<exists>s' t slots. add_device text_size d s = Done s' \<and> oget (temp_devs s') d = Some t \<and>
       make_slots (td_rows t) (td_cols t) = Some slots \<and> length slots = 2 * td_cols t + 2 * td_rows t - 4 \<and>
       distinct (map slot_cell slots) \<and> filter s_occupied slots = [])"
proof (rule add_device_places [OF assms, of text_size])
  fix s' and t :: temp_dev and ncy
  assume r: "add_device text_size d s = Done s'" "oget (temp_devs s') d = Some t"
    and n: "2 \<le> td_cols t" "1 \<le> ncy" "ncy + 2 \<le> td_rows t"
  have "map slot_cell (map free_slot (border (td_cols t) (td_rows t))) = border (td_cols t) (td_rows t)"
    by (simp add: comp_def slot_cell_def free_slot_def)
  then have "distinct (map slot_cell (map free_slot (border (td_cols t) (td_rows t))))"
    using distinct_border [OF n(1)] by simp
  moreover have "filter s_occupied (map free_slot (border (td_cols t) (td_rows t))) = []"
    by (simp add: filter_empty_conv free_slot_def)
  moreover have "length (map free_slot (border (td_cols t) (td_rows t))) = 2 * td_cols t + 2 * td_rows t - 4"
    using n length_border [of "td_cols t" "td_rows t"] by simp
  ultimately show ?thesis
    using make_slots_ends r make_slots_border [OF n(1), of "td_rows t"] by blast
qed

lemma slot_table_ends_witness:
  "make_slots 3 1 = None \<and> (\<exists>s' t slots. add_device (\<lambda>_. (50, 16)) ''r1'' ex_page = Done s' \<and>
     oget (temp_devs s') ''r1'' = Some t \<and> make_slots (td_rows t) (td_cols t) = Some slots)"
proof -
  have "oget (devs ex_page) ''r1'' = Some ex_router" "interfaces ex_router \<noteq> None"
    "set (interfaces_sorted ex_router) \<subseteq> set (okeys (dev_ifs ex_router))" "distinct (interfaces_sorted ex_router)"
    by (simp_all add: ex_page_defs)
  note w = slot_table_ends [OF this, of 3 1 "\<lambda>_. (50, 16)"]
  show ?thesis
  proof
    show "make_slots 3 1 = None" using w by simp
    show "\<exists>s' t slots. add_device (\<lambda>_. (50, 16)) ''r1'' ex_page = Done s' \<and>
      oget (temp_devs s') ''r1'' = Some t \<and> make_slots (td_rows t) (td_cols t) = Some slots" using w by blast
  qed
qed

end
