(* ===== verification/Spec2Isabelle.thy ===== *)
theory Spec2Isabelle
  imports IfInfo Queries VLinkWin Windows DevWindow Events Results Highlight FileRuns Entities GraphRuns VDevRuns Vlans OfflineSearch Sync Selection Popup ArrangeRuns IpAddr Tags
begin

text \<open>
  The front end of Mapper, a web page that draws the map of a network, is modelled and
  verified here. Its own code is \<open>src/map-broker/www/mapper.js\<close>, with the helpers of
  \<open>src/map-broker/www/mylib/js/myjslib.js\<close>; a few handlers of the broker in
  \<open>src/map-broker/http-ajax.go\<close> are modelled where the page relies on what they do with what
  it sends.

  \<^bold>\<open>The program.\<close> The page asks the server for the devices, their interfaces, the links
  between them and the stored layout (\<open>get_front\<close>) and keeps them in global variables.
  \<open>data_loaded\<close> draws every device that has a place on the map (\<open>add_device\<close>), lists the others,
  finds the connections to draw (\<open>build_connections\<close>), moves the interfaces along the border of
  their device towards what they are connected to (\<open>arrange_interfaces_dev2tp\<close> and
  \<open>arrange_interfaces_dev2dev\<close>) and draws the lines (\<open>draw_connection\<close>). The user drags devices
  and turnpoints, inserts and removes turnpoints, takes devices off the map, selects devices and
  hovers over things; what changes the layout is sent to the server (\<open>save_map\<close>). Opened from a
  file the page answers its own queries (\<open>offline_query\<close>).

  \<^bold>\<open>Conventions.\<close> The globals of the page are one record, \<open>Model.app\<close>, with the field names of
  the code; JavaScript objects are association lists in their enumeration order (\<open>Prelude\<close>),
  with absent properties and \<open>undefined\<close> both \<open>None\<close>. A function that changes the globals takes
  and returns the record; a body that can return early or throw has the type \<open>app run\<close>, whose
  three outcomes all carry the state, because what was assigned before an exception stays
  assigned. A function that only computes and may throw returns \<open>exn + 'a\<close>. What the code reads
  from the outside is a parameter: \<open>lc\<close> is \<open>localeCompare\<close>, \<open>text_size\<close> the size the browser
  measures for a text, \<open>compile\<close> the matcher of a regular expression typed by the user, and
  \<open>random\<close> the random numbers. Strings are lists of UTF-16 code units below 256; blanks and the
  two cases of a letter are those JavaScript has for these, and text with other letters (the
  Cyrillic of the names a user may type) is outside the model.

  \<^bold>\<open>Theories.\<close>

  \<^item> \<open>Prelude\<close>: objects (with their laws as the locale \<open>js_object\<close>, interpreted on the two
    enumeration orders), outcomes of function bodies, loops, lists.
  \<^item> \<open>JsText\<close>, \<open>JsNumber\<close>: characters, numbers as text, the regular expressions the code uses,
    \<open>kmg\<close>, \<open>GMK\<close> and \<open>toFixed\<close> on quotients rounded to doubles.
  \<^item> \<open>Model\<close>: devices, interfaces, links, turnpoints, connections, the layout, the queries, \<open>app\<close>.
  \<^item> \<open>IfStyle\<close>: \<open>int_style\<close>, \<open>int_metrics\<close>, \<open>int_labels\<close>.
  \<^item> \<open>Layout\<close>, \<open>AddDevice\<close>: \<open>add_device\<close>, that is which interfaces are drawn, the size of the
    grid, the walks along the border and through the inside, the elements. Proved: the two walks
    visit different cells, enough of them, on the border and inside.
  \<^item> \<open>TurnPoints\<close>: the records of the turnpoints of one link and the three operations on them
    (\<open>new_tp\<close>, \<open>remove_tp\<close>, \<open>tp_moved\<close>) as a step relation; the abstract view is a list of
    turnpoints between two interfaces, and every reachable record is one such path.
  \<^item> \<open>Connections\<close>: \<open>build_connections\<close> for layers 2 and 3.
  \<^item> \<open>Arrange\<close>, \<open>ArrangeRuns\<close>: the two arranging functions and the recursion to neighbours;
    safety (no two interfaces in one slot), the run to the end when the border has enough slots,
    the case in which it fails, and when the loop building the slots ends.
  \<^item> \<open>Draw\<close>: lines, buttons and turnpoint marks of a connection.
  \<^item> \<open>MapOps\<close>: \<open>data_loaded\<close>, the device list, dragging, removing, the turnpoint handlers,
    \<open>save_map\<close>.
  \<^item> \<open>Views\<close>: a locale for functions of the state that do not see what drawing writes, with the
    lemmas that no drawing function changes them; interpreted on the stored layout (\<open>Sync\<close>) and
    on the links (\<open>VLinkSync\<close>).
  \<^item> \<open>Sync\<close>: what the broker does with the save queries, and the refinement between the page and
    the stored layout: every operation sends queries that bring the stored layout to the one on
    the page, except a drag of several devices whose redrawing fails, which sends nothing.
  \<^item> \<open>Selection\<close>: clicks, and the search for the devices behind an interface.
  \<^item> \<open>Popup\<close>: the labels and highlights shown while hovering, and what is left of them after: a line
    an interface lists more than once stays wider.
  \<^item> \<open>Sorting\<close>: \<open>num_compare\<close>, the sorts by key and \<open>ip_link_id\<close>; the locale \<open>comparator\<close> holds
    the laws of a consistent comparison function and what follows for sorting.
  \<^item> \<open>IpAddr\<close>, \<open>TextFns\<close>, \<open>Tags\<close>: addresses and masks, escaping, MAC formats, VLAN ranges, times,
    the tag tree.
  \<^item> \<open>Offline\<close>, \<open>OfflineSearch\<close>: the answers of the page to its own queries, as selections of
    the rows of the file.
  \<^item> \<open>VLinks\<close>, \<open>VLinkSync\<close>: virtual links and devices on the page and in the store of the broker;
    the page shows exactly the kept links with both interfaces, after every operation, and the
    interfaces refer only to links of the table that end at them.
  \<^item> \<open>VDevForm\<close>, \<open>VDevRuns\<close>: the form of a virtual device, whose names stay well-formed and different
    and are saved as they stand, and the window of the virtual devices, which follows them.
  \<^item> \<open>VLinkWin\<close>: the window for virtual links, whose contents follow the selection.
  \<^item> \<open>IfInfo\<close>: the box shown over an interface, and which texts of others reach its HTML.
  \<^item> \<open>Queries\<close>: the answers of the server, the questions before an action, the delay of the fields that
    search while one types, and the settings the browser keeps apart for every user.
  \<^item> \<open>Windows\<close>: the windows by their ids, the texts beside an address, and the choice of the location,
    whose head always shows what is chosen and which the page then opens with.
  \<^item> \<open>Events\<close>: the rows of the log of a device, which end at the first bad entry, and the list of all
    layouts.
  \<^item> \<open>Reports\<close>: the MAC report, the inventory and the summary as rows, with what they list.
  \<^item> \<open>Files\<close>, \<open>FileRuns\<close>: the address of the page, the window of the layouts and the server's entries and
    links; the list on the page stays the server's one in every run, also while others work, and a
    copied link opens what it was made for.
  \<^item> \<open>Results\<close>: the window of a search, which shows every hit of an answer once, and with the search
    of the offline file exactly what matches, an absent text counting as the word undefined. \<open>Highlight\<close>: the bars that show where a hit is.
  \<^item> \<open>Entities\<close>: the tree of the hardware of a device, which shows every entity once.
  \<^item> \<open>IfWindow\<close>: the window of an interface; its tables, offline those of the file, the section of the
    configuration, the state of its parts over clicks and reloads, and what stops it.
  \<^item> \<open>TopTalkers\<close>: the table of the busiest flows, which rows make records, and its sorting.
    \<open>DevWindow\<close>: the window of a device, whose parts all stand or fall together.
  \<^item> \<open>Vlans\<close>: the table of the VLAN window, which is exactly the relation between VLANs and the
    interfaces that carry them.
  \<^item> \<open>Graphs\<close>, \<open>GraphRuns\<close>: the ranges of the graphs, the controls that change them and the groups
    of graphs that change together, in windows that are opened, reloaded and closed; an invariant of
    the groups, with the size as its weak part (a reload keeps the size of one graph only), bounds of
    the ranges, buttons that undo each other, the timer of the wheel.

  \<^bold>\<open>Bounds and loops.\<close> \<open>select_down\<close> calls itself along links and carries the depth counter of
  the code, which stops beyond 64; it terminates by that counter, and the theorem on
  \<open>interface_click\<close> shows that the counter cuts nothing off on a map of up to 65 devices.
  \<open>get_tag_path\<close> has the depth guard of the code, 101
  levels, and the theorems say what happens below and beyond it. The column of the slot table
  jumps, so \<open>slot_row\<close> is a partial function; it is proved when it ends. Everything else
  recurses on its data. Sizes and positions are integers, addresses are naturals below 2^32 with
  the bit operations on 32 bit words, and numbers that JavaScript rounds to doubles are rounded
  in the model where the code depends on it (\<open>num_compare\<close>, \<open>kmg\<close>, the rates of the flows).

  \<^bold>\<open>Not modelled.\<close> The menus and the colour picker: they build HTML with jQuery and send queries whose
  effect is in the server. The animation frames, the styles and the coordinates the browser
  computes are left out or parameters. The scanner, the broker and their data processing are
  written in Go and appear only as the data of \<open>get_front\<close> and as the store of the layout. The
  libraries under \<open>www/lib\<close> are third-party code, and \<open>mapper_dev.js\<close> is a copy of \<open>mapper.js\<close>.
\<close>

end
